(* ===== verification/Prelude.thy ===== *)
theory Prelude
  imports Main "HOL-Library.Word"
begin

unbundle bit_operations_syntax

text \<open>
  What every component of the development shares: the machine integers of the C code, the
  faults a C program can run into (used as the left summand of a result), the outcomes of the
  allocator, heap blocks, mutexes and C strings, with the lemmas that let \<open>simp\<close> and \<open>auto\<close>
  carry the component proofs.

  Conventions of the whole development.
  \<^item> A pointer argument that the code tests against \<open>NULL\<close> is an \<open>option\<close>; \<open>None\<close> is \<open>NULL\<close>.
    An out-parameter is part of the result, so it is never \<open>NULL\<close>.
  \<^item> Allocation can fail at every \<open>malloc\<close>, \<open>calloc\<close>, \<open>realloc\<close> and \<open>strdup\<close>: the outcomes of
    the allocations to come are a list of booleans that each allocation consumes. A theorem
    that quantifies over that list speaks about every pattern of allocation failures.
  \<^item> \<open>size_t\<close> values are \<open>nat\<close> where the code only measures memory it holds; where a cast to
    a narrower type is part of the behaviour the cast is written out.
\<close>

section \<open>Machine integers\<close>

type_synonym uint8 = "8 word"
type_synonym uint32 = "32 word"
type_synonym int32 = "32 word"
type_synonym uint64 = "64 word"

text \<open>The C conversion of a \<open>size_t\<close> to the 32-bit \<open>int\<close> in which the code returns lengths.\<close>

definition int_of_size :: "nat \<Rightarrow> int" where
  "int_of_size n = sint (word_of_nat n :: int32)"

text \<open>The C conversion of a \<open>size_t\<close> to \<open>uint32_t\<close>.\<close>

definition uint32_of_size :: "nat \<Rightarrow> uint32" where
  "uint32_of_size n = word_of_nat n"

section \<open>Faults\<close>

text \<open>
  What a run of the C code can do besides returning: dereference \<open>NULL\<close>, touch a freed
  object, free one twice, access memory outside a block, or lock a mutex its own thread
  already holds (the mutexes are default, non-recursive ones).
\<close>

datatype fault = Null_Deref | Use_After_Free | Double_Free | Out_Of_Bounds | Deadlock

type_synonym 'a exec = "fault + 'a"

definition exec_bind :: "'a exec \<Rightarrow> ('a \<Rightarrow> 'b exec) \<Rightarrow> 'b exec" where
  "exec_bind m f = (case m of Inl e \<Rightarrow> Inl e | Inr x \<Rightarrow> f x)"

section \<open>The allocator\<close>

type_synonym alloc = "bool list"

fun alloc_next :: "alloc \<Rightarrow> bool \<times> alloc" where
  "alloc_next [] = (True, [])"
| "alloc_next (b # os) = (b, os)"

definition alloc_ok :: "alloc \<Rightarrow> bool" where
  "alloc_ok os = list_all id os"

section \<open>Heap blocks\<close>

text \<open>
  An array on the heap: a \<open>NULL\<close> pointer, a pointer to a freed block, or a live block whose
  slots are \<open>None\<close> until they are written.
\<close>

datatype 'a block = Null_Block | Freed_Block | Live_Block "'a option list"

fun block_slots :: "'a block \<Rightarrow> 'a option list" where
  "block_slots (Live_Block xs) = xs"
| "block_slots _ = []"

definition block_calloc :: "nat \<Rightarrow> 'a block" where
  "block_calloc n = Live_Block (replicate n None)"

fun block_realloc :: "'a block \<Rightarrow> nat \<Rightarrow> 'a block exec" where
  "block_realloc Freed_Block n = Inl Use_After_Free"
| "block_realloc Null_Block n = Inr (block_calloc n)"
| "block_realloc (Live_Block xs) n = Inr (Live_Block (take n xs @ replicate (n - length xs) None))"

fun block_store :: "'a block \<Rightarrow> nat \<Rightarrow> 'a \<Rightarrow> 'a block exec" where
  "block_store Null_Block i v = Inl Null_Deref"
| "block_store Freed_Block i v = Inl Use_After_Free"
| "block_store (Live_Block xs) i v =
     (if i < length xs then Inr (Live_Block (xs[i := Some v])) else Inl Out_Of_Bounds)"

section \<open>Mutexes\<close>

text \<open>
  A mutex is \<open>True\<close> while the running thread holds it. Another thread that holds it only
  delays a lock operation; a thread that already holds it never gets past its second lock.
\<close>

type_synonym mutex = bool

definition mutex_lock :: "mutex \<Rightarrow> mutex exec" where
  "mutex_lock m = (if m then Inl Deadlock else Inr True)"

definition mutex_unlock :: "mutex \<Rightarrow> mutex" where
  "mutex_unlock m = False"

section \<open>C strings held as bytes\<close>

text \<open>
  A \<open>char *\<close> into a block that holds the bytes \<open>bs\<close> and a terminating zero: the string the
  C library sees ends at the first zero.
\<close>

definition c_string :: "uint8 list \<Rightarrow> uint8 list" where
  "c_string bs = takeWhile (\<lambda>b. b \<noteq> 0) bs"

definition strlen :: "uint8 list \<Rightarrow> nat" where
  "strlen bs = length (c_string bs)"

section \<open>Shared lemmas\<close>

named_theorems exec_simps "evaluation of the fault monad, the allocator and the mutexes"

lemma exec_bind_Inr [simp, exec_simps]: "exec_bind (Inr x) f = f x"
  by (simp add: exec_bind_def)

lemma exec_bind_Inl [simp, exec_simps]: "exec_bind (Inl e) f = Inl e"
  by (simp add: exec_bind_def)

lemma exec_bind_eq_Inr:
  "exec_bind m f = Inr y \<longleftrightarrow> (\<exists>x. m = Inr x \<and> f x = Inr y)"
  by (cases m) auto

lemma exec_bind_eq_Inl:
  "exec_bind m f = Inl e \<longleftrightarrow> m = Inl e \<or> (\<exists>x. m = Inr x \<and> f x = Inl e)"
  by (cases m) auto

lemma exec_bind_assoc: "exec_bind (exec_bind m f) g = exec_bind m (\<lambda>x. exec_bind (f x) g)"
  by (cases m) auto

lemma mutex_lock_False [simp, exec_simps]: "mutex_lock False = Inr True"
  by (simp add: mutex_lock_def)

lemma mutex_lock_True [simp, exec_simps]: "mutex_lock True = Inl Deadlock"
  by (simp add: mutex_lock_def)

lemma mutex_unlock_eq [simp, exec_simps]: "mutex_unlock m = False"
  by (simp add: mutex_unlock_def)

lemma alloc_ok_Nil [simp]: "alloc_ok []"
  by (simp add: alloc_ok_def)

lemma alloc_ok_Cons [simp]: "alloc_ok (b # os) \<longleftrightarrow> b \<and> alloc_ok os"
  by (simp add: alloc_ok_def)

lemma alloc_next_ok: "alloc_ok os \<Longrightarrow> \<exists>os'. alloc_next os = (True, os') \<and> alloc_ok os'"
  by (cases os) auto

lemma alloc_next_okE:
  assumes "alloc_ok os"
  obtains os' where "alloc_next os = (True, os')" and "alloc_ok os'"
  using assms alloc_next_ok by blast

lemma int_of_size_small [simp]: "n < 2 ^ 31 \<Longrightarrow> int_of_size n = int n"
  by (simp add: int_of_size_def signed_of_nat signed_take_bit_int_eq_self)

lemma unat_uint32_of_size [simp]: "n < 2 ^ 32 \<Longrightarrow> unat (uint32_of_size n) = n"
  by (simp add: uint32_of_size_def unat_of_nat)

lemma c_string_Nil [simp]: "c_string [] = []"
  by (simp add: c_string_def)

lemma c_string_Cons [simp]: "c_string (b # bs) = (if b = 0 then [] else b # c_string bs)"
  by (simp add: c_string_def)

lemma c_string_nul_free: "0 \<notin> set bs \<Longrightarrow> c_string bs = bs"
  by (induction bs) auto

lemma nul_notin_c_string [simp]: "0 \<notin> set (c_string bs)"
  by (induction bs) auto

lemma c_string_idem [simp]: "c_string (c_string bs) = c_string bs"
  by (simp add: c_string_nul_free)

lemma strlen_le: "strlen bs \<le> length bs"
  by (simp add: strlen_def c_string_def length_takeWhile_le)

lemma strlen_c_string [simp]: "strlen (c_string bs) = strlen bs"
  by (simp add: strlen_def)

lemma length_c_string [simp]: "length (c_string bs) = strlen bs"
  by (simp add: strlen_def)

lemma block_store_ok [simp]:
  "i < length (block_slots b) \<Longrightarrow> block_store b i v = Inr (Live_Block ((block_slots b)[i := Some v]))"
  by (cases b) auto

lemma take_update_snoc:
  "i < length xs \<Longrightarrow> take (Suc i) (xs[i := v]) = take i xs @ [v]"
  by (simp add: take_Suc_conv_app_nth)

section \<open>Changing the first match\<close>

text \<open>The loop that walks a list and changes the first element that satisfies a predicate;
  \<open>None\<close> when there is none.\<close>

fun update_first :: "('a \<Rightarrow> bool) \<Rightarrow> ('a \<Rightarrow> 'a) \<Rightarrow> 'a list \<Rightarrow> 'a list option" where
  "update_first P f [] = None"
| "update_first P f (x # xs) = (if P x then Some (f x # xs) else map_option (\<lambda>ys. x # ys) (update_first P f xs))"

lemma update_first_None_iff: "update_first P f xs = None \<longleftrightarrow> find P xs = None"
  by (induction xs) auto

lemma update_first_length: "update_first P f xs = Some ys \<Longrightarrow> length ys = length xs"
  by (induction xs arbitrary: ys) (auto split: if_splits)

lemma update_first_set: "update_first P f xs = Some ys \<Longrightarrow> set ys \<subseteq> set xs \<union> f ` set xs"
  by (induction xs arbitrary: ys) (auto split: if_splits)

text \<open>What a lookup by key sees afterwards.\<close>

lemma find_update_first_key:
  assumes "\<And>x. k (f x) = k x"
  shows "update_first (\<lambda>x. k x = a) f xs = Some ys \<Longrightarrow> find (\<lambda>x. k x = b) ys =
    (if b = a then map_option f (find (\<lambda>x. k x = a) xs) else find (\<lambda>x. k x = b) xs)"
  by (induction xs arbitrary: ys) (auto simp: assms split: if_splits)

section \<open>Reading words as naturals\<close>

lemma unat_and_mask: "unat (w AND mask n :: 'a::len word) = unat w mod 2 ^ n"
  unfolding take_bit_eq_mask [symmetric] unsigned_take_bit_eq by (rule take_bit_eq_mod)

lemma unat_drop_bit: "unat (drop_bit n w :: 'a::len word) = unat w div 2 ^ n"
  unfolding unat_drop_bit_eq by (rule drop_bit_eq_div)

lemma unat_two_power: "n < LENGTH('a) \<Longrightarrow> unat (2 ^ n :: 'a::len word) = 2 ^ n"
proof -
  assume n: "n < LENGTH('a)"
  have "(2 ^ n :: 'a word) = word_of_nat (2 ^ n)"
    by simp
  moreover have "unat (word_of_nat (2 ^ n) :: 'a word) = 2 ^ n"
    using n by (simp only: unat_of_nat) simp
  ultimately show ?thesis by simp
qed

lemma unat_ucast: "unat (ucast (w :: 'a::len word) :: 'b::len word) = unat w mod 2 ^ LENGTH('b)"
  unfolding unsigned_ucast_eq by (rule take_bit_eq_mod)

lemma mask_7_uint8: "(0x7F :: uint8) = mask 7"
  by (simp add: mask_eq_exp_minus_1)

lemma mask_7_uint32: "(0x7F :: uint32) = mask 7"
  by (simp add: mask_eq_exp_minus_1)

lemma mask_8_uint32: "(0xFF :: uint32) = mask 8"
  by (simp add: mask_eq_exp_minus_1)

lemma unat_and_7F_uint8 [simp]: "unat (b AND 0x7F :: uint8) = unat b mod 128"
  unfolding mask_7_uint8 unat_and_mask by simp

lemma unat_and_7F_uint32 [simp]: "unat (b AND 0x7F :: uint32) = unat b mod 128"
  unfolding mask_7_uint32 unat_and_mask by simp

lemma unat_and_FF_uint32 [simp]: "unat (b AND 0xFF :: uint32) = unat b mod 256"
  unfolding mask_8_uint32 unat_and_mask by simp

lemma unat_uint8_less: "unat (b :: uint8) < 256"
  using unsigned_less [of b, where 'a = nat] by simp

lemma unat_uint32_less: "unat (w :: uint32) < 2 ^ 32"
  using unsigned_less [of w, where 'a = nat] by simp

lemma and_80_eq_0_iff: "(b AND 0x80 = 0) \<longleftrightarrow> unat (b :: uint8) < 128"
proof -
  have "(b AND 0x80 = 0) \<longleftrightarrow> (b AND 2 ^ 7 = 0)" by simp
  also have "\<dots> \<longleftrightarrow> \<not> bit b 7" by (rule and_exp_eq_0_iff_not_bit)
  also have "\<dots> \<longleftrightarrow> \<not> bit (unat b) 7" by (simp add: bit_unsigned_iff)
  also have "\<dots> \<longleftrightarrow> even (unat b div 2 ^ 7)" by (simp add: bit_iff_odd [of "unat b"])
  also have "\<dots> \<longleftrightarrow> unat b < 128"
  proof -
    have "unat b div 2 ^ 7 < 2" using unat_uint8_less [of b] by simp
    then show ?thesis by (auto simp: less_2_cases_iff)
  qed
  finally show ?thesis .
qed

lemma eq_word_of_natI: "unat w = n \<Longrightarrow> w = word_of_nat n"
  by auto

lemma ucast_eq_of_nat: "ucast (v :: uint32) = (word_of_nat (unat v) :: uint8)"
  by (rule word_unat_eq_iff [THEN iffD2]) (simp add: unat_ucast unat_of_nat)

text \<open>The continuation byte of an HPACK integer: seven bits of payload, the top bit set.\<close>

lemma unat_cont_byte: "unat (ucast ((v AND 0x7F) OR 0x80 :: uint32) :: uint8) = unat v mod 128 + 128"
proof -
  have d: "(v AND 0x7F) AND 0x80 = 0" by (simp add: and.assoc)
  have "(v AND 0x7F) OR 0x80 = (v AND 0x7F) + 0x80"
    using disjunctive_add_eq_or [OF d] by simp
  then have "unat ((v AND 0x7F) OR 0x80) = unat v mod 128 + 128"
    by (simp add: unat_word_ariths)
  then show ?thesis by (simp add: unat_ucast)
qed

end
