(* ===== verification/Arrays.thy ===== *)
theory Arrays
  imports Prelude
begin

text \<open>
  Arrays that grow by \<open>realloc\<close>: the interface of such an array as a locale, and the array of
  a count, a capacity and a heap block that the connection (its streams), the server (its ports
  and completion queues) and the trace spans (their tags) keep as three C fields each.
\<close>

section \<open>The interface of a growable array\<close>

text \<open>
  What the clients of a growable array rely on: \<open>grow\<close> and \<open>put\<close> keep the invariant, growing
  keeps the contents and makes room, and a put appends. Every append loop of the code
  (the metadata array, the HPACK decoder, the streams of a connection, the ports of a server) is an instance.
\<close>

locale growable =
  fixes grow :: "'s \<Rightarrow> nat \<Rightarrow> alloc \<Rightarrow> (bool \<times> 's \<times> alloc) exec"
    and put :: "'s \<Rightarrow> 'e \<Rightarrow> 's exec"
    and contents :: "'s \<Rightarrow> 'e list"
    and inv :: "'s \<Rightarrow> bool"
    and room :: "'s \<Rightarrow> bool"
    and capacity :: "'s \<Rightarrow> nat"
  assumes grow_ok: "inv s \<Longrightarrow> capacity s < n \<Longrightarrow>
      (\<exists>os'. grow s n os = Inr (False, s, os') \<and> \<not> alloc_ok os) \<or>
      (\<exists>s' os'. grow s n os = Inr (True, s', os') \<and> inv s' \<and> contents s' = contents s \<and> room s' \<and>
         (alloc_ok os \<longrightarrow> alloc_ok os'))"
    and put_ok: "inv s \<Longrightarrow> room s \<Longrightarrow>
      \<exists>s'. put s e = Inr s' \<and> inv s' \<and> contents s' = contents s @ [e]"
begin

text \<open>Growing and putting an element either fails with the state unchanged or appends.\<close>

lemma grow_put:
  assumes "inv s" and "capacity s < n"
  shows "(\<exists>os'. grow s n os = Inr (False, s, os') \<and> \<not> alloc_ok os) \<or>
    (\<exists>s1 os1 s2. grow s n os = Inr (True, s1, os1) \<and> inv s1 \<and> contents s1 = contents s \<and>
       put s1 e = Inr s2 \<and> inv s2 \<and> contents s2 = contents s @ [e] \<and> (alloc_ok os \<longrightarrow> alloc_ok os1))"
proof -
  from grow_ok [OF assms, of os] show ?thesis
  proof
    assume "\<exists>s' os'. grow s n os = Inr (True, s', os') \<and> inv s' \<and> contents s' = contents s \<and>
      room s' \<and> (alloc_ok os \<longrightarrow> alloc_ok os')"
    then obtain s1 os1 where g: "grow s n os = Inr (True, s1, os1)" "inv s1"
      "contents s1 = contents s" "room s1" "alloc_ok os \<longrightarrow> alloc_ok os1"
      by blast
    from put_ok [OF g(2,4), of e] obtain s2 where "put s1 e = Inr s2" "inv s2"
      "contents s2 = contents s @ [e]"
      using g(3) by auto
    with g show ?thesis by blast
  qed blast
qed

end

section \<open>Count, capacity and block\<close>

record 'a arr =
  arr_block :: "'a block"
  arr_count :: nat
  arr_capacity :: nat

definition arr_calloc :: "nat \<Rightarrow> 'a arr" where
  "arr_calloc n = \<lparr>arr_block = block_calloc n, arr_count = 0, arr_capacity = n\<rparr>"

text \<open>
  \<open>realloc\<close> to \<open>new_capacity\<close> slots when the array is full; a failed \<open>realloc\<close> leaves it as it
  was and is reported by \<open>False\<close>.
\<close>

definition arr_grow :: "'a arr \<Rightarrow> nat \<Rightarrow> alloc \<Rightarrow> (bool \<times> 'a arr \<times> alloc) exec" where
  "arr_grow a new_capacity os =
     (if arr_count a \<ge> arr_capacity a
      then exec_bind (block_realloc (arr_block a) new_capacity) (\<lambda>blk.
             let (ok, os1) = alloc_next os
             in if \<not> ok then Inr (False, a, os1)
                else Inr (True, a\<lparr>arr_block := blk, arr_capacity := new_capacity\<rparr>, os1))
      else Inr (True, a, os))"

definition arr_put :: "'a arr \<Rightarrow> 'a \<Rightarrow> 'a arr exec" where
  "arr_put a e =
     exec_bind (block_store (arr_block a) (arr_count a) e) (\<lambda>blk.
       Inr (a\<lparr>arr_block := blk, arr_count := arr_count a + 1\<rparr>))"

text \<open>Reading a slot; \<open>None\<close> is a slot never written.\<close>

fun block_load :: "'a block \<Rightarrow> nat \<Rightarrow> 'a option exec" where
  "block_load Null_Block i = Inl Null_Deref"
| "block_load Freed_Block i = Inl Use_After_Free"
| "block_load (Live_Block xs) i = (if i < length xs then Inr (xs ! i) else Inl Out_Of_Bounds)"

fun block_free :: "'a block \<Rightarrow> unit exec" where
  "block_free Freed_Block = Inl Double_Free"
| "block_free _ = Inr ()"

text \<open>The loop \<open>for (i = 0; i < count; i++) if (P (a[i])) break;\<close> from index \<open>i\<close> with \<open>n\<close>
  indices to go.\<close>

fun find_slot :: "'a block \<Rightarrow> ('a option \<Rightarrow> bool exec) \<Rightarrow> nat \<Rightarrow> nat \<Rightarrow> nat option exec" where
  "find_slot b P i 0 = Inr None"
| "find_slot b P i (Suc n) =
     exec_bind (block_load b i) (\<lambda>x. exec_bind (P x) (\<lambda>hit.
       if hit then Inr (Some i) else find_slot b P (i + 1) n))"

text \<open>Removal by moving the last element into slot \<open>i\<close>.\<close>

definition arr_swap_remove :: "'a arr \<Rightarrow> nat \<Rightarrow> 'a arr exec" where
  "arr_swap_remove a i =
     exec_bind (block_load (arr_block a) (arr_count a - 1)) (\<lambda>x.
       (case arr_block a of
          Live_Block xs \<Rightarrow>
            (if i < length xs
             then Inr (a\<lparr>arr_block := Live_Block (xs[i := x]), arr_count := arr_count a - 1\<rparr>)
             else Inl Out_Of_Bounds)
        | Null_Block \<Rightarrow> Inl Null_Deref
        | Freed_Block \<Rightarrow> Inl Use_After_Free))"

definition arr_list :: "'a arr \<Rightarrow> 'a list" where
  "arr_list a = map the (take (arr_count a) (block_slots (arr_block a)))"

definition arr_wf :: "'a arr \<Rightarrow> bool" where
  "arr_wf a \<longleftrightarrow>
     (arr_block a = Null_Block \<and> arr_count a = 0 \<and> arr_capacity a = 0) \<or>
     (\<exists>slots. arr_block a = Live_Block slots \<and> length slots = arr_capacity a \<and>
        arr_count a \<le> arr_capacity a \<and> None \<notin> set (take (arr_count a) slots))"

lemma length_arr_list: "arr_wf a \<Longrightarrow> length (arr_list a) = arr_count a"
  by (auto simp: arr_wf_def arr_list_def)

lemma arr_capacity_pos: "arr_wf a \<Longrightarrow> arr_list a \<noteq> [] \<Longrightarrow> 0 < arr_capacity a"
  using length_arr_list [of a] by (cases "arr_list a") (auto simp: arr_wf_def)

lemma arr_wf_calloc [simp]: "arr_wf (arr_calloc n)"
  by (auto simp: arr_wf_def arr_calloc_def block_calloc_def)

lemma arr_list_calloc [simp]: "arr_list (arr_calloc n) = []"
  by (simp add: arr_list_def arr_calloc_def)

lemma map_the_take: "None \<notin> set xs \<Longrightarrow> map Some (map the xs) = xs"
proof (induction xs)
  case Nil
  then show ?case by simp
next
  case (Cons x xs)
  then show ?case by (cases x) simp_all
qed

text \<open>A well-formed array with elements has its list in the first slots of a live block.\<close>

lemma arr_wf_slots:
  assumes "arr_wf a"
  obtains "arr_block a = Null_Block" "arr_list a = []" "arr_count a = 0" "arr_capacity a = 0"
  | slots where "arr_block a = Live_Block slots" "length slots = arr_capacity a"
      "take (arr_count a) slots = map Some (arr_list a)" "arr_count a = length (arr_list a)"
      "length (arr_list a) \<le> length slots"
proof -
  from assms consider "arr_block a = Null_Block" "arr_count a = 0" "arr_capacity a = 0"
    | slots where "arr_block a = Live_Block slots" "length slots = arr_capacity a"
      "arr_count a \<le> arr_capacity a" "None \<notin> set (take (arr_count a) slots)"
    by (auto simp: arr_wf_def)
  then show ?thesis
  proof cases
    case 1
    then show ?thesis using that(1) by (simp add: arr_list_def)
  next
    case 2
    have l: "map Some (arr_list a) = take (arr_count a) slots"
      unfolding arr_list_def using map_the_take [OF 2(4)] 2(1) by (simp only: block_slots.simps)
    then have "length (arr_list a) = min (length slots) (arr_count a)"
      by (metis length_map length_take)
    with 2 l show ?thesis by (intro that(2) [of slots]) simp_all
  qed
qed

lemma arr_wfI:
  "arr_block a = Live_Block slots \<Longrightarrow> length slots = arr_capacity a \<Longrightarrow> arr_count a = length xs \<Longrightarrow>
   take (length xs) slots = map Some xs \<Longrightarrow> arr_wf a \<and> arr_list a = xs"
proof -
  assume a: "arr_block a = Live_Block slots" "length slots = arr_capacity a"
    "arr_count a = length xs" "take (length xs) slots = map Some xs"
  have "length (take (length xs) slots) = length xs" using a(4) by (simp del: length_take)
  then have "length xs \<le> length slots" by (simp add: min_def split: if_splits)
  with a show ?thesis by (auto simp: arr_wf_def arr_list_def comp_def)
qed

lemma arr_grow_ok:
  assumes "arr_wf a" and "arr_capacity a < n"
  shows "(\<exists>os'. arr_grow a n os = Inr (False, a, os') \<and> \<not> alloc_ok os) \<or>
    (\<exists>a' os'. arr_grow a n os = Inr (True, a', os') \<and> arr_wf a' \<and> arr_list a' = arr_list a \<and>
       arr_count a' < arr_capacity a' \<and> (alloc_ok os \<longrightarrow> alloc_ok os'))"
proof (cases "arr_count a \<ge> arr_capacity a")
  case False
  with assms(1) show ?thesis by (auto simp: arr_grow_def)
next
  case True
  obtain ok os1 where o: "alloc_next os = (ok, os1)" by force
  have ok: "alloc_ok os \<longrightarrow> ok \<and> alloc_ok os1" using o by (cases os) auto
  from assms(1) obtain blk where blk: "block_realloc (arr_block a) n = Inr blk"
    "arr_wf (a\<lparr>arr_block := blk, arr_capacity := n\<rparr>)"
    "arr_list (a\<lparr>arr_block := blk, arr_capacity := n\<rparr>) = arr_list a" "arr_count a < n"
  proof (cases rule: arr_wf_slots)
    case 1
    then show ?thesis using that [of "block_calloc n"] assms(2)
      by (auto simp: arr_wf_def arr_list_def block_calloc_def)
  next
    case (2 slots)
    let ?b = "Live_Block (slots @ replicate (n - length slots) None)"
    have "arr_wf (a\<lparr>arr_block := ?b, arr_capacity := n\<rparr>) \<and>
        arr_list (a\<lparr>arr_block := ?b, arr_capacity := n\<rparr>) = arr_list a"
      by (rule arr_wfI [where slots = "slots @ replicate (n - length slots) None"])
        (use 2 assms(2) in simp_all)
    then show ?thesis using that [of ?b] 2 assms(2) by auto
  qed
  with True o ok show ?thesis by (cases ok) (auto simp: arr_grow_def)
qed

lemma arr_put_ok:
  assumes "arr_wf a" and "arr_count a < arr_capacity a"
  shows "\<exists>a'. arr_put a e = Inr a' \<and> arr_wf a' \<and> arr_list a' = arr_list a @ [e]"
  using assms(1)
proof (cases rule: arr_wf_slots)
  case 1
  with assms(2) show ?thesis by simp
next
  case (2 slots)
  let ?a = "a\<lparr>arr_block := Live_Block (slots[arr_count a := Some e]), arr_count := arr_count a + 1\<rparr>"
  have "arr_wf ?a \<and> arr_list ?a = arr_list a @ [e]"
    by (rule arr_wfI [where slots = "slots[arr_count a := Some e]"])
      (use 2 assms(2) in \<open>auto simp: take_update_snoc\<close>)
  moreover have "arr_put a e = Inr ?a" using 2 assms(2) by (simp add: arr_put_def)
  ultimately show ?thesis by blast
qed

interpretation arr: growable arr_grow arr_put arr_list arr_wf
    "\<lambda>a. arr_count a < arr_capacity a" arr_capacity
proof unfold_locales
  fix s :: "'a arr" and n os
  assume "arr_wf s" and "arr_capacity s < n"
  then show "(\<exists>os'. arr_grow s n os = Inr (False, s, os') \<and> \<not> alloc_ok os) \<or>
      (\<exists>s' os'. arr_grow s n os = Inr (True, s', os') \<and> arr_wf s' \<and> arr_list s' = arr_list s \<and>
         arr_count s' < arr_capacity s' \<and> (alloc_ok os \<longrightarrow> alloc_ok os'))"
    by (rule arr_grow_ok)
next
  fix s :: "'a arr" and e
  assume "arr_wf s" and "arr_count s < arr_capacity s"
  then show "\<exists>s'. arr_put s e = Inr s' \<and> arr_wf s' \<and> arr_list s' = arr_list s @ [e]"
    by (rule arr_put_ok)
qed

section \<open>Searching and removing\<close>

text \<open>The load of one of the first slots of a well-formed array.\<close>

lemma block_load_list:
  assumes "arr_wf a" and "i < length (arr_list a)"
  shows "block_load (arr_block a) i = Inr (Some (arr_list a ! i))"
  using assms(1)
proof (cases rule: arr_wf_slots)
  case 1
  with assms(2) show ?thesis by simp
next
  case (2 slots)
  have "slots ! i = take (arr_count a) slots ! i" using 2(4) assms(2) by simp
  also have "\<dots> = Some (arr_list a ! i)" unfolding 2(3) using assms(2) by simp
  finally have "slots ! i = Some (arr_list a ! i)" .
  then show ?thesis using 2(1,5) assms(2) by simp
qed

lemma find_slot_hit:
  assumes "arr_wf a" and "\<And>x. x \<in> set (arr_list a) \<Longrightarrow> P (Some x) = Inr (Q x)"
    and "i \<le> j" and "j < length (arr_list a)" and "Q (arr_list a ! j)"
    and "\<And>k. i \<le> k \<Longrightarrow> k < j \<Longrightarrow> \<not> Q (arr_list a ! k)"
  shows "find_slot (arr_block a) P i (length (arr_list a) - i) = Inr (Some j)"
  using assms(3,6)
proof (induction "j - i" arbitrary: i)
  case 0
  then have "i = j" by simp
  moreover have "length (arr_list a) - j = Suc (length (arr_list a) - Suc j)"
    using assms(4) by simp
  ultimately show ?case
    using assms(2) [OF nth_mem [OF assms(4)]] assms(4,5) block_load_list [OF assms(1,4)] by simp
next
  case (Suc d)
  then have i: "i < j" "i < length (arr_list a)" using assms(4) by simp_all
  then have "length (arr_list a) - i = Suc (length (arr_list a) - Suc i)" by simp
  moreover have "find_slot (arr_block a) P (Suc i) (length (arr_list a) - Suc i) = Inr (Some j)"
    using Suc i by simp
  moreover have "\<not> Q (arr_list a ! i)" using Suc.prems i by simp
  ultimately show ?case
    using assms(2) [OF nth_mem [OF i(2)]] block_load_list [OF assms(1) i(2)] by simp
qed

lemma find_slot_miss:
  assumes "arr_wf a" and "\<And>x. x \<in> set (arr_list a) \<Longrightarrow> P (Some x) = Inr (Q x)"
    and "\<And>x. x \<in> set (arr_list a) \<Longrightarrow> \<not> Q x"
  shows "i \<le> length (arr_list a) \<Longrightarrow> find_slot (arr_block a) P i (length (arr_list a) - i) = Inr None"
proof (induction "length (arr_list a) - i" arbitrary: i)
  case 0
  then show ?case by simp
next
  case (Suc d)
  then have i: "i < length (arr_list a)" by simp
  then have "length (arr_list a) - i = Suc (length (arr_list a) - Suc i)" by simp
  moreover have "find_slot (arr_block a) P (Suc i) (length (arr_list a) - Suc i) = Inr None"
    using Suc i by simp
  ultimately show ?case
    using assms(2) [OF nth_mem [OF i]] assms(3) [OF nth_mem [OF i]] block_load_list [OF assms(1) i]
    by simp
qed

text \<open>What removal by the last element makes of the list.\<close>

definition swap_remove :: "nat \<Rightarrow> 'a list \<Rightarrow> 'a list" where
  "swap_remove i xs = butlast (xs[i := last xs])"

lemma set_swap_remove:
  assumes "distinct xs" and "i < length xs"
  shows "set (swap_remove i xs) = set xs - {xs ! i} \<and> distinct (swap_remove i xs)"
proof -
  from assms(2) obtain ys y where xs: "xs = ys @ [y]" by (cases xs rule: rev_cases) auto
  show ?thesis
  proof (cases "i = length ys")
    case True
    with assms(1) show ?thesis by (auto simp: xs swap_remove_def list_update_append)
  next
    case False
    with assms(2) have i: "i < length ys" by (simp add: xs)
    with assms(1) have y: "y \<notin> set ys" "distinct ys" by (auto simp: xs)
    have s: "swap_remove i xs = ys[i := y]"
      using i by (simp add: xs swap_remove_def list_update_append)
    have "set (ys[i := y]) = insert y (set ys - {ys ! i})"
      using i y by (auto simp: set_update_distinct)
    moreover have "ys ! i \<noteq> y" using i y by auto
    moreover have "distinct (ys[i := y])" using y i by (simp add: distinct_list_update)
    ultimately show ?thesis using i s by (auto simp: xs nth_append)
  qed
qed

lemma arr_swap_remove_ok:
  assumes "arr_wf a" and "i < length (arr_list a)"
  shows "\<exists>a'. arr_swap_remove a i = Inr a' \<and> arr_wf a' \<and> arr_list a' = swap_remove i (arr_list a) \<and>
    arr_capacity a' = arr_capacity a"
  using assms(1)
proof (cases rule: arr_wf_slots)
  case 1
  with assms(2) show ?thesis by simp
next
  case (2 slots)
  let ?n = "length (arr_list a)"
  let ?x = "Some (last (arr_list a))"
  let ?a = "a\<lparr>arr_block := Live_Block (slots[i := ?x]), arr_count := ?n - 1\<rparr>"
  have n: "?n - 1 < ?n" using assms(2) by simp
  have "block_load (arr_block a) (?n - 1) = Inr ?x"
    using block_load_list [OF assms(1) n] last_conv_nth [of "arr_list a"] assms(2) by force
  then have eq: "arr_swap_remove a i = Inr ?a"
    using 2 assms(2) by (simp add: arr_swap_remove_def)
  have "take ?n (slots[i := ?x]) = map Some ((arr_list a)[i := last (arr_list a)])"
    using 2 by (simp add: take_update_swap map_update)
  then have "take (?n - 1) (take ?n (slots[i := ?x])) =
      map Some (butlast ((arr_list a)[i := last (arr_list a)]))"
    by (simp only: butlast_conv_take take_map length_list_update)
  then have "take (?n - 1) (slots[i := ?x]) = map Some (swap_remove i (arr_list a))"
    by (simp add: swap_remove_def min_def)
  then have "arr_wf ?a \<and> arr_list ?a = swap_remove i (arr_list a)"
    by (intro arr_wfI [where slots = "slots[i := ?x]"]) (use 2 in \<open>simp_all add: swap_remove_def\<close>)
  with eq show ?thesis by auto
qed

end
