(* ===== verification/Metadata.thy ===== *)
theory Metadata
  imports Arrays
begin

text \<open>
  The growable metadata array: \<open>grpc_metadata\<close> and \<open>grpc_metadata_array\<close> of
  \<^verbatim>\<open>include/grpc/grpc.h\<close> and its three operations in \<^verbatim>\<open>src/enhanced_features.c\<close>. The array
  keeps the three C fields (count, capacity and the block); \<open>md_list\<close> is the list the block
  stands for and \<open>md_wf\<close> the invariant under which no operation leaves the block.
\<close>

section \<open>Data\<close>

record grpc_metadata =
  md_key :: "uint8 list"
  md_value :: "uint8 list"
  md_value_length :: nat

record grpc_metadata_array =
  md_count :: nat
  md_capacity :: nat
  md_block :: "grpc_metadata block"

definition grpc_metadata_array_zero :: grpc_metadata_array where
  "grpc_metadata_array_zero = \<lparr>md_count = 0, md_capacity = 0, md_block = Null_Block\<rparr>"

definition GRPC_METADATA_DEFAULT_CAPACITY :: nat where
  "GRPC_METADATA_DEFAULT_CAPACITY = 16"

section \<open>Operations\<close>

definition grpc_metadata_array_init ::
    "grpc_metadata_array option \<Rightarrow> nat \<Rightarrow> alloc \<Rightarrow> int \<times> grpc_metadata_array option \<times> alloc" where
  "grpc_metadata_array_init array initial_capacity os =
     (case array of
        None \<Rightarrow> (-1, None, os)
      | Some a \<Rightarrow>
          (let cap = (if initial_capacity > 0 then initial_capacity
                      else GRPC_METADATA_DEFAULT_CAPACITY);
               (ok, os1) = alloc_next os
           in if \<not> ok
              then (-1, Some (a\<lparr>md_count := 0, md_capacity := cap, md_block := Null_Block\<rparr>), os1)
              else (0, Some (a\<lparr>md_count := 0, md_capacity := cap, md_block := block_calloc cap\<rparr>), os1)))"

text \<open>
  The growth step shared by all arrays of metadata: \<open>realloc\<close> to \<open>new_capacity\<close> slots when the
  array is full. A failed \<open>realloc\<close> leaves the array as it was and is reported by \<open>False\<close>.
\<close>

definition md_grow ::
    "grpc_metadata_array \<Rightarrow> nat \<Rightarrow> alloc \<Rightarrow> (bool \<times> grpc_metadata_array \<times> alloc) exec" where
  "md_grow a new_capacity os =
     (if md_count a \<ge> md_capacity a
      then exec_bind (block_realloc (md_block a) new_capacity) (\<lambda>blk.
             let (ok, os1) = alloc_next os
             in if \<not> ok then Inr (False, a, os1)
                else Inr (True, a\<lparr>md_block := blk, md_capacity := new_capacity\<rparr>, os1))
      else Inr (True, a, os))"

definition md_put :: "grpc_metadata_array \<Rightarrow> grpc_metadata \<Rightarrow> grpc_metadata_array exec" where
  "md_put a e =
     exec_bind (block_store (md_block a) (md_count a) e) (\<lambda>blk.
       Inr (a\<lparr>md_block := blk, md_count := md_count a + 1\<rparr>))"

definition grpc_metadata_array_add ::
    "grpc_metadata_array option \<Rightarrow> uint8 list option \<Rightarrow> uint8 list option \<Rightarrow> nat \<Rightarrow> alloc \<Rightarrow>
     (int \<times> grpc_metadata_array option \<times> alloc) exec" where
  "grpc_metadata_array_add array key value value_len os =
     (case (array, key, value) of
        (Some a, Some k, Some v) \<Rightarrow>
          exec_bind (md_grow a (md_capacity a * 2) os) (\<lambda>(grown, a1, os1).
            if \<not> grown then Inr (-1, Some a1, os1)
            else
              (let (key_ok, os2) = alloc_next os1
               in if \<not> key_ok then Inr (-1, Some a1, os2)
                  else
                    (let (value_ok, os3) = alloc_next os2
                     in if \<not> value_ok then Inr (-1, Some a1, os3)
                        else if value_len > length v + 1 then Inl Out_Of_Bounds
                        else
                          exec_bind
                            (md_put a1 \<lparr>md_key = c_string k,
                                        md_value = take value_len (v @ [0]),
                                        md_value_length = value_len\<rparr>)
                            (\<lambda>a2. Inr (0, Some a2, os3)))))
      | _ \<Rightarrow> Inr (-1, array, os))"

definition grpc_metadata_array_destroy ::
    "grpc_metadata_array option \<Rightarrow> grpc_metadata_array option exec" where
  "grpc_metadata_array_destroy array =
     (case array of
        None \<Rightarrow> Inr None
      | Some a \<Rightarrow>
          (case md_block a of
             Null_Block \<Rightarrow> Inr (Some a)
           | Freed_Block \<Rightarrow> (if md_count a > 0 then Inl Use_After_Free else Inl Double_Free)
           | Live_Block slots \<Rightarrow>
               if md_count a > length slots then Inl Out_Of_Bounds
               else Inr (Some (a\<lparr>md_block := Null_Block, md_count := 0, md_capacity := 0\<rparr>))))"

section \<open>The list an array stands for, and its invariant\<close>

definition md_list :: "grpc_metadata_array \<Rightarrow> grpc_metadata list" where
  "md_list a = map the (take (md_count a) (block_slots (md_block a)))"

definition md_wf :: "grpc_metadata_array \<Rightarrow> bool" where
  "md_wf a \<longleftrightarrow> (\<exists>slots. md_block a = Live_Block slots \<and> length slots = md_capacity a \<and>
       None \<notin> set (take (md_count a) slots))
     \<and> 0 < md_capacity a \<and> md_count a \<le> md_capacity a"

lemma md_wf_zero_count: "md_wf a \<Longrightarrow> md_count a = 0 \<Longrightarrow> md_list a = []"
  by (simp add: md_list_def)

lemma length_md_list: "md_wf a \<Longrightarrow> length (md_list a) = md_count a"
  by (auto simp: md_wf_def md_list_def)

lemma md_grow_wf:
  assumes "md_wf a" and "md_capacity a < new_capacity"
  obtains (failed) os' where "md_grow a new_capacity os = Inr (False, a, os')" "\<not> alloc_ok os"
  | (grown) a' os' where "md_grow a new_capacity os = Inr (True, a', os')" "md_wf a'"
      "md_list a' = md_list a" "md_count a' < md_capacity a'" "md_count a' = md_count a"
      "alloc_ok os \<Longrightarrow> alloc_ok os'"
proof (cases "md_count a \<ge> md_capacity a")
  case True
  from assms(1) obtain slots where s: "md_block a = Live_Block slots" "length slots = md_capacity a"
    "0 < md_capacity a" "md_count a \<le> md_capacity a" "None \<notin> set (take (md_count a) slots)"
    by (auto simp: md_wf_def)
  show ?thesis
  proof (cases "alloc_next os")
    case (Pair ok os')
    show ?thesis
    proof (cases ok)
      case False
      with Pair True s have "md_grow a new_capacity os = Inr (False, a, os')"
        by (simp add: md_grow_def)
      moreover from Pair False have "\<not> alloc_ok os" by (cases os) auto
      ultimately show ?thesis by (rule failed)
    next
      case True
      let ?a = "a\<lparr>md_block := Live_Block (slots @ replicate (new_capacity - length slots) None),
                  md_capacity := new_capacity\<rparr>"
      from Pair True \<open>md_count a \<ge> md_capacity a\<close> s assms(2)
      have "md_grow a new_capacity os = Inr (True, ?a, os')"
        by (simp add: md_grow_def)
      moreover have "md_wf ?a" "md_list ?a = md_list a" "md_count ?a < md_capacity ?a"
        "md_count ?a = md_count a"
        using s assms(2) by (auto simp: md_wf_def md_list_def)
      moreover have "alloc_ok os \<Longrightarrow> alloc_ok os'"
        using Pair by (cases os) auto
      ultimately show ?thesis by (rule grown)
    qed
  qed
next
  case False
  then have "md_grow a new_capacity os = Inr (True, a, os)"
    by (simp add: md_grow_def)
  with assms False show ?thesis
    by (intro grown [of a os]) auto
qed

lemma md_put_wf:
  assumes "md_wf a" and "md_count a < md_capacity a"
  shows "\<exists>a'. md_put a e = Inr a' \<and> md_wf a' \<and> md_list a' = md_list a @ [e]"
proof -
  from assms obtain slots where s: "md_block a = Live_Block slots" "length slots = md_capacity a"
    "None \<notin> set (take (md_count a) slots)"
    by (auto simp: md_wf_def)
  let ?a = "a\<lparr>md_block := Live_Block (slots[md_count a := Some e]), md_count := md_count a + 1\<rparr>"
  from s assms(2) have "md_put a e = Inr ?a"
    by (simp add: md_put_def)
  moreover from s assms have "md_wf ?a" "md_list ?a = md_list a @ [e]"
    by (auto simp: md_wf_def md_list_def take_update_snoc)
  ultimately show ?thesis by blast
qed

section \<open>The metadata array as a growable array\<close>

interpretation md: growable md_grow md_put md_list md_wf
    "\<lambda>a. md_count a < md_capacity a" md_capacity
proof unfold_locales
  fix s n os
  assume "md_wf s" and "md_capacity s < n"
  then show "(\<exists>os'. md_grow s n os = Inr (False, s, os') \<and> \<not> alloc_ok os) \<or>
      (\<exists>s' os'. md_grow s n os = Inr (True, s', os') \<and> md_wf s' \<and> md_list s' = md_list s \<and>
         md_count s' < md_capacity s' \<and> (alloc_ok os \<longrightarrow> alloc_ok os'))"
    by (rule md_grow_wf [where os = os]) blast+
next
  fix s and e :: grpc_metadata
  assume "md_wf s" and "md_count s < md_capacity s"
  then show "\<exists>s'. md_put s e = Inr s' \<and> md_wf s' \<and> md_list s' = md_list s @ [e]"
    by (rule md_put_wf)
qed

section \<open>Correctness of the array operations\<close>

abbreviation md_entry :: "uint8 list \<Rightarrow> uint8 list \<Rightarrow> nat \<Rightarrow> grpc_metadata" where
  "md_entry k v n \<equiv> \<lparr>md_key = c_string k, md_value = take n (v @ [0]), md_value_length = n\<rparr>"

lemma add_cases:
  assumes "md_wf a" and "n \<le> length v + 1"
  shows "(\<exists>os'. grpc_metadata_array_add (Some a) (Some k) (Some v) n os = Inr (-1, Some a, os') \<and>
            \<not> alloc_ok os) \<or>
    (\<exists>a' os'. grpc_metadata_array_add (Some a) (Some k) (Some v) n os = Inr (-1, Some a', os') \<and>
       md_wf a' \<and> md_list a' = md_list a \<and> \<not> alloc_ok os) \<or>
    (\<exists>a' os'. grpc_metadata_array_add (Some a) (Some k) (Some v) n os = Inr (0, Some a', os') \<and>
       md_wf a' \<and> md_list a' = md_list a @ [md_entry k v n] \<and> (alloc_ok os \<longrightarrow> alloc_ok os'))"
proof -
  from assms(1) have "md_capacity a < md_capacity a * 2"
    by (auto simp: md_wf_def)
  from md.grow_put [OF assms(1) this, of os "md_entry k v n"] show ?thesis
  proof
    assume "\<exists>os'. md_grow a (md_capacity a * 2) os = Inr (False, a, os') \<and> \<not> alloc_ok os"
    then show ?thesis by (auto simp: grpc_metadata_array_add_def)
  next
    assume "\<exists>s1 os1 s2. md_grow a (md_capacity a * 2) os = Inr (True, s1, os1) \<and> md_wf s1 \<and>
      md_list s1 = md_list a \<and> md_put s1 (md_entry k v n) = Inr s2 \<and> md_wf s2 \<and>
      md_list s2 = md_list a @ [md_entry k v n] \<and> (alloc_ok os \<longrightarrow> alloc_ok os1)"
    then obtain s1 os1 s2 where g: "md_grow a (md_capacity a * 2) os = Inr (True, s1, os1)"
      "md_wf s1" "md_list s1 = md_list a" "md_put s1 (md_entry k v n) = Inr s2" "md_wf s2"
      "md_list s2 = md_list a @ [md_entry k v n]" "alloc_ok os \<longrightarrow> alloc_ok os1"
      by blast
    obtain ok2 os2 where o2: "alloc_next os1 = (ok2, os2)" by force
    obtain ok3 os3 where o3: "alloc_next os2 = (ok3, os3)" by force
    have ok: "alloc_ok os1 \<longrightarrow> ok2 \<and> ok3 \<and> alloc_ok os3"
      using o2 o3 by (cases os1; cases os2) auto
    show ?thesis
      using g o2 o3 ok assms(2) by (auto simp: grpc_metadata_array_add_def)
  qed
qed

text \<open>
  Adding to a well-formed metadata array never leaves the block: for every pattern of
  allocation failures it either returns 0 and the array holds the old entries followed by the
  new one (the key as a C string, exactly \<open>value_len\<close> bytes of the value), or returns -1, an
  allocation did fail, and the entries are unchanged. The array stays well-formed.
\<close>

theorem grpc_metadata_array_add_appends:
  assumes "md_wf a" and "value_len \<le> length v + 1"
  shows "\<exists>r a' os'. grpc_metadata_array_add (Some a) (Some k) (Some v) value_len os =
      Inr (r, Some a', os') \<and> md_wf a' \<and>
      (if r = 0
       then md_list a' = md_list a @ [\<lparr>md_key = c_string k, md_value = take value_len (v @ [0]),
                                        md_value_length = value_len\<rparr>]
       else r = -1 \<and> md_list a' = md_list a \<and> \<not> alloc_ok os)"
  using add_cases [OF assms, of k os] assms(1)
  by (elim disjE exE conjE) simp_all

theorem grpc_metadata_array_add_appends_witness:
  "\<exists>a' os'. grpc_metadata_array_add
        (Some \<lparr>md_count = 0, md_capacity = 1, md_block = block_calloc 1\<rparr>)
        (Some [97]) (Some [98, 99]) 2 [True, True] = Inr (0, Some a', os') \<and> md_wf a' \<and>
      md_list a' = [\<lparr>md_key = [97], md_value = [98, 99], md_value_length = 2\<rparr>]"
proof -
  let ?a = "\<lparr>md_count = 0, md_capacity = 1, md_block = block_calloc 1\<rparr>"
  have w: "md_wf ?a" and l: "md_list ?a = []"
    by (simp_all add: md_wf_def md_list_def block_calloc_def)
  show ?thesis
    using grpc_metadata_array_add_appends [OF w, of 2 "[98, 99]" "[97]" "[True, True]"]
    unfolding l by (auto split: if_splits simp del: One_nat_def)
qed

text \<open>Adding a list of entries, as a caller that builds the metadata of a call does.\<close>

fun md_add_all :: "grpc_metadata_array \<Rightarrow> (uint8 list \<times> uint8 list) list \<Rightarrow> alloc \<Rightarrow>
    (int \<times> grpc_metadata_array option \<times> alloc) exec" where
  "md_add_all a [] os = Inr (0, Some a, os)"
| "md_add_all a ((k, v) # kvs) os =
     exec_bind (grpc_metadata_array_add (Some a) (Some k) (Some v) (length v) os) (\<lambda>(r, a', os').
       if r = 0 then md_add_all (the a') kvs os' else Inr (r, a', os'))"

lemma md_add_all_ok:
  "md_wf a \<Longrightarrow> alloc_ok os \<Longrightarrow>
   \<exists>a' os'. md_add_all a kvs os = Inr (0, Some a', os') \<and> md_wf a' \<and> alloc_ok os' \<and>
     md_list a' = md_list a @ map (\<lambda>(k, v). \<lparr>md_key = c_string k, md_value = v,
                                               md_value_length = length v\<rparr>) kvs"
proof (induction kvs arbitrary: a os)
  case Nil
  then show ?case by simp
next
  case (Cons kv kvs)
  obtain k v where kv: "kv = (k, v)" by force
  from add_cases [OF Cons.prems(1), of "length v" v k os] Cons.prems(2) obtain a1 os1 where
    a1: "grpc_metadata_array_add (Some a) (Some k) (Some v) (length v) os = Inr (0, Some a1, os1)"
      "md_wf a1" "md_list a1 = md_list a @ [md_entry k v (length v)]" "alloc_ok os1"
    by auto
  from Cons.IH [OF a1(2,4)] a1 show ?case by (auto simp: kv)
qed

text \<open>
  The life of a metadata array with working allocations: initialise (any requested
  capacity, 0 meaning the default), add any number of key/value pairs, and the array holds
  exactly these pairs in order however often it had to grow; destroying it then empties it and
  destroying it again is harmless.
\<close>

theorem grpc_metadata_array_lifecycle:
  assumes "alloc_ok os"
  shows "\<exists>a0 os0 a1 os1 a2.
    grpc_metadata_array_init (Some a) cap os = (0, Some a0, os0) \<and>
    md_add_all a0 kvs os0 = Inr (0, Some a1, os1) \<and>
    md_list a1 = map (\<lambda>(k, v). \<lparr>md_key = c_string k, md_value = v,
                                  md_value_length = length v\<rparr>) kvs \<and>
    md_count a1 = length kvs \<and>
    grpc_metadata_array_destroy (Some a1) = Inr (Some a2) \<and>
    a2 = grpc_metadata_array_zero \<and>
    grpc_metadata_array_destroy (Some a2) = Inr (Some a2)"
proof -
  let ?cap = "if cap > 0 then cap else GRPC_METADATA_DEFAULT_CAPACITY"
  let ?a0 = "a\<lparr>md_count := 0, md_capacity := ?cap, md_block := block_calloc ?cap\<rparr>"
  from assms obtain os0 where os0: "alloc_next os = (True, os0)" "alloc_ok os0"
    by (rule alloc_next_okE)
  then have init: "grpc_metadata_array_init (Some a) cap os = (0, Some ?a0, os0)"
    by (simp add: grpc_metadata_array_init_def)
  have wf0: "md_wf ?a0" and l0: "md_list ?a0 = []"
    by (auto simp: md_wf_def md_list_def block_calloc_def GRPC_METADATA_DEFAULT_CAPACITY_def)
  from md_add_all_ok [OF wf0 os0(2), of kvs] l0 obtain a1 os1 where
    a1: "md_add_all ?a0 kvs os0 = Inr (0, Some a1, os1)" "md_wf a1"
      "md_list a1 = map (\<lambda>(k, v). \<lparr>md_key = c_string k, md_value = v,
                                     md_value_length = length v\<rparr>) kvs"
    by auto
  then have n: "md_count a1 = length kvs"
    using length_md_list by fastforce
  have d1: "grpc_metadata_array_destroy (Some a1) = Inr (Some grpc_metadata_array_zero)"
    using a1(2) by (auto simp: md_wf_def grpc_metadata_array_destroy_def grpc_metadata_array_zero_def)
  have d2: "grpc_metadata_array_destroy (Some grpc_metadata_array_zero) =
      Inr (Some grpc_metadata_array_zero)"
    by (simp add: grpc_metadata_array_destroy_def grpc_metadata_array_zero_def)
  from init a1 n d1 d2 show ?thesis by blast
qed

theorem grpc_metadata_array_lifecycle_witness:
  "alloc_ok [True] \<and> (\<exists>a0 os0 a1 os1 a2.
    grpc_metadata_array_init (Some grpc_metadata_array_zero) 1 [True] = (0, Some a0, os0) \<and>
    md_add_all a0 [([97], [98]), ([99], [0, 100])] os0 = Inr (0, Some a1, os1) \<and>
    md_list a1 = [\<lparr>md_key = [97], md_value = [98], md_value_length = 1\<rparr>,
                  \<lparr>md_key = [99], md_value = [0, 100], md_value_length = Suc (Suc 0)\<rparr>] \<and>
    md_count a1 = Suc (Suc 0) \<and>
    grpc_metadata_array_destroy (Some a1) = Inr (Some a2) \<and>
    a2 = grpc_metadata_array_zero \<and>
    grpc_metadata_array_destroy (Some a2) = Inr (Some a2))"
  using grpc_metadata_array_lifecycle
      [of "[True]" grpc_metadata_array_zero 1 "[([97], [98]), ([99], [0, 100])]"]
  by (simp del: md_add_all.simps)

text \<open>
  An array that was destroyed (or never initialised, as the zeroed arrays inside a call or
  a stream) has capacity 0, doubling keeps it 0, and the first add then writes its entry
  outside the zero-sized block whenever the allocations succeed.
\<close>

theorem grpc_metadata_array_add_after_destroy_faults:
  assumes "alloc_ok os" and "value_len \<le> length v + 1"
  shows "grpc_metadata_array_add (Some grpc_metadata_array_zero) (Some k) (Some v) value_len os =
    Inl Out_Of_Bounds"
proof -
  from assms(1) obtain os1 where o1: "alloc_next os = (True, os1)" "alloc_ok os1"
    by (rule alloc_next_okE)
  from o1(2) obtain os2 where o2: "alloc_next os1 = (True, os2)" "alloc_ok os2"
    by (rule alloc_next_okE)
  from o2(2) obtain os3 where o3: "alloc_next os2 = (True, os3)"
    by (rule alloc_next_okE)
  from o1 o2 o3 assms(2) show ?thesis
    by (simp add: grpc_metadata_array_add_def grpc_metadata_array_zero_def md_grow_def md_put_def
        block_calloc_def)
qed

theorem grpc_metadata_array_add_after_destroy_faults_witness:
  "grpc_metadata_array_add (Some grpc_metadata_array_zero) (Some [97]) (Some [98]) 1 [] =
    Inl Out_Of_Bounds"
  using grpc_metadata_array_add_after_destroy_faults [of "[]" 1 "[98]" "[97]"] by simp

end
