(* ===== verification/Hpack.thy ===== *)
theory Hpack
  imports Metadata
begin

text \<open>
  The HPACK coder of \<^verbatim>\<open>src/hpack.c\<close>: prefix integers, literal header fields and metadata
  arrays, each as an encoder into a caller's buffer and a decoder. Encoders return the C
  result together with the buffer after the call, so that what they write and what they leave
  alone is part of the model. \<open>rfc_cont\<close>, \<open>hpack_int_bytes\<close>, \<open>hpack_literal_bytes\<close> and
  \<open>rfc_int_value\<close> are the wire format of RFC 7541, independent of buffers and words; the lemmas
  show that the C routines compute it.
\<close>

section \<open>Constants\<close>

definition HPACK_INTEGER_MAX_PREFIX_BITS :: uint8 where
  "HPACK_INTEGER_MAX_PREFIX_BITS = 7"

definition HPACK_INTEGER_MAX_BYTES :: nat where
  "HPACK_INTEGER_MAX_BYTES = 5"

definition HPACK_MAX_SHIFT_BITS :: nat where
  "HPACK_MAX_SHIFT_BITS = 28"

definition HPACK_DECODE_INITIAL_CAPACITY :: nat where
  "HPACK_DECODE_INITIAL_CAPACITY = 16"

definition UINT32_MAX :: uint32 where
  "UINT32_MAX = - 1"

section \<open>Encoding\<close>

text \<open>The loop over the continuation bytes; \<open>pos\<close> is the next position of the buffer.\<close>

function hpack_encode_integer_loop ::
    "uint32 \<Rightarrow> nat \<Rightarrow> uint8 list \<Rightarrow> nat option \<times> uint8 list" where
  "hpack_encode_integer_loop value pos out =
     (if value \<ge> 128
      then if pos \<ge> length out then (None, out)
           else hpack_encode_integer_loop (drop_bit 7 value) (pos + 1)
                  (out[pos := ucast ((value AND 0x7F) OR 0x80)])
      else if pos \<ge> length out then (None, out)
      else (Some (pos + 1), out[pos := ucast value]))"
  by pat_completeness auto
termination
proof (relation "measure (\<lambda>(value, pos, out). unat value)", goal_cases)
  case 1
  then show ?case by simp
next
  case (2 v pos out)
  then have "128 \<le> unat v" by (simp add: word_le_nat_alt)
  then show ?case by (simp add: unat_drop_bit)
qed

declare hpack_encode_integer_loop.simps [simp del]

definition hpack_encode_integer ::
    "uint32 \<Rightarrow> uint8 \<Rightarrow> uint8 list option \<Rightarrow> int \<times> uint8 list option" where
  "hpack_encode_integer value prefix_bits output =
     (case output of
        None \<Rightarrow> (-1, None)
      | Some out \<Rightarrow>
          if length out = 0 \<or> prefix_bits > HPACK_INTEGER_MAX_PREFIX_BITS then (-1, Some out)
          else
            (let max_prefix = push_bit (unat prefix_bits) 1 - 1
             in if value < max_prefix then (1, Some (out[0 := ucast value]))
                else
                  (case hpack_encode_integer_loop (value - max_prefix) 1 (out[0 := ucast max_prefix]) of
                     (None, out1) \<Rightarrow> (-1, Some out1)
                   | (Some pos, out1) \<Rightarrow> (int_of_size pos, Some out1))))"

text \<open>\<open>memcpy\<close> into the buffer at \<open>pos\<close>; bytes past the end of the buffer are never written.\<close>

definition buf_write :: "uint8 list \<Rightarrow> nat \<Rightarrow> uint8 list \<Rightarrow> uint8 list" where
  "buf_write out pos bs = take pos out @ take (length out - pos) bs @ drop (pos + length bs) out"

text \<open>A call of the integer encoder on \<open>&output[pos]\<close> with the rest of the buffer.\<close>

definition hpack_encode_integer_at :: "uint32 \<Rightarrow> uint8 \<Rightarrow> nat \<Rightarrow> uint8 list \<Rightarrow> int \<times> uint8 list" where
  "hpack_encode_integer_at value prefix_bits pos out =
     (case hpack_encode_integer value prefix_bits (Some (drop pos out)) of
        (r, None) \<Rightarrow> (r, out)
      | (r, Some out1) \<Rightarrow> (r, take pos out @ out1))"

definition hpack_encode_literal_header ::
    "uint8 list option \<Rightarrow> uint8 list option \<Rightarrow> uint8 list option \<Rightarrow> int \<times> uint8 list option" where
  "hpack_encode_literal_header name value output =
     (case (name, value, output) of
        (Some nm, Some vl, Some out) \<Rightarrow>
          if length out = 0 then (-1, output)
          else
            (let name_len = strlen nm;
                 value_len = strlen vl;
                 max_required = 1 + HPACK_INTEGER_MAX_BYTES + name_len
                                  + HPACK_INTEGER_MAX_BYTES + value_len
             in if length out < max_required then (-1, output)
                else
                  (let out1 = out[0 := 0x00];
                       (len_bytes, out2) = hpack_encode_integer_at (uint32_of_size name_len) 7 1 out1
                   in if len_bytes < 0 then (-1, Some out2)
                      else
                        (let pos = 1 + nat len_bytes
                         in if pos + name_len > length out2 then (-1, Some out2)
                            else
                              (let out3 = buf_write out2 pos (c_string nm);
                                   pos = pos + name_len;
                                   (len_bytes, out4) =
                                     hpack_encode_integer_at (uint32_of_size value_len) 7 pos out3
                               in if len_bytes < 0 then (-1, Some out4)
                                  else
                                    (let pos = pos + nat len_bytes
                                     in if pos + value_len > length out4 then (-1, Some out4)
                                        else (int_of_size (pos + value_len),
                                              Some (buf_write out4 pos (c_string vl))))))))
      | _ \<Rightarrow> (-1, output))"

text \<open>Reading the first \<open>count\<close> entries of a metadata array; \<open>None\<close> is a slot never written.\<close>

definition md_read :: "grpc_metadata_array \<Rightarrow> grpc_metadata option list exec" where
  "md_read a =
     (if md_count a = 0 then Inr []
      else case md_block a of
             Null_Block \<Rightarrow> Inl Null_Deref
           | Freed_Block \<Rightarrow> Inl Use_After_Free
           | Live_Block slots \<Rightarrow>
               if md_count a > length slots then Inl Out_Of_Bounds
               else Inr (take (md_count a) slots))"

fun hpack_encode_metadata_loop ::
    "grpc_metadata option list \<Rightarrow> nat \<Rightarrow> uint8 list \<Rightarrow> int \<times> uint8 list" where
  "hpack_encode_metadata_loop [] pos out = (int_of_size pos, out)"
| "hpack_encode_metadata_loop (md # mds) pos out =
     (case hpack_encode_literal_header (map_option md_key md) (map_option md_value md)
             (Some (drop pos out)) of
        (bytes, rest) \<Rightarrow>
          (let out1 = take pos out @ the rest
           in if bytes < 0 then (-1, out1)
              else hpack_encode_metadata_loop mds (pos + nat bytes) out1))"

definition hpack_encode_metadata ::
    "grpc_metadata_array option \<Rightarrow> uint8 list option \<Rightarrow> (int \<times> uint8 list option) exec" where
  "hpack_encode_metadata metadata output =
     (case (metadata, output) of
        (Some a, Some out) \<Rightarrow>
          exec_bind (md_read a) (\<lambda>mds.
            case hpack_encode_metadata_loop mds 0 out of (r, out1) \<Rightarrow> Inr (r, Some out1))
      | _ \<Rightarrow> Inr (-1, output))"

section \<open>Decoding\<close>

text \<open>
  The decoder's loop: \<open>value\<close> and the shift \<open>m\<close> are 32-bit, so the product is taken modulo
  \<open>2 ^ 32\<close> before the overflow test looks at it.
\<close>

function hpack_decode_integer_loop ::
    "uint8 list \<Rightarrow> nat \<Rightarrow> uint32 \<Rightarrow> nat \<Rightarrow> (nat \<times> uint32) option" where
  "hpack_decode_integer_loop input pos value m =
     (if pos < length input
      then
        (let byte = input ! pos
         in if m > HPACK_MAX_SHIFT_BITS then None
            else
              (let to_add = ucast (byte AND 0x7F) * push_bit m 1
               in if value > UINT32_MAX - to_add then None
                  else if byte AND 0x80 = 0 then Some (pos + 1, value + to_add)
                  else hpack_decode_integer_loop input (pos + 1) (value + to_add) (m + 7)))
      else None)"
  by pat_completeness auto
termination
  by (relation "measure (\<lambda>(input, pos, value, m). length input - pos)") auto

declare hpack_decode_integer_loop.simps [simp del]

text \<open>The result is the number of bytes read and the value; \<open>None\<close> is -1.\<close>

definition hpack_decode_integer :: "uint8 list option \<Rightarrow> uint8 \<Rightarrow> (nat \<times> uint32) option" where
  "hpack_decode_integer input prefix_bits =
     (case input of
        None \<Rightarrow> None
      | Some inp \<Rightarrow>
          if length inp = 0 \<or> prefix_bits > HPACK_INTEGER_MAX_PREFIX_BITS then None
          else
            (let max_prefix = push_bit (unat prefix_bits) 1 - 1;
                 value = ucast (inp ! 0) AND max_prefix
             in if value < max_prefix then Some (1, value)
                else hpack_decode_integer_loop inp 1 value 0))"

text \<open>
  Copying \<open>len\<close> bytes out of the input into a fresh string: \<open>malloc(len + 1)\<close> computes its size
  in 32 bits, so a length of \<open>UINT32_MAX\<close> asks for an empty block that the copy then overruns.
  Reading past the end of the input is a fault, too.
\<close>

definition hpack_copy_string :: "uint8 list \<Rightarrow> nat \<Rightarrow> uint32 \<Rightarrow> uint8 list exec" where
  "hpack_copy_string inp pos len =
     (if unat (len + 1) \<le> unat len \<or> length inp < pos + unat len then Inl Out_Of_Bounds
      else Inr (take (unat len) (drop pos inp)))"

definition hpack_decode_literal_header ::
    "uint8 list option \<Rightarrow> alloc \<Rightarrow> (int \<times> (uint8 list \<times> uint8 list) option \<times> alloc) exec" where
  "hpack_decode_literal_header input os =
     (case input of
        None \<Rightarrow> Inr (-1, None, os)
      | Some inp \<Rightarrow>
          if length inp < 2 then Inr (-1, None, os)
          else
            (case hpack_decode_integer (Some (drop 1 inp)) 7 of
               None \<Rightarrow> Inr (-1, None, os)
             | Some (len_bytes, key_len) \<Rightarrow>
                 (let pos = 1 + len_bytes
                  in if pos + unat key_len > length inp then Inr (-1, None, os)
                     else
                       (let (ok, os1) = alloc_next os
                        in if \<not> ok then Inr (-1, None, os1)
                           else
                             exec_bind (hpack_copy_string inp pos key_len) (\<lambda>key.
                               let pos = pos + unat key_len
                               in case hpack_decode_integer (Some (drop pos inp)) 7 of
                                    None \<Rightarrow> Inr (-1, None, os1)
                                  | Some (len_bytes, value_len) \<Rightarrow>
                                      (let pos = pos + len_bytes
                                       in if pos + unat value_len > length inp
                                          then Inr (-1, None, os1)
                                          else
                                            (let (ok, os2) = alloc_next os1
                                             in if \<not> ok then Inr (-1, None, os2)
                                                else
                                                  exec_bind (hpack_copy_string inp pos value_len)
                                                    (\<lambda>value. Inr (int_of_size (pos + unat value_len),
                                                                  Some (key, value), os2)))))))))"

text \<open>
  The decoder's main loop. It is a partial function: a run that does not end has no value
  (\<open>None\<close>). A header that fails to decode frees the entries and the block but leaves the
  block's address and the count in the caller's structure.
\<close>

partial_function (option) hpack_decode_metadata_loop ::
    "uint8 list \<Rightarrow> nat \<Rightarrow> grpc_metadata_array \<Rightarrow> alloc \<Rightarrow>
     (int \<times> grpc_metadata_array \<times> alloc) exec option" where
  "hpack_decode_metadata_loop inp pos a os =
     (if pos < length inp
      then
        (case hpack_decode_literal_header (Some (drop pos inp)) os of
           Inl e \<Rightarrow> Some (Inl e)
         | Inr (bytes, kv, os1) \<Rightarrow>
             (if bytes < 0 then Some (Inr (-1, a\<lparr>md_block := Freed_Block\<rparr>, os1))
              else
                (case md_grow a (md_capacity a * 2) os1 of
                   Inl e \<Rightarrow> Some (Inl e)
                 | Inr (grown, a1, os2) \<Rightarrow>
                     (if \<not> grown then Some (Inr (-1, a1, os2))
                      else
                        (case md_put a1 \<lparr>md_key = fst (the kv), md_value = snd (the kv),
                                          md_value_length = strlen (snd (the kv))\<rparr> of
                           Inl e \<Rightarrow> Some (Inl e)
                         | Inr a2 \<Rightarrow> hpack_decode_metadata_loop inp (pos + nat bytes) a2 os2)))))
      else Some (Inr (0, a, os)))"

definition hpack_decode_metadata ::
    "uint8 list option \<Rightarrow> grpc_metadata_array option \<Rightarrow> alloc \<Rightarrow>
     (int \<times> grpc_metadata_array option \<times> alloc) exec option" where
  "hpack_decode_metadata input metadata os =
     (case (input, metadata) of
        (Some inp, Some a) \<Rightarrow>
          (let (ok, os1) = alloc_next os;
               a0 = a\<lparr>md_count := 0, md_capacity := HPACK_DECODE_INITIAL_CAPACITY\<rparr>
           in if \<not> ok then Some (Inr (-1, Some (a0\<lparr>md_block := Null_Block\<rparr>), os1))
              else map_option (map_sum id (\<lambda>(r, a', os'). (r, Some a', os')))
                     (hpack_decode_metadata_loop inp 0
                        (a0\<lparr>md_block := block_calloc HPACK_DECODE_INITIAL_CAPACITY\<rparr>) os1))
      | _ \<Rightarrow> Some (Inr (-1, metadata, os)))"

section \<open>The static table\<close>

text \<open>
  The table of RFC 7541, Appendix A, with an unused entry at index 0. The coder does not refer to
  it: every header is a literal.
\<close>

definition HPACK_STATIC_TABLE_SIZE :: nat where "HPACK_STATIC_TABLE_SIZE = 62"

definition hpack_static_table :: "(string option \<times> string option) list" where
  "hpack_static_table =
     [(None, None), (Some '':authority'', Some ''''), (Some '':method'', Some ''GET''),
      (Some '':method'', Some ''POST''), (Some '':path'', Some ''/''),
      (Some '':path'', Some ''/index.html''), (Some '':scheme'', Some ''http''),
      (Some '':scheme'', Some ''https''), (Some '':status'', Some ''200''),
      (Some '':status'', Some ''204''), (Some '':status'', Some ''206''), (Some '':status'', Some ''304''),
      (Some '':status'', Some ''400''), (Some '':status'', Some ''404''), (Some '':status'', Some ''500''),
      (Some ''accept-charset'', Some ''''), (Some ''accept-encoding'', Some ''gzip, deflate''),
      (Some ''accept-language'', Some ''''), (Some ''accept-ranges'', Some ''''),
      (Some ''accept'', Some ''''), (Some ''access-control-allow-origin'', Some ''''),
      (Some ''age'', Some ''''), (Some ''allow'', Some ''''), (Some ''authorization'', Some ''''),
      (Some ''cache-control'', Some ''''), (Some ''content-disposition'', Some ''''),
      (Some ''content-encoding'', Some ''''), (Some ''content-language'', Some ''''),
      (Some ''content-length'', Some ''''), (Some ''content-location'', Some ''''),
      (Some ''content-range'', Some ''''), (Some ''content-type'', Some ''''), (Some ''cookie'', Some ''''),
      (Some ''date'', Some ''''), (Some ''etag'', Some ''''), (Some ''expect'', Some ''''),
      (Some ''expires'', Some ''''), (Some ''from'', Some ''''), (Some ''host'', Some ''''),
      (Some ''if-match'', Some ''''), (Some ''if-modified-since'', Some ''''),
      (Some ''if-none-match'', Some ''''), (Some ''if-range'', Some ''''),
      (Some ''if-unmodified-since'', Some ''''), (Some ''last-modified'', Some ''''),
      (Some ''link'', Some ''''), (Some ''location'', Some ''''), (Some ''max-forwards'', Some ''''),
      (Some ''proxy-authenticate'', Some ''''), (Some ''proxy-authorization'', Some ''''),
      (Some ''range'', Some ''''), (Some ''referer'', Some ''''), (Some ''refresh'', Some ''''),
      (Some ''retry-after'', Some ''''), (Some ''server'', Some ''''), (Some ''set-cookie'', Some ''''),
      (Some ''strict-transport-security'', Some ''''), (Some ''transfer-encoding'', Some ''''),
      (Some ''user-agent'', Some ''''), (Some ''vary'', Some ''''), (Some ''via'', Some ''''),
      (Some ''www-authenticate'', Some '''')]"

lemma hpack_static_table_ok:
  "length hpack_static_table = HPACK_STATIC_TABLE_SIZE \<and>
   (\<forall>i < length hpack_static_table. fst (hpack_static_table ! i) = None \<longleftrightarrow> i = 0) \<and> distinct hpack_static_table"
proof (intro conjI)
  show "length hpack_static_table = HPACK_STATIC_TABLE_SIZE"
    by (simp add: hpack_static_table_def HPACK_STATIC_TABLE_SIZE_def)
  have "hpack_static_table = (None, None) # tl hpack_static_table" "\<forall>e\<in>set (tl hpack_static_table). fst e \<noteq> None"
    by (simp_all add: hpack_static_table_def)
  then show "\<forall>i < length hpack_static_table. fst (hpack_static_table ! i) = None \<longleftrightarrow> i = 0"
    by (metis (no_types, lifting) fst_conv length_Cons less_Suc_eq_0_disj nth_Cons_0 nth_Cons_Suc nth_mem)
  show "distinct hpack_static_table" by (simp add: hpack_static_table_def)
qed

section \<open>The wire format\<close>

fun rfc_cont :: "nat \<Rightarrow> nat list" where
  "rfc_cont n = (if n \<ge> 128 then (n mod 128 + 128) # rfc_cont (n div 128) else [n])"

declare rfc_cont.simps [simp del]

definition hpack_int_bytes :: "nat \<Rightarrow> nat \<Rightarrow> uint8 list" where
  "hpack_int_bytes p v =
     (if v < 2 ^ p - 1 then [word_of_nat v]
      else word_of_nat (2 ^ p - 1) # map word_of_nat (rfc_cont (v - (2 ^ p - 1))))"

lemma rfc_cont_nonempty [simp]: "rfc_cont n \<noteq> []"
  by (subst rfc_cont.simps) simp

lemma rfc_cont_pos: "0 < length (rfc_cont n)"
  by simp

lemma length_rfc_cont: "0 < k \<Longrightarrow> n < 128 ^ k \<Longrightarrow> length (rfc_cont n) \<le> k"
proof (induction k arbitrary: n)
  case (Suc k)
  show ?case
  proof (cases "n \<ge> 128")
    case True
    with Suc.prems have "0 < k" by (cases k) auto
    moreover from Suc.prems have "n div 128 < 128 ^ k"
      by (simp add: less_mult_imp_div_less mult.commute)
    ultimately show ?thesis
      using Suc.IH True by (subst rfc_cont.simps) simp
  next
    case False
    then show ?thesis by (subst rfc_cont.simps) simp
  qed
qed simp

lemma length_buf_write [simp]: "length (buf_write out pos bs) = length out"
  by (simp add: buf_write_def)

lemma buf_write_Nil [simp]: "buf_write out pos [] = out"
  by (simp add: buf_write_def)

lemma buf_write_Cons:
  "pos < length out \<Longrightarrow> buf_write out pos (b # bs) = buf_write (out[pos := b]) (pos + 1) bs"
  by (simp add: buf_write_def take_update_snoc take_Cons' Suc_diff_Suc)

lemma buf_write_full: "length out \<le> pos \<Longrightarrow> buf_write out pos bs = out"
  by (simp add: buf_write_def)

lemma buf_write_fits:
  "pos + length bs \<le> length out \<Longrightarrow>
   buf_write out pos bs = take pos out @ bs @ drop (pos + length bs) out"
  by (simp add: buf_write_def)

lemma hpack_encode_integer_loop_eq:
  "hpack_encode_integer_loop v pos out =
     (let bs = map word_of_nat (rfc_cont (unat v))
      in (if pos + length bs \<le> length out then Some (pos + length bs) else None,
          buf_write out pos bs))"
proof (induction v pos out rule: hpack_encode_integer_loop.induct)
  case (1 v pos out)
  have ge: "v \<ge> 128 \<longleftrightarrow> unat v \<ge> 128" by (simp add: word_le_nat_alt)
  have b: "ucast ((v AND 0x7F) OR 0x80) = (word_of_nat (unat v mod 128 + 128) :: uint8)"
    by (rule eq_word_of_natI) (rule unat_cont_byte)
  show ?case
  proof (cases "length out \<le> pos")
    case True
    then have "\<not> pos + length (rfc_cont (unat v)) \<le> length out"
      using rfc_cont_pos [of "unat v"] by linarith
    with True show ?thesis
      by (subst hpack_encode_integer_loop.simps) (simp add: buf_write_full Let_def)
  next
    case False
    note IH = "1.IH"
    show ?thesis
    proof (cases "v \<ge> 128")
      case True
      then have r: "rfc_cont (unat v) = (unat v mod 128 + 128) # rfc_cont (unat v div 128)"
        using ge by (subst rfc_cont.simps) simp
      from True False have "hpack_encode_integer_loop v pos out =
          hpack_encode_integer_loop (drop_bit 7 v) (pos + 1)
            (out[pos := ucast ((v AND 0x7F) OR 0x80)])"
        by (subst hpack_encode_integer_loop.simps) simp
      with IH [OF True] False show ?thesis
        by (simp add: r b unat_drop_bit buf_write_Cons Let_def)
    next
      case v: False
      then have "rfc_cont (unat v) = [unat v]"
        using ge by (subst rfc_cont.simps) simp
      with v False show ?thesis
        by (subst hpack_encode_integer_loop.simps)
          (simp add: buf_write_Cons Let_def)
    qed
  qed
qed

text \<open>The largest prefix value, as the code computes it.\<close>

lemma unat_max_prefix:
  assumes "p \<le> (7 :: uint8)"
  shows "unat (push_bit (unat p) 1 - 1 :: uint32) = 2 ^ unat p - 1"
proof -
  from assms have "unat p \<le> 7" by (simp add: word_le_nat_alt)
  then have "unat (push_bit (unat p) 1 :: uint32) = 2 ^ unat p"
    by (simp add: unat_two_power)
  then show ?thesis
    by (simp add: unat_sub_if')
qed

lemma length_hpack_int_bytes: "v < 2 ^ 32 \<Longrightarrow> length (hpack_int_bytes p v) \<le> 6"
  using length_rfc_cont [of 5 "v - (2 ^ p - 1)"] by (simp add: hpack_int_bytes_def)

lemma hpack_int_bytes_pos: "0 < length (hpack_int_bytes p v)"
  by (simp add: hpack_int_bytes_def)

lemma hpack_encode_integer_eq:
  assumes "p \<le> 7" and "out \<noteq> []"
  shows "hpack_encode_integer v p (Some out) =
    (let bs = hpack_int_bytes (unat p) (unat v)
     in (if length bs \<le> length out then int (length bs) else -1, Some (buf_write out 0 bs)))"
proof -
  define mp :: uint32 where "mp = push_bit (unat p) 1 - 1"
  have mp: "unat mp = 2 ^ unat p - 1" unfolding mp_def using assms(1) by (rule unat_max_prefix)
  then have lt: "v < mp \<longleftrightarrow> unat v < 2 ^ unat p - 1" by (simp add: word_less_nat_alt)
  show ?thesis
  proof (cases "v < mp")
    case True
    with lt have e: "hpack_int_bytes (unat p) (unat v) = [ucast v]"
      by (simp add: hpack_int_bytes_def)
    from assms(2) have "1 \<le> length out" by (cases out) auto
    with True assms show ?thesis
      unfolding hpack_encode_integer_def mp_def [symmetric] e Let_def HPACK_INTEGER_MAX_PREFIX_BITS_def
      by (simp add: buf_write_Cons)
  next
    case False
    define b bs where "b = (word_of_nat (2 ^ unat p - 1) :: uint8)"
      and "bs = (map word_of_nat (rfc_cont (unat v - (2 ^ unat p - 1))) :: uint8 list)"
    from False have "unat (v - mp) = unat v - (2 ^ unat p - 1)"
      unfolding mp [symmetric] by (simp add: unat_sub not_less)
    moreover have b: "ucast mp = b"
      by (simp only: ucast_eq_of_nat mp b_def)
    ultimately have l: "hpack_encode_integer_loop (v - mp) 1 (out[0 := b]) =
        (if 1 + length bs \<le> length out then Some (1 + length bs) else None,
         buf_write (out[0 := b]) 1 bs)"
      unfolding hpack_encode_integer_loop_eq Let_def bs_def by simp
    have w: "buf_write out 0 (b # bs) = buf_write (out[0 := b]) 1 bs"
      using assms(2) by (simp add: buf_write_Cons)
    have "length bs \<le> 5"
      using length_rfc_cont [of 5 "unat v - (2 ^ unat p - 1)"] unat_uint32_less [of v]
      unfolding bs_def by simp
    then have i: "int_of_size (1 + length bs) = int (1 + length bs)" by simp
    have e: "hpack_int_bytes (unat p) (unat v) = b # bs"
      using False lt by (simp add: hpack_int_bytes_def b_def bs_def)
    have np: "\<not> 7 < p" using assms(1) by simp
    show ?thesis
      unfolding hpack_encode_integer_def mp_def [symmetric] e Let_def w
        HPACK_INTEGER_MAX_PREFIX_BITS_def
      using assms False np by (simp add: b l [simplified] i [simplified])
  qed
qed
fun rfc_cont_value :: "uint8 list \<Rightarrow> nat" where
  "rfc_cont_value [] = 0"
| "rfc_cont_value (b # bs) = unat b mod 128 + 128 * rfc_cont_value bs"

definition rfc_int_value :: "nat \<Rightarrow> uint8 list \<Rightarrow> nat" where
  "rfc_int_value p bs = unat (hd bs) mod 2 ^ p + rfc_cont_value (tl bs)"

lemma unat_to_add:
  assumes "m \<le> 28"
  shows "unat (ucast (b AND 0x7F :: uint8) * push_bit m 1 :: uint32) = (unat b mod 128) * 2 ^ m mod 2 ^ 32"
proof -
  have "unat (2 ^ m :: uint32) = 2 ^ m" using assms by (intro unat_two_power) simp
  then show ?thesis by (simp add: unat_word_ariths unat_ucast)
qed

lemma overflow_test: "v > UINT32_MAX - a \<longleftrightarrow> unat v + unat a \<ge> 2 ^ 32"
proof -
  have "unat (UINT32_MAX - a) = 2 ^ 32 - 1 - unat a"
    unfolding UINT32_MAX_def
    by (simp add: unat_sub [OF word_order.extremum] unsigned_minus_1_eq_mask mask_eq_exp_minus_1)
  then show ?thesis
    using unat_uint32_less [of a] by (simp add: word_less_nat_alt) linarith
qed

lemma unat_add_no_overflow:
  "\<not> v > UINT32_MAX - a \<Longrightarrow> unat (v + a) = unat v + unat a"
  unfolding overflow_test by (simp add: unat_word_ariths)

lemma hpack_decode_integer_loop_sound:
  "hpack_decode_integer_loop inp pos x m = Some (n, v) \<Longrightarrow> 7 dvd m \<Longrightarrow>
   pos < n \<and> n \<le> length inp \<and> 7 * (n - pos) + m \<le> 35 \<and>
   unat v = (unat x + rfc_cont_value (take (n - pos) (drop pos inp)) * 2 ^ m) mod 2 ^ 32"
proof (induction inp pos x m rule: hpack_decode_integer_loop.induct)
  case (1 inp pos x m)
  let ?b = "inp ! pos"
  let ?a = "ucast (?b AND 0x7F) * push_bit m 1 :: uint32"
  from "1.prems"(1) have pos: "pos < length inp" and m: "m \<le> 28"
    and ov: "\<not> x > UINT32_MAX - ?a"
    by (subst (asm) hpack_decode_integer_loop.simps;
        simp add: Let_def HPACK_MAX_SHIFT_BITS_def split: if_splits)+
  from ov have a: "unat (x + ?a) = unat x + unat ?a" by (rule unat_add_no_overflow)
  have drop: "drop pos inp = ?b # drop (Suc pos) inp" using pos by (simp add: Cons_nth_drop_Suc)
  show ?case
  proof (cases "?b AND 0x80 = 0")
    case True
    with "1.prems"(1) pos m ov have nv: "n = pos + 1" "v = x + ?a"
      by (subst (asm) hpack_decode_integer_loop.simps;
          simp add: Let_def HPACK_MAX_SHIFT_BITS_def split: if_splits)+
    have "unat v = unat v mod 2 ^ 32" using unat_uint32_less [of v] by simp
    also have "\<dots> = (unat x + (unat ?b mod 128) * 2 ^ m) mod 2 ^ 32"
      unfolding nv a unat_to_add [OF m] by (rule mod_add_right_eq)
    finally show ?thesis using nv m pos drop by simp
  next
    case False
    with "1.prems"(1) pos m ov have
      rec: "hpack_decode_integer_loop inp (pos + 1) (x + ?a) (m + 7) = Some (n, v)"
      by (subst (asm) hpack_decode_integer_loop.simps)
        (simp add: Let_def HPACK_MAX_SHIFT_BITS_def split: if_splits)
    from "1.prems"(2) have "7 dvd m + 7" by simp
    from "1.IH" [OF pos refl _ refl _ _ rec this] m ov False have
      IH: "pos + 1 < n" "n \<le> length inp" "7 * (n - (pos + 1)) + (m + 7) \<le> 35"
        "unat v = (unat (x + ?a) + rfc_cont_value (take (n - (pos + 1)) (drop (pos + 1) inp))
                    * 2 ^ (m + 7)) mod 2 ^ 32"
      by (simp_all add: HPACK_MAX_SHIFT_BITS_def)
    have tk: "take (n - pos) (drop pos inp) = ?b # take (n - (pos + 1)) (drop (pos + 1) inp)"
      using IH(1) drop by (simp add: take_Cons')
    let ?r = "rfc_cont_value (take (n - (pos + 1)) (drop (pos + 1) inp))"
    have "unat v = (unat x + ((unat ?b mod 128) * 2 ^ m mod 2 ^ 32) + ?r * 2 ^ (m + 7)) mod 2 ^ 32"
      unfolding IH(4) a unat_to_add [OF m] ..
    also have "\<dots> = (unat x + (unat ?b mod 128) * 2 ^ m + ?r * 2 ^ (m + 7)) mod 2 ^ 32"
      by (metis (no_types) mod_add_left_eq mod_add_right_eq)
    also have "unat x + (unat ?b mod 128) * 2 ^ m + ?r * 2 ^ (m + 7) =
        unat x + (unat ?b mod 128 + 128 * ?r) * 2 ^ m"
      by (simp add: power_add algebra_simps)
    finally show ?thesis using IH(1-3) tk by auto
  qed
qed

lemma unat_word_of_nat_uint8: "c < 256 \<Longrightarrow> unat (word_of_nat c :: uint8) = c"
  by (simp add: unat_of_nat)

lemma split_digit: "n * 2 ^ m = n mod 128 * 2 ^ m + n div 128 * 2 ^ (m + 7)" for n :: nat
proof -
  have "n * 2 ^ m = (n mod 128 + n div 128 * 128) * 2 ^ m" by simp
  also have "\<dots> = n mod 128 * 2 ^ m + n div 128 * 2 ^ (m + 7)"
    by (simp only: add_mult_distrib power_add) simp
  finally show ?thesis .
qed

lemma next_shift_le:
  assumes "n * 2 ^ m < (2::nat) ^ 32" and "n \<ge> 128" and "7 dvd m"
  shows "m + 7 \<le> 28"
proof -
  have "2 ^ 7 * 2 ^ m \<le> n * 2 ^ m" using assms(2) by simp
  moreover have "(2::nat) ^ (m + 7) = 2 ^ 7 * 2 ^ m" by (simp add: power_add)
  ultimately have "(2::nat) ^ (m + 7) < 2 ^ 32" using assms(1) by linarith
  then have "m + 7 < 32" by (rule power_less_imp_less_exp [rotated]) simp
  with assms(3) show ?thesis by presburger
qed

text \<open>One byte of a continuation: it adds the lowest digit, and is the last one below 128.\<close>

lemma hpack_decode_integer_loop_step:
  assumes "n * 2 ^ m + unat x < 2 ^ 32" and "m \<le> 28"
    and "drop pos inp = word_of_nat (if n \<ge> 128 then n mod 128 + 128 else n) # bs"
  obtains a where "hpack_decode_integer_loop inp pos x m =
      (if n \<ge> 128 then hpack_decode_integer_loop inp (pos + 1) (x + a) (m + 7) else Some (pos + 1, x + a))"
    "a = word_of_nat (n mod 128 * 2 ^ m)" "unat (x + a) = unat x + n mod 128 * 2 ^ m"
    "drop (pos + 1) inp = bs"
proof -
  define c where "c = (if n \<ge> 128 then n mod 128 + 128 else n)"
  have c: "c < 256" "c mod 128 = n mod 128" "c < 128 \<longleftrightarrow> \<not> n \<ge> 128" unfolding c_def by auto
  from assms(3) have d: "drop pos inp = word_of_nat c # bs" by (simp add: c_def)
  then have pos: "pos < length inp" by (metis drop_eq_Nil list.distinct(1) not_le)
  with d have b: "inp ! pos = word_of_nat c" and d': "drop (pos + 1) inp = bs"
    by (simp_all add: Cons_nth_drop_Suc [symmetric])
  let ?a = "ucast (inp ! pos AND 0x7F) * push_bit m 1 :: uint32"
  have "n mod 128 * 2 ^ m \<le> n * 2 ^ m" by (simp add: mult_le_mono1)
  then have lt: "n mod 128 * 2 ^ m + unat x < 2 ^ 32" using assms(1) by linarith
  then have a: "unat ?a = n mod 128 * 2 ^ m"
    unfolding unat_to_add [OF assms(2)] b unat_word_of_nat_uint8 [OF c(1)] c(2) by simp
  have ov: "\<not> x > UINT32_MAX - ?a" unfolding overflow_test a using lt by simp
  have top: "(inp ! pos AND 0x80 = 0) \<longleftrightarrow> \<not> n \<ge> 128"
    unfolding and_80_eq_0_iff b unat_word_of_nat_uint8 [OF c(1)] c(3) ..
  have m: "\<not> m > HPACK_MAX_SHIFT_BITS" using assms(2) by (simp add: HPACK_MAX_SHIFT_BITS_def)
  have "hpack_decode_integer_loop inp pos x m =
      (if n \<ge> 128 then hpack_decode_integer_loop inp (pos + 1) (x + ?a) (m + 7) else Some (pos + 1, x + ?a))"
    using pos m ov top by (subst hpack_decode_integer_loop.simps) (simp add: Let_def)
  moreover have "?a = word_of_nat (n mod 128 * 2 ^ m)" using a by (rule eq_word_of_natI)
  ultimately show ?thesis using unat_add_no_overflow [OF ov] a d' by (intro that [of ?a]) simp_all
qed

lemma hpack_decode_integer_loop_rfc:
  assumes "n * 2 ^ m + unat x < 2 ^ 32" and "m \<le> 28" and "7 dvd m"
    and "drop pos inp = map word_of_nat (rfc_cont n) @ rest"
  shows "hpack_decode_integer_loop inp pos x m =
    Some (pos + length (rfc_cont n), x + word_of_nat (n * 2 ^ m))"
  using assms
proof (induction n arbitrary: pos x m rule: rfc_cont.induct)
  case (1 n)
  let ?cs = "if n \<ge> 128 then rfc_cont (n div 128) else []"
  have r: "rfc_cont n = (if n \<ge> 128 then n mod 128 + 128 else n) # ?cs" by (subst rfc_cont.simps) simp
  from "1.prems"(4) r have
    "drop pos inp = word_of_nat (if n \<ge> 128 then n mod 128 + 128 else n) # map word_of_nat ?cs @ rest" by simp
  with "1.prems"(1,2) obtain a where step: "hpack_decode_integer_loop inp pos x m =
      (if n \<ge> 128 then hpack_decode_integer_loop inp (pos + 1) (x + a) (m + 7) else Some (pos + 1, x + a))"
    and a: "a = word_of_nat (n mod 128 * 2 ^ m)" "unat (x + a) = unat x + n mod 128 * 2 ^ m"
    and d: "drop (pos + 1) inp = map word_of_nat ?cs @ rest"
    by (rule hpack_decode_integer_loop_step)
  show ?case
  proof (cases "n \<ge> 128")
    case True
    have m7: "m + 7 \<le> 28" using "1.prems"(1,3) True by (intro next_shift_le [of n]) simp_all
    have "n div 128 * 2 ^ (m + 7) + unat (x + a) < 2 ^ 32"
      unfolding a(2) using "1.prems"(1) split_digit [of n m] by linarith
    from "1.IH" [OF True this m7] "1.prems"(3) d True have
      "hpack_decode_integer_loop inp (pos + 1) (x + a) (m + 7) =
        Some (pos + 1 + length (rfc_cont (n div 128)), x + a + word_of_nat (n div 128 * 2 ^ (m + 7)))"
      by simp
    with True show ?thesis
      unfolding step r split_digit [of n m] of_nat_add a(1) by (simp add: add.assoc)
  next
    case False
    with step r a show ?thesis by simp
  qed
qed

lemma unat_and_max_prefix:
  assumes "p \<le> (7 :: uint8)"
  shows "unat (ucast (b :: uint8) AND (push_bit (unat p) 1 - 1) :: uint32) = unat b mod 2 ^ unat p"
proof -
  have "(push_bit (unat p) 1 - 1 :: uint32) = mask (unat p)"
    by (simp add: mask_eq_exp_minus_1)
  then show ?thesis
    using unat_uint8_less [of b] by (simp only: unat_and_mask unat_ucast) simp
qed

text \<open>The first byte of an integer: its prefix, and whether a continuation is read.\<close>

lemma hpack_decode_integer_first:
  assumes "p \<le> 7"
  obtains x where "unat x = min (unat v) (2 ^ unat p - 1)"
    "hpack_decode_integer (Some (hpack_int_bytes (unat p) (unat v) @ rest)) p =
      (if unat v < 2 ^ unat p - 1 then Some (1, x)
       else hpack_decode_integer_loop (hpack_int_bytes (unat p) (unat v) @ rest) 1 x 0)"
proof -
  define mp :: uint32 where "mp = push_bit (unat p) 1 - 1"
  have mp: "unat mp = 2 ^ unat p - 1" unfolding mp_def using assms by (rule unat_max_prefix)
  have p7: "unat p \<le> 7" using assms by (simp add: word_le_nat_alt)
  then have le: "(2::nat) ^ unat p \<le> 2 ^ 7" by (intro power_increasing) auto
  have np: "\<not> p > HPACK_INTEGER_MAX_PREFIX_BITS"
    using assms by (simp add: HPACK_INTEGER_MAX_PREFIX_BITS_def)
  let ?bs = "hpack_int_bytes (unat p) (unat v)"
  let ?first = "ucast (hd ?bs) AND mp :: uint32"
  have hd: "hd ?bs = word_of_nat (min (unat v) (2 ^ unat p - 1))" by (simp add: hpack_int_bytes_def)
  have "min (unat v) (2 ^ unat p - 1) < 256" using le by simp
  then have "unat (hd ?bs) = min (unat v) (2 ^ unat p - 1)" unfolding hd by (rule unat_word_of_nat_uint8)
  then have first: "unat ?first = min (unat v) (2 ^ unat p - 1)"
    unfolding mp_def unat_and_max_prefix [OF assms]
    by (simp only:) (rule mod_less, simp add: min_less_iff_disj)
  have "hpack_decode_integer (Some (?bs @ rest)) p =
      (if ?first < mp then Some (1, ?first) else hpack_decode_integer_loop (?bs @ rest) 1 ?first 0)"
    using np hpack_int_bytes_pos [of "unat p" "unat v"]
    unfolding hpack_decode_integer_def Let_def mp_def
    by (simp add: hd_append hd_conv_nth [symmetric])
  moreover have "?first < mp \<longleftrightarrow> unat v < 2 ^ unat p - 1"
    unfolding word_less_nat_alt first mp by auto
  ultimately show ?thesis using first that [of ?first] by simp
qed

lemma hpack_decode_integer_bytes:
  assumes "p \<le> 7"
  shows "hpack_decode_integer (Some (hpack_int_bytes (unat p) (unat v) @ rest)) p =
    Some (length (hpack_int_bytes (unat p) (unat v)), v)"
proof -
  let ?m = "2 ^ unat p - 1 :: nat" and ?bs = "hpack_int_bytes (unat p) (unat v)"
  from assms obtain x where x: "unat x = min (unat v) ?m" and
    dec: "hpack_decode_integer (Some (?bs @ rest)) p =
      (if unat v < ?m then Some (1, x) else hpack_decode_integer_loop (?bs @ rest) 1 x 0)"
    by (rule hpack_decode_integer_first)
  show ?thesis
  proof (cases "unat v < ?m")
    case True
    then have "x = v" "length ?bs = 1" using x by (simp_all add: word_unat_eq_iff hpack_int_bytes_def)
    with True show ?thesis by (simp add: dec)
  next
    case False
    let ?n = "unat v - ?m"
    have bs: "?bs = word_of_nat ?m # map word_of_nat (rfc_cont ?n)" using False by (simp add: hpack_int_bytes_def)
    have "?n * 2 ^ 0 + unat x < 2 ^ 32" using False x unat_uint32_less [of v] by simp
    from hpack_decode_integer_loop_rfc [OF this, of 1 "?bs @ rest" rest]
    have "hpack_decode_integer_loop (?bs @ rest) 1 x 0 = Some (1 + length (rfc_cont ?n), x + word_of_nat ?n)"
      unfolding bs by simp
    moreover have "x + word_of_nat ?n = v"
    proof -
      have "x + word_of_nat ?n = word_of_nat (unat x + ?n)" by simp
      also have "unat x + ?n = unat v" using False x by simp
      finally show ?thesis by simp
    qed
    ultimately show ?thesis unfolding dec using False by (simp add: bs)
  qed
qed

section \<open>Literal header fields\<close>

definition hpack_literal_bytes :: "uint8 list \<Rightarrow> uint8 list \<Rightarrow> uint8 list" where
  "hpack_literal_bytes nm vl =
     0 # hpack_int_bytes 7 (strlen nm) @ c_string nm @ hpack_int_bytes 7 (strlen vl) @ c_string vl"

lemma buf_write_append:
  "pos + length bs \<le> length out \<Longrightarrow>
   buf_write (buf_write out pos bs) (pos + length bs) cs = buf_write out pos (bs @ cs)"
  by (simp add: buf_write_def ac_simps)

lemma buf_write_drop: "take pos out @ buf_write (drop pos out) 0 bs = buf_write out pos bs"
  by (simp add: buf_write_def add.commute)

lemma hpack_encode_integer_at_eq:
  assumes "p \<le> 7" and "pos < length out"
  shows "hpack_encode_integer_at v p pos out =
    (let bs = hpack_int_bytes (unat p) (unat v)
     in (if pos + length bs \<le> length out then int (length bs) else -1, buf_write out pos bs))"
proof -
  from assms(2) have "drop pos out \<noteq> []" by simp
  from hpack_encode_integer_eq [OF assms(1) this, of v] assms(2) show ?thesis
    by (simp add: hpack_encode_integer_at_def Let_def buf_write_drop less_diff_conv le_diff_conv2 add.commute)
qed

lemma length_hpack_int_bytes_7: "n < 2 ^ 28 \<Longrightarrow> length (hpack_int_bytes 7 n) \<le> 5"
  using length_rfc_cont [of 4 "n - (2 ^ 7 - 1)"] by (simp add: hpack_int_bytes_def)

lemma length_hpack_literal_bytes:
  "strlen nm < 2 ^ 28 \<Longrightarrow> strlen vl < 2 ^ 28 \<Longrightarrow>
   length (hpack_literal_bytes nm vl) \<le> 11 + strlen nm + strlen vl"
  using length_hpack_int_bytes_7 [of "strlen nm"] length_hpack_int_bytes_7 [of "strlen vl"]
  by (simp add: hpack_literal_bytes_def)

lemma hpack_encode_literal_header_eq:
  assumes nm: "strlen nm < 2 ^ 28" and vl: "strlen vl < 2 ^ 28"
  shows "hpack_encode_literal_header (Some nm) (Some vl) (Some out) =
    (if length out < 11 + strlen nm + strlen vl then (-1, Some out)
     else (int (length (hpack_literal_bytes nm vl)), Some (buf_write out 0 (hpack_literal_bytes nm vl))))"
proof (cases "length out < 11 + strlen nm + strlen vl")
  case True
  then show ?thesis
    by (simp add: hpack_encode_literal_header_def Let_def HPACK_INTEGER_MAX_BYTES_def)
next
  case False
  define n1 n2 where "n1 = hpack_int_bytes 7 (strlen nm)" and "n2 = hpack_int_bytes 7 (strlen vl)"
  have l: "length n1 \<le> 5" "length n2 \<le> 5"
    unfolding n1_def n2_def using nm vl by (auto intro: length_hpack_int_bytes_7)
  have u: "unat (uint32_of_size (strlen nm)) = strlen nm" "unat (uint32_of_size (strlen vl)) = strlen vl"
    using nm vl by simp_all
  have o1: "out[0 := 0] = buf_write out 0 [0]"
    using False by (cases out) (simp_all add: buf_write_def)
  have e1: "hpack_encode_integer_at (uint32_of_size (strlen nm)) 7 1 (buf_write out 0 [0]) =
      (int (length n1), buf_write out 0 (0 # n1))"
    using False l buf_write_append [of 0 "[0]" out n1]
    by (simp add: hpack_encode_integer_at_eq Let_def u n1_def [symmetric])
  have o3: "buf_write (buf_write out 0 (0 # n1)) (1 + length n1) (c_string nm) =
      buf_write out 0 (0 # n1 @ c_string nm)"
    using False l buf_write_append [of 0 "0 # n1" out "c_string nm"] by simp
  have e2: "hpack_encode_integer_at (uint32_of_size (strlen vl)) 7 (1 + length n1 + strlen nm)
        (buf_write out 0 (0 # n1 @ c_string nm)) =
      (int (length n2), buf_write out 0 (0 # n1 @ c_string nm @ n2))"
    using False l buf_write_append [of 0 "0 # n1 @ c_string nm" out n2]
    by (simp add: hpack_encode_integer_at_eq Let_def u n2_def [symmetric] add.assoc)
  have o5: "buf_write (buf_write out 0 (0 # n1 @ c_string nm @ n2))
        (1 + length n1 + strlen nm + length n2) (c_string vl) =
      buf_write out 0 (hpack_literal_bytes nm vl)"
    using False l buf_write_append [of 0 "0 # n1 @ c_string nm @ n2" out "c_string vl"]
    by (simp add: hpack_literal_bytes_def n1_def [symmetric] n2_def [symmetric] add.assoc)
  have len: "length (hpack_literal_bytes nm vl) = 1 + length n1 + strlen nm + length n2 + strlen vl"
    by (simp add: hpack_literal_bytes_def n1_def n2_def)
  have sz: "int_of_size (1 + length n1 + strlen nm + length n2 + strlen vl) =
      int (1 + length n1 + strlen nm + length n2 + strlen vl)"
    using l nm vl by (intro int_of_size_small) simp
  have "out \<noteq> []" using False by auto
  with False l show ?thesis
    unfolding hpack_encode_literal_header_def len
    by (simp add: Let_def HPACK_INTEGER_MAX_BYTES_def o1 e1 [simplified] o3 [simplified]
        e2 [simplified] o5 [simplified] sz [simplified])
qed

lemma hpack_copy_string_ok:
  assumes "unat len < 2 ^ 32 - 1" and "pos + unat len \<le> length inp"
  shows "hpack_copy_string inp pos len = Inr (take (unat len) (drop pos inp))"
proof -
  have "unat (len + 1) = unat len + 1" using assms(1) by (simp add: unat_word_ariths)
  with assms(2) show ?thesis by (simp add: hpack_copy_string_def)
qed

lemma hpack_decode_int_at:
  assumes "n < 2 ^ 32" and "drop pos inp = hpack_int_bytes 7 n @ rest"
  shows "hpack_decode_integer (Some (drop pos inp)) 7 =
    Some (length (hpack_int_bytes 7 n), uint32_of_size n)"
  using hpack_decode_integer_bytes [of 7 "uint32_of_size n" rest] assms by simp

lemma hpack_decode_literal_header_bytes:
  assumes "strlen nm < 2 ^ 28" and "strlen vl < 2 ^ 28" and "alloc_ok os"
  shows "\<exists>os'. hpack_decode_literal_header (Some (hpack_literal_bytes nm vl @ rest)) os =
    Inr (int (length (hpack_literal_bytes nm vl)), Some (c_string nm, c_string vl), os') \<and> alloc_ok os'"
proof -
  define n1 n2 where "n1 = hpack_int_bytes 7 (strlen nm)" and "n2 = hpack_int_bytes 7 (strlen vl)"
  define inp where "inp = hpack_literal_bytes nm vl @ rest"
  have inp: "inp = 0 # n1 @ c_string nm @ n2 @ c_string vl @ rest"
    by (simp add: inp_def hpack_literal_bytes_def n1_def n2_def)
  have l: "0 < length n1" "length n1 \<le> 5" "0 < length n2" "length n2 \<le> 5"
    unfolding n1_def n2_def using assms hpack_int_bytes_pos by (auto intro: length_hpack_int_bytes_7)
  from assms(3) obtain os1 where os1: "alloc_next os = (True, os1)" "alloc_ok os1"
    by (rule alloc_next_okE)
  from os1(2) obtain os2 where os2: "alloc_next os1 = (True, os2)" "alloc_ok os2"
    by (rule alloc_next_okE)
  have u: "unat (uint32_of_size (strlen nm)) = strlen nm" "unat (uint32_of_size (strlen vl)) = strlen vl"
    using assms by simp_all
  have d1: "hpack_decode_integer (Some (drop 1 inp)) 7 = Some (length n1, uint32_of_size (strlen nm))"
    unfolding n1_def using assms by (intro hpack_decode_int_at) (simp_all add: inp n1_def)
  have d2: "hpack_decode_integer (Some (drop (1 + length n1 + strlen nm) inp)) 7 =
      Some (length n2, uint32_of_size (strlen vl))"
    unfolding n2_def using assms by (intro hpack_decode_int_at) (simp_all add: inp n2_def)
  have k: "hpack_copy_string inp (1 + length n1) (uint32_of_size (strlen nm)) = Inr (c_string nm)"
    using assms(1) by (simp add: hpack_copy_string_ok u inp)
  have v: "hpack_copy_string inp (1 + length n1 + strlen nm + length n2) (uint32_of_size (strlen vl)) =
      Inr (c_string vl)"
    using assms(2) by (simp add: hpack_copy_string_ok u inp)
  have len: "length (hpack_literal_bytes nm vl) = 1 + length n1 + strlen nm + length n2 + strlen vl"
    by (simp add: hpack_literal_bytes_def n1_def n2_def)
  have sz: "int_of_size (1 + length n1 + strlen nm + length n2 + strlen vl) =
      int (1 + length n1 + strlen nm + length n2 + strlen vl)"
    using l assms by (intro int_of_size_small) simp
  have linp: "length inp = 1 + length n1 + strlen nm + length n2 + strlen vl + length rest"
    by (simp add: inp)
  then have "\<not> length inp < 2" using l(1) by linarith
  then show ?thesis
    unfolding inp_def [symmetric]
    using os1 os2 len linp
    by (simp add: hpack_decode_literal_header_def d1 [simplified] d2 [simplified] k [simplified]
        v [simplified] u sz [simplified])
qed

section \<open>Metadata arrays\<close>

definition hpack_metadata_bytes :: "grpc_metadata list \<Rightarrow> uint8 list" where
  "hpack_metadata_bytes mds = concat (map (\<lambda>md. hpack_literal_bytes (md_key md) (md_value md)) mds)"

definition hpack_metadata_room :: "grpc_metadata list \<Rightarrow> nat" where
  "hpack_metadata_room mds = (\<Sum>md\<leftarrow>mds. 11 + strlen (md_key md) + strlen (md_value md))"

abbreviation hpack_small :: "grpc_metadata list \<Rightarrow> bool" where
  "hpack_small mds \<equiv> \<forall>md\<in>set mds. strlen (md_key md) < 2 ^ 28 \<and> strlen (md_value md) < 2 ^ 28"

lemma hpack_metadata_bytes_simps [simp]:
  "hpack_metadata_bytes [] = []"
  "hpack_metadata_bytes (md # mds) =
     hpack_literal_bytes (md_key md) (md_value md) @ hpack_metadata_bytes mds"
  by (simp_all add: hpack_metadata_bytes_def)

lemma hpack_metadata_room_simps [simp]:
  "hpack_metadata_room [] = 0"
  "hpack_metadata_room (md # mds) =
     11 + strlen (md_key md) + strlen (md_value md) + hpack_metadata_room mds"
  by (simp_all add: hpack_metadata_room_def)

lemma hpack_encode_metadata_loop_spec:
  assumes "hpack_small mds" and "length out < 2 ^ 31" and "pos \<le> length out"
    and "hpack_encode_metadata_loop (map Some mds) pos out = (r, out')"
  shows "length out' = length out \<and>
    (if r < 0 then r = -1 \<and> pos + hpack_metadata_room mds > length out
     else r = int (pos + length (hpack_metadata_bytes mds)) \<and>
          pos + length (hpack_metadata_bytes mds) \<le> length out \<and>
          out' = buf_write out pos (hpack_metadata_bytes mds))"
  using assms
proof (induction mds arbitrary: pos out)
  case Nil
  then show ?case by auto
next
  case (Cons md mds)
  let ?k = "md_key md" and ?v = "md_value md"
  let ?bs = "hpack_literal_bytes ?k ?v"
  have small: "strlen ?k < 2 ^ 28" "strlen ?v < 2 ^ 28" and mds: "hpack_small mds"
    using Cons.prems(1) by auto
  note h = hpack_encode_literal_header_eq [OF small, of "drop pos out"]
  have len: "length ?bs \<le> 11 + strlen ?k + strlen ?v"
    using small by (rule length_hpack_literal_bytes)
  show ?case
  proof (cases "length out - pos < 11 + strlen ?k + strlen ?v")
    case True
    then have "r = -1" "out' = out" using Cons.prems(4) h by (auto simp: Let_def)
    then show ?thesis using True by auto
  next
    case False
    let ?out = "buf_write out pos ?bs"
    from False Cons.prems(4) h
    have rec: "hpack_encode_metadata_loop (map Some mds) (pos + length ?bs) ?out = (r, out')"
      by (simp add: Let_def buf_write_drop)
    have "length ?out < 2 ^ 31" "pos + length ?bs \<le> length ?out"
      using Cons.prems(2) False len Cons.prems(3) by simp_all
    from Cons.IH [OF mds this rec] have IH: "length out' = length out"
      "if r < 0 then r = -1 \<and> pos + length ?bs + hpack_metadata_room mds > length out
       else r = int (pos + length ?bs + length (hpack_metadata_bytes mds)) \<and>
          pos + length ?bs + length (hpack_metadata_bytes mds) \<le> length out \<and>
          out' = buf_write ?out (pos + length ?bs) (hpack_metadata_bytes mds)"
      by (auto split: if_splits)
    have "pos + length ?bs \<le> length out" using False len Cons.prems(3) by simp
    from buf_write_append [OF this] IH len show ?thesis
      by (auto split: if_splits)
  qed
qed

lemma hpack_decode_integer_sound_aux:
  assumes "hpack_decode_integer (Some bs) p = Some (n, v)"
  shows "p \<le> 7 \<and> 1 \<le> n \<and> n \<le> length bs \<and> n \<le> 6 \<and>
    unat v = rfc_int_value (unat p) (take n bs) mod 2 ^ 32"
proof -
  define mp :: uint32 where "mp = push_bit (unat p) 1 - 1"
  let ?first = "ucast (bs ! 0) AND mp :: uint32"
  from assms have bs: "bs \<noteq> []" and p: "p \<le> 7"
    and dec: "(if ?first < mp then Some (1, ?first)
               else hpack_decode_integer_loop bs 1 ?first 0) = Some (n, v)"
    by (auto simp: hpack_decode_integer_def HPACK_INTEGER_MAX_PREFIX_BITS_def Let_def mp_def
        split: if_splits)
  have first: "unat ?first = unat (hd bs) mod 2 ^ unat p"
    unfolding mp_def unat_and_max_prefix [OF p] using bs by (simp add: hd_conv_nth)
  obtain c cs where c: "bs = c # cs" using bs by (cases bs) auto
  show ?thesis
  proof (cases "?first < mp")
    case True
    with dec have nv: "n = 1" "v = ?first" by auto
    have "unat v = unat v mod 2 ^ 32" using unat_uint32_less [of v] by simp
    with nv first c p show ?thesis by (simp add: rfc_int_value_def)
  next
    case False
    with dec have "hpack_decode_integer_loop bs 1 ?first 0 = Some (n, v)" by simp
    from hpack_decode_integer_loop_sound [OF this] have s: "1 < n" "n \<le> length bs" "7 * (n - 1) \<le> 35"
      "unat v = (unat ?first + rfc_cont_value (take (n - 1) (drop 1 bs))) mod 2 ^ 32"
      by simp_all
    moreover have "take (n - 1) (drop 1 bs) = tl (take n bs)" "hd (take n bs) = hd bs"
      using s(1) c by (auto simp: take_Cons')
    ultimately show ?thesis using p first by (simp add: rfc_int_value_def)
  qed
qed

lemma hpack_decode_integer_bounds:
  "hpack_decode_integer (Some bs) p = Some (n, v) \<Longrightarrow> 1 \<le> n \<and> n \<le> length bs"
  using hpack_decode_integer_sound_aux by blast

lemma hpack_decode_literal_header_total:
  assumes "length inp < 2 ^ 31"
  shows "(\<exists>os'. hpack_decode_literal_header (Some inp) os = Inr (-1, None, os')) \<or>
    (\<exists>r k v os'. hpack_decode_literal_header (Some inp) os = Inr (int r, Some (k, v), os') \<and>
       3 \<le> r \<and> r \<le> length inp \<and> (alloc_ok os \<longrightarrow> alloc_ok os'))"
proof -
  have copy: "hpack_copy_string inp p l = Inr (take (unat l) (drop p inp))"
    if "p + unat l \<le> length inp" for p l
    using that assms by (intro hpack_copy_string_ok) simp_all
  have size: "int_of_size r = int r" if "r \<le> length inp" for r
    using that assms by (intro int_of_size_small) simp
  note def = hpack_decode_literal_header_def Let_def
  show ?thesis
  proof (cases "length inp < 2 \<or> hpack_decode_integer (Some (drop 1 inp)) 7 = None")
    case True
    then show ?thesis by (auto simp: def)
  next
    case False
    then obtain a b where ab: "hpack_decode_integer (Some (drop 1 inp)) 7 = Some (a, b)"
      and two: "\<not> length inp < 2" by force
    obtain ok1 os1 where os1: "alloc_next os = (ok1, os1)" by force
    let ?p = "1 + a + unat b"
    show ?thesis
    proof (cases "?p > length inp \<or> \<not> ok1 \<or> hpack_decode_integer (Some (drop ?p inp)) 7 = None")
      case True
      then show ?thesis using ab two os1 copy [of "1 + a" b] by (auto simp: def)
    next
      case False
      then obtain c d where cd: "hpack_decode_integer (Some (drop ?p inp)) 7 = Some (c, d)"
        and p: "\<not> ?p > length inp" and ok1 by force
      obtain ok2 os2 where os2: "alloc_next os1 = (ok2, os2)" by force
      let ?q = "?p + c + unat d"
      from p copy have cb: "hpack_copy_string inp (1 + a) b = Inr (take (unat b) (drop (1 + a) inp))"
        by simp
      show ?thesis
      proof (cases "?q > length inp \<or> \<not> ok2")
        case True
        then show ?thesis using ab two os1 \<open>ok1\<close> p cb cd os2 by (auto simp: def)
      next
        case False
        then have "hpack_copy_string inp (?p + c) d = Inr (take (unat d) (drop (?p + c) inp))"
          using copy by simp
        moreover have "3 \<le> ?q"
          using hpack_decode_integer_bounds [OF ab] hpack_decode_integer_bounds [OF cd] by linarith
        moreover have "int_of_size ?q = int ?q" using False size by simp
        moreover have "alloc_ok os \<longrightarrow> alloc_ok os2" using os1 os2 by (cases os; cases os1) auto
        ultimately show ?thesis
          using ab two os1 \<open>ok1\<close> p cb cd os2 False
          by (intro disjI2 exI [of _ ?q]) (auto simp: def)
      qed
    qed
  qed
qed

definition md_truncate :: "grpc_metadata \<Rightarrow> grpc_metadata" where
  "md_truncate md = \<lparr>md_key = c_string (md_key md), md_value = c_string (md_value md),
                     md_value_length = strlen (md_value md)\<rparr>"

lemma hpack_decode_metadata_loop_bytes:
  assumes "hpack_small mds" and "drop pos inp = hpack_metadata_bytes mds" and "pos \<le> length inp"
    and "md_wf a" and "alloc_ok os"
  shows "\<exists>a' os'. hpack_decode_metadata_loop inp pos a os = Some (Inr (0, a', os')) \<and>
    md_wf a' \<and> md_list a' = md_list a @ map md_truncate mds"
  using assms
proof (induction mds arbitrary: pos a os)
  case Nil
  then have "hpack_decode_metadata_loop inp pos a os = Some (Inr (0, a, os))"
    by (subst hpack_decode_metadata_loop.simps) simp
  with Nil.prems show ?case by simp
next
  case (Cons md mds)
  let ?k = "md_key md" and ?v = "md_value md"
  let ?bs = "hpack_literal_bytes ?k ?v"
  have small: "strlen ?k < 2 ^ 28" "strlen ?v < 2 ^ 28" and mds: "hpack_small mds"
    using Cons.prems(1) by auto
  have d: "drop pos inp = ?bs @ hpack_metadata_bytes mds" using Cons.prems(2) by simp
  then have pos: "pos < length inp"
    by (metis append_is_Nil_conv drop_eq_Nil hpack_literal_bytes_def list.distinct(1) not_le)
  from hpack_decode_literal_header_bytes [OF small Cons.prems(5), of "hpack_metadata_bytes mds"]
  obtain os1 where h: "hpack_decode_literal_header (Some (drop pos inp)) os =
      Inr (int (length ?bs), Some (c_string ?k, c_string ?v), os1)" "alloc_ok os1"
    unfolding d by blast
  let ?e = "\<lparr>md_key = c_string ?k, md_value = c_string ?v, md_value_length = strlen ?v\<rparr>"
  have cap: "md_capacity a < md_capacity a * 2" using Cons.prems(4) by (auto simp: md_wf_def)
  from md.grow_put [OF Cons.prems(4) cap, of os1 ?e] h(2) obtain a1 os2 a2 where
    g: "md_grow a (md_capacity a * 2) os1 = Inr (True, a1, os2)" "md_put a1 ?e = Inr a2"
      "md_wf a2" "md_list a2 = md_list a @ [?e]" "alloc_ok os2"
    by auto
  have step: "hpack_decode_metadata_loop inp pos a os =
      hpack_decode_metadata_loop inp (pos + length ?bs) a2 os2"
    using pos h(1) g(1,2) by (subst hpack_decode_metadata_loop.simps) simp
  have "drop (pos + length ?bs) inp = drop (length ?bs) (drop pos inp)" by (simp add: add.commute)
  also have "\<dots> = hpack_metadata_bytes mds" unfolding d by simp
  finally have d': "drop (pos + length ?bs) inp = hpack_metadata_bytes mds" .
  have "length ?bs \<le> length (drop pos inp)" unfolding d by simp
  then have "pos + length ?bs \<le> length inp" using pos by simp
  from Cons.IH [OF mds d' this g(3,5)] g(4) step show ?case by (auto simp: md_truncate_def)
qed

lemma hpack_decode_metadata_loop_total:
  assumes "length inp < 2 ^ 31" and "md_wf a"
  shows "\<exists>r a' os'. hpack_decode_metadata_loop inp pos a os = Some (Inr (r, a', os')) \<and>
    (r = 0 \<and> md_wf a' \<or> r = -1 \<and> (md_block a' = Freed_Block \<or> md_wf a' \<and> \<not> alloc_ok os))"
  using assms(2)
proof (induction "length inp - pos" arbitrary: pos a os rule: less_induct)
  case less
  show ?case
  proof (cases "pos < length inp")
    case False
    with less.prems show ?thesis by (subst hpack_decode_metadata_loop.simps) simp
  next
    case True
    have "length (drop pos inp) < 2 ^ 31" using assms(1) by simp
    from hpack_decode_literal_header_total [OF this, of os] show ?thesis
    proof (elim disjE exE conjE)
      fix os'
      assume "hpack_decode_literal_header (Some (drop pos inp)) os = Inr (- 1, None, os')"
      with True show ?thesis by (subst hpack_decode_metadata_loop.simps) simp
    next
      fix n k v os1
      assume h: "hpack_decode_literal_header (Some (drop pos inp)) os = Inr (int n, Some (k, v), os1)"
        and n: "3 \<le> n" "n \<le> length (drop pos inp)" and ok: "alloc_ok os \<longrightarrow> alloc_ok os1"
      let ?e = "\<lparr>md_key = k, md_value = v, md_value_length = strlen v\<rparr>"
      have cap: "md_capacity a < md_capacity a * 2" using less.prems by (auto simp: md_wf_def)
      from md.grow_put [OF less.prems cap, of os1 ?e] show ?thesis
      proof (elim disjE exE conjE)
        fix os2
        assume "md_grow a (md_capacity a * 2) os1 = Inr (False, a, os2)" and "\<not> alloc_ok os1"
        with True h less.prems ok show ?thesis by (subst hpack_decode_metadata_loop.simps) simp
      next
        fix a1 os2 a2
        assume g: "md_grow a (md_capacity a * 2) os1 = Inr (True, a1, os2)" "md_put a1 ?e = Inr a2"
          "md_wf a2" "alloc_ok os1 \<longrightarrow> alloc_ok os2"
        have "hpack_decode_metadata_loop inp pos a os = hpack_decode_metadata_loop inp (pos + n) a2 os2"
          using True h g(1,2) by (subst hpack_decode_metadata_loop.simps) simp
        moreover have "length inp - (pos + n) < length inp - pos" using n True by simp
        ultimately show ?thesis using less.hyps [of "pos + n" a2 os2] g(3,4) ok by auto
      qed
    qed
  qed
qed

lemma md_read_wf: "md_wf a \<Longrightarrow> md_read a = Inr (map Some (md_list a))"
proof -
  assume "md_wf a"
  then obtain slots where s: "md_block a = Live_Block slots" "md_count a \<le> length slots"
    "None \<notin> set (take (md_count a) slots)"
    by (auto simp: md_wf_def)
  have "map Some (map the xs) = xs" if "None \<notin> set xs" for xs :: "grpc_metadata option list"
    using that by (induction xs) auto
  from this [OF s(3)] s(1,2) show ?thesis by (simp add: md_read_def md_list_def)
qed

section \<open>Properties\<close>

text \<open>
  C4. The integer encoder computes the RFC 7541 encoding: for every value, every prefix of at
  most seven bits and every non-empty buffer it writes the bytes of the encoding from the start
  of the buffer, never past its end, leaves the rest of the buffer as it was, and returns the
  length of the encoding, or -1 exactly when the encoding does not fit.
\<close>

theorem hpack_encode_integer_spec:
  assumes "p \<le> 7" and "out \<noteq> []"
  shows "hpack_encode_integer v p (Some out) =
    (let bs = hpack_int_bytes (unat p) (unat v)
     in (if length bs \<le> length out then int (length bs) else -1,
         Some (take (length out) bs @ drop (length bs) out)))"
  using hpack_encode_integer_eq [OF assms, of v] by (simp add: Let_def buf_write_def)

theorem hpack_encode_integer_spec_witness:
  "hpack_encode_integer 1337 5 (Some [0, 0, 0, 9]) = (3, Some [31, 154, 10, 9])"
  using hpack_encode_integer_spec [of 5 "[0, 0, 0, 9]" 1337]
  by (simp add: hpack_int_bytes_def rfc_cont.simps)

text \<open>
  C3. Integer round trip: in a buffer of six bytes or more the encoder succeeds for every 32-bit
  value and every prefix of at most seven bits, and the decoder reads exactly the written bytes
  and returns the value, whatever bytes follow.
\<close>

theorem hpack_integer_roundtrip:
  assumes "p \<le> 7" and "6 \<le> length out"
  shows "\<exists>n out'. hpack_encode_integer v p (Some out) = (int n, Some out') \<and> 1 \<le> n \<and> n \<le> 6 \<and>
    length out' = length out \<and> drop n out' = drop n out \<and>
    hpack_decode_integer (Some (take n out' @ rest)) p = Some (n, v)"
proof -
  let ?bs = "hpack_int_bytes (unat p) (unat v)"
  have len: "1 \<le> length ?bs" "length ?bs \<le> 6"
    using hpack_int_bytes_pos [of "unat p" "unat v"] length_hpack_int_bytes [OF unat_uint32_less [of v]]
    by (auto simp only: Suc_le_eq One_nat_def)
  from assms(2) have "out \<noteq> []" by auto
  from hpack_encode_integer_eq [OF assms(1) this, of v] len assms(2)
  have "hpack_encode_integer v p (Some out) = (int (length ?bs), Some (?bs @ drop (length ?bs) out))"
    by (simp add: Let_def buf_write_fits)
  moreover have "hpack_decode_integer (Some (?bs @ rest)) p = Some (length ?bs, v)"
    using assms(1) by (rule hpack_decode_integer_bytes)
  ultimately show ?thesis
    using len assms(2)
    by (intro exI [of _ "length ?bs"] exI [of _ "?bs @ drop (length ?bs) out"]) simp
qed

theorem hpack_integer_roundtrip_witness:
  "\<exists>n out'. hpack_encode_integer 4294967295 7 (Some [1, 2, 3, 4, 5, 6, 7]) = (int n, Some out') \<and>
    1 \<le> n \<and> n \<le> 6 \<and> drop n out' = drop n [1, 2, 3, 4, 5, 6, 7] \<and>
    hpack_decode_integer (Some (take n out' @ [255, 255])) 7 = Some (n, 4294967295)"
  using hpack_integer_roundtrip [of 7 "[1, 2, 3, 4, 5, 6, 7]" 4294967295 "[255, 255]"] by auto

text \<open>
  C5. The integer decoder on arbitrary bytes: when it succeeds it has read between one and six
  bytes, all of them inside the input, and its value is the integer these bytes encode modulo
  \<open>2 ^ 32\<close>; with at most five bytes it is that integer.
\<close>

theorem hpack_decode_integer_sound:
  assumes "hpack_decode_integer (Some bs) p = Some (n, v)"
  shows "1 \<le> n \<and> n \<le> 6 \<and> n \<le> length bs \<and>
    unat v = rfc_int_value (unat p) (take n bs) mod 2 ^ 32 \<and>
    (n \<le> 5 \<longrightarrow> unat v = rfc_int_value (unat p) (take n bs))"
proof -
  note s = hpack_decode_integer_sound_aux [OF assms]
  have cont: "rfc_cont_value cs < 128 ^ length cs" for cs
    by (induction cs) auto
  have "rfc_int_value (unat p) (take n bs) < 2 ^ 32" if "n \<le> 5"
  proof -
    have "length (tl (take n bs)) \<le> 4" using that by simp
    then have "(128 :: nat) ^ length (tl (take n bs)) \<le> 128 ^ 4" by (intro power_increasing) auto
    moreover have "unat (hd (take n bs)) mod 2 ^ unat p < 256"
      by (rule le_less_trans [OF mod_less_eq_dividend unat_uint8_less])
    ultimately show ?thesis
      using cont [of "tl (take n bs)"] by (simp add: rfc_int_value_def)
  qed
  with s show ?thesis by auto
qed

theorem hpack_decode_integer_sound_witness:
  "hpack_decode_integer (Some [31, 154, 10, 7]) 5 = Some (3, 1337) \<and>
   unat (1337 :: uint32) = rfc_int_value (unat (5 :: uint8)) (take 3 [31, 154, 10, 7])"
proof -
  have d: "hpack_decode_integer (Some [31, 154, 10, 7]) 5 = Some (3, 1337)"
    by (simp add: hpack_decode_integer_def HPACK_INTEGER_MAX_PREFIX_BITS_def Let_def
        hpack_decode_integer_loop.simps HPACK_MAX_SHIFT_BITS_def UINT32_MAX_def)
  with hpack_decode_integer_sound [OF d] show ?thesis by simp
qed

text \<open>
  The overflow test of the decoder comes after the multiplication has already wrapped: an
  encoding of \<open>2 ^ 32 + 127\<close> is accepted and decoded to 127, although the code means to reject
  integers that do not fit 32 bits.
\<close>

theorem hpack_decode_integer_accepts_overflow:
  "hpack_decode_integer (Some [0x7F, 0x80, 0x80, 0x80, 0x80, 0x10]) 7 = Some (6, 127) \<and>
   rfc_int_value 7 [0x7F, 0x80, 0x80, 0x80, 0x80, 0x10] = 2 ^ 32 + 127"
  by (simp add: hpack_decode_integer_def HPACK_INTEGER_MAX_PREFIX_BITS_def Let_def
      hpack_decode_integer_loop.simps HPACK_MAX_SHIFT_BITS_def UINT32_MAX_def rfc_int_value_def)

lemma hpack_metadata_decodes:
  assumes "\<forall>md\<in>set mds. strlen (md_key md) < 2 ^ 28 \<and> strlen (md_value md) < 2 ^ 28" and "alloc_ok os"
  obtains a' os' where "hpack_decode_metadata (Some (hpack_metadata_bytes mds)) (Some b) os = Some (Inr (0, Some a', os'))"
    and "md_wf a'" and "md_list a' = map md_truncate mds"
proof -
  let ?bs = "hpack_metadata_bytes mds"
  let ?b = "b\<lparr>md_count := 0, md_capacity := HPACK_DECODE_INITIAL_CAPACITY,
              md_block := block_calloc HPACK_DECODE_INITIAL_CAPACITY\<rparr>"
  have wf: "md_wf ?b" and l: "md_list ?b = []"
    by (simp_all add: md_wf_def md_list_def block_calloc_def HPACK_DECODE_INITIAL_CAPACITY_def)
  from assms(2) obtain os1 where os1: "alloc_next os = (True, os1)" "alloc_ok os1"
    by (rule alloc_next_okE)
  from hpack_decode_metadata_loop_bytes [OF assms(1) _ _ wf os1(2), of 0 ?bs] l
  obtain a' os' where d: "hpack_decode_metadata_loop ?bs 0 ?b os1 = Some (Inr (0, a', os'))"
    "md_wf a'" "md_list a' = map md_truncate mds"
    by auto
  have "hpack_decode_metadata (Some ?bs) (Some b) os = Some (Inr (0, Some a', os'))"
    using os1(1) d(1) by (simp add: hpack_decode_metadata_def)
  with d(2,3) that show ?thesis by blast
qed

lemma hpack_metadata_encodes:
  assumes "md_wf a"
    and "\<forall>md\<in>set (md_list a). strlen (md_key md) < 2 ^ 28 \<and> strlen (md_value md) < 2 ^ 28"
    and "length out < 2 ^ 31" and "hpack_metadata_room (md_list a) \<le> length out"
  defines "bs \<equiv> hpack_metadata_bytes (md_list a)"
  shows "hpack_encode_metadata (Some a) (Some out) = Inr (int (length bs), Some (bs @ drop (length bs) out))"
    and "length bs \<le> length out"
proof -
  obtain r out' where e: "hpack_encode_metadata_loop (map Some (md_list a)) 0 out = (r, out')"
    by force
  from hpack_encode_metadata_loop_spec [OF assms(2,3) _ e] assms(4)
  have out': "r = int (length bs)" "length bs \<le> length out" "out' = bs @ drop (length bs) out"
    by (auto simp: bs_def buf_write_fits split: if_splits)
  show "length bs \<le> length out" by (rule out'(2))
  show "hpack_encode_metadata (Some a) (Some out) = Inr (int (length bs), Some (bs @ drop (length bs) out))"
    using e out' by (simp add: hpack_encode_metadata_def md_read_wf [OF assms(1)])
qed

text \<open>
  C1. Metadata round trip: a well-formed array whose strings are shorter than \<open>2 ^ 28\<close> bytes is
  encoded into every buffer (smaller than 2 GiB) that has the room the code asks for; only the
  written part of the buffer changes; and decoding the written bytes with working allocations
  returns 0 and an array with the same entries in the same order, keys and values cut at their
  first zero byte and the value lengths those of the cut values.
\<close>

theorem hpack_metadata_roundtrip:
  assumes "md_wf a"
    and "\<forall>md\<in>set (md_list a). strlen (md_key md) < 2 ^ 28 \<and> strlen (md_value md) < 2 ^ 28"
    and "length out < 2 ^ 31" and "hpack_metadata_room (md_list a) \<le> length out"
    and "alloc_ok os"
  shows "\<exists>n out' a' os'. hpack_encode_metadata (Some a) (Some out) = Inr (int n, Some out') \<and>
    n \<le> length out \<and> length out' = length out \<and> drop n out' = drop n out \<and>
    hpack_decode_metadata (Some (take n out')) (Some b) os = Some (Inr (0, Some a', os')) \<and>
    md_wf a' \<and> md_list a' = map md_truncate (md_list a)"
proof -
  let ?bs = "hpack_metadata_bytes (md_list a)"
  from assms(2,5) obtain a' os' where
    d: "hpack_decode_metadata (Some ?bs) (Some b) os = Some (Inr (0, Some a', os'))" "md_wf a'"
      "md_list a' = map md_truncate (md_list a)" by (rule hpack_metadata_decodes)
  with hpack_metadata_encodes [OF assms(1-4)] show ?thesis
    by (intro exI [of _ "length ?bs"] exI [of _ "?bs @ drop (length ?bs) out"] exI [of _ a'] exI [of _ os']) simp
qed

theorem hpack_metadata_roundtrip_witness:
  "\<exists>n out' a' os'. hpack_encode_metadata
      (Some \<lparr>md_count = 1, md_capacity = 1, md_block = Live_Block [Some
         \<lparr>md_key = [97], md_value = [1, 0, 2], md_value_length = 3\<rparr>]\<rparr>) (Some (replicate 20 7)) =
      Inr (int n, Some out') \<and>
    hpack_decode_metadata (Some (take n out')) (Some grpc_metadata_array_zero) [] =
      Some (Inr (0, Some a', os')) \<and>
    md_list a' = [\<lparr>md_key = [97], md_value = [1], md_value_length = 1\<rparr>]"
proof -
  let ?a = "\<lparr>md_count = 1, md_capacity = 1, md_block = Live_Block [Some
         \<lparr>md_key = [97], md_value = [1, 0, 2], md_value_length = 3\<rparr>]\<rparr>"
  have "md_wf ?a" by (simp add: md_wf_def)
  moreover have l: "md_list ?a = [\<lparr>md_key = [97], md_value = [1, 0, 2], md_value_length = 3\<rparr>]"
    by (simp add: md_list_def)
  ultimately show ?thesis
    using hpack_metadata_roundtrip [of ?a "replicate 20 7" "[]" grpc_metadata_array_zero]
    unfolding l by (auto simp: strlen_def md_truncate_def)
qed

text \<open>
  C2. Decoding metadata from arbitrary bytes (less than 2 GiB of them) always ends and never
  touches memory outside its blocks, for every pattern of allocation failures; it returns 0 with
  a well-formed array, or -1.
\<close>

theorem hpack_decode_metadata_total:
  assumes "length inp < 2 ^ 31"
  shows "\<exists>r a' os'. hpack_decode_metadata (Some inp) (Some a) os = Some (Inr (r, Some a', os')) \<and>
    (r = 0 \<and> md_wf a' \<or> r = -1)"
proof -
  let ?a = "a\<lparr>md_count := 0, md_capacity := HPACK_DECODE_INITIAL_CAPACITY,
              md_block := block_calloc HPACK_DECODE_INITIAL_CAPACITY\<rparr>"
  have "md_wf ?a"
    by (simp add: md_wf_def block_calloc_def HPACK_DECODE_INITIAL_CAPACITY_def)
  from hpack_decode_metadata_loop_total [OF assms this, of 0 "snd (alloc_next os)"] show ?thesis
    by (cases "alloc_next os"; cases "fst (alloc_next os)") (auto simp: hpack_decode_metadata_def)
qed

theorem hpack_decode_metadata_total_witness:
  "\<exists>r a' os'. hpack_decode_metadata (Some [0, 255, 255]) (Some grpc_metadata_array_zero) [True, False] =
      Some (Inr (r, Some a', os')) \<and> (r = 0 \<and> md_wf a' \<or> r = -1)"
  using hpack_decode_metadata_total [of "[0, 255, 255]" grpc_metadata_array_zero "[True, False]"]
  by simp

text \<open>
  Whenever decoding fails on malformed input (the allocations having worked), the caller's
  array still holds the address of the freed block: the natural clean-up call
  \<open>grpc_metadata_array_destroy\<close> on it touches or frees freed memory.
\<close>

theorem hpack_decode_metadata_failure_dangles:
  assumes "length inp < 2 ^ 31" and "alloc_ok os"
    and "hpack_decode_metadata (Some inp) (Some a) os = Some (Inr (-1, Some a', os'))"
  shows "grpc_metadata_array_destroy (Some a') \<in> {Inl Use_After_Free, Inl Double_Free}"
proof -
  let ?a = "a\<lparr>md_count := 0, md_capacity := HPACK_DECODE_INITIAL_CAPACITY,
              md_block := block_calloc HPACK_DECODE_INITIAL_CAPACITY\<rparr>"
  have wf: "md_wf ?a"
    by (simp add: md_wf_def block_calloc_def HPACK_DECODE_INITIAL_CAPACITY_def)
  from assms(2) obtain os1 where os1: "alloc_next os = (True, os1)" "alloc_ok os1"
    by (rule alloc_next_okE)
  from hpack_decode_metadata_loop_total [OF assms(1) wf, of 0 os1] os1 assms(3)
  have "md_block a' = Freed_Block"
    by (auto simp: hpack_decode_metadata_def)
  then show ?thesis by (simp add: grpc_metadata_array_destroy_def)
qed

theorem hpack_decode_metadata_failure_dangles_witness:
  "\<exists>a' os'. hpack_decode_metadata (Some [0]) (Some grpc_metadata_array_zero) [] =
      Some (Inr (-1, Some a', os')) \<and>
    grpc_metadata_array_destroy (Some a') \<in> {Inl Use_After_Free, Inl Double_Free}"
proof -
  let ?a = "grpc_metadata_array_zero\<lparr>md_count := 0, md_capacity := HPACK_DECODE_INITIAL_CAPACITY,
              md_block := Freed_Block\<rparr>"
  have d: "hpack_decode_metadata (Some [0]) (Some grpc_metadata_array_zero) [] =
      Some (Inr (-1, Some ?a, []))"
    by (simp add: hpack_decode_metadata_def hpack_decode_metadata_loop.simps
        hpack_decode_literal_header_def)
  from hpack_decode_metadata_failure_dangles [OF _ _ d] d show ?thesis by auto
qed

end
