(* ===== verification/Compression.thy ===== *)
theory Compression
  imports Prelude
begin

text \<open>
  Compression, \<^verbatim>\<open>src/compression.c\<close> and its wrappers in \<^verbatim>\<open>src/enhanced_features.c\<close>. zlib is a
  parameter: a record of the functions the code calls, over an abstract stream state. An
  output block is the memory at \<open>*output\<close>, with slots that are \<open>None\<close> until written. Writes go
  through an index into the block, and the 32-bit fields of a zlib stream cut the lengths that
  are stored in them. What \<open>realloc\<close> to size 0 does is up to the C library: \<open>frees0\<close> says that
  it frees the block and returns \<open>NULL\<close>.
\<close>

section \<open>The library\<close>

datatype zret = Z_OK | Z_STREAM_END | Z_BUF_ERROR | Z_OTHER

text \<open>
  \<open>z_deflate\<close> compresses all of the input into at most the given number of bytes with
  \<open>Z_FINISH\<close>; \<open>z_inflate_init\<close> sets a stream up for an input (\<open>None\<close> when it fails) and each
  \<open>z_inflate\<close> writes at most the given number of bytes.
\<close>

record 'z zlib =
  z_bound :: "nat \<Rightarrow> nat"
  z_deflate_init :: bool
  z_deflate :: "uint8 list \<Rightarrow> nat \<Rightarrow> zret \<times> uint8 list"
  z_inflate_init :: "uint8 list \<Rightarrow> 'z option"
  z_inflate :: "'z \<Rightarrow> nat \<Rightarrow> zret \<times> 'z \<times> uint8 list"

text \<open>The result, \<open>*output\<close> and \<open>*output_len\<close>.\<close>

type_synonym comp_out = "int \<times> uint8 block \<times> nat"

definition GRPC_COMPRESS_NONE :: string where "GRPC_COMPRESS_NONE = ''identity''"
definition GRPC_COMPRESS_GZIP :: string where "GRPC_COMPRESS_GZIP = ''gzip''"
definition GRPC_COMPRESS_DEFLATE :: string where "GRPC_COMPRESS_DEFLATE = ''deflate''"

text \<open>A \<open>size_t\<close> stored in a field \<open>avail_in\<close> or \<open>avail_out\<close>.\<close>

definition z_avail :: "nat \<Rightarrow> nat" where
  "z_avail n = unat (uint32_of_size n)"

definition write_at :: "uint8 option list \<Rightarrow> nat \<Rightarrow> uint8 list \<Rightarrow> uint8 option list exec" where
  "write_at buf pos bs =
     (if pos + length bs \<le> length buf then Inr (take pos buf @ map Some bs @ drop (pos + length bs) buf)
      else Inl Out_Of_Bounds)"

text \<open>The last step of both directions: the block is cut to the bytes that were produced.\<close>

definition shrink_output :: "bool \<Rightarrow> uint8 option list \<Rightarrow> nat \<Rightarrow> alloc \<Rightarrow> comp_out \<times> alloc" where
  "shrink_output frees0 buf tot os =
     (if tot = 0 then ((0, if frees0 then Freed_Block else Live_Block [], 0), os)
      else
        (let (ok, os1) = alloc_next os
         in ((0, Live_Block (if ok then take tot buf else buf), tot), os1)))"

section \<open>Compressing\<close>

definition compress_gzip ::
    "'z zlib \<Rightarrow> bool \<Rightarrow> uint8 list option \<Rightarrow> comp_out \<Rightarrow> alloc \<Rightarrow> (comp_out \<times> alloc) exec" where
  "compress_gzip z frees0 input out os =
     (case input of
        None \<Rightarrow> Inr ((-1, snd out), os)
      | Some inp \<Rightarrow>
          if inp = [] then Inr ((-1, snd out), os)
          else
            (let output_len = z_bound z (length inp) + 12;
                 (ok, os1) = alloc_next os
             in if \<not> ok then Inr ((-1, Null_Block, output_len), os1)
                else if \<not> z_deflate_init z then Inr ((-1, Null_Block, output_len), os1)
                else
                  (case z_deflate z (take (z_avail (length inp)) inp) (z_avail output_len) of
                     (r, bs) \<Rightarrow>
                       exec_bind (write_at (replicate output_len None) 0 bs) (\<lambda>buf.
                         if r \<noteq> Z_STREAM_END then Inr ((-1, Null_Block, output_len), os1)
                         else Inr (shrink_output frees0 buf (length bs) os1)))))"

section \<open>Decompressing\<close>

text \<open>The loop: the stream, the buffer, the write position, \<open>avail_out\<close>, \<open>total_out\<close>. The outer
  \<open>None\<close> is a loop that does not end.\<close>

partial_function (option) inflate_loop ::
    "('z \<Rightarrow> nat \<Rightarrow> zret \<times> 'z \<times> uint8 list) \<Rightarrow> bool \<Rightarrow> 'z \<Rightarrow> uint8 option list \<Rightarrow> nat \<Rightarrow> nat \<Rightarrow> nat \<Rightarrow> alloc \<Rightarrow>
     (comp_out \<times> alloc) exec option" where
  "inflate_loop inflate frees0 z buf pos avail tot os =
     (case inflate z avail of
        (r, z', bs) \<Rightarrow>
          (case write_at buf pos bs of
             Inl e \<Rightarrow> Some (Inl e)
           | Inr buf' \<Rightarrow>
               if r = Z_STREAM_END then Some (Inr (shrink_output frees0 buf' (tot + length bs) os))
               else if r = Z_BUF_ERROR \<and> avail - length bs = 0 then
                 (case alloc_next os of
                    (ok, os1) \<Rightarrow>
                      if \<not> ok then Some (Inr ((-1, Null_Block, length buf), os1))
                      else inflate_loop inflate frees0 z' (buf' @ replicate (length buf * 2 - length buf) None)
                             (length buf) (z_avail (length buf * 2 - length buf)) (tot + length bs) os1)
               else if r \<noteq> Z_OK then Some (Inr ((-1, Null_Block, length buf), os))
               else inflate_loop inflate frees0 z' buf' (pos + length bs) (avail - length bs) (tot + length bs) os))"

definition decompress_gzip ::
    "'z zlib \<Rightarrow> bool \<Rightarrow> uint8 list option \<Rightarrow> comp_out \<Rightarrow> alloc \<Rightarrow> (comp_out \<times> alloc) exec option" where
  "decompress_gzip z frees0 input out os =
     (case input of
        None \<Rightarrow> Some (Inr ((-1, snd out), os))
      | Some inp \<Rightarrow>
          if inp = [] then Some (Inr ((-1, snd out), os))
          else
            (let output_len = length inp * 4;
                 (ok, os1) = alloc_next os
             in if \<not> ok then Some (Inr ((-1, Null_Block, output_len), os1))
                else
                  (case z_inflate_init z (take (z_avail (length inp)) inp) of
                     None \<Rightarrow> Some (Inr ((-1, Null_Block, output_len), os1))
                   | Some st \<Rightarrow>
                       inflate_loop (z_inflate z) frees0 st (replicate output_len None) 0 (z_avail output_len) 0 os1)))"

section \<open>The public functions\<close>

text \<open>The copy of the identity algorithm.\<close>

definition copy_identity :: "uint8 list \<Rightarrow> comp_out \<Rightarrow> alloc \<Rightarrow> comp_out \<times> alloc" where
  "copy_identity inp out os =
     (let (ok, os1) = alloc_next os
      in if \<not> ok then ((-1, Null_Block, snd (snd out)), os1)
         else ((0, Live_Block (map Some inp), length inp), os1))"

definition grpc_compress_data ::
    "'z zlib \<Rightarrow> bool \<Rightarrow> uint8 list option \<Rightarrow> string option \<Rightarrow> comp_out \<Rightarrow> alloc \<Rightarrow> (comp_out \<times> alloc) exec" where
  "grpc_compress_data z frees0 input algorithm out os =
     (case (input, algorithm) of
        (Some inp, Some alg) \<Rightarrow>
          if alg = GRPC_COMPRESS_NONE then Inr (copy_identity inp out os)
          else if alg = GRPC_COMPRESS_GZIP then compress_gzip z frees0 input out os
          else if alg = GRPC_COMPRESS_DEFLATE then compress_gzip z frees0 input out os
          else Inr ((-1, snd out), os)
      | _ \<Rightarrow> Inr ((-1, snd out), os))"

definition grpc_decompress_data ::
    "'z zlib \<Rightarrow> bool \<Rightarrow> uint8 list option \<Rightarrow> string option \<Rightarrow> comp_out \<Rightarrow> alloc \<Rightarrow> (comp_out \<times> alloc) exec option" where
  "grpc_decompress_data z frees0 input algorithm out os =
     (case (input, algorithm) of
        (Some inp, Some alg) \<Rightarrow>
          if alg = GRPC_COMPRESS_NONE then Some (Inr (copy_identity inp out os))
          else if alg = GRPC_COMPRESS_GZIP then decompress_gzip z frees0 input out os
          else if alg = GRPC_COMPRESS_DEFLATE then decompress_gzip z frees0 input out os
          else Some (Inr ((-1, snd out), os))
      | _ \<Rightarrow> Some (Inr ((-1, snd out), os)))"

definition grpc_compress where
  "grpc_compress z frees0 input algorithm out os = grpc_compress_data z frees0 input algorithm out os"

definition grpc_decompress where
  "grpc_decompress z frees0 input algorithm out os = grpc_decompress_data z frees0 input algorithm out os"

section \<open>What is relied on of zlib\<close>

text \<open>
  \<open>inflates\<close>: a stream that has delivered the first \<open>k\<close> bytes of \<open>xs\<close> and has \<open>i\<close> bytes of its input
  left (\<open>delivered z k i\<close>) delivers the next ones. The return values are the documented ones:
  \<open>Z_STREAM_END\<close> with the last byte, \<open>Z_OK\<close> after some progress (output was written or input was
  consumed, as the header of a fresh stream is even without space), and \<open>Z_BUF_ERROR\<close> when no progress
  is possible, which for a complete input is the case only without space.
\<close>

definition inflates ::
    "('z \<Rightarrow> nat \<Rightarrow> zret \<times> 'z \<times> uint8 list) \<Rightarrow> ('z \<Rightarrow> nat \<Rightarrow> nat \<Rightarrow> bool) \<Rightarrow> uint8 list \<Rightarrow> bool" where
  "inflates inflate delivered xs \<longleftrightarrow> (\<forall>z k i n. delivered z k i \<longrightarrow>
     (case inflate z n of (r, z', bs) \<Rightarrow>
        length bs \<le> n \<and> k + length bs \<le> length xs \<and> bs = take (length bs) (drop k xs) \<and>
        (r = Z_STREAM_END \<and> k + length bs = length xs \<or>
         r = Z_OK \<and> (\<exists>i'. delivered z' (k + length bs) i' \<and> i' \<le> i \<and> (bs \<noteq> [] \<or> i' < i)) \<or>
         r = Z_BUF_ERROR \<and> n = 0 \<and> delivered z' k i)))"

text \<open>\<open>zlib_codes z delivered xs ys\<close>: \<open>xs\<close> is compressed to \<open>ys\<close>, which fits the bound, and a stream
  set up for \<open>ys\<close> delivers \<open>xs\<close>.\<close>

definition zlib_codes :: "'z zlib \<Rightarrow> ('z \<Rightarrow> nat \<Rightarrow> nat \<Rightarrow> bool) \<Rightarrow> uint8 list \<Rightarrow> uint8 list \<Rightarrow> bool" where
  "zlib_codes z delivered xs ys \<longleftrightarrow> z_deflate_init z \<and> ys \<noteq> [] \<and> length ys \<le> z_bound z (length xs) + 12 \<and>
     z_deflate z xs (z_bound z (length xs) + 12) = (Z_STREAM_END, ys) \<and>
     (\<exists>st i. z_inflate_init z ys = Some st \<and> delivered st 0 i) \<and> inflates (z_inflate z) delivered xs"

section \<open>The loop\<close>

lemma z_avail_small [simp]: "n < 2 ^ 32 \<Longrightarrow> z_avail n = n"
  by (simp add: z_avail_def)

lemma shrink_output_ok:
  assumes "alloc_ok os" and "take (length xs) buf = map Some xs" and "xs \<noteq> []"
  shows "\<exists>os'. shrink_output frees0 buf (length xs) os = ((0, Live_Block (map Some xs), length xs), os') \<and> alloc_ok os'"
proof -
  from assms(1) obtain os1 where "alloc_next os = (True, os1)" "alloc_ok os1" by (rule alloc_next_okE)
  with assms(2,3) show ?thesis by (simp add: shrink_output_def)
qed

lemma inflates_cases:
  assumes "inflates inflate delivered xs" and "delivered z k i" and "inflate z n = (r, z', bs)"
  obtains (ended) "r = Z_STREAM_END" "k + length bs = length xs"
  | (progress) i' where "r = Z_OK" "delivered z' (k + length bs) i'" "i' \<le> i" "bs \<noteq> [] \<or> i' < i"
  | (full) "r = Z_BUF_ERROR" "n = 0" "delivered z' k i"
  using assms(1) [unfolded inflates_def, rule_format, OF assms(2), of n] assms(3) by auto

lemma inflates_output:
  assumes "inflates inflate delivered xs" and "delivered z k i" and "inflate z n = (r, z', bs)"
  shows "length bs \<le> n" "k + length bs \<le> length xs" "bs = take (length bs) (drop k xs)"
  using assms(1) [unfolded inflates_def, rule_format, OF assms(2), of n] assms(3) by simp_all

lemma round_measure: "a < b \<Longrightarrow> c \<le> 1 \<Longrightarrow> 2 * a + c < 2 * b + (d :: nat)"
  by linarith

text \<open>What the loop keeps true: the buffer holds what was delivered, and the space left in it is
  what zlib is told. Each round delivers bytes, consumes input or makes room.\<close>

lemma inflate_loop_ok:
  assumes "inflates inflate delivered xs" and "xs \<noteq> []" and "length xs * 2 < 2 ^ 32"
  shows "delivered z k i \<Longrightarrow> k \<le> length buf \<Longrightarrow> 0 < length buf \<Longrightarrow> length buf < 2 ^ 32 \<Longrightarrow>
    take k buf = map Some (take k xs) \<Longrightarrow> k \<le> length xs \<Longrightarrow> alloc_ok os \<Longrightarrow>
    \<exists>os'. inflate_loop inflate frees0 z buf k (length buf - k) k os = Some (Inr ((0, Live_Block (map Some xs), length xs), os')) \<and>
      alloc_ok os'"
proof (induction "2 * (length xs - k + i) + (if k = length buf then 1 else 0)" arbitrary: z k i buf os rule: less_induct)
  case less
  obtain r z' bs where inf: "inflate z (length buf - k) = (r, z', bs)" by (metis prod.collapse)
  note b = inflates_output [OF assms(1) less.prems(1) inf]
  let ?buf = "take k buf @ map Some bs @ drop (k + length bs) buf"
  have w: "write_at buf k bs = Inr ?buf" using b(1) less.prems(2) by (simp add: write_at_def)
  have len: "length ?buf = length buf" using b(1) less.prems(2) by simp
  have filled: "take (k + length bs) ?buf = map Some (take (k + length bs) xs)"
    using less.prems(2,5) b by (simp add: take_add)
  from assms(1) less.prems(1) inf show ?case
  proof (cases rule: inflates_cases)
    case ended
    have "take (length xs) ?buf = map Some xs" using filled ended(2) by simp
    from shrink_output_ok [OF less.prems(7) this assms(2), of frees0] inf w ended show ?thesis
      by (subst inflate_loop.simps) simp
  next
    case (progress i')
    let ?k = "k + length bs"
    have k: "?k \<le> length ?buf" using b(1) less.prems(2) len by simp
    have "length xs - ?k + i' < length xs - k + i"
      using progress(3,4) b(2) by (cases bs) auto
    then have "2 * (length xs - ?k + i') + (if ?k = length ?buf then 1 else 0) < 2 * (length xs - k + i) + (if k = length buf then 1 else 0)"
      by (intro round_measure) simp_all
    moreover have "0 < length ?buf" "length ?buf < 2 ^ 32" unfolding len using less.prems(3,4) by simp_all
    ultimately obtain os' where
      "inflate_loop inflate frees0 z' ?buf ?k (length ?buf - ?k) ?k os = Some (Inr ((0, Live_Block (map Some xs), length xs), os'))"
      "alloc_ok os'" using less.hyps [OF _ progress(2) k _ _ filled b(2) less.prems(7)] by blast
    with inf w progress(1) len show ?thesis by (subst inflate_loop.simps) (simp add: diff_diff_left)
  next
    case full
    from full(2) less.prems(2) b(1) have k: "k = length buf" and bs: "bs = []" by simp_all
    from less.prems(7) obtain os1 where os1: "alloc_next os = (True, os1)" "alloc_ok os1" by (rule alloc_next_okE)
    let ?new = "buf @ replicate (length buf) None"
    have "2 * (length xs - k + i) + (if k = length ?new then 1 else 0) < 2 * (length xs - k + i) + (if k = length buf then 1 else 0)"
      using k less.prems(3) by simp
    from less.hyps [OF this, of z' os1] full(3) k less.prems(3,5,6) os1(2) assms(3) obtain os' where
      "inflate_loop inflate frees0 z' ?new k (length ?new - k) k os1 = Some (Inr ((0, Live_Block (map Some xs), length xs), os'))"
      "alloc_ok os'" by auto
    with inf w full k bs os1(1) less.prems(4) show ?thesis by (subst inflate_loop.simps) simp
  qed
qed

section \<open>Round trips\<close>

lemma compress_gzip_ok:
  assumes "zlib_codes z delivered xs ys" and "xs \<noteq> []" and "length xs < 2 ^ 32"
    and "z_bound z (length xs) + 12 < 2 ^ 32" and "alloc_ok os"
  shows "\<exists>os'. compress_gzip z frees0 (Some xs) out os = Inr ((0, Live_Block (map Some ys), length ys), os') \<and> alloc_ok os'"
proof -
  let ?n = "z_bound z (length xs) + 12"
  from assms(1) have d: "z_deflate_init z" "ys \<noteq> []" "length ys \<le> ?n" "z_deflate z xs ?n = (Z_STREAM_END, ys)"
    by (simp_all add: zlib_codes_def)
  from assms(5) obtain os1 where os1: "alloc_next os = (True, os1)" "alloc_ok os1" by (rule alloc_next_okE)
  let ?buf = "map Some ys @ drop (length ys) (replicate ?n None)"
  have "write_at (replicate ?n None) 0 ys = Inr ?buf" using d(3) by (simp add: write_at_def)
  moreover have "take (length ys) ?buf = map Some ys" by simp
  ultimately show ?thesis
    using shrink_output_ok [OF os1(2) _ d(2), of ?buf frees0] d assms(2,3,4) os1(1)
    by (simp add: compress_gzip_def Let_def)
qed

lemma decompress_gzip_ok:
  assumes "zlib_codes z delivered xs ys" and "xs \<noteq> []" and "length xs * 2 < 2 ^ 32" and "length ys * 4 < 2 ^ 32"
    and "alloc_ok os"
  shows "\<exists>os'. decompress_gzip z frees0 (Some ys) out os = Some (Inr ((0, Live_Block (map Some xs), length xs), os')) \<and>
    alloc_ok os'"
proof -
  from assms(1) obtain st i where st: "ys \<noteq> []" "z_inflate_init z ys = Some st" "delivered st 0 i"
    "inflates (z_inflate z) delivered xs"
    by (auto simp: zlib_codes_def)
  from assms(5) obtain os1 where os1: "alloc_next os = (True, os1)" "alloc_ok os1" by (rule alloc_next_okE)
  from inflate_loop_ok [OF st(4) assms(2,3) st(3), of "replicate (length ys * 4) None" os1 frees0] st(1) assms(4) os1
  show ?thesis using st(2) by (simp add: decompress_gzip_def Let_def)
qed

lemma copy_identity_ok:
  assumes "alloc_ok os"
  shows "\<exists>os'. copy_identity xs out os = ((0, Live_Block (map Some xs), length xs), os') \<and> alloc_ok os'"
proof -
  from assms obtain os1 where "alloc_next os = (True, os1)" "alloc_ok os1" by (rule alloc_next_okE)
  then show ?thesis by (simp add: copy_identity_def)
qed

lemma algorithm_names [simp]:
  "GRPC_COMPRESS_GZIP \<noteq> GRPC_COMPRESS_NONE" "GRPC_COMPRESS_DEFLATE \<noteq> GRPC_COMPRESS_NONE"
  "GRPC_COMPRESS_DEFLATE \<noteq> GRPC_COMPRESS_GZIP"
  by (simp_all add: GRPC_COMPRESS_NONE_def GRPC_COMPRESS_GZIP_def GRPC_COMPRESS_DEFLATE_def)

lemma grpc_compress_ok:
  assumes "zlib_codes z delivered xs ys" and "xs \<noteq> []" and "length xs * 2 < 2 ^ 32"
    and "z_bound z (length xs) + 12 < 2 ^ 32" and "alloc_ok os"
    and "algorithm \<in> {GRPC_COMPRESS_NONE, GRPC_COMPRESS_GZIP, GRPC_COMPRESS_DEFLATE}"
  defines "cs \<equiv> if algorithm = GRPC_COMPRESS_NONE then xs else ys"
  obtains os' where "grpc_compress z frees0 (Some xs) (Some algorithm) out os =
      Inr ((0, Live_Block (map Some cs), length cs), os')" and "alloc_ok os'"
proof -
  have "length xs < 2 ^ 32" using assms(3) by simp
  from compress_gzip_ok [OF assms(1,2) this assms(4,5), of frees0 out] copy_identity_ok [OF assms(5), of xs out] assms(6) that
  show ?thesis by (auto simp: cs_def grpc_compress_def grpc_compress_data_def)
qed

lemma grpc_decompress_ok:
  assumes "zlib_codes z delivered xs ys" and "xs \<noteq> []" and "length xs * 2 < 2 ^ 32" and "length ys * 4 < 2 ^ 32"
    and "alloc_ok os" and "algorithm \<in> {GRPC_COMPRESS_NONE, GRPC_COMPRESS_GZIP, GRPC_COMPRESS_DEFLATE}"
  defines "cs \<equiv> if algorithm = GRPC_COMPRESS_NONE then xs else ys"
  obtains os' where "grpc_decompress z frees0 (Some cs) (Some algorithm) out os =
      Some (Inr ((0, Live_Block (map Some xs), length xs), os'))" and "alloc_ok os'"
proof -
  from decompress_gzip_ok [OF assms(1-5), of frees0 out] copy_identity_ok [OF assms(5), of xs out] assms(6) that
  show ?thesis by (auto simp: cs_def grpc_decompress_def grpc_decompress_data_def)
qed

text \<open>
  C31. Round trip: with memory available, what \<open>grpc_compress\<close> produces with "identity", "gzip" or "deflate"
  is decompressed to the input by \<open>grpc_decompress\<close> with the same name. The decompression
  ends, however often its buffer has to grow. Relied on: zlib delivers the bytes it compressed,
  within the bound it announces, and the lengths fit its 32-bit fields.
\<close>

theorem grpc_compress_roundtrip:
  assumes "zlib_codes z delivered xs ys" and "xs \<noteq> []" and "length xs * 2 < 2 ^ 32" and "length ys * 4 < 2 ^ 32"
    and "z_bound z (length xs) + 12 < 2 ^ 32" and "alloc_ok os"
    and "algorithm \<in> {GRPC_COMPRESS_NONE, GRPC_COMPRESS_GZIP, GRPC_COMPRESS_DEFLATE}"
  shows "\<exists>cs os1 os2. grpc_compress z frees0 (Some xs) (Some algorithm) out os =
      Inr ((0, Live_Block (map Some cs), length cs), os1) \<and>
    grpc_decompress z frees0 (Some cs) (Some algorithm) out' os1 =
      Some (Inr ((0, Live_Block (map Some xs), length xs), os2))"
proof -
  from assms(1-3,5-7) obtain os1 where c: "grpc_compress z frees0 (Some xs) (Some algorithm) out os =
      Inr ((0, Live_Block (map Some (if algorithm = GRPC_COMPRESS_NONE then xs else ys)),
        length (if algorithm = GRPC_COMPRESS_NONE then xs else ys)), os1)" "alloc_ok os1"
    by (rule grpc_compress_ok)
  from assms(1-4) c(2) assms(7) obtain os2 where
    "grpc_decompress z frees0 (Some (if algorithm = GRPC_COMPRESS_NONE then xs else ys)) (Some algorithm) out' os1 =
      Some (Inr ((0, Live_Block (map Some xs), length xs), os2))"
    by (rule grpc_decompress_ok)
  with c(1) show ?thesis by blast
qed

text \<open>Witness: a library that stores the bytes behind a header of one byte, reads the header with
  the first call and delivers what fits. The state of a stream says whether the header was read.\<close>

definition stored_zlib :: "(bool \<times> uint8 list) zlib" where
  "stored_zlib = \<lparr>z_bound = (\<lambda>n. n + 1), z_deflate_init = True,
     z_deflate = (\<lambda>xs n. if length xs < n then (Z_STREAM_END, 31 # xs) else (Z_BUF_ERROR, [])),
     z_inflate_init = (\<lambda>ys. case ys of [] \<Rightarrow> None | _ # xs \<Rightarrow> Some (False, xs)),
     z_inflate = (\<lambda>(header, rest) n. if length rest \<le> n then (Z_STREAM_END, (True, []), rest)
        else if n = 0 \<and> header then (Z_BUF_ERROR, (header, rest), [])
        else (Z_OK, (True, drop n rest), take n rest))\<rparr>"

definition stored_delivered :: "uint8 list \<Rightarrow> bool \<times> uint8 list \<Rightarrow> nat \<Rightarrow> nat \<Rightarrow> bool" where
  "stored_delivered xs z k i \<longleftrightarrow> k \<le> length xs \<and> snd z = drop k xs \<and> i = (if fst z then 0 else 1)"

lemma stored_zlib_codes: "zlib_codes stored_zlib (stored_delivered xs) xs (31 # xs)"
proof -
  have "inflates (z_inflate stored_zlib) (stored_delivered xs) xs"
    by (auto simp: stored_zlib_def inflates_def stored_delivered_def add.commute)
  then show ?thesis by (auto simp: zlib_codes_def stored_zlib_def stored_delivered_def)
qed

theorem grpc_compress_roundtrip_witness:
  "\<exists>cs os1 os2. grpc_compress stored_zlib True (Some (replicate 9 7)) (Some ''gzip'') (0, Null_Block, 0) [] =
      Inr ((0, Live_Block (map Some cs), length cs), os1) \<and>
    grpc_decompress stored_zlib True (Some cs) (Some ''gzip'') (0, Null_Block, 0) os1 =
      Some (Inr ((0, Live_Block (map Some (replicate 9 7)), 9), os2))"
  using grpc_compress_roundtrip [OF stored_zlib_codes [of "replicate 9 7"], of "[]" "''gzip''" True "(0, Null_Block, 0)" "(0, Null_Block, 0)"]
  by (simp add: GRPC_COMPRESS_NONE_def GRPC_COMPRESS_GZIP_def GRPC_COMPRESS_DEFLATE_def stored_zlib_def del: replicate.simps)

text \<open>
  Failures: an unknown name, a null input or a null name are refused with -1 and touch nothing,
  and gzip and deflate refuse an empty input the same way.
\<close>

theorem grpc_compress_refuses:
  "input = None \<or> algorithm = None \<or>
     (\<forall>alg. algorithm = Some alg \<longrightarrow> alg \<notin> {GRPC_COMPRESS_NONE, GRPC_COMPRESS_GZIP, GRPC_COMPRESS_DEFLATE}) \<or>
     input = Some [] \<and> algorithm \<noteq> Some GRPC_COMPRESS_NONE \<Longrightarrow>
   grpc_compress z frees0 input algorithm out os = Inr ((-1, snd out), os) \<and>
   grpc_decompress z frees0 input algorithm out os = Some (Inr ((-1, snd out), os))"
  by (auto simp: grpc_compress_def grpc_compress_data_def grpc_decompress_def grpc_decompress_data_def
      compress_gzip_def decompress_gzip_def split: option.splits)

theorem grpc_compress_refuses_witness:
  "grpc_compress stored_zlib True (Some [1, 2]) (Some ''br'') (0, Null_Block, 5) [] = Inr ((-1, Null_Block, 5), [])"
  using grpc_compress_refuses [of "Some [1, 2]" "Some ''br''" stored_zlib True "(0, Null_Block, 5)" "[]"]
  by (simp add: GRPC_COMPRESS_NONE_def GRPC_COMPRESS_GZIP_def GRPC_COMPRESS_DEFLATE_def)

text \<open>
  A stream of no bytes: where \<open>realloc\<close> to size 0 frees the block and returns a null pointer, the
  code keeps the pointer it had. It reports success with a pointer to freed memory.
\<close>

theorem grpc_decompress_empty_dangles:
  assumes "ys \<noteq> []" and "length ys * 4 < 2 ^ 32" and "alloc_ok os"
    and "z_inflate_init z ys = Some st" and "z_inflate z st (length ys * 4) = (Z_STREAM_END, st', [])"
  shows "\<exists>os'. grpc_decompress z True (Some ys) (Some GRPC_COMPRESS_GZIP) out os = Some (Inr ((0, Freed_Block, 0), os'))"
proof -
  from assms(3) obtain os1 where "alloc_next os = (True, os1)" by (rule alloc_next_okE)
  with assms show ?thesis
    by (simp add: grpc_decompress_def grpc_decompress_data_def decompress_gzip_def GRPC_COMPRESS_GZIP_def
        GRPC_COMPRESS_NONE_def inflate_loop.simps [of "z_inflate z"] write_at_def shrink_output_def)
qed

theorem grpc_decompress_empty_dangles_witness:
  "\<exists>os'. grpc_decompress stored_zlib True (Some [31]) (Some GRPC_COMPRESS_GZIP) (0, Null_Block, 0) [] =
     Some (Inr ((0, Freed_Block, 0), os'))"
  using grpc_decompress_empty_dangles [of "[31]" "[]" stored_zlib "(False, [])" "(True, [])" "(0, Null_Block, 0)"]
  by (simp add: stored_zlib_def)

end
