(* ===== verification/C_Lib.thy ===== *)
theory C_Lib
  imports Prelude
begin

text \<open>
  What the sources use of the C library on text: decimal printing (\<open>%d\<close> and \<open>%u\<close> of a
  non-negative number), \<open>atoi\<close>, \<open>strchr\<close>, the truncation of \<open>snprintf\<close> and of a bounded copy,
  and the integer conversions on mathematical integers. Text is a \<open>string\<close> without zero
  characters; \<open>None\<close> stands for a \<open>NULL\<close> pointer.
\<close>

section \<open>Integer conversions\<close>

definition to_int64 :: "int \<Rightarrow> int" where
  "to_int64 x = signed_take_bit 63 x"

definition to_int32 :: "int \<Rightarrow> int" where
  "to_int32 x = signed_take_bit 31 x"

definition to_uint16 :: "int \<Rightarrow> nat" where
  "to_uint16 x = nat (x mod 65536)"

lemma to_int64_id [simp]: "- (2 ^ 63) \<le> x \<Longrightarrow> x < 2 ^ 63 \<Longrightarrow> to_int64 x = x"
  by (simp add: to_int64_def signed_take_bit_int_eq_self)

lemma to_int32_id [simp]: "- (2 ^ 31) \<le> x \<Longrightarrow> x < 2 ^ 31 \<Longrightarrow> to_int32 x = x"
  by (simp add: to_int32_def signed_take_bit_int_eq_self)

lemma to_int32_bounds: "- (2 ^ 31) \<le> to_int32 x" "to_int32 x < 2 ^ 31"
  unfolding to_int32_def
  by (rule signed_take_bit_int_greater_eq_minus_exp, rule signed_take_bit_int_less_exp)

section \<open>Decimal numbers\<close>

definition digit_char :: "nat \<Rightarrow> char" where
  "digit_char d = char_of (48 + d)"

fun dec :: "nat \<Rightarrow> string" where
  "dec n = (if n < 10 then [digit_char n] else dec (n div 10) @ [digit_char (n mod 10)])"

declare dec.simps [simp del]

definition is_digit :: "char \<Rightarrow> bool" where
  "is_digit c \<longleftrightarrow> 48 \<le> (of_char c :: nat) \<and> (of_char c :: nat) \<le> 57"

definition digit_val :: "char \<Rightarrow> nat" where
  "digit_val c = of_char c - 48"

definition is_space :: "char \<Rightarrow> bool" where
  "is_space c \<longleftrightarrow> c = CHR '' '' \<or> (9 \<le> (of_char c :: nat) \<and> (of_char c :: nat) \<le> 13)"

text \<open>The value of the longest run of digits at the start of a text.\<close>

definition digits_val :: "string \<Rightarrow> nat" where
  "digits_val s = foldl (\<lambda>a c. a * 10 + digit_val c) 0 (takeWhile is_digit s)"

text \<open>
  \<open>atoi\<close> is \<open>(int) strtol\<close>: white space, an optional sign, digits; the 64-bit value saturates
  and is then cut to 32 bits.
\<close>

definition strtol10 :: "string \<Rightarrow> int" where
  "strtol10 s =
     (let t = dropWhile is_space s;
          x = (case t of
                 [] \<Rightarrow> 0
               | c # r \<Rightarrow> if c = CHR ''-'' then - int (digits_val r)
                           else if c = CHR ''+'' then int (digits_val r)
                           else int (digits_val t))
      in max (- (2 ^ 63)) (min (2 ^ 63 - 1) x))"

definition atoi :: "string \<Rightarrow> int" where
  "atoi s = to_int32 (strtol10 s)"

lemma digit_chars:
  "digit_char 0 = CHR ''0''" "digit_char (Suc 0) = CHR ''1''" "digit_char 1 = CHR ''1''"
  "digit_char 2 = CHR ''2''" "digit_char 3 = CHR ''3''" "digit_char 4 = CHR ''4''" "digit_char 5 = CHR ''5''"
  "digit_char 6 = CHR ''6''" "digit_char 7 = CHR ''7''" "digit_char 8 = CHR ''8''" "digit_char 9 = CHR ''9''"
  by code_simp+

lemma of_char_digit [simp]: "d < 10 \<Longrightarrow> (of_char (digit_char d) :: nat) = 48 + d"
  by (simp add: digit_char_def)

lemma is_digit_digit_char [simp]: "d < 10 \<Longrightarrow> is_digit (digit_char d)"
  by (simp add: is_digit_def)

lemma digit_val_digit_char [simp]: "d < 10 \<Longrightarrow> digit_val (digit_char d) = d"
  by (simp add: digit_val_def)

lemma dec_digits: "c \<in> set (dec n) \<Longrightarrow> is_digit c"
proof (induction n rule: dec.induct)
  case (1 n)
  then show ?case by (subst (asm) (2) dec.simps) (auto split: if_splits)
qed

lemma dec_not_Nil [simp]: "dec n \<noteq> []"
  by (subst dec.simps) simp

lemma foldl_dec: "foldl (\<lambda>a c. a * 10 + digit_val c) 0 (dec n) = n"
proof (induction n rule: dec.induct)
  case (1 n)
  then show ?case by (subst dec.simps) auto
qed

lemma digits_val_dec: "(r = [] \<or> \<not> is_digit (hd r)) \<Longrightarrow> digits_val (dec n @ r) = n"
proof -
  assume r: "r = [] \<or> \<not> is_digit (hd r)"
  have "takeWhile is_digit (dec n @ r) = dec n"
    using r dec_digits by (cases r) (auto simp: takeWhile_append2)
  then show ?thesis by (simp add: digits_val_def foldl_dec)
qed

lemma digit_not_special:
  assumes "is_digit c"
  shows "\<not> is_space c" "c \<noteq> CHR ''-''" "c \<noteq> CHR ''+''" "c \<noteq> CHR '':''"
  using assms by (auto simp: is_digit_def is_space_def)

lemma dec_head: "\<exists>c t. dec n = c # t \<and> is_digit c"
  by (cases "dec n") (auto intro: dec_digits [of _ n])

text \<open>Reading back what \<open>%d\<close> printed.\<close>

lemma atoi_dec: "n < 2 ^ 31 \<Longrightarrow> atoi (dec n) = int n"
proof -
  assume n: "n < 2 ^ 31"
  from dec_head [of n] obtain c t where ct: "dec n = c # t" "is_digit c" by blast
  have "strtol10 (dec n) = int n"
    using ct digit_not_special [OF ct(2)] digits_val_dec [of "[]" n] n
    by (simp add: strtol10_def)
  with n show ?thesis by (simp add: atoi_def)
qed

lemma colon_notin_dec: "CHR '':'' \<notin> set (dec n)"
  using dec_digits digit_not_special by blast

section \<open>Searching and truncating\<close>

text \<open>\<open>strchr\<close> as a split: the text before the first occurrence and the text after it.\<close>

definition split_at_char :: "char \<Rightarrow> string \<Rightarrow> (string \<times> string) option" where
  "split_at_char c s =
     (if c \<in> set s then Some (takeWhile (\<lambda>x. x \<noteq> c) s, tl (dropWhile (\<lambda>x. x \<noteq> c) s)) else None)"

lemma split_at_char_append [simp]:
  "c \<notin> set a \<Longrightarrow> split_at_char c (a @ c # b) = Some (a, b)"
  by (induction a) (auto simp: split_at_char_def)

lemma split_at_char_None_iff [simp]: "split_at_char c s = None \<longleftrightarrow> c \<notin> set s"
  by (simp add: split_at_char_def)

lemma split_at_char_Some:
  assumes "split_at_char c s = Some (a, b)"
  shows "s = a @ c # b" "c \<notin> set a"
proof -
  from assms have c: "c \<in> set s" and a: "a = takeWhile (\<lambda>x. x \<noteq> c) s"
    and b: "b = tl (dropWhile (\<lambda>x. x \<noteq> c) s)"
    by (auto simp: split_at_char_def split: if_splits)
  then obtain u v where uv: "s = u @ c # v" "c \<notin> set u" using split_list_first by metis
  then show "s = a @ c # b" "c \<notin> set a"
    using assms by simp_all
qed

text \<open>\<open>snprintf\<close> into a buffer of \<open>n > 0\<close> characters keeps at most \<open>n - 1\<close> of them.\<close>

definition snprintf_cut :: "nat \<Rightarrow> string \<Rightarrow> string" where
  "snprintf_cut n s = take (n - 1) s"

lemma snprintf_cut_fits [simp]: "length s < n \<Longrightarrow> snprintf_cut n s = s"
  by (simp add: snprintf_cut_def)

text \<open>String comparison on possibly equal prefixes: \<open>strncmp (s, p, strlen p) = 0\<close>.\<close>

definition has_prefix :: "string \<Rightarrow> string \<Rightarrow> bool" where
  "has_prefix p s \<longleftrightarrow> take (length p) s = p"

section \<open>Copying\<close>

text \<open>\<open>strdup\<close>: copying the string at \<open>NULL\<close> is a fault, and the copy may not be allocated.\<close>

definition strdup_ptr :: "string option \<Rightarrow> alloc \<Rightarrow> (string option \<times> alloc) exec" where
  "strdup_ptr s os =
     (case s of
        None \<Rightarrow> Inl Null_Deref
      | Some t \<Rightarrow> (let (ok, os1) = alloc_next os in Inr (if ok then Some t else None, os1)))"

lemma strdup_ptr_Some [simp]:
  "strdup_ptr (Some t) os = Inr (if fst (alloc_next os) then Some t else None, snd (alloc_next os))"
  by (simp add: strdup_ptr_def split: prod.splits)

end
