(* ===== verification/Core.thy ===== *)
theory Core
  imports C_Lib Arrays "HOL-Library.Signed_Division"
begin

text \<open>
  The rest of \<^verbatim>\<open>src/grpc_core.c\<close> (the completion queue has its own theory): the initialisation
  flag, clock and deadlines, byte buffers and the version string, with the enumerations of
  \<^verbatim>\<open>include/grpc/grpc.h\<close> the other components use. The clock reading is an argument. Time values
  are integers; the conversions to the 64-bit seconds and the 32-bit nanoseconds of
  \<open>grpc_timespec\<close> are written out, and division and remainder are those of C, which truncate.
\<close>

section \<open>Enumerations\<close>

datatype grpc_status_code =
    GRPC_STATUS_OK | GRPC_STATUS_CANCELLED | GRPC_STATUS_UNKNOWN | GRPC_STATUS_INVALID_ARGUMENT
  | GRPC_STATUS_DEADLINE_EXCEEDED | GRPC_STATUS_NOT_FOUND | GRPC_STATUS_ALREADY_EXISTS
  | GRPC_STATUS_PERMISSION_DENIED | GRPC_STATUS_RESOURCE_EXHAUSTED
  | GRPC_STATUS_FAILED_PRECONDITION | GRPC_STATUS_ABORTED | GRPC_STATUS_OUT_OF_RANGE
  | GRPC_STATUS_UNIMPLEMENTED | GRPC_STATUS_INTERNAL | GRPC_STATUS_UNAVAILABLE
  | GRPC_STATUS_DATA_LOSS | GRPC_STATUS_UNAUTHENTICATED

datatype grpc_call_error =
    GRPC_CALL_OK | GRPC_CALL_ERROR | GRPC_CALL_ERROR_NOT_ON_SERVER | GRPC_CALL_ERROR_NOT_ON_CLIENT
  | GRPC_CALL_ERROR_ALREADY_INVOKED | GRPC_CALL_ERROR_NOT_INVOKED
  | GRPC_CALL_ERROR_ALREADY_FINISHED | GRPC_CALL_ERROR_TOO_MANY_OPERATIONS
  | GRPC_CALL_ERROR_INVALID_FLAGS

section \<open>Library initialisation\<close>

record grpc_globals =
  g_grpc_initialized :: bool
  g_init_mutex :: mutex

definition grpc_init :: "grpc_globals \<Rightarrow> grpc_globals exec" where
  "grpc_init g =
     exec_bind (mutex_lock (g_init_mutex g)) (\<lambda>m.
       let g1 = g\<lparr>g_init_mutex := m\<rparr>;
           g2 = (if \<not> g_grpc_initialized g1 then g1\<lparr>g_grpc_initialized := True\<rparr> else g1)
       in Inr (g2\<lparr>g_init_mutex := mutex_unlock m\<rparr>))"

definition grpc_shutdown :: "grpc_globals \<Rightarrow> grpc_globals exec" where
  "grpc_shutdown g =
     exec_bind (mutex_lock (g_init_mutex g)) (\<lambda>m.
       let g1 = g\<lparr>g_init_mutex := m\<rparr>;
           g2 = (if g_grpc_initialized g1 then g1\<lparr>g_grpc_initialized := False\<rparr> else g1)
       in Inr (g2\<lparr>g_init_mutex := mutex_unlock m\<rparr>))"

lemma grpc_init_eq [simp]:
  "\<not> g_init_mutex g \<Longrightarrow> grpc_init g = Inr (g\<lparr>g_grpc_initialized := True\<rparr>)"
  by (cases g) (simp add: grpc_init_def Let_def)

lemma grpc_shutdown_eq [simp]:
  "\<not> g_init_mutex g \<Longrightarrow> grpc_shutdown g = Inr (g\<lparr>g_grpc_initialized := False\<rparr>)"
  by (cases g) (simp add: grpc_shutdown_def Let_def)

section \<open>Time\<close>

record grpc_timespec =
  tv_sec :: int
  tv_nsec :: int

text \<open>What \<open>gettimeofday\<close> stores.\<close>

record timeval =
  timeval_sec :: int
  timeval_usec :: int

definition grpc_now :: "timeval \<Rightarrow> grpc_timespec" where
  "grpc_now tv = \<lparr>tv_sec = to_int64 (timeval_sec tv), tv_nsec = to_int32 (timeval_usec tv * 1000)\<rparr>"

definition grpc_timeout_milliseconds_to_deadline :: "timeval \<Rightarrow> int \<Rightarrow> grpc_timespec" where
  "grpc_timeout_milliseconds_to_deadline tv timeout_ms =
     (let now = grpc_now tv;
          sec = to_int64 (tv_sec now + timeout_ms sdiv 1000);
          nsec = to_int32 (tv_nsec now + (timeout_ms smod 1000) * 1000000)
      in if nsec \<ge> 1000000000
         then \<lparr>tv_sec = to_int64 (sec + nsec sdiv 1000000000), tv_nsec = nsec smod 1000000000\<rparr>
         else \<lparr>tv_sec = sec, tv_nsec = nsec\<rparr>)"

lemma sdiv_nonneg: "0 \<le> (x :: int) \<Longrightarrow> 0 < n \<Longrightarrow> x sdiv n = x div n"
  by (cases "x = 0") (simp_all add: signed_divide_int_def sgn_if)

lemma smod_nonneg: "0 \<le> (x :: int) \<Longrightarrow> 0 < n \<Longrightarrow> x smod n = x mod n"
  by (cases "x = 0") (simp_all add: signed_modulo_int_def sgn_if)

lemma sdiv_small_neg: "- n < (x :: int) \<Longrightarrow> x < 0 \<Longrightarrow> x sdiv n = 0"
  by (simp add: signed_divide_int_def)

lemma smod_small_neg: "- n < (x :: int) \<Longrightarrow> x < 0 \<Longrightarrow> x smod n = x"
  by (simp add: signed_modulo_int_def sdiv_small_neg)

text \<open>A time as a number of nanoseconds.\<close>

definition timespec_ns :: "grpc_timespec \<Rightarrow> int" where
  "timespec_ns t = tv_sec t * 1000000000 + tv_nsec t"

text \<open>
  For a non-negative timeout the deadline is exactly the current time plus the timeout, to
  the nanosecond, and a normalised \<open>timespec\<close>, as long as the seconds fit in 64 bits.
\<close>

theorem grpc_timeout_milliseconds_to_deadline_exact:
  assumes "0 \<le> timeval_usec tv" and "timeval_usec tv < 1000000"
    and "0 \<le> timeval_sec tv" and "timeval_sec tv + timeout_ms div 1000 + 1 < 2 ^ 63"
    and "0 \<le> timeout_ms"
  shows "timespec_ns (grpc_timeout_milliseconds_to_deadline tv timeout_ms) =
      timespec_ns (grpc_now tv) + timeout_ms * 1000000 \<and>
    0 \<le> tv_nsec (grpc_timeout_milliseconds_to_deadline tv timeout_ms) \<and>
    tv_nsec (grpc_timeout_milliseconds_to_deadline tv timeout_ms) < 1000000000"
proof -
  let ?s = "timeval_sec tv + timeout_ms div 1000"
  let ?n = "timeval_usec tv * 1000 + (timeout_ms mod 1000) * 1000000"
  have t: "timeout_ms * 1000000 = (timeout_ms div 1000) * 1000000000 + (timeout_ms mod 1000) * 1000000"
    using mult_div_mod_eq [of 1000 timeout_ms] by linarith
  have m: "0 \<le> timeout_ms mod 1000" "timeout_ms mod 1000 < 1000" by simp_all
  have d: "0 \<le> timeout_ms div 1000" using assms(5) by (simp add: pos_imp_zdiv_nonneg_iff)
  have n: "0 \<le> ?n" "?n < 2000000000" using assms(1,2) m by linarith+
  have now: "grpc_now tv = \<lparr>tv_sec = timeval_sec tv, tv_nsec = timeval_usec tv * 1000\<rparr>"
    using assms d by (simp add: grpc_now_def)
  have sec: "to_int64 (timeval_sec tv + timeout_ms div 1000) = ?s" "to_int64 (?s + 1) = ?s + 1"
    using assms(3,4) d by simp_all
  have nsec: "to_int32 ?n = ?n" using n by simp
  have eq: "grpc_timeout_milliseconds_to_deadline tv timeout_ms =
      (if ?n \<ge> 1000000000 then \<lparr>tv_sec = to_int64 (?s + ?n sdiv 1000000000), tv_nsec = ?n smod 1000000000\<rparr>
       else \<lparr>tv_sec = ?s, tv_nsec = ?n\<rparr>)"
    using assms(5) sec(1) nsec
    by (simp add: grpc_timeout_milliseconds_to_deadline_def now Let_def sdiv_nonneg smod_nonneg)
  show ?thesis
  proof (cases "?n \<ge> 1000000000")
    case True
    have "?n div 1000000000 = 1" using True n by (simp add: div_pos_geq)
    moreover from this have "?n mod 1000000000 = ?n - 1000000000"
      by (simp add: minus_div_mult_eq_mod [symmetric])
    ultimately show ?thesis
      using True n sec(2) t
      by (simp add: eq now timespec_ns_def sdiv_nonneg smod_nonneg)
  next
    case False
    then show ?thesis using n t by (simp add: eq now timespec_ns_def algebra_simps)
  qed
qed

theorem grpc_timeout_milliseconds_to_deadline_exact_witness:
  "timespec_ns (grpc_timeout_milliseconds_to_deadline
      \<lparr>timeval_sec = 1700000000, timeval_usec = 999999\<rparr> 5001) =
      timespec_ns (grpc_now \<lparr>timeval_sec = 1700000000, timeval_usec = 999999\<rparr>) + 5001000000"
  using grpc_timeout_milliseconds_to_deadline_exact
    [of "\<lparr>timeval_sec = 1700000000, timeval_usec = 999999\<rparr>" 5001] by simp

text \<open>
  A deadline in the past, less than a second back but further than the microseconds of the
  clock, is not normalised: its nanoseconds come out negative, which the waiting functions
  reject as an invalid argument, while the time it stands for is still right.
\<close>

theorem grpc_timeout_negative_not_normalised:
  assumes "0 \<le> timeval_usec tv" and "timeval_usec tv < 1000000"
    and "0 \<le> timeval_sec tv" and "timeval_sec tv < 2 ^ 63"
    and "- 1000 < timeout_ms" and "timeout_ms * 1000 < - timeval_usec tv"
  shows "tv_nsec (grpc_timeout_milliseconds_to_deadline tv timeout_ms) < 0 \<and>
    timespec_ns (grpc_timeout_milliseconds_to_deadline tv timeout_ms) =
      timespec_ns (grpc_now tv) + timeout_ms * 1000000"
proof -
  have neg: "timeout_ms < 0" using assms(1,6) by linarith
  let ?n = "timeval_usec tv * 1000 + timeout_ms * 1000000"
  have n: "?n < 0" "- (2 ^ 31) \<le> ?n" using assms neg by simp_all
  have now: "grpc_now tv = \<lparr>tv_sec = timeval_sec tv, tv_nsec = timeval_usec tv * 1000\<rparr>"
    using assms by (simp add: grpc_now_def)
  have "to_int32 ?n = ?n" using n by simp
  with assms n neg have "grpc_timeout_milliseconds_to_deadline tv timeout_ms =
      \<lparr>tv_sec = timeval_sec tv, tv_nsec = ?n\<rparr>"
    by (simp add: grpc_timeout_milliseconds_to_deadline_def now Let_def sdiv_small_neg smod_small_neg)
  with n show ?thesis by (simp add: now timespec_ns_def)
qed

theorem grpc_timeout_negative_not_normalised_witness:
  "tv_nsec (grpc_timeout_milliseconds_to_deadline
      \<lparr>timeval_sec = 1700000000, timeval_usec = 0\<rparr> (- 1)) < 0"
  using grpc_timeout_negative_not_normalised
    [of "\<lparr>timeval_sec = 1700000000, timeval_usec = 0\<rparr>" "- 1"] by simp

section \<open>Byte buffers\<close>

record grpc_byte_buffer =
  bb_data :: "uint8 block"
  bb_length :: nat
  bb_capacity :: nat

text \<open>\<open>data\<close> is the memory at the argument pointer; copying past its end is a fault.\<close>

definition grpc_byte_buffer_create ::
    "uint8 list \<Rightarrow> nat \<Rightarrow> alloc \<Rightarrow> (grpc_byte_buffer option \<times> alloc) exec" where
  "grpc_byte_buffer_create data len os =
     (let (ok1, os1) = alloc_next os
      in if \<not> ok1 then Inr (None, os1)
         else
           (let (ok2, os2) = alloc_next os1
            in if \<not> ok2 then Inr (None, os2)
               else if length data < len then Inl Out_Of_Bounds
               else Inr (Some \<lparr>bb_data = Live_Block (map Some (take len data)), bb_length = len,
                               bb_capacity = len\<rparr>, os2)))"

text \<open>Destroying a buffer frees its block and the structure itself.\<close>

definition grpc_byte_buffer_destroy :: "grpc_byte_buffer option \<Rightarrow> unit exec" where
  "grpc_byte_buffer_destroy buffer =
     (case buffer of None \<Rightarrow> Inr () | Some b \<Rightarrow> block_free (bb_data b))"

lemma grpc_byte_buffer_create_ok:
  assumes "len \<le> length data"
  shows "(\<exists>os'. grpc_byte_buffer_create data len os = Inr (None, os') \<and> \<not> alloc_ok os) \<or>
    (\<exists>b os'. grpc_byte_buffer_create data len os = Inr (Some b, os') \<and> (alloc_ok os \<longrightarrow> alloc_ok os') \<and>
       block_slots (bb_data b) = map Some (take len data) \<and> bb_length b = len \<and>
       grpc_byte_buffer_destroy (Some b) = Inr ())"
proof -
  obtain ok1 os1 where o1: "alloc_next os = (ok1, os1)" by force
  obtain ok2 os2 where o2: "alloc_next os1 = (ok2, os2)" by force
  have "alloc_ok os \<longrightarrow> ok1 \<and> ok2 \<and> alloc_ok os2" using o1 o2 by (cases os; cases os1) auto
  with o1 o2 assms show ?thesis
    by (cases ok1; cases ok2) (simp_all add: grpc_byte_buffer_create_def grpc_byte_buffer_destroy_def)
qed

section \<open>Version\<close>

definition GRPC_C_VERSION_MAJOR :: nat where "GRPC_C_VERSION_MAJOR = 1"
definition GRPC_C_VERSION_MINOR :: nat where "GRPC_C_VERSION_MINOR = 1"
definition GRPC_C_VERSION_PATCH :: nat where "GRPC_C_VERSION_PATCH = 0"

definition grpc_version_string :: string where
  "grpc_version_string =
     snprintf_cut 32 (dec GRPC_C_VERSION_MAJOR @ ''.'' @ dec GRPC_C_VERSION_MINOR @ ''.'' @
                      dec GRPC_C_VERSION_PATCH)"

lemma grpc_version_string_eq: "grpc_version_string = ''1.1.0''"
  by (simp add: grpc_version_string_def GRPC_C_VERSION_MAJOR_def GRPC_C_VERSION_MINOR_def
      GRPC_C_VERSION_PATCH_def dec.simps digit_char_def snprintf_cut_def char_of_def bit_0)

end
