(* ===== verification/Protobuf.thy ===== *)
theory Protobuf
  imports Core
begin

text \<open>
  The protobuf helpers, \<^verbatim>\<open>src/grpc_protobuf.c\<close>. protobuf-c is a parameter: a record of the four
  functions the code calls. \<open>pb_pack\<close> gives the bytes that are written and counted, \<open>pb_unpack\<close>
  reads a message of a descriptor from bytes, and \<open>pb_free\<close> is what freeing does to the library's
  memory.
\<close>

record ('m, 'd, 's) protobuf_c =
  pb_packed_size :: "'m \<Rightarrow> nat"
  pb_pack :: "'m \<Rightarrow> uint8 list"
  pb_unpack :: "'d \<Rightarrow> uint8 list \<Rightarrow> 'm option"
  pb_free :: "'m \<Rightarrow> 's \<Rightarrow> 's"

section \<open>Operations\<close>

text \<open>Packing into a block: writing past its end is a fault.\<close>

definition pack_into :: "uint8 option list \<Rightarrow> uint8 list \<Rightarrow> uint8 option list exec" where
  "pack_into buf bs =
     (if length bs \<le> length buf then Inr (map Some bs @ drop (length bs) buf) else Inl Out_Of_Bounds)"

definition grpc_protobuf_serialize ::
    "('m, 'd, 's) protobuf_c \<Rightarrow> 'm option \<Rightarrow> alloc \<Rightarrow> (grpc_byte_buffer option \<times> alloc) exec" where
  "grpc_protobuf_serialize pb msg os =
     (case msg of
        None \<Rightarrow> Inr (None, os)
      | Some m \<Rightarrow>
          (let packed_size = pb_packed_size pb m
           in if packed_size = 0 then Inr (None, os)
              else
                (let (ok, os1) = alloc_next os
                 in if \<not> ok then Inr (None, os1)
                    else
                      exec_bind (pack_into (replicate packed_size None) (pb_pack pb m)) (\<lambda>data.
                        if length (pb_pack pb m) \<noteq> packed_size then Inr (None, os1)
                        else grpc_byte_buffer_create (map the data) packed_size os1))))"

text \<open>The bytes of a buffer that a read of \<open>len\<close> bytes sees.\<close>

definition buffer_bytes :: "uint8 block \<Rightarrow> nat \<Rightarrow> uint8 list exec" where
  "buffer_bytes b len =
     (case b of
        Null_Block \<Rightarrow> Inl Null_Deref
      | Freed_Block \<Rightarrow> Inl Use_After_Free
      | Live_Block xs \<Rightarrow>
          (if len \<le> length xs \<and> None \<notin> set (take len xs) then Inr (map the (take len xs)) else Inl Out_Of_Bounds))"

text \<open>The result and \<open>*msg\<close>, which keeps its value on an early return.\<close>

definition grpc_protobuf_deserialize ::
    "('m, 'd, 's) protobuf_c \<Rightarrow> grpc_byte_buffer option \<Rightarrow> 'd option \<Rightarrow> 'm option \<Rightarrow> (int \<times> 'm option) exec" where
  "grpc_protobuf_deserialize pb buffer descriptor msg =
     (case (buffer, descriptor) of
        (Some b, Some d) \<Rightarrow>
          if bb_data b = Null_Block then Inr (-1, msg)
          else
            exec_bind (buffer_bytes (bb_data b) (bb_length b)) (\<lambda>bs.
              case pb_unpack pb d bs of
                None \<Rightarrow> Inr (-1, None)
              | Some m \<Rightarrow> Inr (0, Some m))
      | _ \<Rightarrow> Inr (-1, msg))"

definition grpc_protobuf_free :: "('m, 'd, 's) protobuf_c \<Rightarrow> 'm option \<Rightarrow> 's \<Rightarrow> 's" where
  "grpc_protobuf_free pb msg s = (case msg of None \<Rightarrow> s | Some m \<Rightarrow> pb_free pb m s)"

definition grpc_protobuf_buffer_create ::
    "uint8 list \<Rightarrow> nat \<Rightarrow> alloc \<Rightarrow> (grpc_byte_buffer option \<times> alloc) exec" where
  "grpc_protobuf_buffer_create data len os = grpc_byte_buffer_create data len os"

definition grpc_protobuf_message_size :: "('m, 'd, 's) protobuf_c \<Rightarrow> 'm option \<Rightarrow> nat" where
  "grpc_protobuf_message_size pb msg = (case msg of None \<Rightarrow> 0 | Some m \<Rightarrow> pb_packed_size pb m)"

text \<open>The result and the buffer. \<open>buffer_size\<close> is the caller's word for the size of the buffer.\<close>

definition grpc_protobuf_serialize_to_buffer ::
    "('m, 'd, 's) protobuf_c \<Rightarrow> 'm option \<Rightarrow> uint8 option list option \<Rightarrow> nat \<Rightarrow> (nat \<times> uint8 option list option) exec" where
  "grpc_protobuf_serialize_to_buffer pb msg buffer buffer_size =
     (case (msg, buffer) of
        (Some m, Some buf) \<Rightarrow>
          if pb_packed_size pb m > buffer_size then Inr (0, buffer)
          else exec_bind (pack_into buf (pb_pack pb m)) (\<lambda>buf'. Inr (length (pb_pack pb m), Some buf'))
      | _ \<Rightarrow> Inr (0, buffer))"

section \<open>Properties\<close>

text \<open>What is relied on of protobuf-c for a message: its size is the number of packed bytes.\<close>

definition pb_sized :: "('m, 'd, 's) protobuf_c \<Rightarrow> 'm \<Rightarrow> bool" where
  "pb_sized pb m \<longleftrightarrow> length (pb_pack pb m) = pb_packed_size pb m"

lemma pack_into_full [simp]: "length bs = n \<Longrightarrow> pack_into (replicate n None) bs = Inr (map Some bs)"
  by (simp add: pack_into_def)

text \<open>A buffer that holds exactly the given bytes.\<close>

definition buffer_of :: "uint8 list \<Rightarrow> grpc_byte_buffer" where
  "buffer_of bs = \<lparr>bb_data = Live_Block (map Some bs), bb_length = length bs, bb_capacity = length bs\<rparr>"

lemma byte_buffer_create_exact:
  assumes "alloc_ok os"
  obtains os' where "grpc_byte_buffer_create bs (length bs) os = Inr (Some (buffer_of bs), os')" and "alloc_ok os'"
proof -
  from assms obtain os1 where o1: "alloc_next os = (True, os1)" "alloc_ok os1" by (rule alloc_next_okE)
  from o1(2) obtain os2 where "alloc_next os1 = (True, os2)" "alloc_ok os2" by (rule alloc_next_okE)
  with o1(1) that show ?thesis by (simp add: grpc_byte_buffer_create_def buffer_of_def)
qed

lemma grpc_protobuf_serialize_ok:
  assumes "pb_sized pb m" and "pb_packed_size pb m \<noteq> 0" and "alloc_ok os"
  obtains os' where "grpc_protobuf_serialize pb (Some m) os = Inr (Some (buffer_of (pb_pack pb m)), os')" and "alloc_ok os'"
proof -
  from assms(3) obtain os1 where o1: "alloc_next os = (True, os1)" "alloc_ok os1" by (rule alloc_next_okE)
  from o1(2) obtain os2 where "grpc_byte_buffer_create (pb_pack pb m) (length (pb_pack pb m)) os1 =
      Inr (Some (buffer_of (pb_pack pb m)), os2)" "alloc_ok os2" by (rule byte_buffer_create_exact)
  with o1(1) assms(1,2) that show ?thesis
    by (simp add: grpc_protobuf_serialize_def pb_sized_def comp_def Let_def)
qed

lemma grpc_protobuf_deserialize_ok:
  "pb_unpack pb d bs = Some m \<Longrightarrow> grpc_protobuf_deserialize pb (Some (buffer_of bs)) (Some d) msg = Inr (0, Some m)"
  by (auto simp: grpc_protobuf_deserialize_def buffer_of_def buffer_bytes_def comp_def)

text \<open>
  Round trip: with memory available a message that packs to at least one byte is serialised into
  a buffer from which \<open>grpc_protobuf_deserialize\<close> gets it back. Relied on: the packed size is the
  number of packed bytes, and unpacking the packed bytes gives the message.
\<close>

theorem grpc_protobuf_roundtrip:
  assumes "pb_sized pb m" and "pb_unpack pb d (pb_pack pb m) = Some m" and "pb_packed_size pb m \<noteq> 0" and "alloc_ok os"
  shows "\<exists>b os'. grpc_protobuf_serialize pb (Some m) os = Inr (Some b, os') \<and>
    bb_length b = grpc_protobuf_message_size pb (Some m) \<and>
    grpc_protobuf_deserialize pb (Some b) (Some d) msg = Inr (0, Some m)"
proof -
  from assms(1,3,4) obtain os' where "grpc_protobuf_serialize pb (Some m) os = Inr (Some (buffer_of (pb_pack pb m)), os')"
    by (rule grpc_protobuf_serialize_ok)
  moreover have "bb_length (buffer_of (pb_pack pb m)) = grpc_protobuf_message_size pb (Some m)"
    using assms(1) by (simp add: buffer_of_def grpc_protobuf_message_size_def pb_sized_def)
  ultimately show ?thesis using grpc_protobuf_deserialize_ok [OF assms(2)] by blast
qed

text \<open>
  Writing into the caller's buffer: with a true size nothing is written past the buffer; the call
  writes the packed bytes in front and returns their number, or returns 0 and leaves it alone.
\<close>

theorem grpc_protobuf_serialize_to_buffer_bounds:
  assumes "pb_sized pb m" and "buffer_size \<le> length buf"
  shows "grpc_protobuf_serialize_to_buffer pb (Some m) (Some buf) buffer_size =
    (if pb_packed_size pb m \<le> buffer_size
     then Inr (pb_packed_size pb m, Some (map Some (pb_pack pb m) @ drop (pb_packed_size pb m) buf))
     else Inr (0, Some buf))"
  using assms by (simp add: grpc_protobuf_serialize_to_buffer_def pack_into_def pb_sized_def)

text \<open>
  A message that packs to no bytes (every field has its default value) is valid protobuf, but
  \<open>grpc_protobuf_serialize\<close> returns its error value for it, whatever memory there is.
\<close>

theorem grpc_protobuf_serialize_default_message:
  "pb_packed_size pb m = 0 \<Longrightarrow> grpc_protobuf_serialize pb (Some m) os = Inr (None, os)"
  by (simp add: grpc_protobuf_serialize_def)

text \<open>Witnesses: messages are lists of bytes that pack to themselves.\<close>

definition raw_protobuf :: "(uint8 list, unit, unit) protobuf_c" where
  "raw_protobuf = \<lparr>pb_packed_size = length, pb_pack = (\<lambda>m. m), pb_unpack = (\<lambda>_ bs. Some bs), pb_free = (\<lambda>_ s. s)\<rparr>"

theorem grpc_protobuf_roundtrip_witness:
  "\<exists>b os'. grpc_protobuf_serialize raw_protobuf (Some [8, 150, 1]) [] = Inr (Some b, os') \<and> bb_length b = 3 \<and>
    grpc_protobuf_deserialize raw_protobuf (Some b) (Some ()) None = Inr (0, Some [8, 150, 1])"
  using grpc_protobuf_roundtrip [of raw_protobuf "[8, 150, 1]" "()" "[]" None]
  by (simp add: raw_protobuf_def pb_sized_def grpc_protobuf_message_size_def numeral_3_eq_3)

theorem grpc_protobuf_serialize_to_buffer_bounds_witness:
  "grpc_protobuf_serialize_to_buffer raw_protobuf (Some [8, 150]) (Some [None, None, None]) 3 =
    Inr (2, Some [Some 8, Some 150, None])"
  using grpc_protobuf_serialize_to_buffer_bounds [of raw_protobuf "[8, 150]" 3 "[None, None, None]"]
  by (simp add: raw_protobuf_def pb_sized_def)

theorem grpc_protobuf_serialize_default_message_witness:
  "grpc_protobuf_serialize raw_protobuf (Some []) [] = Inr (None, [])"
  using grpc_protobuf_serialize_default_message [of raw_protobuf "[]" "[]"] by (simp add: raw_protobuf_def)

end
