(* ===== verification/Heap_List.thy ===== *)
theory Heap_List
  imports Prelude
begin

text \<open>
  Singly linked lists in a store of nodes, for the components whose code keeps head and tail
  pointers or unlinks and frees nodes: the completion queue, the interceptor chains, the
  connection pool and the spans of a trace. Addresses are never reused, so that a pointer to a freed node is seen as
  such. \<open>chain\<close> relates a pointer to the nodes reached from it, \<open>walk\<close> reads the values off.
  The locales state what a client of such a list relies on.
\<close>

section \<open>Nodes and stores\<close>

type_synonym addr = nat

record 'a node =
  node_val :: 'a
  node_next :: "addr option"

record 'a store =
  cells :: "addr \<Rightarrow> 'a node option"
  brk :: addr

definition store_empty :: "'a store" where
  "store_empty = \<lparr>cells = (\<lambda>_. None), brk = 0\<rparr>"

definition store_new :: "'a store \<Rightarrow> 'a \<Rightarrow> addr option \<Rightarrow> addr \<times> 'a store" where
  "store_new st v nxt =
     (brk st, st\<lparr>cells := (cells st)(brk st \<mapsto> \<lparr>node_val = v, node_next = nxt\<rparr>),
                 brk := brk st + 1\<rparr>)"

definition store_get :: "'a store \<Rightarrow> addr option \<Rightarrow> 'a node exec" where
  "store_get st p =
     (case p of
        None \<Rightarrow> Inl Null_Deref
      | Some a \<Rightarrow> (case cells st a of None \<Rightarrow> Inl Use_After_Free | Some n \<Rightarrow> Inr n))"

definition store_put :: "'a store \<Rightarrow> addr option \<Rightarrow> 'a node \<Rightarrow> 'a store exec" where
  "store_put st p n =
     (case p of
        None \<Rightarrow> Inl Null_Deref
      | Some a \<Rightarrow>
          (if cells st a = None then Inl Use_After_Free
           else Inr (st\<lparr>cells := (cells st)(a \<mapsto> n)\<rparr>)))"

definition store_set_next :: "'a store \<Rightarrow> addr option \<Rightarrow> addr option \<Rightarrow> 'a store exec" where
  "store_set_next st p q =
     exec_bind (store_get st p) (\<lambda>n. store_put st p (n\<lparr>node_next := q\<rparr>))"

definition store_free :: "'a store \<Rightarrow> addr option \<Rightarrow> 'a store exec" where
  "store_free st p =
     (case p of
        None \<Rightarrow> Inr st
      | Some a \<Rightarrow>
          (if cells st a = None then Inl Double_Free
           else Inr (st\<lparr>cells := (cells st)(a := None)\<rparr>)))"

section \<open>Lists in the store\<close>

fun chain :: "'a store \<Rightarrow> addr option \<Rightarrow> (addr \<times> 'a) list \<Rightarrow> addr option \<Rightarrow> bool" where
  "chain st p [] q \<longleftrightarrow> p = q"
| "chain st p ((a, v) # cs) q \<longleftrightarrow> p = Some a \<and>
     (case cells st a of
        None \<Rightarrow> False
      | Some n \<Rightarrow> node_val n = v \<and> chain st (node_next n) cs q)"

fun walk :: "nat \<Rightarrow> 'a store \<Rightarrow> addr option \<Rightarrow> 'a list" where
  "walk 0 st p = []"
| "walk (Suc n) st None = []"
| "walk (Suc n) st (Some a) =
     (case cells st a of None \<Rightarrow> [] | Some nd \<Rightarrow> node_val nd # walk n st (node_next nd))"

definition tail_of :: "(addr \<times> 'a) list \<Rightarrow> addr option" where
  "tail_of cs = (if cs = [] then None else Some (fst (last cs)))"

definition head_of :: "(addr \<times> 'a) list \<Rightarrow> addr option" where
  "head_of cs = (case cs of [] \<Rightarrow> None | c # _ \<Rightarrow> Some (fst c))"

text \<open>The nodes \<open>cs\<close>, and no others, are in the store and form the list that starts at \<open>p\<close>.\<close>

definition list_in :: "'a store \<Rightarrow> addr option \<Rightarrow> (addr \<times> 'a) list \<Rightarrow> bool" where
  "list_in st p cs \<longleftrightarrow> chain st p cs None \<and> distinct (map fst cs) \<and>
     (\<forall>a. cells st a \<noteq> None \<longleftrightarrow> a \<in> set (map fst cs)) \<and> (\<forall>a\<in>set (map fst cs). a < brk st)"

lemma chain_append:
  "chain st p (cs @ ds) q \<longleftrightarrow> (\<exists>r. chain st p cs r \<and> chain st r ds q)"
  by (induction cs arbitrary: p) (auto split: option.splits)

lemma chain_det: "chain st p cs q \<Longrightarrow> chain st p cs r \<Longrightarrow> q = r"
  by (induction cs arbitrary: p) (auto split: option.splits)

lemma head_of_simps [simp]: "head_of [] = None" "head_of (c # cs) = Some (fst c)"
  by (simp_all add: head_of_def)

lemma chain_head: "chain st p cs None \<Longrightarrow> p = head_of cs"
  by (cases cs) auto

lemma chain_cong:
  "(\<And>a. a \<in> set (map fst cs) \<Longrightarrow> cells st' a = cells st a) \<Longrightarrow> chain st' p cs q = chain st p cs q"
  by (induction cs arbitrary: p) (auto split: option.splits)

lemma chain_upd_other [simp]:
  "a \<notin> set (map fst cs) \<Longrightarrow> chain (st\<lparr>cells := (cells st)(a := x)\<rparr>) p cs q = chain st p cs q"
  by (rule chain_cong) auto

lemma chain_brk [simp]: "chain (st\<lparr>brk := b\<rparr>) p cs q = chain st p cs q"
  by (rule chain_cong) auto

lemma chain_snoc:
  assumes "chain st p (cs @ [(a, v)]) q" and "a \<notin> set (map fst cs)"
  shows "chain (st\<lparr>cells := (cells st)(a \<mapsto> \<lparr>node_val = v, node_next = r\<rparr>)\<rparr>) p (cs @ [(a, v)]) r"
  using assms by (auto simp: chain_append split: option.splits)

lemma list_in_empty [simp]: "list_in store_empty None []"
  by (simp add: list_in_def store_empty_def)

lemma list_in_Nil [simp]: "list_in st p [] \<longleftrightarrow> p = None \<and> cells st = (\<lambda>_. None)"
  by (auto simp: list_in_def)

lemma list_in_fresh: "list_in st p cs \<Longrightarrow> brk st \<notin> set (map fst cs)"
  by (auto simp: list_in_def)

lemma list_in_length: "list_in st p cs \<Longrightarrow> length cs \<le> brk st"
proof -
  assume l: "list_in st p cs"
  then have "set (map fst cs) \<subseteq> {..<brk st}" by (auto simp: list_in_def)
  then have "card (set (map fst cs)) \<le> brk st"
    using card_mono [of "{..<brk st}"] by fastforce
  moreover from l have "card (set (map fst cs)) = length cs"
    unfolding list_in_def using distinct_card [of "map fst cs"] by simp
  ultimately show ?thesis by simp
qed

lemma walk_chain: "length cs \<le> n \<Longrightarrow> chain st p cs None \<Longrightarrow> walk n st p = map snd cs"
proof (induction cs arbitrary: p n)
  case Nil
  then show ?case by (cases n) auto
next
  case (Cons c cs)
  then show ?case by (cases n; cases c) (auto split: option.splits)
qed

lemma walk_list_in: "list_in st p cs \<Longrightarrow> walk (brk st) st p = map snd cs"
  using list_in_length walk_chain list_in_def by blast

lemma list_in_head:
  assumes "list_in st p ((a, v) # cs)"
  obtains n where "p = Some a" "cells st a = Some n" "node_val n = v"
    "list_in (st\<lparr>cells := (cells st)(a := None)\<rparr>) (node_next n) cs"
proof -
  from assms obtain n where n: "p = Some a" "cells st a = Some n" "node_val n = v"
    "chain st (node_next n) cs None"
    by (auto simp: list_in_def split: option.splits)
  moreover have "list_in (st\<lparr>cells := (cells st)(a := None)\<rparr>) (node_next n) cs"
    using assms n(4) by (auto simp: list_in_def)
  ultimately show ?thesis using that by blast
qed

lemma list_in_new_front:
  assumes "list_in st p cs"
  shows "list_in (snd (store_new st v p)) (Some (brk st)) ((brk st, v) # cs)"
  using assms list_in_fresh [OF assms]
  by (auto simp: list_in_def store_new_def)

text \<open>Appending a fresh node at the tail: the previous last node is made to point at it.\<close>

lemma list_in_snoc:
  assumes "list_in st p (cs @ [(t, w)])"
    and "store_new st v None = (a, st1)"
  shows "\<exists>st2. store_set_next st1 (Some t) (Some a) = Inr st2 \<and>
    list_in st2 p ((cs @ [(t, w)]) @ [(a, v)])"
proof -
  from assms(1) have fresh: "brk st \<notin> set (map fst (cs @ [(t, w)]))" by (rule list_in_fresh)
  from assms(1) obtain n where n: "cells st t = Some n" "node_val n = w" "chain st p cs (Some t)"
    and d: "t \<notin> set (map fst cs)"
    by (auto simp: list_in_def chain_append split: option.splits)
  let ?new = "\<lparr>node_val = v, node_next = None\<rparr>"
  let ?old = "n\<lparr>node_next := Some (brk st)\<rparr>"
  let ?st2 = "st\<lparr>cells := (cells st)(brk st \<mapsto> ?new, t \<mapsto> ?old), brk := brk st + 1\<rparr>"
  have a: "a = brk st" "st1 = st\<lparr>cells := (cells st)(brk st \<mapsto> ?new), brk := brk st + 1\<rparr>"
    using assms(2) by (auto simp: store_new_def)
  have ne: "t \<noteq> brk st" using fresh by auto
  have set: "store_set_next st1 (Some t) (Some a) = Inr ?st2"
    using n(1) ne by (simp add: a store_set_next_def store_get_def store_put_def)
  have "chain ?st2 p cs (Some t)"
    using n(3) fresh d by (subst chain_cong [where st = st]) (auto simp del: set_map)
  then have "chain ?st2 p ((cs @ [(t, w)]) @ [(a, v)]) None"
    using n(2) ne a(1) by (auto simp: chain_append)
  then have "list_in ?st2 p ((cs @ [(t, w)]) @ [(a, v)])"
    using assms(1) fresh a(1) by (auto simp: list_in_def)
  with set show ?thesis by blast
qed

section \<open>Loops over a list\<close>

text \<open>The search loop of the sources: the first node whose value satisfies a predicate. The outer
  \<open>None\<close> is a loop that does not end.\<close>

partial_function (option) list_find ::
    "('a \<Rightarrow> bool) \<Rightarrow> 'a store \<Rightarrow> addr option \<Rightarrow> addr option exec option" where
  "list_find P st p =
     (case p of
        None \<Rightarrow> Some (Inr None)
      | Some a \<Rightarrow>
          (case store_get st p of
             Inl e \<Rightarrow> Some (Inl e)
           | Inr n \<Rightarrow> if P (node_val n) then Some (Inr (Some a)) else list_find P st (node_next n)))"

lemma list_find_chain:
  "chain st p cs None \<Longrightarrow> list_find P st p = Some (Inr (map_option fst (find (\<lambda>c. P (snd c)) cs)))"
proof (induction cs arbitrary: p)
  case Nil
  then show ?case by (subst list_find.simps) simp
next
  case (Cons c cs)
  obtain a v where c: "c = (a, v)" by (rule prod.exhaust)
  with Cons.prems obtain n where n: "p = Some a" "cells st a = Some n" "node_val n = v"
    "chain st (node_next n) cs None" by (auto split: option.splits)
  with Cons.IH [OF n(4)] c show ?case by (subst list_find.simps) (simp add: store_get_def)
qed

text \<open>Changing the value of a node in place.\<close>

definition store_upd :: "'a store \<Rightarrow> addr option \<Rightarrow> ('a \<Rightarrow> 'a) \<Rightarrow> 'a store exec" where
  "store_upd st p f =
     exec_bind (store_get st p) (\<lambda>n. store_put st p (n\<lparr>node_val := f (node_val n)\<rparr>))"

lemma chain_update:
  assumes "chain st p (us @ (a, v) # vs) q" and "a \<notin> set (map fst us)" and "a \<notin> set (map fst vs)"
    and "cells st a = Some n"
  shows "chain (st\<lparr>cells := (cells st)(a \<mapsto> n\<lparr>node_val := v'\<rparr>)\<rparr>) p (us @ (a, v') # vs) q"
  using assms by (auto simp: chain_append)

lemma list_in_update:
  assumes "list_in st p (us @ (a, v) # vs)"
  shows "\<exists>st'. store_upd st (Some a) f = Inr st' \<and> list_in st' p (us @ (a, f v) # vs) \<and> brk st' = brk st"
proof -
  from assms obtain n where n: "cells st a = Some n" "node_val n = v"
    by (auto simp: list_in_def chain_append split: option.splits)
  let ?st = "st\<lparr>cells := (cells st)(a \<mapsto> n\<lparr>node_val := f v\<rparr>)\<rparr>"
  have "store_upd st (Some a) f = Inr ?st"
    using n by (simp add: store_upd_def store_get_def store_put_def)
  moreover have "chain ?st p (us @ (a, f v) # vs) None"
    using assms n(1) by (intro chain_update [where v = v]) (auto simp: list_in_def)
  moreover from this have "list_in ?st p (us @ (a, f v) # vs)"
    using assms by (auto simp: list_in_def)
  ultimately show ?thesis by auto
qed

text \<open>Unlinking a node: the one before it, or the head pointer, is made to point behind it.\<close>

lemma list_in_node:
  assumes "list_in st p (us @ (a, v) # vs)"
  obtains n where "cells st a = Some n" "node_val n = v" "chain st p us (Some a)"
    "chain st (node_next n) vs None" "a \<notin> set (map fst us)" "a \<notin> set (map fst vs)"
  using assms by (auto simp: list_in_def chain_append split: option.splits)

lemma list_in_free_first:
  assumes "list_in st p ((a, v) # vs)" and "cells st a = Some n"
  shows "p = Some a" "list_in (st\<lparr>cells := (cells st)(a := None)\<rparr>) (node_next n) vs"
  using assms by (auto elim!: list_in_head)

lemma list_in_unlink:
  assumes "list_in st p ((us @ [(b, w)]) @ (a, v) # vs)" and "cells st a = Some n"
  shows "\<exists>st'. store_set_next st (Some b) (node_next n) = Inr st' \<and> cells st' a = Some n \<and> brk st' = brk st \<and>
    list_in (st'\<lparr>cells := (cells st')(a := None)\<rparr>) p ((us @ [(b, w)]) @ vs)"
proof -
  from assms(1) have d: "a \<noteq> b" "b \<notin> set (map fst us)" "a \<notin> set (map fst us)" "b \<notin> set (map fst vs)"
      "a \<notin> set (map fst vs)" by (auto simp: list_in_def)
  from assms obtain m where m: "cells st b = Some m" "node_val m = w" "chain st p us (Some b)"
    "chain st (node_next n) vs None"
    by (auto simp: list_in_def chain_append split: option.splits)
  let ?st = "st\<lparr>cells := (cells st)(b \<mapsto> m\<lparr>node_next := node_next n\<rparr>)\<rparr>"
  let ?st' = "?st\<lparr>cells := (cells ?st)(a := None)\<rparr>"
  have same: "chain ?st' q cs r = chain st q cs r" if "a \<notin> set (map fst cs)" "b \<notin> set (map fst cs)" for q cs r
    using that by (intro chain_cong) auto
  from m(3,4) d have "chain ?st' p us (Some b)" "chain ?st' (node_next n) vs None"
    using same [of us p "Some b"] same [of vs "node_next n" None] by blast+
  then have "chain ?st' p ((us @ [(b, w)]) @ vs) None" using m(2) d(1) by (auto simp: chain_append)
  then have "list_in ?st' p ((us @ [(b, w)]) @ vs)" using assms(1) d by (auto simp: list_in_def)
  moreover have "store_set_next st (Some b) (node_next n) = Inr ?st"
    using m(1) by (simp add: store_set_next_def store_get_def store_put_def)
  ultimately show ?thesis using assms(2) d(1) by auto
qed

section \<open>Interfaces\<close>

text \<open>A list that grows at its end, and a run of such additions.\<close>

fun append_run :: "('q \<Rightarrow> 'e \<Rightarrow> 'q exec) \<Rightarrow> 'q \<Rightarrow> 'e list \<Rightarrow> 'q exec" where
  "append_run app q [] = Inr q"
| "append_run app q (e # es) = exec_bind (app q e) (\<lambda>q'. append_run app q' es)"

locale append_list =
  fixes append_elem :: "'q \<Rightarrow> 'e \<Rightarrow> 'q exec"
    and contents :: "'q \<Rightarrow> 'e list"
    and inv :: "'q \<Rightarrow> bool"
  assumes append_ok: "inv q \<Longrightarrow>
    \<exists>q'. append_elem q e = Inr q' \<and> inv q' \<and> contents q' = contents q @ [e]"
begin

lemma run_appends:
  "inv q \<Longrightarrow> \<exists>q'. append_run append_elem q es = Inr q' \<and> inv q' \<and> contents q' = contents q @ es"
proof (induction es arbitrary: q)
  case Nil
  then show ?case by simp
next
  case (Cons e es)
  from append_ok [OF Cons.prems, of e] obtain q' where "append_elem q e = Inr q'" "inv q'"
    "contents q' = contents q @ [e]" by blast
  with Cons.IH [of q'] show ?case by auto
qed

end

text \<open>Operations on a queue, in the order in which the threads that share it perform them, and what
  they answer: whether an element was taken in, or what was given out.\<close>

datatype 'e fifo_op = Enq 'e | Deq | Close

datatype 'e fifo_res = Took bool | Gave 'e | Closed

fun fifo_run ::
    "('q \<Rightarrow> 'e \<Rightarrow> (bool \<times> 'q) exec) \<Rightarrow> ('q \<Rightarrow> ('e \<times> 'q) exec) \<Rightarrow> ('q \<Rightarrow> 'q exec) \<Rightarrow> 'q \<Rightarrow> 'e fifo_op list \<Rightarrow>
     ('e fifo_res list \<times> 'q) exec" where
  "fifo_run enq deq close q [] = Inr ([], q)"
| "fifo_run enq deq close q (op # ops) =
     exec_bind
       (case op of
          Enq e \<Rightarrow> exec_bind (enq q e) (\<lambda>(ok, q'). Inr (Took ok, q'))
        | Deq \<Rightarrow> exec_bind (deq q) (\<lambda>(e, q'). Inr (Gave e, q'))
        | Close \<Rightarrow> exec_bind (close q) (\<lambda>q'. Inr (Closed, q')))
       (\<lambda>(r, q'). exec_bind (fifo_run enq deq close q' ops) (\<lambda>(rs, q''). Inr (r # rs, q'')))"

text \<open>
  The abstract queue: a list and a flag. Given the answers of a run it says whether each of them
  is right and which list and flag are left; \<open>None\<close> is a wrong answer. An element may be refused,
  but a dequeue has to give the first element, and \<open>idle c\<close> exactly when there is none.
\<close>

fun fifo_spec :: "(bool \<Rightarrow> 'e) \<Rightarrow> 'e list \<Rightarrow> bool \<Rightarrow> ('e fifo_op \<times> 'e fifo_res) list \<Rightarrow> ('e list \<times> bool) option" where
  "fifo_spec idle xs c [] = Some (xs, c)"
| "fifo_spec idle xs c ((Enq e, Took ok) # tr) = fifo_spec idle (if ok then xs @ [e] else xs) c tr"
| "fifo_spec idle xs c ((Deq, Gave e) # tr) =
     (case xs of
        [] \<Rightarrow> (if e = idle c then fifo_spec idle [] c tr else None)
      | x # xs' \<Rightarrow> (if e = x then fifo_spec idle xs' c tr else None))"
| "fifo_spec idle xs c ((Close, Closed) # tr) = fifo_spec idle xs True tr"
| "fifo_spec idle xs c (_ # tr) = None"

locale fifo =
  fixes enq :: "'q \<Rightarrow> 'e \<Rightarrow> (bool \<times> 'q) exec" and deq :: "'q \<Rightarrow> ('e \<times> 'q) exec" and close :: "'q \<Rightarrow> 'q exec"
    and contents :: "'q \<Rightarrow> 'e list" and closed :: "'q \<Rightarrow> bool" and inv :: "'q \<Rightarrow> bool" and idle :: "bool \<Rightarrow> 'e"
  assumes enq_ok: "inv q \<Longrightarrow> \<exists>ok q'. enq q e = Inr (ok, q') \<and> inv q' \<and>
      contents q' = (if ok then contents q @ [e] else contents q) \<and> closed q' = closed q"
    and deq_first: "inv q \<Longrightarrow> contents q = e # es \<Longrightarrow>
      \<exists>q'. deq q = Inr (e, q') \<and> inv q' \<and> contents q' = es \<and> closed q' = closed q"
    and deq_idle: "inv q \<Longrightarrow> contents q = [] \<Longrightarrow>
      \<exists>q'. deq q = Inr (idle (closed q), q') \<and> inv q' \<and> contents q' = [] \<and> closed q' = closed q"
    and close_ok: "inv q \<Longrightarrow> \<exists>q'. close q = Inr q' \<and> inv q' \<and> contents q' = contents q \<and> closed q'"
begin

text \<open>Whatever the order of the operations, their answers are those of the abstract queue.\<close>

lemma run_refines:
  "inv q \<Longrightarrow> \<exists>rs q'. fifo_run enq deq close q ops = Inr (rs, q') \<and> inv q' \<and> length rs = length ops \<and>
     fifo_spec idle (contents q) (closed q) (zip ops rs) = Some (contents q', closed q')"
proof (induction ops arbitrary: q)
  case Nil
  then show ?case by simp
next
  case (Cons op ops)
  show ?case
  proof (cases op)
    case (Enq e)
    from enq_ok [OF Cons.prems, of e] obtain ok q' where
      q': "enq q e = Inr (ok, q')" "inv q'" "contents q' = (if ok then contents q @ [e] else contents q)"
        "closed q' = closed q" by blast
    from Cons.IH [OF q'(2)] q' Enq show ?thesis by auto
  next
    case Deq
    show ?thesis
    proof (cases "contents q")
      case Nil
      from deq_idle [OF Cons.prems Nil] obtain q' where
        q': "deq q = Inr (idle (closed q), q')" "inv q'" "contents q' = []" "closed q' = closed q" by blast
      from Cons.IH [OF q'(2)] q' Nil Deq show ?thesis by auto
    next
      case (Cons x xs)
      from deq_first [OF \<open>inv q\<close> Cons] obtain q' where
        q': "deq q = Inr (x, q')" "inv q'" "contents q' = xs" "closed q' = closed q" by blast
      from Cons.IH [OF q'(2)] q' Cons Deq show ?thesis by auto
    qed
  next
    case Close
    from close_ok [OF Cons.prems] obtain q' where
      q': "close q = Inr q'" "inv q'" "contents q' = contents q" "closed q'" by blast
    from Cons.IH [OF q'(2)] q' Close show ?thesis by auto
  qed
qed

end

end
