(* ===== verification/Completion_Queue.thy ===== *)
theory Completion_Queue
  imports Heap_List
begin

text \<open>
  The completion queue of \<^verbatim>\<open>src/grpc_core.c\<close>: a linked list of events with head and tail
  pointers, a shutdown flag, a mutex and a condition variable. Every operation holds the mutex,
  so a concurrent execution is a sequence of whole operations; the one exception is
  \<open>grpc_completion_queue_next\<close>, which gives the mutex up while it waits. What other threads do
  during such a wait is an argument of the model; whether it wakes the waiting thread is not: the
  condition variable records the signals and broadcasts that were sent since the wait began.
  \<open>cq_events\<close> is the list of events the nodes stand for.
\<close>

section \<open>Data\<close>

record grpc_event =
  ev_type :: int
  ev_success :: bool
  ev_tag :: "nat option"

datatype grpc_completion_type = GRPC_CQ_NEXT | GRPC_CQ_PLUCK

record grpc_completion_queue =
  cq_type :: grpc_completion_type
  cq_mutex :: mutex
  cq_cond :: bool
  cq_head :: "addr option"
  cq_tail :: "addr option"
  cq_shutdown :: bool
  cq_nodes :: "grpc_event store"

text \<open>The events \<open>next\<close> makes up itself; fields not assigned are zero.\<close>

definition null_queue_event :: grpc_event where
  "null_queue_event = \<lparr>ev_type = -1, ev_success = False, ev_tag = None\<rparr>"

definition timeout_event :: grpc_event where
  "timeout_event = \<lparr>ev_type = 0, ev_success = False, ev_tag = None\<rparr>"

definition shutdown_event :: grpc_event where
  "shutdown_event = \<lparr>ev_type = 1, ev_success = False, ev_tag = None\<rparr>"

section \<open>Operations\<close>

definition ETIMEDOUT :: int where
  "ETIMEDOUT = 110"

definition grpc_completion_queue_create ::
    "grpc_completion_type \<Rightarrow> alloc \<Rightarrow> grpc_completion_queue option \<times> alloc" where
  "grpc_completion_queue_create ty os =
     (let (ok, os1) = alloc_next os
      in if \<not> ok then (None, os1)
         else (Some \<lparr>cq_type = ty, cq_mutex = False, cq_cond = False, cq_head = None, cq_tail = None,
                     cq_shutdown = False, cq_nodes = store_empty\<rparr>, os1))"

text \<open>\<open>pthread_cond_signal\<close> and \<open>pthread_cond_broadcast\<close> on the condition variable of the queue.\<close>

definition cq_signal :: "grpc_completion_queue \<Rightarrow> grpc_completion_queue" where
  "cq_signal q = q\<lparr>cq_cond := True\<rparr>"

definition cq_broadcast :: "grpc_completion_queue \<Rightarrow> grpc_completion_queue" where
  "cq_broadcast q = q\<lparr>cq_cond := True\<rparr>"

text \<open>The critical section of a push: link a node whose \<open>next\<close> is \<open>NULL\<close> behind the tail.\<close>

definition cq_link :: "grpc_completion_queue \<Rightarrow> grpc_event \<Rightarrow> grpc_completion_queue exec" where
  "cq_link cq event =
     (case store_new (cq_nodes cq) event None of
        (ev, nodes) \<Rightarrow>
          exec_bind (mutex_lock (cq_mutex cq)) (\<lambda>m.
            exec_bind
              (if cq_tail cq \<noteq> None
               then exec_bind (store_set_next nodes (cq_tail cq) (Some ev)) (\<lambda>nodes'.
                      Inr (cq\<lparr>cq_nodes := nodes'\<rparr>))
               else Inr (cq\<lparr>cq_nodes := nodes, cq_head := Some ev\<rparr>))
              (\<lambda>cq1. Inr ((cq_signal (cq1\<lparr>cq_tail := Some ev\<rparr>))\<lparr>cq_mutex := mutex_unlock m\<rparr>))))"

definition completion_queue_push_event ::
    "grpc_completion_queue option \<Rightarrow> grpc_event \<Rightarrow> alloc \<Rightarrow>
     (grpc_completion_queue option \<times> alloc) exec" where
  "completion_queue_push_event cq event os =
     (case cq of
        None \<Rightarrow> Inr (None, os)
      | Some q \<Rightarrow>
          (let (ok, os1) = alloc_next os
           in if \<not> ok then Inr (Some q, os1)
              else exec_bind (cq_link q event) (\<lambda>q'. Inr (Some q', os1))))"

text \<open>Unlinking and freeing the first node.\<close>

definition cq_take :: "grpc_completion_queue \<Rightarrow> (grpc_event \<times> grpc_completion_queue) exec" where
  "cq_take cq =
     exec_bind (store_get (cq_nodes cq) (cq_head cq)) (\<lambda>ev.
       exec_bind (store_free (cq_nodes cq) (cq_head cq)) (\<lambda>nodes.
         Inr (node_val ev,
              cq\<lparr>cq_nodes := nodes, cq_head := node_next ev,
                 cq_tail := (if node_next ev = None then None else cq_tail cq)\<rparr>)))"

text \<open>
  What the other threads do while one thread waits for the condition variable: they push
  events, shut the queue down, or take events off it.
\<close>

datatype cq_action = Act_Push grpc_event | Act_Shutdown | Act_Take

definition grpc_completion_queue_shutdown ::
    "grpc_completion_queue option \<Rightarrow> grpc_completion_queue option exec" where
  "grpc_completion_queue_shutdown cq =
     (case cq of
        None \<Rightarrow> Inr None
      | Some q \<Rightarrow>
          exec_bind (mutex_lock (cq_mutex q)) (\<lambda>m.
            Inr (Some ((cq_broadcast (q\<lparr>cq_shutdown := True\<rparr>))\<lparr>cq_mutex := mutex_unlock m\<rparr>))))"

fun cq_act :: "cq_action \<Rightarrow> grpc_completion_queue \<Rightarrow> grpc_completion_queue exec" where
  "cq_act (Act_Push e) q = cq_link q e"
| "cq_act Act_Shutdown q =
     exec_bind (grpc_completion_queue_shutdown (Some q)) (\<lambda>r. Inr (the r))"
| "cq_act Act_Take q =
     (if cq_head q = None then Inr q else exec_bind (cq_take q) (\<lambda>(e, q'). Inr q'))"

fun cq_acts :: "cq_action list \<Rightarrow> grpc_completion_queue \<Rightarrow> grpc_completion_queue exec" where
  "cq_acts [] q = Inr q"
| "cq_acts (a # as) q = exec_bind (cq_act a q) (cq_acts as)"

text \<open>
  One \<open>pthread_cond_timedwait\<close>. \<open>wait_acts\<close> is what the other threads do before the mutex is held
  again. \<open>wait_ret = Some r\<close>: the wait returns \<open>r\<close>, a timeout or another error if \<open>r\<close> is not zero, a
  wake-up, possibly a spurious one, if it is. \<open>wait_ret = None\<close>: neither the deadline nor a spurious
  wake-up ends the wait, and the thread is the one that a signal wakes. Then the wait returns 0
  if the condition variable was signalled since it began, and does not return otherwise.
\<close>

record cq_wait =
  wait_ret :: "int option"
  wait_acts :: "cq_action list"

definition cq_timedwait :: "cq_wait \<Rightarrow> grpc_completion_queue \<Rightarrow> (int option \<times> grpc_completion_queue) exec" where
  "cq_timedwait w q =
     exec_bind (cq_acts (wait_acts w) (q\<lparr>cq_mutex := mutex_unlock (cq_mutex q), cq_cond := False\<rparr>)) (\<lambda>q'.
       case (case wait_ret w of None \<Rightarrow> if cq_cond q' then Some 0 else None | Some r \<Rightarrow> Some r) of
         None \<Rightarrow> Inr (None, q')
       | Some r \<Rightarrow> exec_bind (mutex_lock (cq_mutex q')) (\<lambda>m. Inr (Some r, q'\<lparr>cq_mutex := m\<rparr>)))"

text \<open>
  The body of \<open>next\<close> with the mutex held, for the waits to come. The result is the returned
  event, or \<open>None\<close> while the thread is still waiting, because the list of waits has ended or the
  last of them does not return; the mutex is free then.
\<close>

fun cq_next_loop :: "grpc_completion_queue \<Rightarrow> cq_wait list \<Rightarrow>
    (grpc_event option \<times> grpc_completion_queue) exec" where
  "cq_next_loop q ws =
     (if cq_head q = None \<and> \<not> cq_shutdown q
      then
        (case ws of
           [] \<Rightarrow> Inr (None, q\<lparr>cq_mutex := mutex_unlock (cq_mutex q)\<rparr>)
         | w # ws' \<Rightarrow>
             exec_bind (cq_timedwait w q) (\<lambda>(r, q').
               case r of
                 None \<Rightarrow> Inr (None, q')
               | Some ret \<Rightarrow>
                   if ret \<noteq> 0
                   then Inr (Some timeout_event, q'\<lparr>cq_mutex := mutex_unlock (cq_mutex q')\<rparr>)
                   else cq_next_loop q' ws'))
      else if cq_shutdown q \<and> cq_head q = None
      then Inr (Some shutdown_event, q\<lparr>cq_mutex := mutex_unlock (cq_mutex q)\<rparr>)
      else exec_bind (cq_take q) (\<lambda>(e, q').
             Inr (Some e, q'\<lparr>cq_mutex := mutex_unlock (cq_mutex q')\<rparr>)))"

declare cq_next_loop.simps [simp del]

definition grpc_completion_queue_next ::
    "grpc_completion_queue option \<Rightarrow> cq_wait list \<Rightarrow>
     (grpc_event option \<times> grpc_completion_queue option) exec" where
  "grpc_completion_queue_next cq ws =
     (case cq of
        None \<Rightarrow> Inr (Some null_queue_event, None)
      | Some q \<Rightarrow>
          exec_bind (mutex_lock (cq_mutex q)) (\<lambda>m.
            exec_bind (cq_next_loop (q\<lparr>cq_mutex := m\<rparr>) ws) (\<lambda>(e, q'). Inr (e, Some q'))))"

partial_function (option) cq_free_nodes ::
    "grpc_event store \<Rightarrow> addr option \<Rightarrow> grpc_event store exec option" where
  "cq_free_nodes st ev =
     (case ev of
        None \<Rightarrow> Some (Inr st)
      | Some a \<Rightarrow>
          (case store_get st ev of
             Inl e \<Rightarrow> Some (Inl e)
           | Inr n \<Rightarrow>
               (case store_free st ev of
                  Inl e \<Rightarrow> Some (Inl e)
                | Inr st' \<Rightarrow> cq_free_nodes st' (node_next n))))"

text \<open>Destroying a queue: the result is the store of nodes left after the queue is freed,
  \<open>None\<close> for a \<open>NULL\<close> queue. The outer \<open>None\<close> is a run that does not end.\<close>

definition grpc_completion_queue_destroy ::
    "grpc_completion_queue option \<Rightarrow> grpc_event store option exec option" where
  "grpc_completion_queue_destroy cq =
     (case cq of
        None \<Rightarrow> Some (Inr None)
      | Some q \<Rightarrow>
          (case mutex_lock (cq_mutex q) of
             Inl e \<Rightarrow> Some (Inl e)
           | Inr m \<Rightarrow> map_option (map_sum id Some) (cq_free_nodes (cq_nodes q) (cq_head q))))"

section \<open>Contents and invariant\<close>

definition cq_events :: "grpc_completion_queue \<Rightarrow> grpc_event list" where
  "cq_events q = walk (brk (cq_nodes q)) (cq_nodes q) (cq_head q)"

text \<open>Between operations: the nodes in the store are the list from the head to the tail, the
  tail pointer is that of the last node, and the mutex is free.\<close>

definition cq_linked :: "grpc_completion_queue \<Rightarrow> (addr \<times> grpc_event) list \<Rightarrow> bool" where
  "cq_linked q cs \<longleftrightarrow> list_in (cq_nodes q) (cq_head q) cs \<and> cq_tail q = tail_of cs"

definition cq_inv :: "grpc_completion_queue \<Rightarrow> bool" where
  "cq_inv q \<longleftrightarrow> \<not> cq_mutex q \<and> (\<exists>cs. cq_linked q cs)"

lemma cq_events_linked: "cq_linked q cs \<Longrightarrow> cq_events q = map snd cs"
  unfolding cq_events_def cq_linked_def by (auto intro: walk_list_in)

lemma cq_linked_mutex [simp]: "cq_linked (q\<lparr>cq_mutex := m\<rparr>) = cq_linked q"
  by (simp add: cq_linked_def fun_eq_iff)

lemma cq_linked_shutdown [simp]: "cq_linked (q\<lparr>cq_shutdown := b\<rparr>) = cq_linked q"
  by (simp add: cq_linked_def fun_eq_iff)

lemma cq_linked_cond [simp]: "cq_linked (q\<lparr>cq_cond := b\<rparr>) = cq_linked q"
  by (simp add: cq_linked_def fun_eq_iff)

lemma cq_cond_simps [simp]: "cq_signal q = q\<lparr>cq_cond := True\<rparr>" "cq_broadcast q = q\<lparr>cq_cond := True\<rparr>"
  by (simp_all add: cq_signal_def cq_broadcast_def)

lemma cq_inv_cond [simp]: "cq_inv (q\<lparr>cq_cond := b\<rparr>) = cq_inv q"
  by (simp add: cq_inv_def)

lemma cq_events_fields [simp]:
  "cq_events (q\<lparr>cq_cond := b\<rparr>) = cq_events q"
  "cq_events (q\<lparr>cq_mutex := m\<rparr>) = cq_events q"
  "cq_events (q\<lparr>cq_shutdown := b\<rparr>) = cq_events q"
  by (simp_all add: cq_events_def)

lemma cq_linked_head: "cq_linked q cs \<Longrightarrow> cq_head q = None \<longleftrightarrow> cs = []"
  by (cases cs) (auto simp: cq_linked_def list_in_def)

lemma cq_inv_head: "cq_inv q \<Longrightarrow> cq_head q = None \<longleftrightarrow> cq_events q = []"
  unfolding cq_inv_def by (metis cq_events_linked cq_linked_head map_is_Nil_conv)

lemma cq_link_linked:
  assumes "cq_linked q cs" and "\<not> cq_mutex q"
  shows "\<exists>q'. cq_link q e = Inr q' \<and> \<not> cq_mutex q' \<and> cq_shutdown q' = cq_shutdown q \<and>
    cq_cond q' \<and> (\<exists>a. cq_linked q' (cs @ [(a, e)]))"
proof -
  obtain a st1 where new: "store_new (cq_nodes q) e None = (a, st1)" by force
  show ?thesis
  proof (cases cs rule: rev_cases)
    case Nil
    with assms have "cq_head q = None" "cq_tail q = None" "list_in (cq_nodes q) None []"
      by (auto simp: cq_linked_def tail_of_def)
    moreover from list_in_new_front [OF this(3), of e] new
    have "list_in st1 (Some a) [(a, e)]" by (auto simp: store_new_def)
    ultimately show ?thesis
      using new assms(2) Nil by (auto simp: cq_link_def cq_linked_def tail_of_def)
  next
    case (snoc ds d)
    obtain t w where d: "d = (t, w)" by force
    from assms(1) snoc d have l: "list_in (cq_nodes q) (cq_head q) (ds @ [(t, w)])"
      and t: "cq_tail q = Some t"
      by (auto simp: cq_linked_def tail_of_def)
    from list_in_snoc [OF l new] obtain st2 where
      "store_set_next st1 (Some t) (Some a) = Inr st2"
      "list_in st2 (cq_head q) ((ds @ [(t, w)]) @ [(a, e)])" by blast
    with new t assms(2) snoc d show ?thesis
      by (auto simp: cq_link_def cq_linked_def tail_of_def)
  qed
qed

lemma cq_take_linked:
  assumes "cq_linked q ((a, e) # cs)"
  shows "\<exists>q'. cq_take q = Inr (e, q') \<and> cq_mutex q' = cq_mutex q \<and> cq_cond q' = cq_cond q \<and>
    cq_shutdown q' = cq_shutdown q \<and> cq_linked q' cs"
proof -
  from assms have l: "list_in (cq_nodes q) (cq_head q) ((a, e) # cs)"
    and t: "cq_tail q = tail_of ((a, e) # cs)"
    by (simp_all add: cq_linked_def)
  from l obtain n where n: "cq_head q = Some a" "cells (cq_nodes q) a = Some n" "node_val n = e"
    "list_in ((cq_nodes q)\<lparr>cells := (cells (cq_nodes q))(a := None)\<rparr>) (node_next n) cs"
    by (rule list_in_head)
  have "node_next n = None \<longleftrightarrow> cs = []"
    using n(4) by (cases cs) (auto simp: list_in_def)
  with n t show ?thesis
    by (auto simp: cq_take_def store_get_def store_free_def cq_linked_def tail_of_def)
qed

lemma cq_link_ok:
  "cq_inv q \<Longrightarrow> \<exists>q'. cq_link q e = Inr q' \<and> cq_inv q' \<and> cq_events q' = cq_events q @ [e] \<and>
     cq_shutdown q' = cq_shutdown q \<and> cq_cond q'"
  unfolding cq_inv_def
  using cq_link_linked by (fastforce simp: cq_events_linked)

lemma cq_take_ok:
  assumes "cq_inv q" and "cq_events q = e # es"
  shows "\<exists>q'. cq_take q = Inr (e, q') \<and> cq_inv q' \<and> cq_events q' = es \<and>
    cq_shutdown q' = cq_shutdown q \<and> cq_cond q' = cq_cond q"
proof -
  from assms obtain a cs where cs: "cq_linked q ((a, e) # cs)" "map snd cs = es" "\<not> cq_mutex q"
    unfolding cq_inv_def by (fastforce simp: cq_events_linked)
  from cq_take_linked [OF cs(1)] cs(2,3) show ?thesis
    unfolding cq_inv_def by (auto simp: cq_events_linked)
qed

section \<open>Waiting\<close>

text \<open>No wake-up is lost: as long as the condition variable was not signalled, there is nothing to
  wake up for.\<close>

definition cq_quiet :: "grpc_completion_queue \<Rightarrow> bool" where
  "cq_quiet q \<longleftrightarrow> cq_cond q \<or> cq_events q = [] \<and> \<not> cq_shutdown q"

lemma cq_act_ok: "cq_inv q \<Longrightarrow> \<exists>q'. cq_act a q = Inr q' \<and> cq_inv q' \<and> (cq_quiet q \<longrightarrow> cq_quiet q')"
proof (cases a)
  case (Act_Push e)
  assume "cq_inv q"
  with Act_Push show ?thesis using cq_link_ok [of q e] by (auto simp: cq_quiet_def)
next
  case Act_Shutdown
  assume "cq_inv q"
  with Act_Shutdown show ?thesis
    by (auto simp: grpc_completion_queue_shutdown_def cq_inv_def cq_quiet_def)
next
  case Act_Take
  assume q: "cq_inv q"
  show ?thesis
  proof (cases "cq_events q")
    case Nil
    with q Act_Take cq_inv_head [OF q] show ?thesis by simp
  next
    case (Cons e es)
    with q Act_Take cq_inv_head [OF q] cq_take_ok [OF q Cons] show ?thesis by (auto simp: cq_quiet_def)
  qed
qed

lemma cq_acts_ok: "cq_inv q \<Longrightarrow> \<exists>q'. cq_acts as q = Inr q' \<and> cq_inv q' \<and> (cq_quiet q \<longrightarrow> cq_quiet q')"
proof (induction as arbitrary: q)
  case Nil
  then show ?case by simp
next
  case (Cons a as)
  from cq_act_ok [OF Cons.prems, of a] obtain q' where
    "cq_act a q = Inr q'" "cq_inv q'" "cq_quiet q \<longrightarrow> cq_quiet q'" by blast
  with Cons.IH [of q'] show ?case by auto
qed

text \<open>With the mutex held, the queue is linked: the state in which \<open>next\<close> tests its guard.\<close>

definition cq_held :: "grpc_completion_queue \<Rightarrow> bool" where
  "cq_held q \<longleftrightarrow> cq_mutex q \<and> cq_inv (q\<lparr>cq_mutex := False\<rparr>)"

lemma cq_timedwait_ok:
  assumes "cq_held q" and "cq_events q = []" and "\<not> cq_shutdown q"
  shows "\<exists>r q'. cq_timedwait w q = Inr (r, q') \<and>
    (case r of
       None \<Rightarrow> wait_ret w = None \<and> cq_inv q' \<and> cq_events q' = [] \<and> \<not> cq_shutdown q'
     | Some ret \<Rightarrow> cq_held q' \<and> (wait_ret w = None \<and> ret = 0 \<or> wait_ret w = Some ret))"
proof -
  let ?q = "q\<lparr>cq_mutex := False, cq_cond := False\<rparr>"
  from assms have "cq_inv ?q" "cq_quiet ?q" by (simp_all add: cq_held_def cq_quiet_def)
  with cq_acts_ok [of ?q "wait_acts w"] obtain q' where
    "cq_acts (wait_acts w) ?q = Inr q'" "cq_inv q'" "cq_quiet q'" by blast
  then show ?thesis
    by (cases "wait_ret w") (auto simp: cq_timedwait_def cq_held_def cq_inv_def cq_quiet_def)
qed

lemma cq_held_head: "cq_held q \<Longrightarrow> cq_head q = None \<longleftrightarrow> cq_events q = []"
  using cq_inv_head [of "q\<lparr>cq_mutex := False\<rparr>"] by (simp add: cq_held_def)

lemma cq_held_take:
  assumes "cq_held q" and "cq_events q = e # es"
  shows "\<exists>q'. cq_take q = Inr (e, q') \<and> cq_held q' \<and> cq_events q' = es \<and>
    cq_shutdown q' = cq_shutdown q"
proof -
  from assms obtain a cs where cs: "cq_linked q ((a, e) # cs)" "map snd cs = es" "cq_mutex q"
    unfolding cq_held_def cq_inv_def by (fastforce simp: cq_events_linked)
  from cq_take_linked [OF cs(1)] obtain q' where
    "cq_take q = Inr (e, q')" "cq_mutex q' = cq_mutex q" "cq_shutdown q' = cq_shutdown q"
    "cq_linked q' cs" by blast
  with cs(2,3) show ?thesis
    unfolding cq_held_def cq_inv_def by (auto simp: cq_events_linked)
qed

text \<open>Where \<open>next\<close> can be after the waits \<open>ws\<close>.\<close>

definition next_result :: "cq_wait list \<Rightarrow> grpc_event option \<Rightarrow> grpc_completion_queue \<Rightarrow> bool" where
  "next_result ws r q \<longleftrightarrow> cq_inv q \<and>
     (r = None \<longrightarrow> cq_events q = [] \<and> \<not> cq_shutdown q \<and>
        ((\<forall>w\<in>set ws. wait_ret w \<noteq> None) \<longrightarrow> (\<forall>w\<in>set ws. wait_ret w = Some 0)))"

lemma cq_next_loop_idle:
  assumes "cq_held q" and "cq_events q = []" and "\<not> cq_shutdown q"
  shows "cq_next_loop q [] = Inr (None, q\<lparr>cq_mutex := False\<rparr>)"
    "cq_next_loop q (w # ws) = exec_bind (cq_timedwait w q) (\<lambda>(r, q').
       case r of
         None \<Rightarrow> Inr (None, q')
       | Some ret \<Rightarrow>
           if ret \<noteq> 0 then Inr (Some timeout_event, q'\<lparr>cq_mutex := mutex_unlock (cq_mutex q')\<rparr>) else cq_next_loop q' ws)"
proof -
  have h: "cq_head q = None \<and> \<not> cq_shutdown q" using assms cq_held_head [OF assms(1)] by simp
  note run = cq_next_loop.simps [of q, unfolded if_P [OF h]]
  show "cq_next_loop q [] = Inr (None, q\<lparr>cq_mutex := False\<rparr>)" by (simp add: run)
  show "cq_next_loop q (w # ws) = exec_bind (cq_timedwait w q) (\<lambda>(r, q').
       case r of
         None \<Rightarrow> Inr (None, q')
       | Some ret \<Rightarrow>
           if ret \<noteq> 0 then Inr (Some timeout_event, q'\<lparr>cq_mutex := mutex_unlock (cq_mutex q')\<rparr>) else cq_next_loop q' ws)"
    unfolding run by simp
qed

lemma cq_next_loop_ready:
  assumes "cq_held q" and "cq_events q \<noteq> [] \<or> cq_shutdown q"
  shows "\<exists>e q'. cq_next_loop q ws = Inr (Some e, q') \<and> cq_inv q'"
proof (cases "cq_events q")
  case Nil
  with assms cq_held_head [OF assms(1)] show ?thesis
    by (subst cq_next_loop.simps) (simp add: cq_held_def)
next
  case (Cons e es)
  with assms cq_held_head [OF assms(1)] cq_held_take [OF assms(1) Cons] show ?thesis
    by (subst cq_next_loop.simps) (auto simp: cq_held_def)
qed

lemma cq_next_loop_safe:
  assumes "cq_held q"
  shows "\<exists>r q'. cq_next_loop q ws = Inr (r, q') \<and> next_result ws r q'"
  using assms
proof (induction ws arbitrary: q)
  case Nil
  show ?case
  proof (cases "cq_events q \<noteq> [] \<or> cq_shutdown q")
    case True
    from cq_next_loop_ready [OF Nil True, of "[]"] show ?thesis by (auto simp: next_result_def)
  next
    case False
    with cq_next_loop_idle(1) [OF Nil] Nil show ?thesis by (auto simp: next_result_def cq_held_def)
  qed
next
  case (Cons w ws)
  show ?case
  proof (cases "cq_events q \<noteq> [] \<or> cq_shutdown q")
    case True
    from cq_next_loop_ready [OF Cons.prems True, of "w # ws"] show ?thesis by (auto simp: next_result_def)
  next
    case False
    then have idle: "cq_events q = []" "\<not> cq_shutdown q" by auto
    from cq_timedwait_ok [OF Cons.prems idle, of w] obtain r q' where
      r: "cq_timedwait w q = Inr (r, q')"
        "case r of
           None \<Rightarrow> wait_ret w = None \<and> cq_inv q' \<and> cq_events q' = [] \<and> \<not> cq_shutdown q'
         | Some ret \<Rightarrow> cq_held q' \<and> (wait_ret w = None \<and> ret = 0 \<or> wait_ret w = Some ret)" by blast
    show ?thesis
    proof (cases r)
      case None
      with r cq_next_loop_idle(2) [OF Cons.prems idle, of w ws] show ?thesis by (auto simp: next_result_def)
    next
      case (Some ret)
      with r(2) have h: "cq_held q'" and wr: "wait_ret w = None \<and> ret = 0 \<or> wait_ret w = Some ret" by auto
      from Cons.IH [OF h] obtain r2 q2 where
        "cq_next_loop q' ws = Inr (r2, q2)" "next_result ws r2 q2" by blast
      with Some r(1) h wr cq_next_loop_idle(2) [OF Cons.prems idle, of w ws] show ?thesis
        by (cases "ret = 0") (auto simp: next_result_def cq_held_def)
    qed
  qed
qed

lemma cq_next_drained:
  assumes "cq_inv q" and "cq_events q = []" and "cq_shutdown q"
  shows "grpc_completion_queue_next (Some q) ws = Inr (Some shutdown_event, Some q)"
proof -
  have m: "\<not> cq_mutex q" using assms(1) by (simp add: cq_inv_def)
  have "cq_head q = None" using cq_inv_head [OF assms(1)] assms(2) by simp
  with assms(3) have "cq_next_loop (q\<lparr>cq_mutex := True\<rparr>) ws =
      Inr (Some shutdown_event, q\<lparr>cq_mutex := False\<rparr>)"
    by (subst cq_next_loop.simps) simp
  moreover have "q\<lparr>cq_mutex := False\<rparr> = q" using m by simp
  ultimately show ?thesis using m by (simp add: grpc_completion_queue_next_def)
qed

text \<open>Events pushed during a wait.\<close>

lemma cq_acts_push:
  "cq_inv q \<Longrightarrow> \<exists>q'. cq_acts (map Act_Push es) q = Inr q' \<and> cq_inv q' \<and>
     cq_events q' = cq_events q @ es \<and> cq_shutdown q' = cq_shutdown q \<and> cq_cond q' = (cq_cond q \<or> es \<noteq> [])"
proof (induction es arbitrary: q)
  case Nil
  then show ?case by simp
next
  case (Cons e es)
  from cq_link_ok [OF Cons.prems, of e] obtain q' where "cq_link q e = Inr q'" "cq_inv q'"
    "cq_events q' = cq_events q @ [e]" "cq_shutdown q' = cq_shutdown q" "cq_cond q'" by blast
  with Cons.IH [of q'] show ?case by auto
qed

lemma cq_timedwait_spurious:
  assumes "cq_held q"
  shows "cq_timedwait \<lparr>wait_ret = Some 0, wait_acts = []\<rparr> q = Inr (Some 0, q\<lparr>cq_mutex := True, cq_cond := False\<rparr>)"
    "cq_held (q\<lparr>cq_mutex := True, cq_cond := False\<rparr>)"
  using assms by (simp_all add: cq_timedwait_def cq_held_def cq_inv_def)

lemma cq_timedwait_push:
  assumes "cq_held q" and "cq_events q = []"
  shows "\<exists>q'. cq_timedwait \<lparr>wait_ret = None, wait_acts = map Act_Push (e # es)\<rparr> q = Inr (Some 0, q') \<and> cq_held q' \<and>
    cq_events q' = e # es"
proof -
  from assms(1) have "cq_inv (q\<lparr>cq_mutex := False, cq_cond := False\<rparr>)" by (simp add: cq_held_def)
  from cq_acts_push [OF this, of "e # es"] assms(2) show ?thesis
    by (auto simp: cq_timedwait_def cq_held_def cq_inv_def simp del: list.map)
qed

lemma cq_timedwait_shutdown:
  assumes "cq_held q" and "cq_events q = []"
  shows "\<exists>q'. cq_timedwait \<lparr>wait_ret = None, wait_acts = [Act_Shutdown]\<rparr> q = Inr (Some 0, q') \<and> cq_held q' \<and>
    cq_events q' = [] \<and> cq_shutdown q'"
  using assms by (simp add: cq_timedwait_def grpc_completion_queue_shutdown_def cq_held_def cq_inv_def)

lemma cq_next_loop_event:
  assumes "cq_held q" and "cq_events q = e # es"
  shows "\<exists>q'. cq_next_loop q ws = Inr (Some e, q') \<and> cq_inv q' \<and> cq_events q' = es \<and>
    cq_shutdown q' = cq_shutdown q"
proof -
  obtain y where "cq_head q = Some y" using cq_held_head [OF assms(1)] assms(2) by auto
  with cq_held_take [OF assms] show ?thesis
    by (subst cq_next_loop.simps) (auto simp: cq_held_def)
qed

lemma cq_next_loop_spurious:
  "cq_held q \<Longrightarrow> cq_events q = [] \<Longrightarrow> \<not> cq_shutdown q \<Longrightarrow>
   \<exists>q'. cq_held q' \<and> cq_events q' = [] \<and> \<not> cq_shutdown q' \<and>
     (\<forall>ws. cq_next_loop q (replicate n \<lparr>wait_ret = Some 0, wait_acts = []\<rparr> @ ws) = cq_next_loop q' ws)"
proof (induction n arbitrary: q)
  case 0
  then show ?case by auto
next
  case (Suc n)
  let ?q = "q\<lparr>cq_mutex := True, cq_cond := False\<rparr>"
  note w = cq_timedwait_spurious [OF Suc.prems(1)]
  from Suc.IH [OF w(2)] Suc.prems(2,3) obtain q' where
    "cq_held q'" "cq_events q' = []" "\<not> cq_shutdown q'"
    "\<forall>ws. cq_next_loop ?q (replicate n \<lparr>wait_ret = Some 0, wait_acts = []\<rparr> @ ws) = cq_next_loop q' ws" by auto
  then show ?case by (intro exI [of _ q']) (simp add: cq_next_loop_idle(2) [OF Suc.prems] w(1))
qed

lemma cq_next_loop_woken:
  assumes "cq_held q" and "cq_events q = []" and "\<not> cq_shutdown q"
  shows "\<exists>q'. cq_next_loop q (\<lparr>wait_ret = None, wait_acts = map Act_Push (e # es)\<rparr> # ws) = Inr (Some e, q') \<and>
      cq_inv q' \<and> cq_events q' = es"
    "\<exists>q'. cq_next_loop q (\<lparr>wait_ret = None, wait_acts = [Act_Shutdown]\<rparr> # ws) = Inr (Some shutdown_event, q') \<and>
      cq_inv q' \<and> cq_events q' = [] \<and> cq_shutdown q'"
proof -
  note step = cq_next_loop_idle(2) [OF assms]
  from cq_timedwait_push [OF assms(1,2), of e es] obtain q' where
    q': "cq_timedwait \<lparr>wait_ret = None, wait_acts = map Act_Push (e # es)\<rparr> q = Inr (Some 0, q')" "cq_held q'"
      "cq_events q' = e # es" by blast
  from cq_next_loop_event [OF q'(2,3), of ws] step
  show "\<exists>q'. cq_next_loop q (\<lparr>wait_ret = None, wait_acts = map Act_Push (e # es)\<rparr> # ws) = Inr (Some e, q') \<and>
      cq_inv q' \<and> cq_events q' = es" by (auto simp: q'(1) simp del: list.map)
  from cq_timedwait_shutdown [OF assms(1,2)] obtain q2 where
    q2: "cq_timedwait \<lparr>wait_ret = None, wait_acts = [Act_Shutdown]\<rparr> q = Inr (Some 0, q2)" "cq_held q2"
      "cq_events q2 = []" "cq_shutdown q2" by blast
  then have "cq_next_loop q2 ws = Inr (Some shutdown_event, q2\<lparr>cq_mutex := False\<rparr>)"
    using cq_held_head [OF q2(2)] by (subst cq_next_loop.simps) simp
  with q2 show "\<exists>q'. cq_next_loop q (\<lparr>wait_ret = None, wait_acts = [Act_Shutdown]\<rparr> # ws) = Inr (Some shutdown_event, q') \<and>
      cq_inv q' \<and> cq_events q' = [] \<and> cq_shutdown q'"
    by (simp add: step cq_held_def)
qed

lemma cq_next_nonempty:
  assumes "cq_inv q" and "cq_events q = e # es"
  shows "\<exists>q'. grpc_completion_queue_next (Some q) ws = Inr (Some e, Some q') \<and> cq_inv q' \<and>
    cq_events q' = es \<and> cq_shutdown q' = cq_shutdown q"
proof -
  have h: "cq_held (q\<lparr>cq_mutex := True\<rparr>)" and m: "\<not> cq_mutex q"
    using assms(1) by (auto simp: cq_held_def cq_inv_def)
  from cq_next_loop_event [OF h, of e es ws] assms(2) m show ?thesis
    by (auto simp: grpc_completion_queue_next_def)
qed

text \<open>Calling \<open>next\<close> a number of times and collecting what it returns.\<close>

fun cq_drain :: "nat \<Rightarrow> grpc_completion_queue \<Rightarrow> (grpc_event list \<times> grpc_completion_queue) exec" where
  "cq_drain 0 q = Inr ([], q)"
| "cq_drain (Suc n) q =
     exec_bind (grpc_completion_queue_next (Some q) []) (\<lambda>(e, q').
       exec_bind (cq_drain n (the q')) (\<lambda>(es, q''). Inr (the e # es, q'')))"

lemma cq_drain_shutdown:
  "cq_inv q \<Longrightarrow> cq_shutdown q \<Longrightarrow>
   \<exists>q'. cq_drain n q = Inr (take n (cq_events q @ replicate n shutdown_event), q') \<and> cq_inv q' \<and>
     cq_shutdown q' \<and> cq_events q' = drop n (cq_events q)"
proof (induction n arbitrary: q)
  case 0
  then show ?case by simp
next
  case (Suc n)
  show ?case
  proof (cases "cq_events q")
    case Nil
    from Suc.IH [OF Suc.prems] cq_next_drained [OF Suc.prems(1) Nil Suc.prems(2), of "[]"] Nil
    show ?thesis by auto
  next
    case (Cons e es)
    from cq_next_nonempty [OF Suc.prems(1) Cons, of "[]"] obtain q' where
      q': "grpc_completion_queue_next (Some q) [] = Inr (Some e, Some q')" "cq_inv q'"
        "cq_events q' = es" "cq_shutdown q'"
      using Suc.prems(2) by auto
    have "take n (es @ replicate n shutdown_event) = take n (es @ shutdown_event # replicate n shutdown_event)"
      by (simp add: take_Cons' replicate_Suc [symmetric] del: replicate_Suc)
    with Suc.IH [OF q'(2,4)] q' Cons show ?thesis by auto
  qed
qed

lemma cq_free_nodes_list:
  "list_in st p cs \<Longrightarrow> \<exists>st'. cq_free_nodes st p = Some (Inr st') \<and> cells st' = (\<lambda>_. None)"
proof (induction cs arbitrary: st p)
  case Nil
  then show ?case by (subst cq_free_nodes.simps) simp
next
  case (Cons c cs)
  obtain a v where c: "c = (a, v)" by force
  from Cons.prems [unfolded c] obtain n where n: "p = Some a" "cells st a = Some n"
    "list_in (st\<lparr>cells := (cells st)(a := None)\<rparr>) (node_next n) cs"
    by (rule list_in_head)
  from Cons.IH [OF n(3)] n(1,2) show ?case
    by (subst cq_free_nodes.simps) (simp add: store_get_def store_free_def)
qed

section \<open>The queue as a first-in first-out buffer\<close>

text \<open>
  The public operations as operations of such a buffer. The state is the queue and the outcomes of
  the allocations to come. A push is taken in when its node can be allocated; a next that finds
  no event waits until its deadline.
\<close>

definition cq_push :: "grpc_completion_queue \<times> alloc \<Rightarrow> grpc_event \<Rightarrow> (bool \<times> grpc_completion_queue \<times> alloc) exec" where
  "cq_push s e =
     exec_bind (completion_queue_push_event (Some (fst s)) e (snd s)) (\<lambda>(q, os).
       Inr (fst (alloc_next (snd s)), the q, os))"

definition cq_pop :: "grpc_completion_queue \<times> alloc \<Rightarrow> (grpc_event \<times> grpc_completion_queue \<times> alloc) exec" where
  "cq_pop s =
     exec_bind (grpc_completion_queue_next (Some (fst s)) [\<lparr>wait_ret = Some ETIMEDOUT, wait_acts = []\<rparr>]) (\<lambda>(e, q).
       Inr (the e, the q, snd s))"

definition cq_stop :: "grpc_completion_queue \<times> alloc \<Rightarrow> (grpc_completion_queue \<times> alloc) exec" where
  "cq_stop s = exec_bind (grpc_completion_queue_shutdown (Some (fst s))) (\<lambda>q. Inr (the q, snd s))"

definition idle_event :: "bool \<Rightarrow> grpc_event" where
  "idle_event c = (if c then shutdown_event else timeout_event)"

lemma cq_next_timeout:
  assumes "cq_inv q" and "cq_events q = []" and "\<not> cq_shutdown q"
  shows "\<exists>q'. grpc_completion_queue_next (Some q) [\<lparr>wait_ret = Some ETIMEDOUT, wait_acts = []\<rparr>] =
      Inr (Some timeout_event, Some q') \<and> cq_inv q' \<and> cq_events q' = [] \<and> \<not> cq_shutdown q'"
proof -
  have h: "cq_held (q\<lparr>cq_mutex := True\<rparr>)" and m: "\<not> cq_mutex q" using assms(1) by (auto simp: cq_held_def cq_inv_def)
  from assms m cq_next_loop_idle(2) [OF h] show ?thesis
    by (simp add: grpc_completion_queue_next_def cq_timedwait_def ETIMEDOUT_def cq_inv_def)
qed

interpretation cq: fifo cq_push cq_pop cq_stop "\<lambda>s. cq_events (fst s)" "\<lambda>s. cq_shutdown (fst s)" "\<lambda>s. cq_inv (fst s)" idle_event
proof (unfold_locales, goal_cases)
  case (1 s e)
  then show ?case
    using cq_link_ok [OF 1, of e] by (cases "alloc_next (snd s)") (auto simp: cq_push_def completion_queue_push_event_def)
next
  case (2 s e es)
  from cq_next_nonempty [OF 2, of "[\<lparr>wait_ret = Some ETIMEDOUT, wait_acts = []\<rparr>]"] show ?case
    by (auto simp: cq_pop_def)
next
  case (3 s)
  then show ?case
    using cq_next_drained [OF 3] cq_next_timeout [OF 3] by (cases "cq_shutdown (fst s)") (auto simp: cq_pop_def idle_event_def)
next
  case (4 s)
  then show ?case by (simp add: cq_stop_def grpc_completion_queue_shutdown_def cq_inv_def)
qed

text \<open>With working memory every push is taken in.\<close>

lemma cq_push_taken:
  assumes "alloc_ok (snd s)" and "cq_push s e = Inr (ok, s')"
  shows "ok \<and> alloc_ok (snd s')"
proof -
  from assms(1) obtain os where "alloc_next (snd s) = (True, os)" "alloc_ok os" by (rule alloc_next_okE)
  with assms(2) show ?thesis by (auto simp: cq_push_def completion_queue_push_event_def exec_bind_eq_Inr)
qed

lemma cq_pop_alloc: "cq_pop s = Inr (e, s') \<Longrightarrow> snd s' = snd s" "cq_stop s = Inr s' \<Longrightarrow> snd s' = snd s"
  by (auto simp: cq_pop_def cq_stop_def exec_bind_eq_Inr)

lemma cq_run_keeps:
  "alloc_ok (snd s) \<Longrightarrow> fifo_run cq_push cq_pop cq_stop s ops = Inr (rs, s') \<Longrightarrow> Took False \<notin> set rs"
proof (induction ops arbitrary: s rs)
  case (Cons op ops)
  then show ?case
    by (cases op) (auto simp: exec_bind_eq_Inr dest: cq_push_taken cq_pop_alloc)
qed simp

definition cq_fresh :: grpc_completion_queue where
  "cq_fresh = \<lparr>cq_type = GRPC_CQ_NEXT, cq_mutex = False, cq_cond = False, cq_head = None, cq_tail = None,
     cq_shutdown = False, cq_nodes = store_empty\<rparr>"

lemma cq_linked_fresh: "cq_nodes q = store_empty \<Longrightarrow> cq_head q = None \<Longrightarrow> cq_tail q = None \<Longrightarrow> cq_linked q []"
  by (simp add: cq_linked_def list_in_def store_empty_def tail_of_def)

lemma cq_inv_fresh [simp]: "cq_inv cq_fresh" "cq_events cq_fresh = []" "\<not> cq_shutdown cq_fresh"
  using cq_linked_fresh [of cq_fresh] cq_events_linked [of cq_fresh "[]"]
  by (auto simp: cq_fresh_def cq_inv_def)

section \<open>Properties\<close>

text \<open>
  C8. The completion queue implements a first-in first-out buffer. For every sequence of pushes,
  nexts and shutdowns the threads perform on a well-formed queue and for every pattern of
  allocation failures no operation faults and the answers are those of the abstract queue, a list
  and a flag: a push appends its event unless its node cannot be allocated, in which case the
  event is lost; a next gives the first event, or, exactly when there is none, the timeout
  event (with its deadline passing) before a shutdown and the shutdown event after it. With
  working memory no event is lost.
\<close>

theorem completion_queue_delivers_in_order:
  assumes "cq_inv q"
  shows "\<exists>rs q' os'. fifo_run cq_push cq_pop cq_stop (q, os) ops = Inr (rs, q', os') \<and> cq_inv q' \<and>
    length rs = length ops \<and>
    fifo_spec idle_event (cq_events q) (cq_shutdown q) (zip ops rs) = Some (cq_events q', cq_shutdown q') \<and>
    (alloc_ok os \<longrightarrow> Took False \<notin> set rs)"
  using cq.run_refines [of "(q, os)" ops] assms cq_run_keeps [of "(q, os)" ops] by auto

theorem completion_queue_delivers_in_order_witness:
  "\<exists>rs q' os'. fifo_run cq_push cq_pop cq_stop (cq_fresh, [True, False, True])
      [Enq null_queue_event, Enq timeout_event, Deq, Enq shutdown_event, Deq, Deq, Close, Deq] = Inr (rs, q', os') \<and> cq_inv q' \<and>
    fifo_spec idle_event [] False (zip
      [Enq null_queue_event, Enq timeout_event, Deq, Enq shutdown_event, Deq, Deq, Close, Deq] rs) = Some (cq_events q', cq_shutdown q')"
  using completion_queue_delivers_in_order
    [of cq_fresh "[True, False, True]" "[Enq null_queue_event, Enq timeout_event, Deq, Enq shutdown_event, Deq, Deq, Close, Deq]"]
  by (auto simp del: fifo_run.simps)

text \<open>
  Pushing onto a well-formed queue appends the event; when the node cannot be allocated
  the event is dropped and the queue is as before. The mutex is free afterwards and the
  shutdown flag untouched, so events are accepted after a shutdown, too.
\<close>

theorem completion_queue_push_event_appends:
  assumes "cq_inv q"
  shows "\<exists>q' os'. completion_queue_push_event (Some q) event os = Inr (Some q', os') \<and> cq_inv q' \<and>
    cq_shutdown q' = cq_shutdown q \<and>
    (if fst (alloc_next os) then cq_events q' = cq_events q @ [event] else q' = q)"
  using cq_link_ok [OF assms, of event] assms
  by (cases "alloc_next os") (auto simp: completion_queue_push_event_def)

theorem completion_queue_push_event_appends_witness:
  "\<exists>q' os'. completion_queue_push_event (Some cq_fresh) timeout_event [True] = Inr (Some q', os') \<and>
    cq_inv q' \<and> \<not> cq_shutdown q' \<and> cq_events q' = [timeout_event]"
  using completion_queue_push_event_appends [of cq_fresh timeout_event "[True]"] by simp

text \<open>
  C9. A next on a well-formed queue never faults, whatever the other threads do during its
  waits and whatever the waits return: it comes back with an event, or it is still waiting; the
  mutex is released in both cases. It is still waiting only if the queue is empty and not shut
  down, so no wake-up is lost, and as soon as one of the waits reports a timeout it does come
  back.
\<close>

theorem grpc_completion_queue_next_safe:
  assumes "cq_inv q"
  shows "\<exists>r q'. grpc_completion_queue_next (Some q) ws = Inr (r, Some q') \<and> cq_inv q' \<and>
    (case r of
       None \<Rightarrow> cq_events q' = [] \<and> \<not> cq_shutdown q' \<and>
         ((\<forall>w\<in>set ws. wait_ret w \<noteq> None) \<longrightarrow> (\<forall>w\<in>set ws. wait_ret w = Some 0))
     | Some e \<Rightarrow> True)"
proof -
  have h: "cq_held (q\<lparr>cq_mutex := True\<rparr>)" and m: "\<not> cq_mutex q"
    using assms by (auto simp: cq_held_def cq_inv_def)
  from cq_next_loop_safe [OF h, of ws] obtain r q' where
    "cq_next_loop (q\<lparr>cq_mutex := True\<rparr>) ws = Inr (r, q')" "next_result ws r q'" by blast
  with m show ?thesis
    by (intro exI [of _ r] exI [of _ q']) (auto simp: grpc_completion_queue_next_def next_result_def split: option.split)
qed

theorem grpc_completion_queue_next_safe_witness:
  "\<exists>r q'. grpc_completion_queue_next (Some cq_fresh) [\<lparr>wait_ret = Some 110, wait_acts = [Act_Push timeout_event]\<rparr>]
     = Inr (Some r, Some q') \<and> cq_inv q'"
proof -
  let ?ws = "[\<lparr>wait_ret = Some 110, wait_acts = [Act_Push timeout_event]\<rparr>]"
  from grpc_completion_queue_next_safe [of cq_fresh ?ws] obtain r q' where
    "grpc_completion_queue_next (Some cq_fresh) ?ws = Inr (r, Some q')" "cq_inv q'" "r \<noteq> None"
    by (auto split: option.splits)
  then show ?thesis by auto
qed

text \<open>
  C10. A next that blocks on an empty queue, after any number of spurious wake-ups, and whose
  deadline does not pass is woken: by the signal of a push, and then it returns the first event
  that was pushed while it waited and leaves the ones behind it in the queue; and by the broadcast
  of a shutdown, and then it returns the shutdown event. A wait here returns only because the
  condition variable was signalled during it.
\<close>

theorem grpc_completion_queue_next_woken:
  assumes "cq_inv q" and "cq_events q = []" and "\<not> cq_shutdown q"
  shows "(\<exists>q'. grpc_completion_queue_next (Some q)
        (replicate n \<lparr>wait_ret = Some 0, wait_acts = []\<rparr> @
         \<lparr>wait_ret = None, wait_acts = map Act_Push (e # es)\<rparr> # ws) = Inr (Some e, Some q') \<and>
      cq_inv q' \<and> cq_events q' = es) \<and>
    (\<exists>q'. grpc_completion_queue_next (Some q)
        (replicate n \<lparr>wait_ret = Some 0, wait_acts = []\<rparr> @
         \<lparr>wait_ret = None, wait_acts = [Act_Shutdown]\<rparr> # ws) = Inr (Some shutdown_event, Some q') \<and>
      cq_inv q' \<and> cq_events q' = [] \<and> cq_shutdown q')"
proof -
  let ?q = "q\<lparr>cq_mutex := True\<rparr>"
  have h: "cq_held ?q" and m: "\<not> cq_mutex q" using assms(1) by (auto simp: cq_held_def cq_inv_def)
  from cq_next_loop_spurious [OF h, of n] assms(2,3) obtain q1 where
    q1: "cq_held q1" "cq_events q1 = []" "\<not> cq_shutdown q1"
      "\<forall>ws. cq_next_loop ?q (replicate n \<lparr>wait_ret = Some 0, wait_acts = []\<rparr> @ ws) = cq_next_loop q1 ws" by auto
  from cq_next_loop_woken(1) [OF q1(1-3), of e es ws] cq_next_loop_woken(2) [OF q1(1-3), of ws] show ?thesis
    using m by (auto simp: grpc_completion_queue_next_def q1(4) simp del: list.map)
qed

theorem grpc_completion_queue_next_woken_witness:
  "\<exists>q'. grpc_completion_queue_next (Some cq_fresh)
        (replicate 2 \<lparr>wait_ret = Some 0, wait_acts = []\<rparr> @
         \<lparr>wait_ret = None, wait_acts = map Act_Push [timeout_event, shutdown_event]\<rparr> # []) =
      Inr (Some timeout_event, Some q') \<and> cq_inv q' \<and> cq_events q' = [shutdown_event]"
  by (rule grpc_completion_queue_next_woken [of cq_fresh 2 timeout_event "[shutdown_event]" "[]", THEN conjunct1]) simp_all

text \<open>
  C11. Shutting a queue down loses nothing: the nexts that follow return the queued events in
  order, then the shutdown event, and the shutdown event again ever after.
\<close>

theorem grpc_completion_queue_shutdown_drains:
  assumes "cq_inv q"
  shows "\<exists>q1 q2. grpc_completion_queue_shutdown (Some q) = Inr (Some q1) \<and>
    cq_drain (length (cq_events q) + n) q1 = Inr (cq_events q @ replicate n shutdown_event, q2) \<and>
    cq_inv q2 \<and> cq_events q2 = []"
proof -
  let ?q = "q\<lparr>cq_shutdown := True, cq_cond := True, cq_mutex := False\<rparr>"
  have m: "\<not> cq_mutex q" using assms by (simp add: cq_inv_def)
  then have s: "grpc_completion_queue_shutdown (Some q) = Inr (Some ?q)"
    by (simp add: grpc_completion_queue_shutdown_def)
  have i: "cq_inv ?q" using assms by (auto simp: cq_inv_def)
  have "take (length (cq_events q) + n)
      (cq_events q @ replicate (length (cq_events q) + n) shutdown_event) =
      cq_events q @ replicate n shutdown_event"
    by (simp add: min_def)
  with cq_drain_shutdown [OF i, of "length (cq_events q) + n"] s show ?thesis by auto
qed

theorem grpc_completion_queue_shutdown_drains_witness:
  "\<exists>q1 q2. grpc_completion_queue_shutdown (Some cq_fresh) = Inr (Some q1) \<and>
    cq_drain 2 q1 = Inr ([shutdown_event, shutdown_event], q2) \<and> cq_inv q2 \<and> cq_events q2 = []"
  using grpc_completion_queue_shutdown_drains [of cq_fresh 2]
  by (simp add: numeral_2_eq_2 del: cq_drain.simps)

lemma cq_destroy_ok:
  assumes "cq_inv q"
  shows "\<exists>st. grpc_completion_queue_destroy (Some q) = Some (Inr (Some st)) \<and> cells st = (\<lambda>_. None)"
proof -
  from assms obtain cs where "\<not> cq_mutex q" "list_in (cq_nodes q) (cq_head q) cs"
    by (auto simp: cq_inv_def cq_linked_def)
  with cq_free_nodes_list [of "cq_nodes q" "cq_head q" cs] show ?thesis
    by (auto simp: grpc_completion_queue_destroy_def)
qed

text \<open>
  C39. Destroying a well-formed queue ends and frees every queued node exactly once.
\<close>

theorem grpc_completion_queue_destroy_frees:
  assumes "cq_inv q"
  shows "\<exists>st. grpc_completion_queue_destroy (Some q) = Some (Inr (Some st)) \<and> cells st = (\<lambda>_. None)"
  using assms by (rule cq_destroy_ok)

theorem grpc_completion_queue_destroy_frees_witness:
  "\<exists>st. grpc_completion_queue_destroy (Some cq_fresh) = Some (Inr (Some st)) \<and> cells st = (\<lambda>_. None)"
  by (rule grpc_completion_queue_destroy_frees) simp

end
