(* ===== verification/World.thy ===== *)
theory World
  imports Core Metadata Completion_Queue
begin

text \<open>
  The objects of \<^verbatim>\<open>src/grpc_internal.h\<close> that point at each other (connections, streams, calls,
  channels and completion queues) and the state an operation on them works on: one heap per type
  of object, the allocator, and the sockets. A pointer is an address or \<open>None\<close>; an address that
  was freed is no longer in its heap and addresses are not reused, so every access through a
  dangling pointer is a fault. An operation is a function from the state to a result and a new
  state, or a fault; \<open>bnd\<close> runs one operation after another.
\<close>

section \<open>Objects\<close>

record http2_connection =
  conn_socket_fd :: int
  conn_ssl_ctx :: "nat option"
  conn_ssl :: "nat option"
  conn_is_client :: bool
  conn_next_stream_id :: uint32
  conn_write_mutex :: mutex
  conn_streams_mutex :: mutex
  conn_streams :: "addr arr"
  conn_local_window_size :: int32
  conn_remote_window_size :: int32
  conn_max_frame_size :: uint32
  conn_max_concurrent_streams :: uint32

record http2_stream =
  strm_id :: uint32
  strm_conn :: "addr option"
  strm_call :: "addr option"
  strm_headers_sent :: bool
  strm_end_stream_sent :: bool
  strm_end_stream_received :: bool
  strm_initial_metadata :: grpc_metadata_array
  strm_trailing_metadata :: grpc_metadata_array
  strm_recv_buffer :: "grpc_byte_buffer option"
  strm_status :: grpc_status_code
  strm_status_details :: "string option"
  strm_local_window_size :: int32
  strm_remote_window_size :: int32

record grpc_channel =
  chan_target :: string
  chan_connection :: "addr option"
  chan_creds :: "nat option"
  chan_args :: "nat option"
  chan_mutex :: mutex

record grpc_call =
  call_channel :: "addr option"
  call_server :: "addr option"
  call_stream :: "addr option"
  call_cq :: "addr option"
  call_method :: "string option"
  call_host :: "string option"
  call_deadline :: grpc_timespec
  call_initial_metadata :: grpc_metadata_array
  call_trailing_metadata :: grpc_metadata_array
  call_send_buffer :: "grpc_byte_buffer option"
  call_recv_buffer :: "grpc_byte_buffer option"
  call_status :: grpc_status_code
  call_status_details :: "string option"
  call_cancelled :: bool
  call_mutex :: mutex

section \<open>State\<close>

type_synonym 'a heap = "addr \<Rightarrow> 'a option"

text \<open>
  \<open>w_sent\<close> and \<open>w_incoming\<close> are the bytes written to and still to be read from each socket;
  \<open>w_send_ret\<close> is what the coming calls of \<open>send\<close> return (a negative number for an error), full
  writes when the list is used up; \<open>w_closed\<close> collects the closed descriptors.
\<close>

record world =
  w_conns :: "http2_connection heap"
  w_streams :: "http2_stream heap"
  w_channels :: "grpc_channel heap"
  w_calls :: "grpc_call heap"
  w_cqs :: "grpc_completion_queue heap"
  w_brk :: addr
  w_alloc :: alloc
  w_sent :: "int \<Rightarrow> uint8 list"
  w_incoming :: "int \<Rightarrow> uint8 list"
  w_send_ret :: "int list"
  w_closed :: "int list"

definition world_empty :: world where
  "world_empty = \<lparr>w_conns = (\<lambda>_. None), w_streams = (\<lambda>_. None), w_channels = (\<lambda>_. None),
     w_calls = (\<lambda>_. None), w_cqs = (\<lambda>_. None), w_brk = 0, w_alloc = [],
     w_sent = (\<lambda>_. []), w_incoming = (\<lambda>_. []), w_send_ret = [], w_closed = []\<rparr>"

section \<open>Commands\<close>

type_synonym 'a cmd = "world \<Rightarrow> ('a \<times> world) exec"

definition ret :: "'a \<Rightarrow> 'a cmd" where
  "ret x w = Inr (x, w)"

definition bnd :: "'a cmd \<Rightarrow> ('a \<Rightarrow> 'b cmd) \<Rightarrow> 'b cmd" where
  "bnd m f w = exec_bind (m w) (\<lambda>(x, w'). f x w')"

definition lift :: "'a exec \<Rightarrow> 'a cmd" where
  "lift x w = exec_bind x (\<lambda>v. Inr (v, w))"

definition skip :: "unit cmd" where
  "skip = ret ()"

definition alloc_cmd :: "bool cmd" where
  "alloc_cmd w = (let (ok, os) = alloc_next (w_alloc w) in Inr (ok, w\<lparr>w_alloc := os\<rparr>))"

text \<open>Reading, changing, creating and freeing an object of the heap with selector \<open>sel\<close> and
  update function \<open>upd\<close>.\<close>

definition heap_get :: "'a heap \<Rightarrow> addr option \<Rightarrow> 'a exec" where
  "heap_get h p =
     (case p of
        None \<Rightarrow> Inl Null_Deref
      | Some a \<Rightarrow> (case h a of None \<Rightarrow> Inl Use_After_Free | Some x \<Rightarrow> Inr x))"

definition cell_get :: "(world \<Rightarrow> 'a heap) \<Rightarrow> addr option \<Rightarrow> 'a cmd" where
  "cell_get sel p w = exec_bind (heap_get (sel w) p) (\<lambda>x. Inr (x, w))"

definition cell_upd ::
    "(world \<Rightarrow> 'a heap) \<Rightarrow> (('a heap \<Rightarrow> 'a heap) \<Rightarrow> world \<Rightarrow> world) \<Rightarrow> addr option \<Rightarrow> ('a \<Rightarrow> 'a) \<Rightarrow>
     unit cmd" where
  "cell_upd sel upd p f w =
     exec_bind (heap_get (sel w) p) (\<lambda>x. Inr ((), upd (\<lambda>_. (sel w)(the p \<mapsto> f x)) w))"

definition cell_new ::
    "(world \<Rightarrow> 'a heap) \<Rightarrow> (('a heap \<Rightarrow> 'a heap) \<Rightarrow> world \<Rightarrow> world) \<Rightarrow> 'a \<Rightarrow> addr cmd" where
  "cell_new sel upd x w = Inr (w_brk w, upd (\<lambda>_. (sel w)(w_brk w \<mapsto> x)) (w\<lparr>w_brk := w_brk w + 1\<rparr>))"

definition cell_free ::
    "(world \<Rightarrow> 'a heap) \<Rightarrow> (('a heap \<Rightarrow> 'a heap) \<Rightarrow> world \<Rightarrow> world) \<Rightarrow> addr option \<Rightarrow> unit cmd" where
  "cell_free sel upd p w =
     (case p of
        None \<Rightarrow> Inr ((), w)
      | Some a \<Rightarrow> (if sel w a = None then Inl Double_Free else Inr ((), upd (\<lambda>_. (sel w)(a := None)) w)))"

abbreviation conn_get where "conn_get \<equiv> cell_get w_conns"
abbreviation conn_upd where "conn_upd \<equiv> cell_upd w_conns w_conns_update"
abbreviation conn_new where "conn_new \<equiv> cell_new w_conns w_conns_update"
abbreviation conn_free where "conn_free \<equiv> cell_free w_conns w_conns_update"

abbreviation strm_get where "strm_get \<equiv> cell_get w_streams"
abbreviation strm_upd where "strm_upd \<equiv> cell_upd w_streams w_streams_update"
abbreviation strm_new where "strm_new \<equiv> cell_new w_streams w_streams_update"
abbreviation strm_free where "strm_free \<equiv> cell_free w_streams w_streams_update"

abbreviation chan_get where "chan_get \<equiv> cell_get w_channels"
abbreviation chan_upd where "chan_upd \<equiv> cell_upd w_channels w_channels_update"
abbreviation chan_new where "chan_new \<equiv> cell_new w_channels w_channels_update"
abbreviation chan_free where "chan_free \<equiv> cell_free w_channels w_channels_update"

abbreviation call_get where "call_get \<equiv> cell_get w_calls"
abbreviation call_upd where "call_upd \<equiv> cell_upd w_calls w_calls_update"
abbreviation call_new where "call_new \<equiv> cell_new w_calls w_calls_update"
abbreviation call_free where "call_free \<equiv> cell_free w_calls w_calls_update"

abbreviation cq_get where "cq_get \<equiv> cell_get w_cqs"
abbreviation cq_new where "cq_new \<equiv> cell_new w_cqs w_cqs_update"

text \<open>Locking and unlocking a mutex field of an object.\<close>

definition cell_lock ::
    "(addr option \<Rightarrow> 'a cmd) \<Rightarrow> (addr option \<Rightarrow> ('a \<Rightarrow> 'a) \<Rightarrow> unit cmd) \<Rightarrow> ('a \<Rightarrow> mutex) \<Rightarrow>
     ((mutex \<Rightarrow> mutex) \<Rightarrow> 'a \<Rightarrow> 'a) \<Rightarrow> addr option \<Rightarrow> unit cmd" where
  "cell_lock get upd fld fupd p =
     bnd (get p) (\<lambda>x. bnd (lift (mutex_lock (fld x))) (\<lambda>m. upd p (fupd (\<lambda>_. m))))"

definition cell_unlock ::
    "(addr option \<Rightarrow> ('a \<Rightarrow> 'a) \<Rightarrow> unit cmd) \<Rightarrow> ((mutex \<Rightarrow> mutex) \<Rightarrow> 'a \<Rightarrow> 'a) \<Rightarrow> addr option \<Rightarrow>
     unit cmd" where
  "cell_unlock upd fupd p = upd p (fupd mutex_unlock)"

abbreviation lock_write where
  "lock_write \<equiv> cell_lock conn_get conn_upd conn_write_mutex conn_write_mutex_update"
abbreviation unlock_write where
  "unlock_write \<equiv> cell_unlock conn_upd conn_write_mutex_update"
abbreviation lock_streams where
  "lock_streams \<equiv> cell_lock conn_get conn_upd conn_streams_mutex conn_streams_mutex_update"
abbreviation unlock_streams where
  "unlock_streams \<equiv> cell_unlock conn_upd conn_streams_mutex_update"
abbreviation lock_channel where
  "lock_channel \<equiv> cell_lock chan_get chan_upd chan_mutex chan_mutex_update"
abbreviation unlock_channel where
  "unlock_channel \<equiv> cell_unlock chan_upd chan_mutex_update"
abbreviation lock_call where
  "lock_call \<equiv> cell_lock call_get call_upd call_mutex call_mutex_update"
abbreviation unlock_call where
  "unlock_call \<equiv> cell_unlock call_upd call_mutex_update"

section \<open>Sockets\<close>

text \<open>\<open>send\<close>: the result and the bytes that went out; \<open>recv\<close> with \<open>MSG_WAITALL\<close>: the bytes that
  arrived, fewer than asked for only when the peer sends no more.\<close>

definition sock_send :: "int \<Rightarrow> uint8 list \<Rightarrow> int cmd" where
  "sock_send fd bytes w =
     (let r = (case w_send_ret w of [] \<Rightarrow> int (length bytes) | r # _ \<Rightarrow> min r (int (length bytes)))
      in Inr (r, w\<lparr>w_sent := (w_sent w)(fd := w_sent w fd @ take (nat r) bytes),
                   w_send_ret := tl (w_send_ret w)\<rparr>))"

definition sock_recv :: "int \<Rightarrow> nat \<Rightarrow> uint8 list cmd" where
  "sock_recv fd n w =
     Inr (take n (w_incoming w fd), w\<lparr>w_incoming := (w_incoming w)(fd := drop n (w_incoming w fd))\<rparr>)"

definition sock_close :: "int \<Rightarrow> unit cmd" where
  "sock_close fd w = Inr ((), w\<lparr>w_closed := w_closed w @ [fd]\<rparr>)"

section \<open>Evaluation\<close>

lemma ret_eq [simp, exec_simps]: "ret x w = Inr (x, w)"
  by (simp add: ret_def)

lemma skip_eq [simp, exec_simps]: "skip w = Inr ((), w)"
  by (simp add: skip_def)

lemma lift_Inr [simp, exec_simps]: "lift (Inr x) w = Inr (x, w)"
  by (simp add: lift_def)

lemma lift_Inl [simp, exec_simps]: "lift (Inl e) w = Inl e"
  by (simp add: lift_def)

lemma bnd_Inr: "m w = Inr (x, w') \<Longrightarrow> bnd m f w = f x w'"
  by (simp add: bnd_def)

lemma bnd_Inl: "m w = Inl e \<Longrightarrow> bnd m f w = Inl e"
  by (simp add: bnd_def)

lemma bnd_eq [exec_simps]: "bnd m f w = exec_bind (m w) (\<lambda>(x, w'). f x w')"
  by (simp add: bnd_def)

lemma bnd_eq_Inr: "bnd m f w = Inr y \<longleftrightarrow> (\<exists>x w'. m w = Inr (x, w') \<and> f x w' = Inr y)"
  by (auto simp: bnd_def exec_bind_eq_Inr)

lemma heap_get_Some [simp, exec_simps]: "h a = Some x \<Longrightarrow> heap_get h (Some a) = Inr x"
  by (simp add: heap_get_def)

lemma heap_get_freed [simp, exec_simps]: "h a = None \<Longrightarrow> heap_get h (Some a) = Inl Use_After_Free"
  by (simp add: heap_get_def)

lemma cell_get_Some [simp, exec_simps]: "sel w a = Some x \<Longrightarrow> cell_get sel (Some a) w = Inr (x, w)"
  by (simp add: cell_get_def)

lemma cell_upd_Some [simp, exec_simps]:
  "sel w a = Some x \<Longrightarrow> cell_upd sel upd (Some a) f w = Inr ((), upd (\<lambda>_. (sel w)(a \<mapsto> f x)) w)"
  by (simp add: cell_upd_def)

lemma cell_free_Some [simp, exec_simps]:
  "sel w a = Some x \<Longrightarrow> cell_free sel upd (Some a) w = Inr ((), upd (\<lambda>_. (sel w)(a := None)) w)"
  by (simp add: cell_free_def)

lemma cell_new_eq [simp, exec_simps]:
  "cell_new sel upd x w = Inr (w_brk w, upd (\<lambda>_. (sel w)(w_brk w \<mapsto> x)) (w\<lparr>w_brk := w_brk w + 1\<rparr>))"
  by (simp add: cell_new_def)

lemma cell_lock_free [exec_simps]:
  "sel w a = Some x \<Longrightarrow> \<not> fld x \<Longrightarrow>
   cell_lock (cell_get sel) (cell_upd sel upd) fld fupd (Some a) w =
     Inr ((), upd (\<lambda>_. (sel w)(a \<mapsto> fupd (\<lambda>_. True) x)) w)"
  by (simp add: cell_lock_def bnd_def)

lemma cell_lock_held [exec_simps]:
  "sel w a = Some x \<Longrightarrow> fld x \<Longrightarrow>
   cell_lock (cell_get sel) (cell_upd sel upd) fld fupd (Some a) w = Inl Deadlock"
  by (simp add: cell_lock_def bnd_def)

lemma cell_unlock_eq [exec_simps]:
  "sel w a = Some x \<Longrightarrow>
   cell_unlock (cell_upd sel upd) fupd (Some a) w = Inr ((), upd (\<lambda>_. (sel w)(a \<mapsto> fupd mutex_unlock x)) w)"
  by (simp add: cell_unlock_def)

lemma mutex_unlock_fun [simp]: "mutex_unlock = (\<lambda>_. False)"
  by (simp add: fun_eq_iff)

lemma alloc_cmd_eq [exec_simps]:
  "alloc_cmd w = Inr (fst (alloc_next (w_alloc w)), w\<lparr>w_alloc := snd (alloc_next (w_alloc w))\<rparr>)"
  by (simp add: alloc_cmd_def split: prod.splits)

end
