(* ===== verification/Credentials.thy ===== *)
theory Credentials
  imports Heap_List
begin

text \<open>
  Channel and server credentials, \<^verbatim>\<open>src/grpc_credentials.c\<close>. The memory has one heap for the
  copies of the root certificates and one for each kind of credentials; the key and certificate
  pairs are arrays of the caller, which the code only points at. A block that was freed is no
  longer in its heap, and addresses are not reused.
\<close>

section \<open>Memory\<close>

record grpc_ssl_pem_key_cert_pair =
  private_key :: "string option"
  cert_chain :: "string option"

record grpc_channel_credentials =
  cc_pem_root_certs :: "addr option"
  cc_pem_key_cert_pair :: "addr option"

record grpc_server_credentials =
  sc_pem_root_certs :: "addr option"
  sc_pem_key_cert_pairs :: "addr option"
  sc_num_key_cert_pairs :: nat

record cred_mem =
  cm_strings :: "addr \<Rightarrow> string option"
  cm_pairs :: "addr \<Rightarrow> grpc_ssl_pem_key_cert_pair list option"
  cm_channel :: "addr \<Rightarrow> grpc_channel_credentials option"
  cm_server :: "addr \<Rightarrow> grpc_server_credentials option"
  cm_brk :: addr
  cm_alloc :: alloc

text \<open>\<open>free\<close> and a read through a pointer.\<close>

definition heap_free :: "(addr \<Rightarrow> 'a option) \<Rightarrow> addr option \<Rightarrow> (addr \<Rightarrow> 'a option) exec" where
  "heap_free h p =
     (case p of
        None \<Rightarrow> Inr h
      | Some a \<Rightarrow> (if h a = None then Inl Double_Free else Inr (h(a := None))))"

definition heap_read :: "(addr \<Rightarrow> 'a option) \<Rightarrow> addr \<Rightarrow> 'a exec" where
  "heap_read h a = (case h a of None \<Rightarrow> Inl Use_After_Free | Some x \<Rightarrow> Inr x)"

text \<open>The copy of the root certificates: \<open>Inl\<close> when \<open>strdup\<close> fails.\<close>

definition copy_roots :: "string option \<Rightarrow> cred_mem \<Rightarrow> (cred_mem + addr option \<times> cred_mem)" where
  "copy_roots roots m =
     (case roots of
        None \<Rightarrow> Inr (None, m)
      | Some s \<Rightarrow>
          (let (ok, os) = alloc_next (cm_alloc m)
           in if \<not> ok then Inl (m\<lparr>cm_alloc := os\<rparr>)
              else Inr (Some (cm_brk m), m\<lparr>cm_alloc := os, cm_strings := (cm_strings m)(cm_brk m \<mapsto> s),
                        cm_brk := cm_brk m + 1\<rparr>)))"

section \<open>Channel credentials\<close>

definition grpc_ssl_credentials_create ::
    "string option \<Rightarrow> addr option \<Rightarrow> cred_mem \<Rightarrow> (addr option \<times> cred_mem) exec" where
  "grpc_ssl_credentials_create roots pair m =
     (let (ok, os) = alloc_next (cm_alloc m)
      in if \<not> ok then Inr (None, m\<lparr>cm_alloc := os\<rparr>)
         else
           (let creds = cm_brk m;
                m1 = m\<lparr>cm_alloc := os, cm_brk := creds + 1,
                  cm_channel := (cm_channel m)(creds \<mapsto> \<lparr>cc_pem_root_certs = None, cc_pem_key_cert_pair = None\<rparr>)\<rparr>
            in case copy_roots roots m1 of
                 Inl m2 \<Rightarrow> exec_bind (heap_free (cm_channel m2) (Some creds)) (\<lambda>h. Inr (None, m2\<lparr>cm_channel := h\<rparr>))
               | Inr (p, m2) \<Rightarrow>
                   Inr (Some creds, m2\<lparr>cm_channel :=
                     (cm_channel m2)(creds \<mapsto> \<lparr>cc_pem_root_certs = p, cc_pem_key_cert_pair = pair\<rparr>)\<rparr>)))"

definition grpc_channel_credentials_release :: "addr option \<Rightarrow> cred_mem \<Rightarrow> cred_mem exec" where
  "grpc_channel_credentials_release creds m =
     (case creds of
        None \<Rightarrow> Inr m
      | Some a \<Rightarrow>
          exec_bind (heap_read (cm_channel m) a) (\<lambda>c.
          exec_bind (heap_free (cm_strings m) (cc_pem_root_certs c)) (\<lambda>hs.
          exec_bind (heap_free (cm_channel m) creds) (\<lambda>hc.
            Inr (m\<lparr>cm_strings := hs, cm_channel := hc\<rparr>)))))"

section \<open>Server credentials\<close>

definition grpc_ssl_server_credentials_create ::
    "string option \<Rightarrow> addr option \<Rightarrow> nat \<Rightarrow> cred_mem \<Rightarrow> (addr option \<times> cred_mem) exec" where
  "grpc_ssl_server_credentials_create roots pairs num m =
     (let (ok, os) = alloc_next (cm_alloc m)
      in if \<not> ok then Inr (None, m\<lparr>cm_alloc := os\<rparr>)
         else
           (let creds = cm_brk m;
                m1 = m\<lparr>cm_alloc := os, cm_brk := creds + 1,
                  cm_server := (cm_server m)(creds \<mapsto>
                    \<lparr>sc_pem_root_certs = None, sc_pem_key_cert_pairs = None, sc_num_key_cert_pairs = 0\<rparr>)\<rparr>
            in case copy_roots roots m1 of
                 Inl m2 \<Rightarrow> exec_bind (heap_free (cm_server m2) (Some creds)) (\<lambda>h. Inr (None, m2\<lparr>cm_server := h\<rparr>))
               | Inr (p, m2) \<Rightarrow>
                   Inr (Some creds, m2\<lparr>cm_server := (cm_server m2)(creds \<mapsto>
                     \<lparr>sc_pem_root_certs = p, sc_pem_key_cert_pairs = pairs, sc_num_key_cert_pairs = num\<rparr>)\<rparr>)))"

definition grpc_server_credentials_release :: "addr option \<Rightarrow> cred_mem \<Rightarrow> cred_mem exec" where
  "grpc_server_credentials_release creds m =
     (case creds of
        None \<Rightarrow> Inr m
      | Some a \<Rightarrow>
          exec_bind (heap_read (cm_server m) a) (\<lambda>c.
          exec_bind (heap_free (cm_strings m) (sc_pem_root_certs c)) (\<lambda>hs.
          exec_bind (heap_free (cm_server m) creds) (\<lambda>hc.
            Inr (m\<lparr>cm_strings := hs, cm_server := hc\<rparr>)))))"

section \<open>What is allocated\<close>

text \<open>Addresses from \<open>cm_brk\<close> on are not in use, and \<open>same_blocks\<close> compares what is allocated.\<close>

definition cred_mem_ok :: "cred_mem \<Rightarrow> bool" where
  "cred_mem_ok m \<longleftrightarrow> (\<forall>a \<ge> cm_brk m. cm_strings m a = None \<and> cm_channel m a = None \<and> cm_server m a = None)"

definition same_blocks :: "cred_mem \<Rightarrow> cred_mem \<Rightarrow> bool" where
  "same_blocks m m' \<longleftrightarrow> cm_strings m' = cm_strings m \<and> cm_pairs m' = cm_pairs m \<and>
     cm_channel m' = cm_channel m \<and> cm_server m' = cm_server m"

text \<open>The string at a pointer; \<open>None\<close> for a null pointer.\<close>

definition cred_string :: "cred_mem \<Rightarrow> addr option \<Rightarrow> string option" where
  "cred_string m p = (case p of None \<Rightarrow> None | Some a \<Rightarrow> cm_strings m a)"

lemmas cred_defs = copy_roots_def heap_free_def heap_read_def cred_mem_ok_def same_blocks_def cred_string_def

lemma fun_upd_idle [simp]: "h a = None \<Longrightarrow> h(a := None) = h"
  by (rule ext) simp

lemma alloc_prod_cases: obtains ok os' where "alloc_next os = (ok, os')"
  by (cases "alloc_next os") simp

text \<open>
  Credentials of either kind, under every pattern of allocation failures: a creation that fails
  leaves nothing allocated; one that succeeds holds a copy of the root certificates and the pairs
  it was given, and releasing it frees exactly what the creation allocated, so the pairs stay
  with the caller.
\<close>

theorem grpc_ssl_credentials_create_release:
  assumes "cred_mem_ok m"
  shows "\<exists>p m1. grpc_ssl_credentials_create roots pair m = Inr (p, m1) \<and>
    (case p of
       None \<Rightarrow> same_blocks m m1 \<and> \<not> alloc_ok (cm_alloc m)
     | Some a \<Rightarrow> \<exists>c m2. cm_channel m1 a = Some c \<and> cred_string m1 (cc_pem_root_certs c) = roots \<and>
         cc_pem_key_cert_pair c = pair \<and> cred_mem_ok m1 \<and>
         grpc_channel_credentials_release p m1 = Inr m2 \<and> same_blocks m m2)"
proof -
  obtain ok os where o1: "alloc_next (cm_alloc m) = (ok, os)" by (rule alloc_prod_cases)
  obtain ok2 os2 where o2: "alloc_next os = (ok2, os2)" by (rule alloc_prod_cases)
  have "alloc_ok (cm_alloc m) \<longrightarrow> ok \<and> ok2" using o1 o2 by (cases "cm_alloc m"; cases os) auto
  with o1 o2 assms show ?thesis
    by (cases roots; cases ok; cases ok2)
      (simp_all add: grpc_ssl_credentials_create_def grpc_channel_credentials_release_def cred_defs Let_def)
qed

theorem grpc_ssl_server_credentials_create_release:
  assumes "cred_mem_ok m"
  shows "\<exists>p m1. grpc_ssl_server_credentials_create roots pairs num m = Inr (p, m1) \<and>
    (case p of
       None \<Rightarrow> same_blocks m m1 \<and> \<not> alloc_ok (cm_alloc m)
     | Some a \<Rightarrow> \<exists>c m2. cm_server m1 a = Some c \<and> cred_string m1 (sc_pem_root_certs c) = roots \<and>
         sc_pem_key_cert_pairs c = pairs \<and> sc_num_key_cert_pairs c = num \<and> cred_mem_ok m1 \<and>
         grpc_server_credentials_release p m1 = Inr m2 \<and> same_blocks m m2)"
proof -
  obtain ok os where o1: "alloc_next (cm_alloc m) = (ok, os)" by (rule alloc_prod_cases)
  obtain ok2 os2 where o2: "alloc_next os = (ok2, os2)" by (rule alloc_prod_cases)
  have "alloc_ok (cm_alloc m) \<longrightarrow> ok \<and> ok2" using o1 o2 by (cases "cm_alloc m"; cases os) auto
  with o1 o2 assms show ?thesis
    by (cases roots; cases ok; cases ok2)
      (simp_all add: grpc_ssl_server_credentials_create_def grpc_server_credentials_release_def cred_defs Let_def)
qed

text \<open>Witnesses: a memory with the caller's pair at address 0.\<close>

definition cred_mem_demo :: cred_mem where
  "cred_mem_demo = \<lparr>cm_strings = (\<lambda>_. None),
     cm_pairs = [0 \<mapsto> [\<lparr>private_key = Some ''key'', cert_chain = Some ''cert''\<rparr>]],
     cm_channel = (\<lambda>_. None), cm_server = (\<lambda>_. None), cm_brk = 1, cm_alloc = []\<rparr>"

lemma cred_mem_demo_ok: "cred_mem_ok cred_mem_demo"
  by (simp add: cred_mem_ok_def cred_mem_demo_def)

theorem grpc_ssl_credentials_create_release_witness:
  "\<exists>a m1 c. grpc_ssl_credentials_create (Some ''ca'') (Some 0) cred_mem_demo = Inr (Some a, m1) \<and>
     cm_channel m1 a = Some c \<and> cred_string m1 (cc_pem_root_certs c) = Some ''ca'' \<and> cc_pem_key_cert_pair c = Some 0"
  using grpc_ssl_credentials_create_release [OF cred_mem_demo_ok, of "Some ''ca''" "Some 0"]
  by (auto simp: cred_mem_demo_def split: option.splits)

theorem grpc_ssl_server_credentials_create_release_witness:
  "\<exists>a m1 c. grpc_ssl_server_credentials_create None (Some 0) 1 cred_mem_demo = Inr (Some a, m1) \<and>
     cm_server m1 a = Some c \<and> sc_pem_key_cert_pairs c = Some 0 \<and> sc_num_key_cert_pairs c = 1"
  using grpc_ssl_server_credentials_create_release [OF cred_mem_demo_ok, of None "Some 0" 1]
  by (auto simp: cred_mem_demo_def split: option.splits)

end
