(* ===== verification/Tls.thy ===== *)
theory Tls
  imports World Credentials "HOL-Library.Multiset"
begin

text \<open>
  TLS on top of OpenSSL, \<^verbatim>\<open>src/grpc_tls.c\<close>. OpenSSL is a parameter: a function that answers every
  call the code makes, over a state of its own. The model keeps the trace of the calls with
  their answers. What the code owns of OpenSSL's objects is read off that trace, and so is how
  it configured a context. The callback that selects the application protocol is a loop of its
  own over the list the client sent.
\<close>

section \<open>The library\<close>

datatype tls_method = TLS_client_method | TLS_server_method

datatype verify_flag = SSL_VERIFY_PEER | SSL_VERIFY_FAIL_IF_NO_PEER_CERT

datatype ssl_call =
    SSL_load_error_strings
  | SSL_library_init
  | OpenSSL_add_all_algorithms
  | EVP_cleanup
  | ERR_free_strings
  | ERR_print_errors_fp
  | SSL_CTX_new tls_method
  | SSL_CTX_free nat
  | SSL_CTX_set_min_proto_version nat int
  | SSL_CTX_get_cert_store nat
  | SSL_CTX_set_default_verify_paths nat
  | SSL_CTX_set_verify nat "verify_flag list"
  | SSL_CTX_use_certificate nat nat
  | SSL_CTX_use_PrivateKey nat nat
  | SSL_CTX_check_private_key nat
  | SSL_CTX_set_alpn_protos nat "uint8 list"
  | SSL_CTX_set_alpn_select_cb nat
  | BIO_new_mem_buf string
  | BIO_free nat
  | PEM_read_bio_X509 nat
  | PEM_read_bio_PrivateKey nat
  | X509_STORE_add_cert "nat option" nat
  | X509_free nat
  | EVP_PKEY_free nat
  | SSL_new nat
  | SSL_free nat
  | SSL_set_tlsext_host_name nat string
  | SSL_set_hostflags nat
  | SSL_set1_host nat string
  | SSL_set_fd nat int
  | SSL_connect nat
  | SSL_accept nat
  | SSL_get_error nat int
  | SSL_get_verify_result nat
  | SSL_get0_alpn_selected nat
  | SSL_read nat int
  | SSL_write nat "uint8 list" int
  | SSL_shutdown nat

text \<open>An answer: the returned number, the returned pointer, and the bytes a call delivers.\<close>

record ssl_ret =
  ret_int :: int
  ret_ptr :: "nat option"
  ret_bytes :: "uint8 list"

type_synonym 's ssl_lib = "ssl_call \<Rightarrow> 's \<Rightarrow> ssl_ret \<times> 's"

text \<open>The state: OpenSSL's own, the trace, and the static flag of the file.\<close>

record 's tls =
  tls_lib :: 's
  tls_trace :: "(ssl_call \<times> ssl_ret) list"
  ssl_initialized :: bool

definition ssl_do :: "'s ssl_lib \<Rightarrow> ssl_call \<Rightarrow> 's tls \<Rightarrow> ssl_ret \<times> 's tls" where
  "ssl_do lib c t = (case lib c (tls_lib t) of (r, l) \<Rightarrow> (r, t\<lparr>tls_lib := l, tls_trace := tls_trace t @ [(c, r)]\<rparr>))"

text \<open>Calls whose answer the code does not look at.\<close>

fun ssl_runs :: "'s ssl_lib \<Rightarrow> ssl_call list \<Rightarrow> 's tls \<Rightarrow> 's tls" where
  "ssl_runs lib [] t = t"
| "ssl_runs lib (c # cs) t = ssl_runs lib cs (snd (ssl_do lib c t))"

definition TLS1_2_VERSION :: int where "TLS1_2_VERSION = 0x0303"

definition alpn_h2 :: "uint8 list" where "alpn_h2 = [2, 0x68, 0x32]"

definition h2 :: "uint8 list" where "h2 = [0x68, 0x32]"

section \<open>Set-up\<close>

definition grpc_ssl_init :: "'s ssl_lib \<Rightarrow> 's tls \<Rightarrow> int \<times> 's tls" where
  "grpc_ssl_init lib t =
     (if ssl_initialized t then (0, t)
      else (0, (ssl_runs lib [SSL_load_error_strings, SSL_library_init, OpenSSL_add_all_algorithms] t)
                 \<lparr>ssl_initialized := True\<rparr>))"

definition grpc_ssl_cleanup :: "'s ssl_lib \<Rightarrow> 's tls \<Rightarrow> 's tls" where
  "grpc_ssl_cleanup lib t =
     (if \<not> ssl_initialized t then t
      else (ssl_runs lib [EVP_cleanup, ERR_free_strings] t)\<lparr>ssl_initialized := False\<rparr>)"

text \<open>The loop that adds every certificate of a BIO to the store; \<open>None\<close> if it does not end.\<close>

partial_function (option) add_certs :: "'s ssl_lib \<Rightarrow> nat option \<Rightarrow> nat \<Rightarrow> 's tls \<Rightarrow> 's tls option" where
  "add_certs lib store bio t =
     (case ssl_do lib (PEM_read_bio_X509 bio) t of
        (r, t1) \<Rightarrow>
          (case ret_ptr r of
             None \<Rightarrow> Some t1
           | Some cert \<Rightarrow> add_certs lib store bio (ssl_runs lib [X509_STORE_add_cert store cert, X509_free cert] t1)))"

section \<open>Client contexts\<close>

definition client_roots :: "'s ssl_lib \<Rightarrow> nat \<Rightarrow> string option \<Rightarrow> 's tls \<Rightarrow> (bool \<times> 's tls) option" where
  "client_roots lib ctx roots t =
     (case roots of
        Some s \<Rightarrow>
          (case ssl_do lib (BIO_new_mem_buf s) t of
             (r, t1) \<Rightarrow>
               (case ret_ptr r of
                  None \<Rightarrow> Some (False, ssl_runs lib [ERR_print_errors_fp, SSL_CTX_free ctx] t1)
                | Some bio \<Rightarrow>
                    (case ssl_do lib (SSL_CTX_get_cert_store ctx) t1 of
                       (r2, t2) \<Rightarrow>
                         map_option (\<lambda>t3. (True, ssl_runs lib [BIO_free bio] t3)) (add_certs lib (ret_ptr r2) bio t2))))
      | None \<Rightarrow>
          (case ssl_do lib (SSL_CTX_set_default_verify_paths ctx) t of
             (r, t1) \<Rightarrow>
               if ret_int r = 0 then Some (False, ssl_runs lib [ERR_print_errors_fp, SSL_CTX_free ctx] t1)
               else Some (True, t1)))"

definition client_cert :: "'s ssl_lib \<Rightarrow> nat \<Rightarrow> string option \<Rightarrow> 's tls \<Rightarrow> 's tls" where
  "client_cert lib ctx chain_pem t =
     (case chain_pem of
        None \<Rightarrow> t
      | Some s \<Rightarrow>
          (case ssl_do lib (BIO_new_mem_buf s) t of
             (r, t1) \<Rightarrow>
               (case ret_ptr r of
                  None \<Rightarrow> t1
                | Some bio \<Rightarrow>
                    (case ssl_do lib (PEM_read_bio_X509 bio) t1 of
                       (r2, t2) \<Rightarrow>
                         (case ret_ptr r2 of
                            None \<Rightarrow> ssl_runs lib [BIO_free bio] t2
                          | Some cert \<Rightarrow> ssl_runs lib [SSL_CTX_use_certificate ctx cert, X509_free cert, BIO_free bio] t2)))))"

definition client_key :: "'s ssl_lib \<Rightarrow> nat \<Rightarrow> string option \<Rightarrow> 's tls \<Rightarrow> 's tls" where
  "client_key lib ctx key_pem t =
     (case key_pem of
        None \<Rightarrow> t
      | Some s \<Rightarrow>
          (case ssl_do lib (BIO_new_mem_buf s) t of
             (r, t1) \<Rightarrow>
               (case ret_ptr r of
                  None \<Rightarrow> t1
                | Some bio \<Rightarrow>
                    (case ssl_do lib (PEM_read_bio_PrivateKey bio) t1 of
                       (r2, t2) \<Rightarrow>
                         (case ret_ptr r2 of
                            None \<Rightarrow> ssl_runs lib [BIO_free bio] t2
                          | Some pkey \<Rightarrow> ssl_runs lib [SSL_CTX_use_PrivateKey ctx pkey, EVP_PKEY_free pkey, BIO_free bio] t2)))))"

definition client_pair :: "'s ssl_lib \<Rightarrow> nat \<Rightarrow> grpc_ssl_pem_key_cert_pair option \<Rightarrow> 's tls \<Rightarrow> 's tls" where
  "client_pair lib ctx pair t =
     (case pair of None \<Rightarrow> t | Some p \<Rightarrow> client_key lib ctx (private_key p) (client_cert lib ctx (cert_chain p) t))"

definition client_context ::
    "'s ssl_lib \<Rightarrow> string option \<Rightarrow> grpc_ssl_pem_key_cert_pair option \<Rightarrow> 's tls \<Rightarrow> (nat option \<times> 's tls) option" where
  "client_context lib roots pair t =
     (case ssl_do lib (SSL_CTX_new TLS_client_method) (snd (grpc_ssl_init lib t)) of
        (r, t1) \<Rightarrow>
          (case ret_ptr r of
             None \<Rightarrow> Some (None, ssl_runs lib [ERR_print_errors_fp] t1)
           | Some ctx \<Rightarrow>
               (case client_roots lib ctx roots (ssl_runs lib [SSL_CTX_set_min_proto_version ctx TLS1_2_VERSION] t1) of
                  None \<Rightarrow> None
                | Some (ok, t2) \<Rightarrow>
                    if \<not> ok then Some (None, t2)
                    else
                      (let t3 = ssl_runs lib [SSL_CTX_set_verify ctx [SSL_VERIFY_PEER]] t2;
                           t4 = client_pair lib ctx pair t3
                       in Some (Some ctx, ssl_runs lib [SSL_CTX_set_alpn_protos ctx alpn_h2] t4)))))"

text \<open>The strings and the pair behind the pointers of the credentials.\<close>

definition read_string :: "cred_mem \<Rightarrow> addr option \<Rightarrow> string option exec" where
  "read_string m p =
     (case p of None \<Rightarrow> Inr None | Some a \<Rightarrow> exec_bind (heap_read (cm_strings m) a) (\<lambda>s. Inr (Some s)))"

definition read_pair :: "cred_mem \<Rightarrow> addr option \<Rightarrow> grpc_ssl_pem_key_cert_pair option exec" where
  "read_pair m p =
     (case p of
        None \<Rightarrow> Inr None
      | Some a \<Rightarrow> exec_bind (heap_read (cm_pairs m) a) (\<lambda>ps. if ps = [] then Inl Out_Of_Bounds else Inr (Some (hd ps))))"

definition grpc_ssl_create_client_context ::
    "'s ssl_lib \<Rightarrow> cred_mem \<Rightarrow> addr option \<Rightarrow> 's tls \<Rightarrow> (nat option \<times> 's tls) exec option" where
  "grpc_ssl_create_client_context lib m creds t =
     (case creds of
        None \<Rightarrow> Some (Inr (None, t))
      | Some a \<Rightarrow>
          (case exec_bind (heap_read (cm_channel m) a) (\<lambda>c.
                  exec_bind (read_string m (cc_pem_root_certs c)) (\<lambda>roots.
                  exec_bind (read_pair m (cc_pem_key_cert_pair c)) (\<lambda>pair. Inr (roots, pair)))) of
             Inl e \<Rightarrow> Some (Inl e)
           | Inr (roots, pair) \<Rightarrow> map_option Inr (client_context lib roots pair t)))"

section \<open>Server contexts\<close>

definition server_cert :: "'s ssl_lib \<Rightarrow> nat \<Rightarrow> string option \<Rightarrow> 's tls \<Rightarrow> bool \<times> 's tls" where
  "server_cert lib ctx chain_pem t =
     (case chain_pem of
        None \<Rightarrow> (False, ssl_runs lib [SSL_CTX_free ctx] t)
      | Some s \<Rightarrow>
          (case ssl_do lib (BIO_new_mem_buf s) t of
             (r, t1) \<Rightarrow>
               (case ret_ptr r of
                  None \<Rightarrow> (False, ssl_runs lib [ERR_print_errors_fp, SSL_CTX_free ctx] t1)
                | Some bio \<Rightarrow>
                    (case ssl_do lib (PEM_read_bio_X509 bio) t1 of
                       (r2, t2) \<Rightarrow>
                         (case ret_ptr r2 of
                            None \<Rightarrow> (False, ssl_runs lib [ERR_print_errors_fp, BIO_free bio, SSL_CTX_free ctx] t2)
                          | Some cert \<Rightarrow>
                              (case ssl_do lib (SSL_CTX_use_certificate ctx cert) t2 of
                                 (r3, t3) \<Rightarrow>
                                   if ret_int r3 \<noteq> 1 then
                                     (False, ssl_runs lib [ERR_print_errors_fp, X509_free cert, BIO_free bio, SSL_CTX_free ctx] t3)
                                   else (True, ssl_runs lib [X509_free cert, BIO_free bio] t3)))))))"

definition server_key :: "'s ssl_lib \<Rightarrow> nat \<Rightarrow> string option \<Rightarrow> 's tls \<Rightarrow> bool \<times> 's tls" where
  "server_key lib ctx key_pem t =
     (case key_pem of
        None \<Rightarrow> (False, ssl_runs lib [SSL_CTX_free ctx] t)
      | Some s \<Rightarrow>
          (case ssl_do lib (BIO_new_mem_buf s) t of
             (r, t1) \<Rightarrow>
               (case ret_ptr r of
                  None \<Rightarrow> (False, ssl_runs lib [ERR_print_errors_fp, SSL_CTX_free ctx] t1)
                | Some bio \<Rightarrow>
                    (case ssl_do lib (PEM_read_bio_PrivateKey bio) t1 of
                       (r2, t2) \<Rightarrow>
                         (case ret_ptr r2 of
                            None \<Rightarrow> (False, ssl_runs lib [ERR_print_errors_fp, BIO_free bio, SSL_CTX_free ctx] t2)
                          | Some pkey \<Rightarrow>
                              (case ssl_do lib (SSL_CTX_use_PrivateKey ctx pkey) t2 of
                                 (r3, t3) \<Rightarrow>
                                   if ret_int r3 \<noteq> 1 then
                                     (False, ssl_runs lib [ERR_print_errors_fp, EVP_PKEY_free pkey, BIO_free bio, SSL_CTX_free ctx] t3)
                                   else (True, ssl_runs lib [EVP_PKEY_free pkey, BIO_free bio] t3)))))))"

definition server_roots :: "'s ssl_lib \<Rightarrow> nat \<Rightarrow> string option \<Rightarrow> 's tls \<Rightarrow> 's tls option" where
  "server_roots lib ctx roots t =
     (case roots of
        None \<Rightarrow> Some t
      | Some s \<Rightarrow>
          (case ssl_do lib (BIO_new_mem_buf s) t of
             (r, t1) \<Rightarrow>
               (case ret_ptr r of
                  None \<Rightarrow> Some t1
                | Some bio \<Rightarrow>
                    (case ssl_do lib (SSL_CTX_get_cert_store ctx) t1 of
                       (r2, t2) \<Rightarrow>
                         map_option
                           (ssl_runs lib [BIO_free bio, SSL_CTX_set_verify ctx [SSL_VERIFY_PEER, SSL_VERIFY_FAIL_IF_NO_PEER_CERT]])
                           (add_certs lib (ret_ptr r2) bio t2)))))"

definition server_context ::
    "'s ssl_lib \<Rightarrow> string option \<Rightarrow> grpc_ssl_pem_key_cert_pair \<Rightarrow> 's tls \<Rightarrow> (nat option \<times> 's tls) option" where
  "server_context lib roots pair t =
     (case ssl_do lib (SSL_CTX_new TLS_server_method) (snd (grpc_ssl_init lib t)) of
        (r, t1) \<Rightarrow>
          (case ret_ptr r of
             None \<Rightarrow> Some (None, ssl_runs lib [ERR_print_errors_fp] t1)
           | Some ctx \<Rightarrow>
               (case server_cert lib ctx (cert_chain pair) (ssl_runs lib [SSL_CTX_set_min_proto_version ctx TLS1_2_VERSION] t1) of
                  (ok, t2) \<Rightarrow>
                    if \<not> ok then Some (None, t2)
                    else
                      (case server_key lib ctx (private_key pair) t2 of
                         (ok, t3) \<Rightarrow>
                           if \<not> ok then Some (None, t3)
                           else
                             (case ssl_do lib (SSL_CTX_check_private_key ctx) t3 of
                                (r4, t4) \<Rightarrow>
                                  if ret_int r4 \<noteq> 1 then Some (None, ssl_runs lib [ERR_print_errors_fp, SSL_CTX_free ctx] t4)
                                  else
                                    map_option (\<lambda>t5. (Some ctx, ssl_runs lib [SSL_CTX_set_alpn_select_cb ctx] t5))
                                      (server_roots lib ctx roots t4))))))"

definition grpc_ssl_create_server_context ::
    "'s ssl_lib \<Rightarrow> cred_mem \<Rightarrow> addr option \<Rightarrow> 's tls \<Rightarrow> (nat option \<times> 's tls) exec option" where
  "grpc_ssl_create_server_context lib m creds t =
     (case creds of
        None \<Rightarrow> Some (Inr (None, t))
      | Some a \<Rightarrow>
          (case heap_read (cm_server m) a of
             Inl e \<Rightarrow> Some (Inl e)
           | Inr c \<Rightarrow>
               if sc_pem_key_cert_pairs c = None \<or> sc_num_key_cert_pairs c = 0 then Some (Inr (None, t))
               else
                 (case exec_bind (read_string m (sc_pem_root_certs c)) (\<lambda>roots.
                         exec_bind (read_pair m (sc_pem_key_cert_pairs c)) (\<lambda>pair. Inr (roots, pair))) of
                    Inl e \<Rightarrow> Some (Inl e)
                  | Inr (roots, pair) \<Rightarrow> map_option Inr (server_context lib roots (the pair) t))))"

definition grpc_ssl_destroy_context :: "'s ssl_lib \<Rightarrow> nat option \<Rightarrow> 's tls \<Rightarrow> 's tls" where
  "grpc_ssl_destroy_context lib ssl_ctx t =
     (case ssl_ctx of None \<Rightarrow> t | Some ctx \<Rightarrow> ssl_runs lib [SSL_CTX_free ctx] t)"

section \<open>Selecting the protocol\<close>

text \<open>
  The callback: the index is a 32-bit \<open>unsigned int\<close> and \<open>i + 1 + len\<close> is computed in it. The
  result is the offset and length of the protocol (\<open>SSL_TLSEXT_ERR_OK\<close>) or nothing
  (\<open>SSL_TLSEXT_ERR_NOACK\<close>). \<open>inlen\<close> is the length of \<open>inp\<close>; the outer \<open>None\<close> is a loop that
  does not end.
\<close>

definition read_byte :: "uint8 list \<Rightarrow> nat \<Rightarrow> uint8 exec" where
  "read_byte bs i = (if i < length bs then Inr (bs ! i) else Inl Out_Of_Bounds)"

partial_function (option) alpn_loop :: "uint8 list \<Rightarrow> uint32 \<Rightarrow> uint32 \<Rightarrow> (nat \<times> uint8) option exec option" where
  "alpn_loop inp inlen i =
     (if \<not> i < inlen then Some (Inr None)
      else
        (case read_byte inp (unat i) of
           Inl e \<Rightarrow> Some (Inl e)
         | Inr len \<Rightarrow>
             if i + 1 + ucast len > inlen then Some (Inr None)
             else if len = 2 \<and> read_byte inp (unat (i + 1)) = Inr 0x68 \<and> read_byte inp (unat (i + 1) + 1) = Inr 0x32
             then Some (Inr (Some (unat (i + 1), len)))
             else alpn_loop inp inlen (i + (1 + ucast len))))"

definition grpc_ssl_alpn_select_cb_internal :: "uint8 list \<Rightarrow> (nat \<times> uint8) option exec option" where
  "grpc_ssl_alpn_select_cb_internal inp = alpn_loop inp (uint32_of_size (length inp)) 0"

section \<open>Handshakes and data\<close>

definition grpc_ssl_client_handshake ::
    "'s ssl_lib \<Rightarrow> http2_connection option \<Rightarrow> string option \<Rightarrow> 's tls \<Rightarrow> int \<times> http2_connection option \<times> 's tls" where
  "grpc_ssl_client_handshake lib conn target_host t =
     (case conn of
        None \<Rightarrow> (-1, conn, t)
      | Some c \<Rightarrow>
          (case conn_ssl_ctx c of
             None \<Rightarrow> (-1, conn, t)
           | Some ctx \<Rightarrow>
               (case ssl_do lib (SSL_new ctx) t of
                  (r, t1) \<Rightarrow>
                    (case ret_ptr r of
                       None \<Rightarrow> (-1, conn, ssl_runs lib [ERR_print_errors_fp] t1)
                     | Some ssl \<Rightarrow>
                         (let t2 = (case target_host of
                                      None \<Rightarrow> t1
                                    | Some h \<Rightarrow> ssl_runs lib [SSL_set_tlsext_host_name ssl h, SSL_set_hostflags ssl, SSL_set1_host ssl h] t1)
                          in case ssl_do lib (SSL_connect ssl) (ssl_runs lib [SSL_set_fd ssl (conn_socket_fd c)] t2) of
                               (r3, t3) \<Rightarrow>
                                 if ret_int r3 \<noteq> 1 then
                                   (-1, conn, ssl_runs lib [SSL_get_error ssl (ret_int r3), ERR_print_errors_fp, SSL_free ssl] t3)
                                 else
                                   (case ssl_do lib (SSL_get_verify_result ssl) t3 of
                                      (r4, t4) \<Rightarrow>
                                        if ret_int r4 \<noteq> 0 then (-1, conn, ssl_runs lib [SSL_free ssl] t4)
                                        else
                                          (case ssl_do lib (SSL_get0_alpn_selected ssl) t4 of
                                             (r5, t5) \<Rightarrow>
                                               if length (ret_bytes r5) \<noteq> 2 \<or> ret_bytes r5 \<noteq> h2
                                               then (-1, conn, ssl_runs lib [SSL_free ssl] t5)
                                               else (0, Some (c\<lparr>conn_ssl := Some ssl\<rparr>), t5))))))))"

definition grpc_ssl_server_handshake ::
    "'s ssl_lib \<Rightarrow> http2_connection option \<Rightarrow> 's tls \<Rightarrow> int \<times> http2_connection option \<times> 's tls" where
  "grpc_ssl_server_handshake lib conn t =
     (case conn of
        None \<Rightarrow> (-1, conn, t)
      | Some c \<Rightarrow>
          (case conn_ssl_ctx c of
             None \<Rightarrow> (-1, conn, t)
           | Some ctx \<Rightarrow>
               (case ssl_do lib (SSL_new ctx) t of
                  (r, t1) \<Rightarrow>
                    (case ret_ptr r of
                       None \<Rightarrow> (-1, conn, ssl_runs lib [ERR_print_errors_fp] t1)
                     | Some ssl \<Rightarrow>
                         (case ssl_do lib (SSL_accept ssl) (ssl_runs lib [SSL_set_fd ssl (conn_socket_fd c)] t1) of
                            (r2, t2) \<Rightarrow>
                              if ret_int r2 \<noteq> 1 then
                                (-1, conn, ssl_runs lib [SSL_get_error ssl (ret_int r2), ERR_print_errors_fp, SSL_free ssl] t2)
                              else (0, Some (c\<lparr>conn_ssl := Some ssl\<rparr>), t2))))))"

text \<open>The codes of \<open>SSL_get_error\<close> that the code asks for.\<close>

definition SSL_ERROR_WANT_READ :: int where "SSL_ERROR_WANT_READ = 2"
definition SSL_ERROR_WANT_WRITE :: int where "SSL_ERROR_WANT_WRITE = 3"

definition ssl_io_result :: "'s ssl_lib \<Rightarrow> nat \<Rightarrow> int \<Rightarrow> 's tls \<Rightarrow> int \<times> 's tls" where
  "ssl_io_result lib ssl n t =
     (if n \<le> 0 then
        (case ssl_do lib (SSL_get_error ssl n) t of
           (r, t1) \<Rightarrow>
             if ret_int r = SSL_ERROR_WANT_READ \<or> ret_int r = SSL_ERROR_WANT_WRITE then (0, t1) else (-1, t1))
      else (n, t))"

text \<open>The result and the bytes that were read.\<close>

definition grpc_ssl_read ::
    "'s ssl_lib \<Rightarrow> http2_connection option \<Rightarrow> nat \<Rightarrow> 's tls \<Rightarrow> (int \<times> uint8 list) \<times> 's tls" where
  "grpc_ssl_read lib conn len t =
     (case Option.bind conn conn_ssl of
        None \<Rightarrow> ((-1, []), t)
      | Some ssl \<Rightarrow>
          (case ssl_do lib (SSL_read ssl (int_of_size len)) t of
             (r, t1) \<Rightarrow> (case ssl_io_result lib ssl (ret_int r) t1 of (n, t2) \<Rightarrow> ((n, ret_bytes r), t2))))"

definition grpc_ssl_write :: "'s ssl_lib \<Rightarrow> http2_connection option \<Rightarrow> uint8 list \<Rightarrow> nat \<Rightarrow> 's tls \<Rightarrow> int \<times> 's tls" where
  "grpc_ssl_write lib conn buf len t =
     (case Option.bind conn conn_ssl of
        None \<Rightarrow> (-1, t)
      | Some ssl \<Rightarrow>
          (case ssl_do lib (SSL_write ssl buf (int_of_size len)) t of
             (r, t1) \<Rightarrow> ssl_io_result lib ssl (ret_int r) t1))"

definition grpc_ssl_shutdown :: "'s ssl_lib \<Rightarrow> http2_connection option \<Rightarrow> 's tls \<Rightarrow> http2_connection option \<times> 's tls" where
  "grpc_ssl_shutdown lib conn t =
     (case conn of
        None \<Rightarrow> (conn, t)
      | Some c \<Rightarrow>
          (case conn_ssl c of
             None \<Rightarrow> (conn, t)
           | Some ssl \<Rightarrow> (Some (c\<lparr>conn_ssl := None\<rparr>), ssl_runs lib [SSL_shutdown ssl, SSL_free ssl] t)))"

section \<open>Ownership\<close>

text \<open>
  The objects the code has to free, read off the trace. A call needs the objects it is given to
  be alive; \<open>ssl_live\<close> is \<open>None\<close> when a call used or freed one that was not.
\<close>

datatype ssl_obj = Obj_Ctx nat | Obj_Bio nat | Obj_X509 nat | Obj_Pkey nat | Obj_Ssl nat

fun ssl_acquires :: "ssl_call \<Rightarrow> (nat \<Rightarrow> ssl_obj) option" where
  "ssl_acquires (SSL_CTX_new _) = Some Obj_Ctx"
| "ssl_acquires (BIO_new_mem_buf _) = Some Obj_Bio"
| "ssl_acquires (PEM_read_bio_X509 _) = Some Obj_X509"
| "ssl_acquires (PEM_read_bio_PrivateKey _) = Some Obj_Pkey"
| "ssl_acquires (SSL_new _) = Some Obj_Ssl"
| "ssl_acquires _ = None"

fun ssl_frees :: "ssl_call \<Rightarrow> ssl_obj option" where
  "ssl_frees (SSL_CTX_free p) = Some (Obj_Ctx p)"
| "ssl_frees (BIO_free p) = Some (Obj_Bio p)"
| "ssl_frees (X509_free p) = Some (Obj_X509 p)"
| "ssl_frees (EVP_PKEY_free p) = Some (Obj_Pkey p)"
| "ssl_frees (SSL_free p) = Some (Obj_Ssl p)"
| "ssl_frees _ = None"

fun ssl_uses :: "ssl_call \<Rightarrow> ssl_obj list" where
  "ssl_uses (SSL_CTX_free p) = [Obj_Ctx p]"
| "ssl_uses (SSL_CTX_set_min_proto_version p _) = [Obj_Ctx p]"
| "ssl_uses (SSL_CTX_get_cert_store p) = [Obj_Ctx p]"
| "ssl_uses (SSL_CTX_set_default_verify_paths p) = [Obj_Ctx p]"
| "ssl_uses (SSL_CTX_set_verify p _) = [Obj_Ctx p]"
| "ssl_uses (SSL_CTX_use_certificate p x) = [Obj_Ctx p, Obj_X509 x]"
| "ssl_uses (SSL_CTX_use_PrivateKey p k) = [Obj_Ctx p, Obj_Pkey k]"
| "ssl_uses (SSL_CTX_check_private_key p) = [Obj_Ctx p]"
| "ssl_uses (SSL_CTX_set_alpn_protos p _) = [Obj_Ctx p]"
| "ssl_uses (SSL_CTX_set_alpn_select_cb p) = [Obj_Ctx p]"
| "ssl_uses (BIO_free b) = [Obj_Bio b]"
| "ssl_uses (PEM_read_bio_X509 b) = [Obj_Bio b]"
| "ssl_uses (PEM_read_bio_PrivateKey b) = [Obj_Bio b]"
| "ssl_uses (X509_STORE_add_cert _ x) = [Obj_X509 x]"
| "ssl_uses (X509_free x) = [Obj_X509 x]"
| "ssl_uses (EVP_PKEY_free k) = [Obj_Pkey k]"
| "ssl_uses (SSL_new p) = [Obj_Ctx p]"
| "ssl_uses (SSL_free p) = [Obj_Ssl p]"
| "ssl_uses (SSL_set_tlsext_host_name p _) = [Obj_Ssl p]"
| "ssl_uses (SSL_set_hostflags p) = [Obj_Ssl p]"
| "ssl_uses (SSL_set1_host p _) = [Obj_Ssl p]"
| "ssl_uses (SSL_set_fd p _) = [Obj_Ssl p]"
| "ssl_uses (SSL_connect p) = [Obj_Ssl p]"
| "ssl_uses (SSL_accept p) = [Obj_Ssl p]"
| "ssl_uses (SSL_get_error p _) = [Obj_Ssl p]"
| "ssl_uses (SSL_get_verify_result p) = [Obj_Ssl p]"
| "ssl_uses (SSL_get0_alpn_selected p) = [Obj_Ssl p]"
| "ssl_uses (SSL_read p _) = [Obj_Ssl p]"
| "ssl_uses (SSL_write p _ _) = [Obj_Ssl p]"
| "ssl_uses (SSL_shutdown p) = [Obj_Ssl p]"
| "ssl_uses _ = []"

definition own_step :: "ssl_call \<times> ssl_ret \<Rightarrow> ssl_obj multiset \<Rightarrow> ssl_obj multiset option" where
  "own_step cr L =
     (case cr of
        (c, r) \<Rightarrow>
          if list_all (\<lambda>x. x \<in># L) (ssl_uses c) then
            Some ((case ssl_frees c of None \<Rightarrow> L | Some x \<Rightarrow> L - {#x#}) +
                  (case (ssl_acquires c, ret_ptr r) of (Some f, Some p) \<Rightarrow> {#f p#} | _ \<Rightarrow> {#}))
          else None)"

fun own_trace :: "(ssl_call \<times> ssl_ret) list \<Rightarrow> ssl_obj multiset \<Rightarrow> ssl_obj multiset option" where
  "own_trace [] L = Some L"
| "own_trace (x # tr) L = Option.bind (own_step x L) (own_trace tr)"

definition ssl_live :: "'s tls \<Rightarrow> ssl_obj multiset option" where
  "ssl_live t = own_trace (tls_trace t) {#}"

text \<open>A call that was made with an answer that satisfies a condition.\<close>

definition ssl_did :: "'s tls \<Rightarrow> ssl_call \<Rightarrow> (ssl_ret \<Rightarrow> bool) \<Rightarrow> bool" where
  "ssl_did t c P \<longleftrightarrow> (\<exists>r. (c, r) \<in> set (tls_trace t) \<and> P r)"

definition ssl_grows :: "'s tls \<Rightarrow> 's tls \<Rightarrow> bool" where
  "ssl_grows t t' \<longleftrightarrow> (\<exists>calls. tls_trace t' = tls_trace t @ calls)"

text \<open>What happened between two states.\<close>

definition ssl_since :: "'s tls \<Rightarrow> 's tls \<Rightarrow> ssl_call \<Rightarrow> (ssl_ret \<Rightarrow> bool) \<Rightarrow> bool" where
  "ssl_since t t' c P \<longleftrightarrow> (\<exists>r. (c, r) \<in> set (drop (length (tls_trace t)) (tls_trace t')) \<and> P r)"

named_theorems tls_simps "evaluation of the calls of OpenSSL"

lemma own_trace_append: "own_trace (xs @ ys) L = Option.bind (own_trace xs L) (own_trace ys)"
proof (induction xs arbitrary: L)
  case (Cons x xs)
  then show ?case by (cases "own_step x L") simp_all
qed simp

lemma ssl_live_do [tls_simps]:
  "ssl_live (snd (ssl_do lib c t)) = Option.bind (ssl_live t) (own_step (c, fst (ssl_do lib c t)))"
  by (cases "ssl_live t"; cases "own_step (c, fst (lib c (tls_lib t))) (the (ssl_live t))")
    (simp_all add: ssl_live_def ssl_do_def own_trace_append split_beta)

lemma ssl_live_upd [tls_simps]: "ssl_live (t\<lparr>ssl_initialized := b\<rparr>) = ssl_live t"
  by (simp add: ssl_live_def)

lemma tls_trace_do [tls_simps]: "tls_trace (snd (ssl_do lib c t)) = tls_trace t @ [(c, fst (ssl_do lib c t))]"
  by (simp add: ssl_do_def split_beta)

lemma tls_lib_do [tls_simps]: "tls_lib (snd (ssl_do lib c t)) = snd (lib c (tls_lib t))"
  by (simp add: ssl_do_def split_beta)

lemma fst_ssl_do [tls_simps]: "fst (ssl_do lib c t) = fst (lib c (tls_lib t))"
  by (simp add: ssl_do_def split_beta)

lemma ssl_grows_refl [simp]: "ssl_grows t t"
  by (simp add: ssl_grows_def)

lemma ssl_grows_trans [trans]: "ssl_grows t t1 \<Longrightarrow> ssl_grows t1 t2 \<Longrightarrow> ssl_grows t t2"
  by (auto simp: ssl_grows_def)

lemma ssl_grows_do [simp]: "ssl_grows t (snd (ssl_do lib c t))"
  by (auto simp: ssl_grows_def tls_simps)

lemma ssl_grows_runs [simp]: "ssl_grows t (ssl_runs lib cs t)"
proof (induction cs arbitrary: t)
  case (Cons c cs)
  show ?case using ssl_grows_trans [OF ssl_grows_do Cons] by simp
qed simp

lemma ssl_did_grows: "ssl_did t c P \<Longrightarrow> ssl_grows t t' \<Longrightarrow> ssl_did t' c P"
  by (auto simp: ssl_did_def ssl_grows_def)

lemma ssl_did_runs: "c \<in> set cs \<Longrightarrow> ssl_did (ssl_runs lib cs t) c (\<lambda>_. True)"
proof (induction cs arbitrary: t)
  case (Cons d cs)
  show ?case
  proof (cases "c = d")
    case True
    have "ssl_did (snd (ssl_do lib c t)) c (\<lambda>_. True)" by (auto simp: ssl_did_def tls_simps)
    with True show ?thesis by (auto intro: ssl_did_grows)
  qed (use Cons in auto)
qed simp

lemma ssl_since_grows:
  "ssl_since t t' c P \<Longrightarrow> ssl_grows t0 t \<Longrightarrow> ssl_grows t t' \<Longrightarrow> ssl_grows t' t'' \<Longrightarrow> ssl_since t0 t'' c P"
  by (auto simp: ssl_since_def ssl_grows_def)

lemma ssl_since_runs: "c \<in> set cs \<Longrightarrow> ssl_since t (ssl_runs lib cs t) c (\<lambda>_. True)"
proof (induction cs arbitrary: t)
  case (Cons d cs)
  let ?t = "snd (ssl_do lib d t)"
  show ?case
  proof (cases "c = d")
    case True
    have "ssl_since t ?t d (\<lambda>_. True)" by (auto simp: ssl_since_def tls_simps)
    from ssl_since_grows [OF this ssl_grows_refl ssl_grows_do ssl_grows_runs] True show ?thesis by simp
  next
    case False
    with Cons have "ssl_since ?t (ssl_runs lib cs ?t) c (\<lambda>_. True)" by simp
    from ssl_since_grows [OF this ssl_grows_do ssl_grows_runs ssl_grows_refl] show ?thesis by simp
  qed
qed simp

lemma add_mset_diff_single: "add_mset y M - {#x#} = (if x = y then M else add_mset y (M - {#x#}))"
  by simp

lemmas own_simps = tls_simps own_step_def add_mset_diff_single

section \<open>Loading certificates\<close>

text \<open>What is relied on of OpenSSL: a certificate that was read from a BIO leaves less to read in
  it (\<open>mu\<close>), so that the loop ends.\<close>

definition pem_ends :: "'s ssl_lib \<Rightarrow> (nat \<Rightarrow> 's \<Rightarrow> nat) \<Rightarrow> bool" where
  "pem_ends lib mu \<longleftrightarrow> (\<forall>bio l store cert.
     ret_ptr (fst (lib (PEM_read_bio_X509 bio) l)) = Some cert \<longrightarrow>
     mu bio (snd (lib (X509_free cert) (snd (lib (X509_STORE_add_cert store cert)
       (snd (lib (PEM_read_bio_X509 bio) l)))))) < mu bio l)"

lemma add_certs_ok:
  assumes "pem_ends lib mu" and "Obj_Bio bio \<in># L"
  shows "ssl_live t = Some L \<Longrightarrow> \<exists>t'. add_certs lib store bio t = Some t' \<and> ssl_live t' = Some L \<and> ssl_grows t t'"
proof (induction "mu bio (tls_lib t)" arbitrary: t rule: less_induct)
  case less
  let ?r = "fst (ssl_do lib (PEM_read_bio_X509 bio) t)" and ?t1 = "snd (ssl_do lib (PEM_read_bio_X509 bio) t)"
  have step: "ssl_do lib (PEM_read_bio_X509 bio) t = (?r, ?t1)" by simp
  show ?case
  proof (cases "ret_ptr ?r")
    case None
    with less.prems assms(2) have "ssl_live ?t1 = Some L" by (simp add: own_simps)
    with None step show ?thesis by (subst add_certs.simps) (auto simp: split_beta)
  next
    case (Some cert)
    let ?t2 = "ssl_runs lib [X509_STORE_add_cert store cert, X509_free cert] ?t1"
    have "mu bio (tls_lib ?t2) < mu bio (tls_lib t)"
      using assms(1) Some by (simp add: pem_ends_def tls_simps)
    moreover have "ssl_live ?t2 = Some L" using less.prems assms(2) Some by (simp add: own_simps)
    ultimately obtain t' where "add_certs lib store bio ?t2 = Some t'" "ssl_live t' = Some L" "ssl_grows ?t2 t'"
      using less.hyps by blast
    moreover have "ssl_grows t ?t2" by (rule ssl_grows_trans [OF ssl_grows_do ssl_grows_runs])
    ultimately show ?thesis using Some step
      by (subst add_certs.simps) (auto simp: split_beta intro: ssl_grows_trans)
  qed
qed

text \<open>Each step of the set-up of a context keeps it and adds nothing else, or frees it and fails.\<close>

lemma server_cert_ok:
  assumes "ssl_live t = Some (add_mset (Obj_Ctx ctx) L)" and "server_cert lib ctx p t = (ok, t')"
  shows "ssl_live t' = Some (if ok then add_mset (Obj_Ctx ctx) L else L)" and "ssl_grows t t'"
proof -
  show "ssl_live t' = Some (if ok then add_mset (Obj_Ctx ctx) L else L)"
    using assms by (auto simp: server_cert_def own_simps split_beta split: option.splits if_splits)
  show "ssl_grows t t'"
    using assms(2) by (auto simp: server_cert_def split_beta ssl_grows_def tls_simps split: option.splits if_splits)
qed

lemma server_key_ok:
  assumes "ssl_live t = Some (add_mset (Obj_Ctx ctx) L)" and "server_key lib ctx p t = (ok, t')"
  shows "ssl_live t' = Some (if ok then add_mset (Obj_Ctx ctx) L else L)" and "ssl_grows t t'"
proof -
  show "ssl_live t' = Some (if ok then add_mset (Obj_Ctx ctx) L else L)"
    using assms by (auto simp: server_key_def own_simps split_beta split: option.splits if_splits)
  show "ssl_grows t t'"
    using assms(2) by (auto simp: server_key_def split_beta ssl_grows_def tls_simps split: option.splits if_splits)
qed

lemma client_cert_ok:
  assumes "ssl_live t = Some (add_mset (Obj_Ctx ctx) L)"
  shows "ssl_live (client_cert lib ctx p t) = Some (add_mset (Obj_Ctx ctx) L)" and "ssl_grows t (client_cert lib ctx p t)"
proof -
  show "ssl_live (client_cert lib ctx p t) = Some (add_mset (Obj_Ctx ctx) L)"
    using assms by (auto simp: client_cert_def own_simps split_beta split: option.splits)
  show "ssl_grows t (client_cert lib ctx p t)"
    by (auto simp: client_cert_def split_beta ssl_grows_def tls_simps split: option.splits)
qed

lemma client_key_ok:
  assumes "ssl_live t = Some (add_mset (Obj_Ctx ctx) L)"
  shows "ssl_live (client_key lib ctx p t) = Some (add_mset (Obj_Ctx ctx) L)" and "ssl_grows t (client_key lib ctx p t)"
proof -
  show "ssl_live (client_key lib ctx p t) = Some (add_mset (Obj_Ctx ctx) L)"
    using assms by (auto simp: client_key_def own_simps split_beta split: option.splits)
  show "ssl_grows t (client_key lib ctx p t)"
    by (auto simp: client_key_def split_beta ssl_grows_def tls_simps split: option.splits)
qed

lemma add_certs_bio_ok:
  assumes "pem_ends lib mu" and "ssl_live t = Some (add_mset (Obj_Ctx ctx) L)"
    and "ret_ptr (fst (ssl_do lib (BIO_new_mem_buf s) t)) = Some bio"
  shows "\<exists>t'. add_certs lib (ret_ptr (fst (ssl_do lib (SSL_CTX_get_cert_store ctx) (snd (ssl_do lib (BIO_new_mem_buf s) t))))) bio
      (snd (ssl_do lib (SSL_CTX_get_cert_store ctx) (snd (ssl_do lib (BIO_new_mem_buf s) t)))) = Some t' \<and>
    ssl_live t' = Some (add_mset (Obj_Bio bio) (add_mset (Obj_Ctx ctx) L)) \<and> ssl_grows t t'"
proof -
  let ?t2 = "snd (ssl_do lib (SSL_CTX_get_cert_store ctx) (snd (ssl_do lib (BIO_new_mem_buf s) t)))"
  have "ssl_live ?t2 = Some (add_mset (Obj_Bio bio) (add_mset (Obj_Ctx ctx) L))"
    using assms(2,3) by (simp add: own_simps)
  from add_certs_ok [OF assms(1) _ this] obtain t' where
    "add_certs lib (ret_ptr (fst (ssl_do lib (SSL_CTX_get_cert_store ctx) (snd (ssl_do lib (BIO_new_mem_buf s) t))))) bio ?t2 = Some t'"
    "ssl_live t' = Some (add_mset (Obj_Bio bio) (add_mset (Obj_Ctx ctx) L))" "ssl_grows ?t2 t'"
    by auto
  moreover have "ssl_grows t ?t2" by (rule ssl_grows_trans [OF ssl_grows_do ssl_grows_do])
  ultimately show ?thesis by (blast intro: ssl_grows_trans)
qed

lemma client_roots_ok:
  assumes "pem_ends lib mu" and "ssl_live t = Some (add_mset (Obj_Ctx ctx) L)"
  shows "\<exists>ok t'. client_roots lib ctx roots t = Some (ok, t') \<and>
    ssl_live t' = Some (if ok then add_mset (Obj_Ctx ctx) L else L) \<and> ssl_grows t t'"
proof (cases roots)
  case None
  with assms(2) show ?thesis
    by (auto simp: client_roots_def own_simps split_beta ssl_grows_def)
next
  case (Some s)
  show ?thesis
  proof (cases "ret_ptr (fst (ssl_do lib (BIO_new_mem_buf s) t))")
    case None
    with Some assms(2) show ?thesis
      by (auto simp: client_roots_def own_simps split_beta ssl_grows_def)
  next
    case bio: (Some bio)
    from add_certs_bio_ok [OF assms bio] obtain t3 where
      t3: "add_certs lib (ret_ptr (fst (ssl_do lib (SSL_CTX_get_cert_store ctx) (snd (ssl_do lib (BIO_new_mem_buf s) t))))) bio
        (snd (ssl_do lib (SSL_CTX_get_cert_store ctx) (snd (ssl_do lib (BIO_new_mem_buf s) t)))) = Some t3"
      "ssl_live t3 = Some (add_mset (Obj_Bio bio) (add_mset (Obj_Ctx ctx) L))" "ssl_grows t t3"
      by blast
    have "client_roots lib ctx roots t = Some (True, ssl_runs lib [BIO_free bio] t3)"
      using Some bio t3(1) by (simp add: client_roots_def split_beta)
    moreover have "ssl_live (ssl_runs lib [BIO_free bio] t3) = Some (add_mset (Obj_Ctx ctx) L)"
      using t3(2) by (simp add: own_simps)
    moreover have "ssl_grows t (ssl_runs lib [BIO_free bio] t3)" by (rule ssl_grows_trans [OF t3(3) ssl_grows_runs])
    ultimately show ?thesis by (intro exI [of _ True] exI [of _ "ssl_runs lib [BIO_free bio] t3"]) simp
  qed
qed

text \<open>The server asks for client certificates when the roots could be read into memory.\<close>

definition asks_client_certs :: "string option \<Rightarrow> nat \<Rightarrow> 's tls \<Rightarrow> 's tls \<Rightarrow> bool" where
  "asks_client_certs roots ctx t t' \<longleftrightarrow> (\<forall>s. roots = Some s \<longrightarrow> ssl_since t t' (BIO_new_mem_buf s) (\<lambda>r. ret_ptr r = None) \<or>
     ssl_since t t' (SSL_CTX_set_verify ctx [SSL_VERIFY_PEER, SSL_VERIFY_FAIL_IF_NO_PEER_CERT]) (\<lambda>_. True))"

lemma server_roots_ok:
  assumes "pem_ends lib mu" and "ssl_live t = Some (add_mset (Obj_Ctx ctx) L)"
  shows "\<exists>t'. server_roots lib ctx roots t = Some t' \<and> ssl_live t' = Some (add_mset (Obj_Ctx ctx) L) \<and> ssl_grows t t' \<and>
    asks_client_certs roots ctx t t'"
proof (cases roots)
  case None
  with assms(2) show ?thesis by (simp add: server_roots_def asks_client_certs_def)
next
  case (Some s)
  show ?thesis
  proof (cases "ret_ptr (fst (ssl_do lib (BIO_new_mem_buf s) t))")
    case None
    with Some assms(2) show ?thesis
      by (auto simp: server_roots_def own_simps split_beta ssl_grows_def ssl_since_def asks_client_certs_def)
  next
    case bio: (Some bio)
    let ?cs = "[BIO_free bio, SSL_CTX_set_verify ctx [SSL_VERIFY_PEER, SSL_VERIFY_FAIL_IF_NO_PEER_CERT]]"
    from add_certs_bio_ok [OF assms bio] obtain t3 where
      t3: "add_certs lib (ret_ptr (fst (ssl_do lib (SSL_CTX_get_cert_store ctx) (snd (ssl_do lib (BIO_new_mem_buf s) t))))) bio
        (snd (ssl_do lib (SSL_CTX_get_cert_store ctx) (snd (ssl_do lib (BIO_new_mem_buf s) t)))) = Some t3"
      "ssl_live t3 = Some (add_mset (Obj_Bio bio) (add_mset (Obj_Ctx ctx) L))" "ssl_grows t t3"
      by blast
    have "server_roots lib ctx roots t = Some (ssl_runs lib ?cs t3)"
      using Some bio t3(1) by (simp add: server_roots_def split_beta)
    moreover have "ssl_live (ssl_runs lib ?cs t3) = Some (add_mset (Obj_Ctx ctx) L)"
      using t3(2) by (simp add: own_simps)
    moreover have "ssl_since t3 (ssl_runs lib ?cs t3) (SSL_CTX_set_verify ctx [SSL_VERIFY_PEER, SSL_VERIFY_FAIL_IF_NO_PEER_CERT]) (\<lambda>_. True)"
      by (rule ssl_since_runs) simp
    from ssl_since_grows [OF this t3(3) ssl_grows_runs ssl_grows_refl] have "asks_client_certs roots ctx t (ssl_runs lib ?cs t3)"
      by (simp only: asks_client_certs_def simp_thms)
    ultimately show ?thesis using ssl_grows_trans [OF t3(3) ssl_grows_runs] by blast
  qed
qed

lemma grpc_ssl_init_ok: "ssl_live t = Some L \<Longrightarrow> ssl_live (snd (grpc_ssl_init lib t)) = Some L"
  by (simp add: grpc_ssl_init_def own_simps)

lemma grpc_ssl_init_grows: "ssl_grows t (snd (grpc_ssl_init lib t))"
  by (simp add: grpc_ssl_init_def ssl_grows_def tls_simps)

section \<open>Contexts\<close>

text \<open>The last steps of both functions, once the context is known to be kept.\<close>

lemma client_pair_ok:
  assumes "ssl_live t = Some (add_mset (Obj_Ctx ctx) L)"
  shows "ssl_live (client_pair lib ctx pair t) = Some (add_mset (Obj_Ctx ctx) L)" and "ssl_grows t (client_pair lib ctx pair t)"
proof -
  show "ssl_live (client_pair lib ctx pair t) = Some (add_mset (Obj_Ctx ctx) L)"
    using assms by (simp add: client_pair_def client_cert_ok client_key_ok split: option.split)
  have "ssl_grows t (client_key lib ctx k (client_cert lib ctx p t))" for k p
    by (rule ssl_grows_trans [OF client_cert_ok(2) [OF assms] client_key_ok(2) [OF client_cert_ok(1) [OF assms]]])
  then show "ssl_grows t (client_pair lib ctx pair t)" by (simp add: client_pair_def split: option.split)
qed

lemma client_finish_ok:
  assumes "ssl_live t = Some (add_mset (Obj_Ctx ctx) L)"
    and t'_def: "t' = ssl_runs lib [SSL_CTX_set_alpn_protos ctx alpn_h2]
    (client_pair lib ctx pair (ssl_runs lib [SSL_CTX_set_verify ctx [SSL_VERIFY_PEER]] t))"
  shows "ssl_live t' = Some (add_mset (Obj_Ctx ctx) L)" and "ssl_grows t t'"
    and "ssl_did t' (SSL_CTX_set_verify ctx [SSL_VERIFY_PEER]) (\<lambda>_. True)"
    and "ssl_did t' (SSL_CTX_set_alpn_protos ctx alpn_h2) (\<lambda>_. True)"
proof -
  let ?v = "ssl_runs lib [SSL_CTX_set_verify ctx [SSL_VERIFY_PEER]] t"
  have v: "ssl_live ?v = Some (add_mset (Obj_Ctx ctx) L)" using assms(1) by (simp add: own_simps)
  show "ssl_live t' = Some (add_mset (Obj_Ctx ctx) L)" using client_pair_ok(1) [OF v] by (simp add: t'_def own_simps)
  have g: "ssl_grows ?v t'" unfolding t'_def by (rule ssl_grows_trans [OF client_pair_ok(2) [OF v] ssl_grows_runs])
  then show "ssl_grows t t'" by (rule ssl_grows_trans [OF ssl_grows_runs])
  have "ssl_did ?v (SSL_CTX_set_verify ctx [SSL_VERIFY_PEER]) (\<lambda>_. True)" by (rule ssl_did_runs) simp
  then show "ssl_did t' (SSL_CTX_set_verify ctx [SSL_VERIFY_PEER]) (\<lambda>_. True)" using g by (rule ssl_did_grows)
  show "ssl_did t' (SSL_CTX_set_alpn_protos ctx alpn_h2) (\<lambda>_. True)" unfolding t'_def by (rule ssl_did_runs) simp
qed

lemma asks_client_certs_grows:
  "asks_client_certs roots ctx t t' \<Longrightarrow> ssl_grows t0 t \<Longrightarrow> ssl_grows t t' \<Longrightarrow> ssl_grows t' t'' \<Longrightarrow> asks_client_certs roots ctx t0 t''"
  unfolding asks_client_certs_def by (blast intro: ssl_since_grows)

lemma server_finish_ok:
  assumes "pem_ends lib mu" and "ssl_live t = Some (add_mset (Obj_Ctx ctx) L)"
    and "ret_int (fst (ssl_do lib (SSL_CTX_check_private_key ctx) t)) = 1"
  obtains t6 where "server_roots lib ctx roots (snd (ssl_do lib (SSL_CTX_check_private_key ctx) t)) = Some t6"
    and "ssl_live (ssl_runs lib [SSL_CTX_set_alpn_select_cb ctx] t6) = Some (add_mset (Obj_Ctx ctx) L)"
    and "ssl_grows t (ssl_runs lib [SSL_CTX_set_alpn_select_cb ctx] t6)"
    and "ssl_since t (ssl_runs lib [SSL_CTX_set_alpn_select_cb ctx] t6) (SSL_CTX_check_private_key ctx) (\<lambda>r. ret_int r = 1)"
    and "ssl_since t (ssl_runs lib [SSL_CTX_set_alpn_select_cb ctx] t6) (SSL_CTX_set_alpn_select_cb ctx) (\<lambda>_. True)"
    and "asks_client_certs roots ctx t (ssl_runs lib [SSL_CTX_set_alpn_select_cb ctx] t6)"
proof -
  let ?t5 = "snd (ssl_do lib (SSL_CTX_check_private_key ctx) t)"
  have "ssl_live ?t5 = Some (add_mset (Obj_Ctx ctx) L)" using assms(2) by (simp add: own_simps)
  from server_roots_ok [OF assms(1) this, of roots] obtain t6 where
    t6: "server_roots lib ctx roots ?t5 = Some t6" "ssl_live t6 = Some (add_mset (Obj_Ctx ctx) L)" "ssl_grows ?t5 t6"
      "asks_client_certs roots ctx ?t5 t6"
    by blast
  let ?t7 = "ssl_runs lib [SSL_CTX_set_alpn_select_cb ctx] t6"
  have g: "ssl_grows ?t5 ?t7" by (rule ssl_grows_trans [OF t6(3) ssl_grows_runs])
  have "ssl_live ?t7 = Some (add_mset (Obj_Ctx ctx) L)" using t6(2) by (simp add: own_simps)
  moreover have "ssl_grows t ?t7" by (rule ssl_grows_trans [OF ssl_grows_do g])
  moreover have "ssl_since t ?t5 (SSL_CTX_check_private_key ctx) (\<lambda>r. ret_int r = 1)"
    using assms(3) by (auto simp: ssl_since_def tls_simps)
  from ssl_since_grows [OF this ssl_grows_refl ssl_grows_do g]
  have "ssl_since t ?t7 (SSL_CTX_check_private_key ctx) (\<lambda>r. ret_int r = 1)" .
  moreover have "ssl_since t6 ?t7 (SSL_CTX_set_alpn_select_cb ctx) (\<lambda>_. True)" by (rule ssl_since_runs) simp
  from ssl_since_grows [OF this ssl_grows_trans [OF ssl_grows_do t6(3)] ssl_grows_runs ssl_grows_refl]
  have "ssl_since t ?t7 (SSL_CTX_set_alpn_select_cb ctx) (\<lambda>_. True)" .
  moreover have "asks_client_certs roots ctx t ?t7"
    by (rule asks_client_certs_grows [OF t6(4) ssl_grows_do t6(3) ssl_grows_runs])
  ultimately show ?thesis using that t6(1) by blast
qed

lemma client_context_owned:
  assumes "pem_ends lib mu" and "ssl_live t = Some L"
  shows "\<exists>r t'. client_context lib roots pair t = Some (r, t') \<and>
    (case r of
       None \<Rightarrow> ssl_live t' = Some L
     | Some ctx \<Rightarrow> ssl_live t' = Some (add_mset (Obj_Ctx ctx) L) \<and>
         ssl_did t' (SSL_CTX_set_min_proto_version ctx TLS1_2_VERSION) (\<lambda>_. True) \<and>
         ssl_did t' (SSL_CTX_set_verify ctx [SSL_VERIFY_PEER]) (\<lambda>_. True) \<and>
         ssl_did t' (SSL_CTX_set_alpn_protos ctx alpn_h2) (\<lambda>_. True))"
proof -
  let ?i = "snd (grpc_ssl_init lib t)"
  let ?t1 = "snd (ssl_do lib (SSL_CTX_new TLS_client_method) ?i)"
  have i: "ssl_live ?i = Some L" using assms(2) by (rule grpc_ssl_init_ok)
  show ?thesis
  proof (cases "ret_ptr (fst (ssl_do lib (SSL_CTX_new TLS_client_method) ?i))")
    case None
    with i show ?thesis by (simp add: client_context_def split_beta own_simps)
  next
    case (Some ctx)
    let ?t2 = "ssl_runs lib [SSL_CTX_set_min_proto_version ctx TLS1_2_VERSION] ?t1"
    have "ssl_live ?t2 = Some (add_mset (Obj_Ctx ctx) L)" using i Some by (simp add: own_simps)
    from client_roots_ok [OF assms(1) this] obtain ok t3 where
      t3: "client_roots lib ctx roots ?t2 = Some (ok, t3)" "ssl_live t3 = Some (if ok then add_mset (Obj_Ctx ctx) L else L)"
        "ssl_grows ?t2 t3" by blast
    show ?thesis
    proof (cases ok)
      case False
      with Some t3 show ?thesis by (simp add: client_context_def split_beta)
    next
      case True
      let ?t4 = "ssl_runs lib [SSL_CTX_set_alpn_protos ctx alpn_h2]
        (client_pair lib ctx pair (ssl_runs lib [SSL_CTX_set_verify ctx [SSL_VERIFY_PEER]] t3))"
      have c: "client_context lib roots pair t = Some (Some ctx, ?t4)"
        using Some t3(1) True by (simp add: client_context_def split_beta)
      have "ssl_live t3 = Some (add_mset (Obj_Ctx ctx) L)" using t3(2) True by simp
      note f = client_finish_ok [OF this refl, where lib = lib and pair = pair]
      have "ssl_did ?t2 (SSL_CTX_set_min_proto_version ctx TLS1_2_VERSION) (\<lambda>_. True)" by (rule ssl_did_runs) simp
      then have "ssl_did ?t4 (SSL_CTX_set_min_proto_version ctx TLS1_2_VERSION) (\<lambda>_. True)"
        by (rule ssl_did_grows [OF _ ssl_grows_trans [OF t3(3) f(2)]])
      with f(1,3,4) show ?thesis unfolding c
        by (intro exI [of _ "Some ctx"] exI [of _ ?t4]) (simp only: option.case simp_thms)
    qed
  qed
qed

text \<open>
  A client context, for every behaviour of OpenSSL: the call returns; when it returns a context,
  that is the only object left to free, and it was told to use TLS 1.2 or later, to verify the peer
  and to offer HTTP/2; when it returns a null pointer nothing is left. No object is used or freed
  after it was freed. Relied on: reading certificates from a BIO comes to an end.
\<close>

theorem grpc_ssl_create_client_context_owned:
  assumes "pem_ends lib mu" and "ssl_live t = Some L"
    and "cm_channel m a = Some c" and "read_string m (cc_pem_root_certs c) = Inr roots"
    and "read_pair m (cc_pem_key_cert_pair c) = Inr pair"
  shows "\<exists>r t'. grpc_ssl_create_client_context lib m (Some a) t = Some (Inr (r, t')) \<and>
    (case r of
       None \<Rightarrow> ssl_live t' = Some L
     | Some ctx \<Rightarrow> ssl_live t' = Some (add_mset (Obj_Ctx ctx) L) \<and>
         ssl_did t' (SSL_CTX_set_min_proto_version ctx TLS1_2_VERSION) (\<lambda>_. True) \<and>
         ssl_did t' (SSL_CTX_set_verify ctx [SSL_VERIFY_PEER]) (\<lambda>_. True) \<and>
         ssl_did t' (SSL_CTX_set_alpn_protos ctx alpn_h2) (\<lambda>_. True))"
  using client_context_owned [OF assms(1,2), of roots pair] assms(3,4,5)
  by (auto simp: grpc_ssl_create_client_context_def heap_read_def)

text \<open>The context once its certificate and its key are installed and match.\<close>

lemma server_context_checked:
  assumes "pem_ends lib mu" and l2: "ssl_live t2 = Some (add_mset (Obj_Ctx ctx) L)"
    and g2: "ssl_grows t t2" and v: "ssl_since t t2 (SSL_CTX_set_min_proto_version ctx TLS1_2_VERSION) (\<lambda>_. True)"
    and t3: "server_cert lib ctx cert t2 = (True, t3)" and t4: "server_key lib ctx key t3 = (True, t4)"
    and r5: "ret_int (fst (ssl_do lib (SSL_CTX_check_private_key ctx) t4)) = 1"
  obtains t6 t7 where "server_roots lib ctx roots (snd (ssl_do lib (SSL_CTX_check_private_key ctx) t4)) = Some t6"
    "t7 = ssl_runs lib [SSL_CTX_set_alpn_select_cb ctx] t6" "ssl_live t7 = Some (add_mset (Obj_Ctx ctx) L)"
    "ssl_since t t7 (SSL_CTX_set_min_proto_version ctx TLS1_2_VERSION) (\<lambda>_. True)"
    "ssl_since t t7 (SSL_CTX_check_private_key ctx) (\<lambda>r. ret_int r = 1)"
    "ssl_since t t7 (SSL_CTX_set_alpn_select_cb ctx) (\<lambda>_. True)" "asks_client_certs roots ctx t t7"
proof -
  note p3 = server_cert_ok [OF l2 t3]
  then have "ssl_live t3 = Some (add_mset (Obj_Ctx ctx) L)" by simp
  note p4 = server_key_ok [OF this t4]
  then have "ssl_live t4 = Some (add_mset (Obj_Ctx ctx) L)" by simp
  from assms(1) this r5 show ?thesis
  proof (rule server_finish_ok [where roots = roots])
    fix t6
    let ?t7 = "ssl_runs lib [SSL_CTX_set_alpn_select_cb ctx] t6"
    assume t6: "server_roots lib ctx roots (snd (ssl_do lib (SSL_CTX_check_private_key ctx) t4)) = Some t6"
      and l: "ssl_live ?t7 = Some (add_mset (Obj_Ctx ctx) L)" and g: "ssl_grows t4 ?t7"
      and d: "ssl_since t4 ?t7 (SSL_CTX_check_private_key ctx) (\<lambda>r. ret_int r = 1)"
        "ssl_since t4 ?t7 (SSL_CTX_set_alpn_select_cb ctx) (\<lambda>_. True)" "asks_client_certs roots ctx t4 ?t7"
    have g4: "ssl_grows t2 t4" by (rule ssl_grows_trans [OF p3(2) p4(2)])
    note base = ssl_grows_trans [OF g2 g4] g ssl_grows_refl
    have "ssl_since t ?t7 (SSL_CTX_set_min_proto_version ctx TLS1_2_VERSION) (\<lambda>_. True)"
      by (rule ssl_since_grows [OF v ssl_grows_refl g2 ssl_grows_trans [OF g4 g]])
    from that [OF t6 refl l this ssl_since_grows [OF d(1) base] ssl_since_grows [OF d(2) base]
        asks_client_certs_grows [OF d(3) base]] show ?thesis .
  qed
qed

lemma server_context_owned:
  assumes "pem_ends lib mu" and "ssl_live t = Some L"
  shows "\<exists>r t'. server_context lib roots pair t = Some (r, t') \<and>
    (case r of
       None \<Rightarrow> ssl_live t' = Some L
     | Some ctx \<Rightarrow> ssl_live t' = Some (add_mset (Obj_Ctx ctx) L) \<and>
         ssl_since t t' (SSL_CTX_set_min_proto_version ctx TLS1_2_VERSION) (\<lambda>_. True) \<and>
         ssl_since t t' (SSL_CTX_check_private_key ctx) (\<lambda>r. ret_int r = 1) \<and>
         ssl_since t t' (SSL_CTX_set_alpn_select_cb ctx) (\<lambda>_. True) \<and>
         asks_client_certs roots ctx t t')"
proof -
  let ?i = "snd (grpc_ssl_init lib t)"
  let ?t1 = "snd (ssl_do lib (SSL_CTX_new TLS_server_method) ?i)"
  have i: "ssl_live ?i = Some L" using assms(2) by (rule grpc_ssl_init_ok)
  show ?thesis
  proof (cases "ret_ptr (fst (ssl_do lib (SSL_CTX_new TLS_server_method) ?i))")
    case None
    with i show ?thesis by (simp add: server_context_def split_beta own_simps)
  next
    case (Some ctx)
    let ?t2 = "ssl_runs lib [SSL_CTX_set_min_proto_version ctx TLS1_2_VERSION] ?t1"
    have l2: "ssl_live ?t2 = Some (add_mset (Obj_Ctx ctx) L)" using i Some by (simp add: own_simps)
    obtain ok3 t3 where t3: "server_cert lib ctx (cert_chain pair) ?t2 = (ok3, t3)" by (rule prod.exhaust)
    note p3 = server_cert_ok [OF l2 t3]
    obtain ok4 t4 where t4: "server_key lib ctx (private_key pair) t3 = (ok4, t4)" by (rule prod.exhaust)
    let ?r5 = "fst (ssl_do lib (SSL_CTX_check_private_key ctx) t4)"
    let ?t5 = "snd (ssl_do lib (SSL_CTX_check_private_key ctx) t4)"
    consider "\<not> ok3" | "ok3" "\<not> ok4" | "ok3" "ok4" "ret_int ?r5 \<noteq> 1" | "ok3" "ok4" "ret_int ?r5 = 1" by blast
    then show ?thesis
    proof cases
      case 1
      with Some t3 p3 show ?thesis by (simp add: server_context_def split_beta)
    next
      case 2
      then have "ssl_live t3 = Some (add_mset (Obj_Ctx ctx) L)" using p3 by simp
      from server_key_ok [OF this t4] Some t3 t4 2 show ?thesis by (simp add: server_context_def split_beta)
    next
      case 3
      then have "ssl_live t3 = Some (add_mset (Obj_Ctx ctx) L)" using p3 by simp
      from server_key_ok [OF this t4] Some t3 t4 3 show ?thesis
        by (simp add: server_context_def split_beta own_simps)
    next
      case 4
      have g1: "ssl_grows t ?t1" by (rule ssl_grows_trans [OF grpc_ssl_init_grows ssl_grows_do])
      have "ssl_since ?t1 ?t2 (SSL_CTX_set_min_proto_version ctx TLS1_2_VERSION) (\<lambda>_. True)" by (rule ssl_since_runs) simp
      note v = ssl_since_grows [OF this g1 ssl_grows_runs ssl_grows_refl] and g2 = ssl_grows_trans [OF g1 ssl_grows_runs]
      from assms(1) l2 g2 v t3 [unfolded eqTrueI [OF 4(1)]] t4 [unfolded eqTrueI [OF 4(2)]] 4(3) obtain t6 t7 where
        t7: "server_roots lib ctx roots ?t5 = Some t6" "t7 = ssl_runs lib [SSL_CTX_set_alpn_select_cb ctx] t6"
          "ssl_live t7 = Some (add_mset (Obj_Ctx ctx) L)"
          "ssl_since t t7 (SSL_CTX_set_min_proto_version ctx TLS1_2_VERSION) (\<lambda>_. True)"
          "ssl_since t t7 (SSL_CTX_check_private_key ctx) (\<lambda>r. ret_int r = 1)"
          "ssl_since t t7 (SSL_CTX_set_alpn_select_cb ctx) (\<lambda>_. True)" "asks_client_certs roots ctx t t7"
        by (rule server_context_checked)
      have c: "server_context lib roots pair t = Some (Some ctx, t7)"
        using Some t3 t4 t7(1,2) 4 by (simp add: server_context_def split_beta)
      with t7(3-) show ?thesis by (intro exI [of _ "Some ctx"] exI [of _ t7]) (simp only: option.case simp_thms)
    qed
  qed
qed

text \<open>
  C32. A server context, for every OpenSSL whose certificate reader comes to the end of a buffer
  (\<open>pem_ends\<close>): the call returns; a returned context is the only object left to free, its key was
  checked against its certificate, it uses TLS 1.2 or later and selects the protocol with the
  callback. Clients have to show a certificate when roots were given and OpenSSL made a buffer for
  them; nothing is said of roots for which it made none (\<open>server_roots_skipped\<close>: they are passed
  over). All of this is said of the calls this creation made. With a null pointer nothing is left.
\<close>

theorem grpc_ssl_create_server_context_owned:
  assumes "pem_ends lib mu" and "ssl_live t = Some L"
    and "cm_server m a = Some c" and "read_string m (sc_pem_root_certs c) = Inr roots"
    and "read_pair m (sc_pem_key_cert_pairs c) = Inr (Some pair)" and "sc_num_key_cert_pairs c \<noteq> 0"
  shows "\<exists>r t'. grpc_ssl_create_server_context lib m (Some a) t = Some (Inr (r, t')) \<and>
    (case r of
       None \<Rightarrow> ssl_live t' = Some L
     | Some ctx \<Rightarrow> ssl_live t' = Some (add_mset (Obj_Ctx ctx) L) \<and>
         ssl_since t t' (SSL_CTX_set_min_proto_version ctx TLS1_2_VERSION) (\<lambda>_. True) \<and>
         ssl_since t t' (SSL_CTX_check_private_key ctx) (\<lambda>r. ret_int r = 1) \<and>
         ssl_since t t' (SSL_CTX_set_alpn_select_cb ctx) (\<lambda>_. True) \<and>
         asks_client_certs roots ctx t t')"
proof -
  have "sc_pem_key_cert_pairs c \<noteq> None" using assms(5) by (cases "sc_pem_key_cert_pairs c") (simp_all add: read_pair_def)
  then show ?thesis
    using server_context_owned [OF assms(1,2), of roots pair] assms(3,4,5,6)
    by (auto simp: grpc_ssl_create_server_context_def heap_read_def)
qed

section \<open>The protocol list\<close>

text \<open>
  Reference: the protocols of a list in the format of the ALPN extension, each one behind its
  length, up to the first that is cut off, with the offsets they start at.
\<close>

fun alpn_entries :: "nat \<Rightarrow> uint8 list \<Rightarrow> (nat \<times> uint8 list) list" where
  "alpn_entries i [] = []"
| "alpn_entries i (len # bs) =
     (if length bs < unat len then []
      else (i + 1, take (unat len) bs) # alpn_entries (i + 1 + unat len) (drop (unat len) bs))"

fun alpn_encode :: "uint8 list list \<Rightarrow> uint8 list" where
  "alpn_encode [] = []"
| "alpn_encode (p # ps) = word_of_nat (length p) # p @ alpn_encode ps"

lemma take_2_eq_iff: "2 \<le> length bs \<Longrightarrow> take 2 bs = [a, b] \<longleftrightarrow> bs ! 0 = a \<and> bs ! 1 = b"
  by (cases bs; cases "tl bs") auto

lemma alpn_match:
  assumes "j + unat (len :: uint8) \<le> length inp"
  shows "(len = 2 \<and> read_byte inp j = Inr 0x68 \<and> read_byte inp (j + 1) = Inr 0x32) \<longleftrightarrow> take (unat len) (drop j inp) = h2"
proof (cases "len = 2")
  case True
  with assms have "2 \<le> length (drop j inp)" by simp
  from take_2_eq_iff [OF this, of "0x68" "0x32"] True assms show ?thesis by (auto simp: read_byte_def h2_def)
next
  case False
  then have "unat len \<noteq> 2" by (simp add: word_unat_eq_iff)
  then have "length (take (unat len) (drop j inp)) \<noteq> length h2" using assms by (simp add: h2_def)
  with False show ?thesis by metis
qed

lemma ucast_of_nat_unat: "(ucast (w :: uint8) :: uint32) = word_of_nat (unat w)"
  by (rule word_unat_eq_iff [THEN iffD2]) (simp add: unat_ucast unat_of_nat)

lemma unat_index_add: "unat (i :: uint32) + n < 2 ^ 32 \<Longrightarrow> unat (i + word_of_nat n) = unat i + n"
  by (simp add: unat_word_ariths unat_of_nat)

text \<open>The result in the form of the code: the first entry that is "h2".\<close>

definition alpn_first_h2 :: "(nat \<times> uint8 list) list \<Rightarrow> (nat \<times> uint8) option" where
  "alpn_first_h2 es = map_option (\<lambda>e. (fst e, 2)) (find (\<lambda>e. snd e = h2) es)"

lemma alpn_first_h2_Cons [simp]:
  "alpn_first_h2 (e # es) = (if snd e = h2 then Some (fst e, 2) else alpn_first_h2 es)"
  by (simp add: alpn_first_h2_def)

lemma alpn_loop_eq:
  assumes "length inp + 256 < 2 ^ 32"
  shows "unat i \<le> length inp \<Longrightarrow>
    alpn_loop inp (uint32_of_size (length inp)) i = Some (Inr (alpn_first_h2 (alpn_entries (unat i) (drop (unat i) inp))))"
proof (induction "length inp - unat i" arbitrary: i rule: less_induct)
  case less
  have inlen: "unat (uint32_of_size (length inp)) = length inp" using assms by simp
  show ?case
  proof (cases "unat i < length inp")
    case False
    then have "\<not> i < uint32_of_size (length inp)" by (simp add: word_less_nat_alt inlen)
    with False show ?thesis by (subst alpn_loop.simps) (simp add: alpn_first_h2_def)
  next
    case True
    let ?len = "inp ! unat i"
    have rest: "drop (unat i) inp = ?len # drop (unat i + 1) inp" using True by (simp add: Cons_nth_drop_Suc)
    have len: "unat ?len < 256" by (rule unat_uint8_less)
    have cast: "1 + ucast ?len = (word_of_nat (1 + unat ?len) :: uint32)"
      by (simp only: ucast_of_nat_unat of_nat_add of_nat_1)
    have next': "unat (i + (1 + ucast ?len)) = unat i + (1 + unat ?len)"
      unfolding cast by (rule unat_index_add) (use True assms len in simp)
    have one: "unat (i + 1) = unat i + 1" using unat_index_add [of i 1] True assms by simp
    have guard: "i + 1 + ucast ?len > uint32_of_size (length inp) \<longleftrightarrow> length inp < unat i + (1 + unat ?len)"
      by (simp only: add.assoc word_less_nat_alt next' inlen)
    have i: "i < uint32_of_size (length inp)" using True by (simp add: word_less_nat_alt inlen)
    have byte: "read_byte inp (unat i) = Inr ?len" using True by (simp add: read_byte_def)
    show ?thesis
    proof (cases "length inp < unat i + (1 + unat ?len)")
      case True
      with \<open>unat i < length inp\<close> have "alpn_entries (unat i) (drop (unat i) inp) = []"
        unfolding rest by simp
      with True i byte guard show ?thesis by (subst alpn_loop.simps) (simp add: alpn_first_h2_def)
    next
      case False
      have is_h2: "(?len = 2 \<and> read_byte inp (unat (i + 1)) = Inr 0x68 \<and> read_byte inp (unat (i + 1) + 1) = Inr 0x32) \<longleftrightarrow>
          take (unat ?len) (drop (unat i + 1) inp) = h2"
        unfolding one by (rule alpn_match) (use False in simp)
      have ih: "alpn_loop inp (uint32_of_size (length inp)) (i + (1 + ucast ?len)) =
          Some (Inr (alpn_first_h2 (alpn_entries (unat i + (1 + unat ?len)) (drop (unat i + (1 + unat ?len)) inp))))"
        using less.hyps [of "i + (1 + ucast ?len)"] next' True False by simp
      have entries: "alpn_entries (unat i) (drop (unat i) inp) = (unat i + 1, take (unat ?len) (drop (unat i + 1) inp)) #
          alpn_entries (unat i + (1 + unat ?len)) (drop (unat i + (1 + unat ?len)) inp)"
        using False rest by (simp add: add.commute add.left_commute)
      show ?thesis
        unfolding entries
        using i byte guard False is_h2 ih one
        by (subst alpn_loop.simps) auto
    qed
  qed
qed

text \<open>
  C33. The callback returns the first "h2" of the client's list, for every list of bytes: it stops at a
  protocol that is cut off, reads no byte outside the list, and its loop ends.
\<close>

theorem grpc_ssl_alpn_select_cb_first_h2:
  assumes "length inp + 256 < 2 ^ 32"
  shows "grpc_ssl_alpn_select_cb_internal inp = Some (Inr (alpn_first_h2 (alpn_entries 0 inp)))"
  using alpn_loop_eq [OF assms, of 0] by (simp add: grpc_ssl_alpn_select_cb_internal_def)

lemma alpn_entries_encode:
  "list_all (\<lambda>p. length p < 256) ps \<Longrightarrow> map snd (alpn_entries i (alpn_encode ps)) = ps"
proof (induction ps arbitrary: i)
  case (Cons p ps)
  then have "unat (word_of_nat (length p) :: uint8) = length p" by (simp add: unat_of_nat)
  with Cons show ?case by simp
qed simp

lemma alpn_first_h2_None_iff: "alpn_first_h2 es = None \<longleftrightarrow> h2 \<notin> snd ` set es"
  by (force simp: alpn_first_h2_def find_None_iff)

text \<open>On a well-formed list of protocols the callback accepts exactly when "h2" is one of them.\<close>

theorem grpc_ssl_alpn_select_cb_accepts:
  assumes "list_all (\<lambda>p. length p < 256) ps" and "length (alpn_encode ps) + 256 < 2 ^ 32"
  shows "\<exists>r. grpc_ssl_alpn_select_cb_internal (alpn_encode ps) = Some (Inr r) \<and> (r = None \<longleftrightarrow> h2 \<notin> set ps)"
proof -
  have "snd ` set (alpn_entries 0 (alpn_encode ps)) = set ps"
    unfolding set_map [symmetric] alpn_entries_encode [OF assms(1)] ..
  then show ?thesis
    using alpn_loop_eq [OF assms(2), of 0] by (simp add: grpc_ssl_alpn_select_cb_internal_def alpn_first_h2_None_iff)
qed

text \<open>Witnesses.\<close>

theorem grpc_ssl_alpn_select_cb_first_h2_witness:
  "grpc_ssl_alpn_select_cb_internal [3, 0x68, 0x32, 0x63, 2, 0x68, 0x32] = Some (Inr (Some (5, 2)))"
  using grpc_ssl_alpn_select_cb_first_h2 [of "[3, 0x68, 0x32, 0x63, 2, 0x68, 0x32]"]
  by (simp add: h2_def)

theorem grpc_ssl_alpn_select_cb_accepts_witness:
  "\<exists>r. grpc_ssl_alpn_select_cb_internal (alpn_encode [[0x68, 0x32, 0x63]]) = Some (Inr r) \<and> r = None"
  using grpc_ssl_alpn_select_cb_accepts [of "[[0x68, 0x32, 0x63]]"] by (simp add: h2_def)

section \<open>Connections\<close>

text \<open>The calls a handshake made, and what they say about it.\<close>

definition answered :: "(ssl_call \<times> ssl_ret) list \<Rightarrow> ssl_call \<Rightarrow> (ssl_ret \<Rightarrow> bool) \<Rightarrow> bool" where
  "answered calls c P \<longleftrightarrow> (\<exists>r. (c, r) \<in> set calls \<and> P r)"

definition accepted :: "nat \<Rightarrow> nat \<Rightarrow> (ssl_call \<times> ssl_ret) list \<Rightarrow> bool" where
  "accepted ctx ssl calls \<longleftrightarrow> answered calls (SSL_new ctx) (\<lambda>r. ret_ptr r = Some ssl) \<and>
     answered calls (SSL_connect ssl) (\<lambda>r. ret_int r = 1) \<and>
     answered calls (SSL_get_verify_result ssl) (\<lambda>r. ret_int r = 0) \<and>
     answered calls (SSL_get0_alpn_selected ssl) (\<lambda>r. ret_bytes r = h2)"

definition refused :: "nat \<Rightarrow> (ssl_call \<times> ssl_ret) list \<Rightarrow> bool" where
  "refused ctx calls \<longleftrightarrow> answered calls (SSL_new ctx) (\<lambda>r. ret_ptr r = None) \<or>
     (\<exists>ssl. answered calls (SSL_new ctx) (\<lambda>r. ret_ptr r = Some ssl) \<and>
       (answered calls (SSL_connect ssl) (\<lambda>r. ret_int r \<noteq> 1) \<or>
        answered calls (SSL_get_verify_result ssl) (\<lambda>r. ret_int r \<noteq> 0) \<or>
        answered calls (SSL_get0_alpn_selected ssl) (\<lambda>r. ret_bytes r \<noteq> h2)))"

lemma h2_length: "length h2 = 2"
  by (simp add: h2_def)

text \<open>
  C36. A client handshake on a live context, for every behaviour of OpenSSL: it returns 0 exactly when
  OpenSSL gave it a session, connected, verified the certificate and negotiated "h2", and -1
  exactly when one of these calls answered otherwise. After a 0 the connection holds the new
  session, the only object left to free, and the host name, if one was given, was set for the
  verification; after a -1 the connection is as before and nothing is left to free.
\<close>

theorem grpc_ssl_client_handshake_result:
  assumes "conn_ssl_ctx c = Some ctx" and "ssl_live t = Some L" and "Obj_Ctx ctx \<in># L"
    and "grpc_ssl_client_handshake lib (Some c) host t = (n, conn', t')"
  shows "\<exists>calls. tls_trace t' = tls_trace t @ calls \<and>
    (n = 0 \<longleftrightarrow> (\<exists>ssl. accepted ctx ssl calls)) \<and> (n = -1 \<longleftrightarrow> refused ctx calls) \<and>
    (n = 0 \<and> (\<exists>ssl. accepted ctx ssl calls \<and> conn' = Some (c\<lparr>conn_ssl := Some ssl\<rparr>) \<and>
        ssl_live t' = Some (add_mset (Obj_Ssl ssl) L) \<and>
        (\<forall>h. host = Some h \<longrightarrow> answered calls (SSL_set1_host ssl h) (\<lambda>_. True))) \<or>
     n = -1 \<and> conn' = Some c \<and> ssl_live t' = Some L)"
  using assms
  by (auto simp: grpc_ssl_client_handshake_def own_simps split_beta accepted_def refused_def answered_def h2_length Let_def
      split: option.splits if_splits)

lemma conn_ssl_upd:
  assumes "conn_ssl c = None"
  shows "c\<lparr>conn_ssl := Some x\<rparr> \<noteq> c" and "c\<lparr>conn_ssl := None\<rparr> = c"
proof -
  show "c\<lparr>conn_ssl := None\<rparr> = c" using assms by (cases c) simp
  have "conn_ssl (c\<lparr>conn_ssl := Some x\<rparr>) \<noteq> conn_ssl c" using assms by simp
  then show "c\<lparr>conn_ssl := Some x\<rparr> \<noteq> c" by metis
qed

text \<open>
  A server handshake, and the end of a session: the handshake fails without a trace or leaves the
  session in the connection, and \<open>grpc_ssl_shutdown\<close> frees it exactly once, however often it is
  called.
\<close>

theorem grpc_ssl_server_handshake_shutdown:
  assumes "conn_ssl_ctx c = Some ctx" and "conn_ssl c = None" and "ssl_live t = Some L" and "Obj_Ctx ctx \<in># L"
    and "grpc_ssl_server_handshake lib (Some c) t = (n, conn', t1)"
    and "grpc_ssl_shutdown lib conn' t1 = (conn2, t2)" and "grpc_ssl_shutdown lib conn2 t2 = (conn3, t3)"
  shows "(n = 0 \<longleftrightarrow> conn' \<noteq> Some c) \<and> conn3 = Some c \<and> ssl_live t3 = Some L \<and> t3 = t2"
  using assms
  by (auto simp: grpc_ssl_server_handshake_def grpc_ssl_shutdown_def own_simps split_beta conn_ssl_upd
      split: option.splits if_splits)

text \<open>Reading and writing without a session is refused, and with one the code returns the number of
  bytes, 0 when OpenSSL has to wait, and -1 for every other failure.\<close>

lemma grpc_ssl_write_cases:
  assumes "conn_ssl c = Some ssl" and "lib (SSL_write ssl buf (int_of_size len)) (tls_lib t) = (r, l)"
    and "lib (SSL_get_error ssl (ret_int r)) l = (e, l')"
  shows "fst (grpc_ssl_write lib (Some c) buf len t) =
    (if 0 < ret_int r then ret_int r else if ret_int e \<in> {SSL_ERROR_WANT_READ, SSL_ERROR_WANT_WRITE} then 0 else -1)"
  using assms by (simp add: grpc_ssl_write_def ssl_io_result_def ssl_do_def)

text \<open>When the client roots cannot be read into memory the server goes on without asking clients for
  certificates.\<close>

lemma server_roots_skipped:
  assumes "ret_ptr (fst (lib (BIO_new_mem_buf s) (tls_lib t))) = None"
  shows "server_roots lib ctx (Some s) t = Some (snd (ssl_do lib (BIO_new_mem_buf s) t))"
  using assms by (simp add: server_roots_def split_beta tls_simps)

text \<open>Witnesses: a library whose state is the number of certificates still to be read.\<close>

definition demo_ssl :: "nat ssl_lib" where
  "demo_ssl c n =
     (case c of
        PEM_read_bio_X509 b \<Rightarrow> (\<lparr>ret_int = 0, ret_ptr = (if n = 0 then None else Some 7), ret_bytes = []\<rparr>, n - 1)
      | SSL_get_verify_result p \<Rightarrow> (\<lparr>ret_int = 0, ret_ptr = None, ret_bytes = []\<rparr>, n)
      | SSL_get0_alpn_selected p \<Rightarrow> (\<lparr>ret_int = 0, ret_ptr = None, ret_bytes = h2\<rparr>, n)
      | _ \<Rightarrow> (\<lparr>ret_int = 1, ret_ptr = Some 1, ret_bytes = []\<rparr>, n))"

definition demo_tls :: "nat tls" where
  "demo_tls = \<lparr>tls_lib = 2, tls_trace = [], ssl_initialized = False\<rparr>"

lemma demo_ssl_ends: "pem_ends demo_ssl (\<lambda>_ n. n)"
  by (simp add: pem_ends_def demo_ssl_def split: if_splits)

lemma demo_tls_live: "ssl_live demo_tls = Some {#}"
  by (simp add: ssl_live_def demo_tls_def)

definition demo_creds :: cred_mem where
  "demo_creds = \<lparr>cm_strings = [1 \<mapsto> ''ca''],
     cm_pairs = [0 \<mapsto> [\<lparr>private_key = Some ''key'', cert_chain = Some ''cert''\<rparr>]],
     cm_channel = [2 \<mapsto> \<lparr>cc_pem_root_certs = Some 1, cc_pem_key_cert_pair = None\<rparr>],
     cm_server = [3 \<mapsto> \<lparr>sc_pem_root_certs = Some 1, sc_pem_key_cert_pairs = Some 0, sc_num_key_cert_pairs = 1\<rparr>],
     cm_brk = 4, cm_alloc = []\<rparr>"

theorem grpc_ssl_create_client_context_owned_witness:
  "\<exists>r t'. grpc_ssl_create_client_context demo_ssl demo_creds (Some 2) demo_tls = Some (Inr (r, t')) \<and>
    (case r of
       None \<Rightarrow> ssl_live t' = Some {#}
     | Some ctx \<Rightarrow> ssl_live t' = Some {#Obj_Ctx ctx#} \<and>
         ssl_did t' (SSL_CTX_set_min_proto_version ctx TLS1_2_VERSION) (\<lambda>_. True) \<and>
         ssl_did t' (SSL_CTX_set_verify ctx [SSL_VERIFY_PEER]) (\<lambda>_. True) \<and>
         ssl_did t' (SSL_CTX_set_alpn_protos ctx alpn_h2) (\<lambda>_. True))"
  by (rule grpc_ssl_create_client_context_owned [OF demo_ssl_ends demo_tls_live,
        where c = "\<lparr>cc_pem_root_certs = Some 1, cc_pem_key_cert_pair = None\<rparr>" and roots = "Some ''ca''" and pair = None])
    (simp_all add: demo_creds_def read_string_def read_pair_def heap_read_def)

theorem grpc_ssl_create_server_context_owned_witness:
  "\<exists>r t'. grpc_ssl_create_server_context demo_ssl demo_creds (Some 3) demo_tls = Some (Inr (r, t')) \<and>
    (case r of
       None \<Rightarrow> ssl_live t' = Some {#}
     | Some ctx \<Rightarrow> ssl_live t' = Some {#Obj_Ctx ctx#} \<and>
         ssl_since demo_tls t' (SSL_CTX_set_min_proto_version ctx TLS1_2_VERSION) (\<lambda>_. True) \<and>
         ssl_since demo_tls t' (SSL_CTX_check_private_key ctx) (\<lambda>r. ret_int r = 1) \<and>
         ssl_since demo_tls t' (SSL_CTX_set_alpn_select_cb ctx) (\<lambda>_. True) \<and>
         asks_client_certs (Some ''ca'') ctx demo_tls t')"
  by (rule grpc_ssl_create_server_context_owned [OF demo_ssl_ends demo_tls_live,
        where c = "\<lparr>sc_pem_root_certs = Some 1, sc_pem_key_cert_pairs = Some 0, sc_num_key_cert_pairs = 1\<rparr>"
          and pair = "\<lparr>private_key = Some ''key'', cert_chain = Some ''cert''\<rparr>"])
    (simp_all add: demo_creds_def read_string_def read_pair_def heap_read_def)

text \<open>A connection with a context, in a state that owns it.\<close>

definition demo_conn :: http2_connection where
  "demo_conn = \<lparr>conn_socket_fd = 5, conn_ssl_ctx = Some 1, conn_ssl = None, conn_is_client = True,
     conn_next_stream_id = 1, conn_write_mutex = False, conn_streams_mutex = False, conn_streams = arr_calloc 16,
     conn_local_window_size = 65535, conn_remote_window_size = 65535, conn_max_frame_size = 16384,
     conn_max_concurrent_streams = 100\<rparr>"

definition demo_tls_ctx :: "nat tls" where
  "demo_tls_ctx = \<lparr>tls_lib = 0,
     tls_trace = [(SSL_CTX_new TLS_client_method, \<lparr>ret_int = 0, ret_ptr = Some 1, ret_bytes = []\<rparr>)],
     ssl_initialized = True\<rparr>"

lemma demo_tls_ctx_live: "ssl_live demo_tls_ctx = Some {#Obj_Ctx 1#}"
  by (simp add: ssl_live_def demo_tls_ctx_def own_step_def)

theorem grpc_ssl_client_handshake_result_witness:
  "\<exists>conn' t'. grpc_ssl_client_handshake demo_ssl (Some demo_conn) (Some ''host'') demo_tls_ctx = (0, conn', t') \<and>
    (\<exists>ssl. conn' = Some (demo_conn\<lparr>conn_ssl := Some ssl\<rparr>) \<and> ssl_live t' = Some {#Obj_Ssl ssl, Obj_Ctx 1#})"
proof -
  obtain n conn' t' where h: "grpc_ssl_client_handshake demo_ssl (Some demo_conn) (Some ''host'') demo_tls_ctx = (n, conn', t')"
    by (metis prod.exhaust)
  have "n = 0" using h
    by (auto simp: grpc_ssl_client_handshake_def demo_conn_def split_beta tls_simps demo_ssl_def h2_def Let_def)
  moreover have "conn_ssl_ctx demo_conn = Some 1" by (simp add: demo_conn_def)
  ultimately show ?thesis
    using grpc_ssl_client_handshake_result [OF _ demo_tls_ctx_live _ h, of 1] h by auto
qed

theorem grpc_ssl_server_handshake_shutdown_witness:
  "\<exists>conn' t1 conn2 t2. grpc_ssl_server_handshake demo_ssl (Some demo_conn) demo_tls_ctx = (0, conn', t1) \<and>
    grpc_ssl_shutdown demo_ssl conn' t1 = (conn2, t2) \<and> conn' \<noteq> Some demo_conn \<and>
    grpc_ssl_shutdown demo_ssl conn2 t2 = (Some demo_conn, t2) \<and> ssl_live t2 = Some {#Obj_Ctx 1#}"
proof -
  obtain n conn' t1 where h: "grpc_ssl_server_handshake demo_ssl (Some demo_conn) demo_tls_ctx = (n, conn', t1)"
    by (metis prod.exhaust)
  obtain conn2 t2 where s: "grpc_ssl_shutdown demo_ssl conn' t1 = (conn2, t2)" by (metis prod.exhaust)
  obtain conn3 t3 where s2: "grpc_ssl_shutdown demo_ssl conn2 t2 = (conn3, t3)" by (metis prod.exhaust)
  have "n = 0" using h
    by (auto simp: grpc_ssl_server_handshake_def demo_conn_def split_beta tls_simps demo_ssl_def)
  moreover have "conn_ssl_ctx demo_conn = Some 1" "conn_ssl demo_conn = None" by (simp_all add: demo_conn_def)
  ultimately show ?thesis
    using grpc_ssl_server_handshake_shutdown [OF _ _ demo_tls_ctx_live _ h s s2, of 1] h s s2 by auto
qed

end
