(* ===== verification/Transport.thy ===== *)
theory Transport
  imports World "HOL-Library.Sublist"
begin

text \<open>
  The HTTP/2 transport of \<^verbatim>\<open>src/http2_transport.c\<close>: connections with their array of streams,
  the nine-byte frame header, sending and receiving of frames over a socket, and streams. The
  two initialisers of \<^verbatim>\<open>src/flow_control.c\<close> that the constructors call are here, too.
\<close>

section \<open>Constants and frame headers\<close>

definition HTTP2_FRAME_HEADER_SIZE :: nat where "HTTP2_FRAME_HEADER_SIZE = 9"
definition HTTP2_DEFAULT_WINDOW_SIZE :: int32 where "HTTP2_DEFAULT_WINDOW_SIZE = 65535"
definition HTTP2_DEFAULT_MAX_FRAME_SIZE :: uint32 where "HTTP2_DEFAULT_MAX_FRAME_SIZE = 16384"
definition HTTP2_DEFAULT_MAX_CONCURRENT_STREAMS :: uint32 where
  "HTTP2_DEFAULT_MAX_CONCURRENT_STREAMS = 100"

datatype http2_frame_type =
    HTTP2_FRAME_DATA | HTTP2_FRAME_HEADERS | HTTP2_FRAME_PRIORITY | HTTP2_FRAME_RST_STREAM
  | HTTP2_FRAME_SETTINGS | HTTP2_FRAME_PUSH_PROMISE | HTTP2_FRAME_PING | HTTP2_FRAME_GOAWAY
  | HTTP2_FRAME_WINDOW_UPDATE | HTTP2_FRAME_CONTINUATION

fun frame_type_code :: "http2_frame_type \<Rightarrow> uint8" where
  "frame_type_code HTTP2_FRAME_DATA = 0x00"
| "frame_type_code HTTP2_FRAME_HEADERS = 0x01"
| "frame_type_code HTTP2_FRAME_PRIORITY = 0x02"
| "frame_type_code HTTP2_FRAME_RST_STREAM = 0x03"
| "frame_type_code HTTP2_FRAME_SETTINGS = 0x04"
| "frame_type_code HTTP2_FRAME_PUSH_PROMISE = 0x05"
| "frame_type_code HTTP2_FRAME_PING = 0x06"
| "frame_type_code HTTP2_FRAME_GOAWAY = 0x07"
| "frame_type_code HTTP2_FRAME_WINDOW_UPDATE = 0x08"
| "frame_type_code HTTP2_FRAME_CONTINUATION = 0x09"

record http2_frame_header =
  fh_length :: uint32
  fh_type :: uint8
  fh_flags :: uint8
  fh_stream_id :: uint32

definition frame_header_encode :: "http2_frame_header \<Rightarrow> uint8 list" where
  "frame_header_encode h =
     [ucast (drop_bit 16 (fh_length h) AND 0xFF),
      ucast (drop_bit 8 (fh_length h) AND 0xFF),
      ucast (fh_length h AND 0xFF),
      fh_type h,
      fh_flags h,
      ucast (drop_bit 24 (fh_stream_id h) AND 0x7F),
      ucast (drop_bit 16 (fh_stream_id h) AND 0xFF),
      ucast (drop_bit 8 (fh_stream_id h) AND 0xFF),
      ucast (fh_stream_id h AND 0xFF)]"

definition frame_header_decode :: "uint8 list \<Rightarrow> http2_frame_header" where
  "frame_header_decode b =
     \<lparr>fh_length = push_bit 16 (ucast (b ! 0)) OR push_bit 8 (ucast (b ! 1)) OR ucast (b ! 2),
      fh_type = b ! 3,
      fh_flags = b ! 4,
      fh_stream_id = push_bit 24 (ucast (b ! 5 AND 0x7F)) OR push_bit 16 (ucast (b ! 6)) OR
                     push_bit 8 (ucast (b ! 7)) OR ucast (b ! 8)\<rparr>"

section \<open>Initialisers of the flow control\<close>

definition http2_flow_control_init_connection :: "addr option \<Rightarrow> unit cmd" where
  "http2_flow_control_init_connection conn =
     (case conn of
        None \<Rightarrow> skip
      | Some _ \<Rightarrow> conn_upd conn (\<lambda>c. c\<lparr>conn_local_window_size := HTTP2_DEFAULT_WINDOW_SIZE,
                    conn_remote_window_size := HTTP2_DEFAULT_WINDOW_SIZE,
                    conn_max_frame_size := HTTP2_DEFAULT_MAX_FRAME_SIZE,
                    conn_max_concurrent_streams := HTTP2_DEFAULT_MAX_CONCURRENT_STREAMS\<rparr>))"

definition http2_flow_control_init_stream :: "addr option \<Rightarrow> unit cmd" where
  "http2_flow_control_init_stream stream =
     (case stream of
        None \<Rightarrow> skip
      | Some _ \<Rightarrow> strm_upd stream (\<lambda>s. s\<lparr>strm_local_window_size := HTTP2_DEFAULT_WINDOW_SIZE,
                    strm_remote_window_size := HTTP2_DEFAULT_WINDOW_SIZE\<rparr>))"

section \<open>Streams\<close>

text \<open>A stream as \<open>calloc\<close> leaves it.\<close>

definition http2_stream_zero :: http2_stream where
  "http2_stream_zero = \<lparr>strm_id = 0, strm_conn = None, strm_call = None, strm_headers_sent = False,
     strm_end_stream_sent = False, strm_end_stream_received = False,
     strm_initial_metadata = grpc_metadata_array_zero,
     strm_trailing_metadata = grpc_metadata_array_zero, strm_recv_buffer = None,
     strm_status = GRPC_STATUS_OK, strm_status_details = None, strm_local_window_size = 0,
     strm_remote_window_size = 0\<rparr>"

text \<open>The critical section that adds a stream to its connection; \<open>False\<close> when the array
  cannot grow.\<close>

definition arr_grow_cmd :: "'a arr \<Rightarrow> nat \<Rightarrow> (bool \<times> 'a arr) cmd" where
  "arr_grow_cmd a n w =
     exec_bind (arr_grow a n (w_alloc w)) (\<lambda>(grown, a', os). Inr ((grown, a'), w\<lparr>w_alloc := os\<rparr>))"

definition http2_stream_link :: "addr option \<Rightarrow> addr \<Rightarrow> bool cmd" where
  "http2_stream_link conn stream =
     bnd (lock_streams conn) (\<lambda>_.
     bnd (conn_get conn) (\<lambda>c.
     bnd (arr_grow_cmd (conn_streams c) (arr_capacity (conn_streams c) * 2)) (\<lambda>(grown, a).
     if \<not> grown then bnd (unlock_streams conn) (\<lambda>_. ret False)
     else
       bnd (lift (arr_put a stream)) (\<lambda>a'.
       bnd (conn_upd conn (\<lambda>c. c\<lparr>conn_streams := a'\<rparr>)) (\<lambda>_.
       bnd (unlock_streams conn) (\<lambda>_. ret True))))))"

definition http2_stream_create :: "addr option \<Rightarrow> uint32 \<Rightarrow> addr option cmd" where
  "http2_stream_create conn stream_id =
     (case conn of
        None \<Rightarrow> ret None
      | Some _ \<Rightarrow>
          bnd alloc_cmd (\<lambda>ok.
            if \<not> ok then ret None
            else
              bnd (strm_new (http2_stream_zero\<lparr>strm_id := stream_id, strm_conn := conn,
                     strm_headers_sent := False, strm_end_stream_sent := False,
                     strm_end_stream_received := False, strm_status := GRPC_STATUS_OK\<rparr>)) (\<lambda>stream.
              bnd (http2_flow_control_init_stream (Some stream)) (\<lambda>_.
              bnd (http2_stream_link conn stream) (\<lambda>linked.
              if \<not> linked then bnd (strm_free (Some stream)) (\<lambda>_. ret None)
              else ret (Some stream))))))"

text \<open>Freeing the block of a metadata array if it has one; the entries are not visited.\<close>

definition md_block_release :: "grpc_metadata_array \<Rightarrow> unit exec" where
  "md_block_release a = (if md_block a \<noteq> Null_Block then block_free (md_block a) else Inr ())"

definition http2_stream_unlink :: "addr option \<Rightarrow> addr option \<Rightarrow> unit cmd" where
  "http2_stream_unlink conn stream =
     bnd (lock_streams conn) (\<lambda>_.
     bnd (conn_get conn) (\<lambda>c.
     bnd (lift (find_slot (arr_block (conn_streams c)) (\<lambda>s. Inr (s = stream)) 0
                  (arr_count (conn_streams c)))) (\<lambda>hit.
     bnd (case hit of
            None \<Rightarrow> skip
          | Some i \<Rightarrow> bnd (lift (arr_swap_remove (conn_streams c) i)) (\<lambda>a.
                        conn_upd conn (\<lambda>c. c\<lparr>conn_streams := a\<rparr>))) (\<lambda>_.
     unlock_streams conn))))"

definition http2_stream_destroy :: "addr option \<Rightarrow> unit cmd" where
  "http2_stream_destroy stream =
     (case stream of
        None \<Rightarrow> skip
      | Some _ \<Rightarrow>
          bnd (strm_get stream) (\<lambda>s.
          bnd (if strm_conn s \<noteq> None then http2_stream_unlink (strm_conn s) stream else skip) (\<lambda>_.
          bnd (lift (grpc_byte_buffer_destroy (strm_recv_buffer s))) (\<lambda>_.
          bnd (lift (md_block_release (strm_initial_metadata s))) (\<lambda>_.
          bnd (lift (md_block_release (strm_trailing_metadata s))) (\<lambda>_.
          strm_free stream))))))"

section \<open>Connections\<close>

definition http2_connection_create :: "string \<Rightarrow> bool \<Rightarrow> nat option \<Rightarrow> addr option cmd" where
  "http2_connection_create target is_client ssl_ctx =
     bnd alloc_cmd (\<lambda>ok.
       if \<not> ok then ret None
       else
         bnd (conn_new \<lparr>conn_socket_fd = -1, conn_ssl_ctx = None, conn_ssl = None,
                conn_is_client = is_client, conn_next_stream_id = (if is_client then 1 else 2),
                conn_write_mutex = False, conn_streams_mutex = False,
                conn_streams = \<lparr>arr_block = Null_Block, arr_count = 0, arr_capacity = 16\<rparr>,
                conn_local_window_size = 0, conn_remote_window_size = 0,
                conn_max_frame_size = 0, conn_max_concurrent_streams = 0\<rparr>) (\<lambda>conn.
         bnd alloc_cmd (\<lambda>ok2.
           if \<not> ok2 then bnd (conn_free (Some conn)) (\<lambda>_. ret None)
           else
             bnd (conn_upd (Some conn) (\<lambda>c. c\<lparr>conn_streams := arr_calloc 16\<rparr>)) (\<lambda>_.
             bnd (http2_flow_control_init_connection (Some conn)) (\<lambda>_.
             ret (Some conn))))))"

text \<open>
  The loop over the streams of a connection that is destroyed. Destroying a stream never adds
  one, so the count at the start bounds the number of iterations (the first argument).
\<close>

fun http2_destroy_streams :: "nat \<Rightarrow> addr option \<Rightarrow> nat \<Rightarrow> unit cmd" where
  "http2_destroy_streams 0 conn i = skip"
| "http2_destroy_streams (Suc n) conn i =
     bnd (conn_get conn) (\<lambda>c.
       if i < arr_count (conn_streams c)
       then bnd (lift (block_load (arr_block (conn_streams c)) i)) (\<lambda>s.
            bnd (http2_stream_destroy s) (\<lambda>_. http2_destroy_streams n conn (i + 1)))
       else skip)"

definition http2_connection_destroy :: "addr option \<Rightarrow> unit cmd" where
  "http2_connection_destroy conn =
     (case conn of
        None \<Rightarrow> skip
      | Some _ \<Rightarrow>
          bnd (lock_streams conn) (\<lambda>_.
          bnd (conn_get conn) (\<lambda>c0.
          bnd (http2_destroy_streams (arr_count (conn_streams c0)) conn 0) (\<lambda>_.
          bnd (conn_get conn) (\<lambda>c.
          bnd (lift (block_free (arr_block (conn_streams c)))) (\<lambda>_.
          bnd (unlock_streams conn) (\<lambda>_.
          bnd (if conn_socket_fd c \<ge> 0 then sock_close (conn_socket_fd c) else skip) (\<lambda>_.
          conn_free conn))))))))"

section \<open>Frames\<close>

text \<open>\<open>payload\<close> is the memory at the argument pointer; sending more of it than there is is a
  fault.\<close>

definition http2_connection_send_frame ::
    "addr option \<Rightarrow> http2_frame_header option \<Rightarrow> uint8 list option \<Rightarrow> int cmd" where
  "http2_connection_send_frame conn header payload =
     (case (conn, header) of
        (Some _, Some h) \<Rightarrow>
          bnd (conn_get conn) (\<lambda>c.
          if conn_socket_fd c < 0 then ret (-1)
          else
            bnd (lock_write conn) (\<lambda>_.
            bnd (sock_send (conn_socket_fd c) (frame_header_encode h)) (\<lambda>sent.
            if sent \<noteq> int HTTP2_FRAME_HEADER_SIZE
            then bnd (unlock_write conn) (\<lambda>_. ret (-1))
            else
              (case (fh_length h > 0, payload) of
                 (True, Some p) \<Rightarrow>
                   if length p < unat (fh_length h) then lift (Inl Out_Of_Bounds)
                   else
                     bnd (sock_send (conn_socket_fd c) (take (unat (fh_length h)) p)) (\<lambda>sent2.
                     if sent2 \<noteq> int (unat (fh_length h))
                     then bnd (unlock_write conn) (\<lambda>_. ret (-1))
                     else bnd (unlock_write conn) (\<lambda>_. ret 0))
               | _ \<Rightarrow> bnd (unlock_write conn) (\<lambda>_. ret 0)))))
      | _ \<Rightarrow> ret (-1))"

text \<open>\<open>header\<close> and \<open>payload\<close> are what the two out-parameters point at (\<open>None\<close> for a \<open>NULL\<close>
  argument); they are returned after the result.\<close>

definition http2_connection_recv_frame ::
    "addr option \<Rightarrow> http2_frame_header option \<Rightarrow> uint8 list option option \<Rightarrow>
     (int \<times> http2_frame_header option \<times> uint8 list option option) cmd" where
  "http2_connection_recv_frame conn header payload =
     (case (conn, header) of
        (Some _, Some _) \<Rightarrow>
          bnd (conn_get conn) (\<lambda>c.
          if conn_socket_fd c < 0 then ret (-1, header, payload)
          else
            bnd (sock_recv (conn_socket_fd c) HTTP2_FRAME_HEADER_SIZE) (\<lambda>b.
            if length b \<noteq> HTTP2_FRAME_HEADER_SIZE then ret (-1, header, payload)
            else
              (let h = frame_header_decode b
               in if fh_length h > 0 \<and> payload \<noteq> None
                  then
                    bnd alloc_cmd (\<lambda>ok.
                    if \<not> ok then ret (-1, Some h, Some None)
                    else
                      bnd (sock_recv (conn_socket_fd c) (unat (fh_length h))) (\<lambda>p.
                      if length p \<noteq> unat (fh_length h) then ret (-1, Some h, Some None)
                      else ret (0, Some h, Some (Some p))))
                  else ret (0, Some h, if payload \<noteq> None then Some None else None))))
      | _ \<Rightarrow> ret (-1, header, payload))"

section \<open>The frame header\<close>

lemma byte_of_uint32: "ucast (ucast (x AND 0xFF :: uint32) :: uint8) = (take_bit 8 x :: uint32)"
  unfolding mask_8_uint32
  by (rule bit_word_eqI) (auto simp: bit_simps)

lemma byte_of_uint32_7: "ucast ((ucast (x AND 0x7F :: uint32) :: uint8) AND 0x7F) = (take_bit 7 x :: uint32)"
  unfolding mask_7_uint32 mask_7_uint8
  by (rule bit_word_eqI) (auto simp: bit_simps)

lemma take_bit_split:
  "m \<le> k \<Longrightarrow> push_bit m (take_bit (k - m) (drop_bit m x)) OR take_bit m x = take_bit k (x :: uint32)"
proof (rule bit_word_eqI)
  fix n
  assume "m \<le> k" and "n < LENGTH(32)"
  then show "bit (push_bit m (take_bit (k - m) (drop_bit m x)) OR take_bit m x) n = bit (take_bit k x) n"
    by (cases "m \<le> n") (auto simp: bit_simps)
qed

lemma join_24: "push_bit 16 (take_bit 8 (drop_bit 16 x)) OR push_bit 8 (take_bit 8 (drop_bit 8 x)) OR
    take_bit 8 x = take_bit 24 (x :: uint32)"
  using take_bit_split [of 8 16 x] take_bit_split [of 16 24 x] by (simp add: or.assoc)

lemma join_31: "push_bit 24 (take_bit 7 (drop_bit 24 x)) OR push_bit 16 (take_bit 8 (drop_bit 16 x)) OR
    push_bit 8 (take_bit 8 (drop_bit 8 x)) OR take_bit 8 x = take_bit 31 (x :: uint32)"
  using take_bit_split [of 24 31 x] join_24 [of x] by (simp add: or.assoc)

lemma frame_header_decode_encode:
  "frame_header_decode (frame_header_encode h) =
     h\<lparr>fh_length := take_bit 24 (fh_length h), fh_stream_id := take_bit 31 (fh_stream_id h)\<rparr>"
  using join_31 [of "fh_stream_id h"] join_24 [of "fh_length h"]
  by (simp add: frame_header_decode_def frame_header_encode_def byte_of_uint32 byte_of_uint32_7 or.assoc)

lemma length_frame_header_encode [simp]: "length (frame_header_encode h) = 9"
  by (simp add: frame_header_encode_def)

section \<open>Sending\<close>

text \<open>One \<open>send\<close>: everything goes out and the length is returned, or a proper prefix goes out and
  something else is returned.\<close>

lemma sock_send_cases:
  assumes "bytes \<noteq> []"
  obtains (all) "sock_send fd bytes w = Inr (int (length bytes),
      w\<lparr>w_sent := (w_sent w)(fd := w_sent w fd @ bytes), w_send_ret := tl (w_send_ret w)\<rparr>)"
  | (some) r bs where "sock_send fd bytes w = Inr (r,
      w\<lparr>w_sent := (w_sent w)(fd := w_sent w fd @ bs), w_send_ret := tl (w_send_ret w)\<rparr>)"
      "r \<noteq> int (length bytes)" "strict_prefix bs bytes" "w_send_ret w \<noteq> []"
proof (cases "w_send_ret w")
  case Nil
  then show ?thesis using all by (simp add: sock_send_def)
next
  case (Cons r rs)
  show ?thesis
  proof (cases "r \<ge> int (length bytes)")
    case True
    then show ?thesis using Cons all by (simp add: sock_send_def min_def)
  next
    case False
    then have "nat r < length bytes" using assms by (cases "r \<ge> 0") auto
    then have "length (take (nat r) bytes) < length bytes" by simp
    then have "strict_prefix (take (nat r) bytes) bytes"
      unfolding strict_prefix_def using take_is_prefix nat_neq_iff by metis
    then show ?thesis using Cons False some [of r "take (nat r) bytes"]
      by (simp add: sock_send_def min_def)
  qed
qed

text \<open>Taking the write lock, and giving it back after something was sent.\<close>

lemma write_locked:
  assumes "w_conns w p = Some c" and "\<not> conn_write_mutex c"
  obtains wl where "lock_write (Some p) w = Inr ((), wl)" "w_conns wl p = Some (c\<lparr>conn_write_mutex := True\<rparr>)"
    "w_sent wl = w_sent w" "w_send_ret wl = w_send_ret w"
    "\<And>x y. unlock_write (Some p) (wl\<lparr>w_sent := x, w_send_ret := y\<rparr>) = Inr ((), w\<lparr>w_sent := x, w_send_ret := y\<rparr>)"
proof -
  let ?wl = "w_conns_update (\<lambda>hp. hp(p \<mapsto> c\<lparr>conn_write_mutex := True\<rparr>)) w"
  have "unlock_write (Some p) (?wl\<lparr>w_sent := x, w_send_ret := y\<rparr>) = Inr ((), w\<lparr>w_sent := x, w_send_ret := y\<rparr>)" for x y
    using assms by (simp add: cell_unlock_eq) (cases w, simp add: map_upd_triv)
  with assms show ?thesis by (intro that [of ?wl]) (simp_all add: cell_lock_free)
qed

lemma send_frame_cases:
  assumes "w_conns w p = Some c" and "conn_socket_fd c \<ge> 0" and "\<not> conn_write_mutex c"
    and "unat (fh_length h) \<le> length pl"
  obtains (sent) rs where "http2_connection_send_frame (Some p) (Some h) (Some pl) w = Inr (0,
      w\<lparr>w_sent := (w_sent w)(conn_socket_fd c := w_sent w (conn_socket_fd c) @
          frame_header_encode h @ take (unat (fh_length h)) pl), w_send_ret := rs\<rparr>)"
      "w_send_ret w = [] \<Longrightarrow> rs = []"
  | (cut) bs rs where "http2_connection_send_frame (Some p) (Some h) (Some pl) w = Inr (- 1,
      w\<lparr>w_sent := (w_sent w)(conn_socket_fd c := w_sent w (conn_socket_fd c) @ bs), w_send_ret := rs\<rparr>)"
      "strict_prefix bs (frame_header_encode h @ take (unat (fh_length h)) pl)" "w_send_ret w \<noteq> []"
proof -
  let ?fd = "conn_socket_fd c" and ?hd = "frame_header_encode h" and ?pl = "take (unat (fh_length h)) pl"
  let ?send = "http2_connection_send_frame (Some p) (Some h) (Some pl) w"
  let ?out = "\<lambda>bs rs. w\<lparr>w_sent := (w_sent w)(?fd := w_sent w ?fd @ bs), w_send_ret := rs\<rparr>"
  from assms(1,3) obtain wl where wl: "lock_write (Some p) w = Inr ((), wl)"
    "w_conns wl p = Some (c\<lparr>conn_write_mutex := True\<rparr>)" "w_sent wl = w_sent w" "w_send_ret wl = w_send_ret w"
    "\<And>x y. unlock_write (Some p) (wl\<lparr>w_sent := x, w_send_ret := y\<rparr>) = Inr ((), w\<lparr>w_sent := x, w_send_ret := y\<rparr>)"
    by (rule write_locked) blast
  have ne: "?hd \<noteq> []" by (metis length_frame_header_encode list.size(3) zero_neq_numeral)
  have fd: "\<not> conn_socket_fd c < 0" using assms(2) by simp
  note run = http2_connection_send_frame_def bnd_def assms(1) fd HTTP2_FRAME_HEADER_SIZE_def wl
  from ne show ?thesis
  proof (cases rule: sock_send_cases [where fd = ?fd and w = wl])
    case (some r bs)
    then have "?send = Inr (- 1, ?out bs (tl (w_send_ret w)))" by (simp add: run)
    moreover have "strict_prefix bs (?hd @ ?pl)" using some(3) by (auto simp: strict_prefix_def prefix_def)
    ultimately show ?thesis using cut some(4) by (simp add: wl)
  next
    case all
    let ?w1 = "wl\<lparr>w_sent := (w_sent w)(?fd := w_sent w ?fd @ ?hd), w_send_ret := tl (w_send_ret w)\<rparr>"
    show ?thesis
    proof (cases "fh_length h > 0")
      case False
      then have zero: "fh_length h = 0" by (simp add: word_gt_0)
      then have "?send = Inr (0, ?out ?hd (tl (w_send_ret w)))" using all by (simp add: run)
      then show ?thesis using sent [of "tl (w_send_ret w)"] zero by simp
    next
      case True
      then have ne2: "?pl \<noteq> []" and len: "length ?pl = unat (fh_length h)"
        using assms(4) by (auto simp: word_gt_0 unat_eq_zero)
      from ne2 show ?thesis
      proof (cases rule: sock_send_cases [where fd = ?fd and w = ?w1])
        case all2: all
        have "?send = Inr (0, ?out (?hd @ ?pl) (tl (tl (w_send_ret w))))"
          using all all2 assms(4) True by (simp add: run len)
        then show ?thesis using sent by simp
      next
        case (some r bs)
        have "?send = Inr (- 1, ?out (?hd @ bs) (tl (tl (w_send_ret w))))"
          using all some(1,2) assms(4) True by (simp add: run len)
        moreover have "strict_prefix (?hd @ bs) (?hd @ ?pl)" using some(3) by (simp add: strict_prefix_def)
        moreover have "w_send_ret w \<noteq> []" using some(4) by auto
        ultimately show ?thesis by (rule cut)
      qed
    qed
  qed
qed

section \<open>Receiving\<close>

lemma recv_frame_ok:
  assumes "w_conns w p = Some c" and "conn_socket_fd c \<ge> 0"
    and "w_incoming w (conn_socket_fd c) = frame_header_encode h @ pl @ rest"
    and "length pl = unat (fh_length h)" and "unat (fh_length h) < 2 ^ 24"
    and "unat (fh_stream_id h) < 2 ^ 31" and "alloc_ok (w_alloc w)"
  shows "\<exists>w' os. http2_connection_recv_frame (Some p) (Some h0) (Some p0) w =
      Inr ((0, Some h, Some (if pl = [] then None else Some pl)), w') \<and>
    w' = w\<lparr>w_incoming := (w_incoming w)(conn_socket_fd c := rest), w_alloc := os\<rparr> \<and> alloc_ok os"
proof -
  have tb: "take_bit 24 (fh_length h) = fh_length h" "take_bit 31 (fh_stream_id h) = fh_stream_id h"
    using assms(5,6)
    by (simp_all add: word_unat_eq_iff unsigned_take_bit_eq take_bit_nat_eq_self)
  then have dec: "frame_header_decode (frame_header_encode h) = h"
    by (simp add: frame_header_decode_encode)
  from assms(7) obtain os where os: "alloc_next (w_alloc w) = (True, os)" "alloc_ok os"
    by (rule alloc_next_okE)
  have fd: "\<not> conn_socket_fd c < 0" using assms(2) by simp
  have rcv: "sock_recv (conn_socket_fd c) 9 w = Inr (frame_header_encode h,
      w\<lparr>w_incoming := (w_incoming w)(conn_socket_fd c := pl @ rest)\<rparr>)"
    using assms(3) by (simp add: sock_recv_def)
  note run = http2_connection_recv_frame_def bnd_def assms(1) fd HTTP2_FRAME_HEADER_SIZE_def rcv dec
    alloc_cmd_eq os
  show ?thesis
  proof (cases "pl = []")
    case True
    then have "\<not> fh_length h > 0" using assms(4) by (simp add: word_gt_0 unat_eq_zero [symmetric])
    with True assms(7) show ?thesis
      by (auto simp: run intro: exI [of _ "w_alloc w"])
  next
    case False
    then have "fh_length h > 0" using assms(4) by (auto simp: word_gt_0)
    moreover have "sock_recv (conn_socket_fd c) (unat (fh_length h))
        (w\<lparr>w_incoming := (w_incoming w)(conn_socket_fd c := pl @ rest), w_alloc := os\<rparr>) =
      Inr (pl, w\<lparr>w_incoming := (w_incoming w)(conn_socket_fd c := rest), w_alloc := os\<rparr>)"
      using assms(4) by (simp add: sock_recv_def)
    ultimately show ?thesis using False os(2) assms(4) by (auto simp: run)
  qed
qed

text \<open>Sending a list of frames and receiving a number of them, one after the other.\<close>

fun send_frames :: "addr option \<Rightarrow> (http2_frame_header \<times> uint8 list) list \<Rightarrow> int cmd" where
  "send_frames conn [] = ret 0"
| "send_frames conn ((h, pl) # fs) =
     bnd (http2_connection_send_frame conn (Some h) (Some pl)) (\<lambda>r.
       if r = 0 then send_frames conn fs else ret r)"

fun recv_frames :: "addr option \<Rightarrow> nat \<Rightarrow> (http2_frame_header \<times> uint8 list) list cmd" where
  "recv_frames conn 0 = ret []"
| "recv_frames conn (Suc n) =
     bnd (http2_connection_recv_frame conn
            (Some \<lparr>fh_length = 0, fh_type = 0, fh_flags = 0, fh_stream_id = 0\<rparr>) (Some None))
       (\<lambda>(r, h, pl).
          if r = 0
          then bnd (recv_frames conn n) (\<lambda>fs.
                 ret ((the h, (case the pl of None \<Rightarrow> [] | Some bs \<Rightarrow> bs)) # fs))
          else ret [])"

definition frame_ok :: "http2_frame_header \<times> uint8 list \<Rightarrow> bool" where
  "frame_ok f \<longleftrightarrow> length (snd f) = unat (fh_length (fst f)) \<and> unat (fh_length (fst f)) < 2 ^ 24 \<and>
     unat (fh_stream_id (fst f)) < 2 ^ 31"

definition wire :: "(http2_frame_header \<times> uint8 list) list \<Rightarrow> uint8 list" where
  "wire fs = concat (map (\<lambda>(h, pl). frame_header_encode h @ pl) fs)"

lemma send_frames_ok:
  assumes "w_conns w p = Some c" and "conn_socket_fd c \<ge> 0" and "\<not> conn_write_mutex c"
    and "w_send_ret w = []" and "list_all frame_ok fs"
  shows "send_frames (Some p) fs w =
    Inr (0, w\<lparr>w_sent := (w_sent w)(conn_socket_fd c := w_sent w (conn_socket_fd c) @ wire fs)\<rparr>)"
  using assms(1,4,5)
proof (induction fs arbitrary: w)
  case Nil
  then show ?case by (cases w) (simp add: wire_def)
next
  case (Cons f fs)
  obtain h pl where f: "f = (h, pl)" by force
  with Cons.prems have ok: "length pl = unat (fh_length h)" by (simp add: frame_ok_def)
  let ?w = "w\<lparr>w_sent := (w_sent w)(conn_socket_fd c := w_sent w (conn_socket_fd c) @
      frame_header_encode h @ pl), w_send_ret := []\<rparr>"
  have "http2_connection_send_frame (Some p) (Some h) (Some pl) w = Inr (0, ?w)"
    by (rule send_frame_cases [OF Cons.prems(1) assms(2,3), of h pl]) (use Cons.prems(2) ok in auto)
  moreover have "send_frames (Some p) fs ?w =
    Inr (0, ?w\<lparr>w_sent := (w_sent ?w)(conn_socket_fd c := w_sent ?w (conn_socket_fd c) @ wire fs)\<rparr>)"
    by (rule Cons.IH) (use Cons.prems in auto)
  moreover have "?w\<lparr>w_sent := (w_sent ?w)(conn_socket_fd c := w_sent ?w (conn_socket_fd c) @ wire fs)\<rparr> =
      w\<lparr>w_sent := (w_sent w)(conn_socket_fd c := w_sent w (conn_socket_fd c) @ wire (f # fs))\<rparr>"
    using Cons.prems(2) by (cases w) (auto simp: f wire_def fun_eq_iff)
  ultimately have "send_frames (Some p) (f # fs) w =
      Inr (0, w\<lparr>w_sent := (w_sent w)(conn_socket_fd c := w_sent w (conn_socket_fd c) @ wire (f # fs))\<rparr>)"
    by (simp only: f send_frames.simps bnd_def exec_bind_Inr prod.case if_True simp_thms)
  then show ?case .
qed

lemma recv_frames_ok:
  assumes "w_conns w p = Some c" and "conn_socket_fd c \<ge> 0"
    and "list_all frame_ok fs" and "alloc_ok (w_alloc w)"
    and "w_incoming w (conn_socket_fd c) = wire fs @ rest"
  shows "\<exists>w'. recv_frames (Some p) (length fs) w = Inr (fs, w') \<and>
    w_incoming w' (conn_socket_fd c) = rest"
  using assms(1,3-5)
proof (induction fs arbitrary: w)
  case Nil
  then show ?case by (simp add: wire_def)
next
  case (Cons f fs)
  obtain h pl where f: "f = (h, pl)" by force
  have inc: "w_incoming w (conn_socket_fd c) = frame_header_encode h @ pl @ wire fs @ rest"
    using Cons.prems(4) by (simp add: f wire_def)
  from Cons.prems(2) f have fo: "length pl = unat (fh_length h)" "unat (fh_length h) < 2 ^ 24"
    "unat (fh_stream_id h) < 2 ^ 31"
    by (simp_all add: frame_ok_def)
  let ?h0 = "\<lparr>fh_length = 0, fh_type = 0, fh_flags = 0, fh_stream_id = 0\<rparr> :: http2_frame_header"
  from recv_frame_ok [OF Cons.prems(1) assms(2) inc fo Cons.prems(3), of ?h0 None] obtain w' os where
    w': "http2_connection_recv_frame (Some p) (Some ?h0) (Some None) w =
        Inr ((0, Some h, Some (if pl = [] then None else Some pl)), w')"
      "w' = w\<lparr>w_incoming := (w_incoming w)(conn_socket_fd c := wire fs @ rest), w_alloc := os\<rparr>"
      "alloc_ok os" by blast
  have "\<exists>w''. recv_frames (Some p) (length fs) w' = Inr (fs, w'') \<and>
      w_incoming w'' (conn_socket_fd c) = rest"
    by (rule Cons.IH) (use Cons.prems w'(2,3) in auto)
  with w'(1) show ?case by (auto simp: f bnd_def)
qed

section \<open>Properties of frames\<close>

text \<open>
  C12. Frames survive the wire: when a list of frames (each with a payload of the announced
  length below 2^24 and a stream id below 2^31) is sent over one connection and a connection at
  the other end reads the bytes that went out, followed by anything, it receives exactly these
  frames in order and leaves what follows unread.
\<close>

theorem http2_frames_roundtrip:
  assumes "w_conns w p = Some c" and "conn_socket_fd c \<ge> 0" and "\<not> conn_write_mutex c"
    and "w_send_ret w = []" and "list_all frame_ok fs"
    and "w_conns v q = Some d" and "conn_socket_fd d \<ge> 0" and "alloc_ok (w_alloc v)"
  shows "\<exists>w' bytes. send_frames (Some p) fs w = Inr (0, w') \<and>
    w_sent w' (conn_socket_fd c) = w_sent w (conn_socket_fd c) @ bytes \<and>
    (\<forall>rest. w_incoming v (conn_socket_fd d) = bytes @ rest \<longrightarrow>
       (\<exists>v'. recv_frames (Some q) (length fs) v = Inr (fs, v') \<and>
          w_incoming v' (conn_socket_fd d) = rest))"
  using send_frames_ok [OF assms(1-5)] recv_frames_ok [OF assms(6,7,5,8)] by auto

definition conn_fresh :: "bool \<Rightarrow> http2_connection" where
  "conn_fresh is_client = \<lparr>conn_socket_fd = -1, conn_ssl_ctx = None, conn_ssl = None,
     conn_is_client = is_client, conn_next_stream_id = (if is_client then 1 else 2),
     conn_write_mutex = False, conn_streams_mutex = False, conn_streams = arr_calloc 16,
     conn_local_window_size = HTTP2_DEFAULT_WINDOW_SIZE,
     conn_remote_window_size = HTTP2_DEFAULT_WINDOW_SIZE,
     conn_max_frame_size = HTTP2_DEFAULT_MAX_FRAME_SIZE,
     conn_max_concurrent_streams = HTTP2_DEFAULT_MAX_CONCURRENT_STREAMS\<rparr>"

text \<open>A world with one connection, at address 0, on socket \<open>fd\<close>.\<close>

definition world_with_conn :: "int \<Rightarrow> world" where
  "world_with_conn fd = world_empty\<lparr>w_conns := [0 \<mapsto> (conn_fresh True)\<lparr>conn_socket_fd := fd\<rparr>],
     w_brk := 1\<rparr>"

theorem http2_frames_roundtrip_witness:
  "let fs = [(\<lparr>fh_length = 2, fh_type = 0, fh_flags = 1, fh_stream_id = 3\<rparr>, [10, 20]),
             (\<lparr>fh_length = 0, fh_type = 4, fh_flags = 0, fh_stream_id = 0\<rparr>, [])]
   in \<exists>w' bytes. send_frames (Some 0) fs (world_with_conn 7) = Inr (0, w') \<and>
        (\<exists>v'. recv_frames (Some 0) 2 ((world_with_conn 9)\<lparr>w_incoming := (\<lambda>_. bytes)\<rparr>) = Inr (fs, v') \<and>
          w_incoming v' 9 = [])"
proof -
  let ?fs = "[(\<lparr>fh_length = 2, fh_type = 0, fh_flags = 1, fh_stream_id = 3\<rparr>, [10, 20]),
             (\<lparr>fh_length = 0, fh_type = 4, fh_flags = 0, fh_stream_id = 0\<rparr>, [])]
             :: (http2_frame_header \<times> uint8 list) list"
  let ?c = "\<lambda>fd. (conn_fresh True)\<lparr>conn_socket_fd := fd\<rparr>"
  let ?v = "\<lambda>bytes. (world_with_conn 9)\<lparr>w_incoming := (\<lambda>_. bytes)\<rparr>"
  have fs: "list_all frame_ok ?fs" by (simp add: frame_ok_def)
  have "\<exists>w' bytes. send_frames (Some 0) ?fs (world_with_conn 7) = Inr (0, w') \<and>
    w_sent w' 7 = w_sent (world_with_conn 7) 7 @ bytes \<and>
    (\<forall>rest. w_incoming (?v b) 9 = bytes @ rest \<longrightarrow>
       (\<exists>v'. recv_frames (Some 0) (length ?fs) (?v b) = Inr (?fs, v') \<and> w_incoming v' 9 = rest))" for b
    using http2_frames_roundtrip [of "world_with_conn 7" 0 "?c 7" ?fs "?v b" 0 "?c 9"] fs
    by (simp add: world_with_conn_def world_empty_def conn_fresh_def del: send_frames.simps recv_frames.simps)
  note * = this
  from * [of "[]"] obtain w' bytes where w': "send_frames (Some 0) ?fs (world_with_conn 7) = Inr (0, w')"
    "w_sent w' 7 = w_sent (world_with_conn 7) 7 @ bytes" by blast
  from * [of bytes] w' have
    "\<exists>v'. recv_frames (Some 0) (length ?fs) (?v bytes) = Inr (?fs, v') \<and> w_incoming v' 9 = []"
    by (auto simp del: send_frames.simps recv_frames.simps)
  with w'(1) show ?thesis
    unfolding Let_def by (intro exI [of _ w'] exI [of _ bytes]) (simp add: numeral_2_eq_2 del: send_frames.simps recv_frames.simps)
qed

text \<open>
  C13. Sending a frame never leaves the write mutex locked and changes nothing but the bytes on
  the socket: whatever the two calls of \<open>send\<close> return, it returns 0 and exactly the header and
  the payload went out, or -1 and a proper prefix of them did.
\<close>

theorem http2_connection_send_frame_all_or_prefix:
  assumes "w_conns w p = Some c" and "conn_socket_fd c \<ge> 0" and "\<not> conn_write_mutex c"
    and "unat (fh_length h) \<le> length pl"
  shows "\<exists>r bs rs. http2_connection_send_frame (Some p) (Some h) (Some pl) w = Inr (r,
      w\<lparr>w_sent := (w_sent w)(conn_socket_fd c := w_sent w (conn_socket_fd c) @ bs), w_send_ret := rs\<rparr>) \<and>
    (r = 0 \<and> bs = frame_header_encode h @ take (unat (fh_length h)) pl \<or>
     r = - 1 \<and> strict_prefix bs (frame_header_encode h @ take (unat (fh_length h)) pl))"
  by (rule send_frame_cases [OF assms]) blast+

theorem http2_connection_send_frame_all_or_prefix_witness:
  "\<exists>r bs rs. http2_connection_send_frame (Some 0)
        (Some \<lparr>fh_length = 1, fh_type = 0, fh_flags = 0, fh_stream_id = 1\<rparr>) (Some [5])
        ((world_with_conn 7)\<lparr>w_send_ret := [9, 0]\<rparr>) = Inr (r,
      (world_with_conn 7)\<lparr>w_send_ret := [9, 0], w_sent := ((\<lambda>_. [])(7 := bs)), w_send_ret := rs\<rparr>)"
  using http2_connection_send_frame_all_or_prefix
    [of "(world_with_conn 7)\<lparr>w_send_ret := [9, 0]\<rparr>" 0 "(conn_fresh True)\<lparr>conn_socket_fd := 7\<rparr>"
       "\<lparr>fh_length = 1, fh_type = 0, fh_flags = 0, fh_stream_id = 1\<rparr>" "[5]"]
  by (fastforce simp: world_with_conn_def world_empty_def conn_fresh_def)

section \<open>Invariant of a connection\<close>

text \<open>The streams a connection lists, and what holds of them between operations: both mutexes
  are free, the array is well-formed, no stream is listed twice, and every listed stream is
  live, belongs to this connection and owns no freed block.\<close>

definition streams_of :: "world \<Rightarrow> addr \<Rightarrow> addr list" where
  "streams_of w p = (case w_conns w p of None \<Rightarrow> [] | Some c \<Rightarrow> arr_list (conn_streams c))"

definition stream_clean :: "http2_stream \<Rightarrow> bool" where
  "stream_clean s \<longleftrightarrow> md_block (strm_initial_metadata s) \<noteq> Freed_Block \<and>
     md_block (strm_trailing_metadata s) \<noteq> Freed_Block \<and>
     (case strm_recv_buffer s of None \<Rightarrow> True | Some b \<Rightarrow> bb_data b \<noteq> Freed_Block)"

definition conn_inv :: "http2_connection \<Rightarrow> bool" where
  "conn_inv c \<longleftrightarrow> \<not> conn_write_mutex c \<and> \<not> conn_streams_mutex c \<and> arr_wf (conn_streams c) \<and>
     0 < arr_capacity (conn_streams c) \<and> distinct (arr_list (conn_streams c))"

definition conn_ok :: "world \<Rightarrow> addr \<Rightarrow> bool" where
  "conn_ok w p \<longleftrightarrow> (\<exists>c. w_conns w p = Some c \<and> conn_inv c \<and>
     (\<forall>s\<in>set (arr_list (conn_streams c)). \<exists>st. w_streams w s = Some st \<and> strm_conn st = Some p \<and>
        stream_clean st))"

text \<open>Addresses that were not handed out yet are in no heap.\<close>

definition world_fresh :: "world \<Rightarrow> bool" where
  "world_fresh w \<longleftrightarrow> (\<forall>a\<ge>w_brk w. w_conns w a = None \<and> w_streams w a = None \<and>
     w_channels w a = None \<and> w_calls w a = None \<and> w_cqs w a = None)"

lemma block_free_ok: "b \<noteq> Freed_Block \<Longrightarrow> block_free b = Inr ()"
  by (cases b) auto

lemma md_block_release_ok: "md_block a \<noteq> Freed_Block \<Longrightarrow> md_block_release a = Inr ()"
  by (simp add: md_block_release_def block_free_ok)

lemma conn_okE:
  assumes "conn_ok w p"
  obtains c where "w_conns w p = Some c" "conn_inv c" "streams_of w p = arr_list (conn_streams c)"
    "\<And>s. s \<in> set (arr_list (conn_streams c)) \<Longrightarrow>
       \<exists>st. w_streams w s = Some st \<and> strm_conn st = Some p \<and> stream_clean st"
  using assms by (auto simp: conn_ok_def streams_of_def)

section \<open>Streams\<close>

definition stream_init :: "addr \<Rightarrow> uint32 \<Rightarrow> http2_stream" where
  "stream_init p i = http2_stream_zero\<lparr>strm_id := i, strm_conn := Some p,
     strm_local_window_size := HTTP2_DEFAULT_WINDOW_SIZE,
     strm_remote_window_size := HTTP2_DEFAULT_WINDOW_SIZE\<rparr>"

lemma conn_update_same [simp]:
  "conn_streams_mutex c = m \<Longrightarrow> c\<lparr>conn_streams_mutex := m\<rparr> = c"
  "conn_write_mutex c = m \<Longrightarrow> c\<lparr>conn_write_mutex := m\<rparr> = c"
  by (cases c, simp)+

lemma http2_stream_link_cases:
  assumes "w_conns w p = Some c" and "conn_inv c"
  obtains (no_slot) os where
      "http2_stream_link (Some p) s w = Inr (False, w\<lparr>w_alloc := os\<rparr>)" "\<not> alloc_ok (w_alloc w)"
  | (linked) os a where
      "http2_stream_link (Some p) s w = Inr (True,
         w\<lparr>w_alloc := os, w_conns := (w_conns w)(p \<mapsto> c\<lparr>conn_streams := a\<rparr>)\<rparr>)"
      "arr_wf a" "arr_list a = arr_list (conn_streams c) @ [s]" "0 < arr_capacity a"
      "alloc_ok (w_alloc w) \<Longrightarrow> alloc_ok os"
proof -
  let ?cl = "c\<lparr>conn_streams_mutex := True\<rparr>"
  have m: "\<not> conn_streams_mutex c" using assms(2) by (simp add: conn_inv_def)
  have same: "(w_conns w)(p \<mapsto> c) = w_conns w" using assms(1) by (simp add: map_upd_triv)
  note run = http2_stream_link_def bnd_def arr_grow_cmd_def cell_lock_free cell_unlock_eq assms(1) m
  have cap: "arr_capacity (conn_streams c) < arr_capacity (conn_streams c) * 2"
    and wf: "arr_wf (conn_streams c)" using assms(2) by (auto simp: conn_inv_def)
  from arr.grow_put [OF wf cap, of "w_alloc w" s] show ?thesis
  proof (elim disjE exE conjE)
    fix os
    assume g: "arr_grow (conn_streams c) (arr_capacity (conn_streams c) * 2) (w_alloc w) =
        Inr (False, conn_streams c, os)" "\<not> alloc_ok (w_alloc w)"
    have "http2_stream_link (Some p) s w = Inr (False, w\<lparr>w_alloc := os\<rparr>)"
      using g(1) same by (simp add: run comp_def)
    then show ?thesis using g(2) by (rule no_slot)
  next
    fix a1 os a2
    assume g: "arr_grow (conn_streams c) (arr_capacity (conn_streams c) * 2) (w_alloc w) = Inr (True, a1, os)"
      "arr_put a1 s = Inr a2" "arr_wf a2" "arr_list a2 = arr_list (conn_streams c) @ [s]"
      "alloc_ok (w_alloc w) \<longrightarrow> alloc_ok os"
    then have "0 < arr_capacity a2" by (simp add: arr_capacity_pos)
    moreover have "http2_stream_link (Some p) s w = Inr (True,
         w\<lparr>w_alloc := os, w_conns := (w_conns w)(p \<mapsto> c\<lparr>conn_streams := a2\<rparr>)\<rparr>)"
      using g(1,2) m by (simp add: run comp_def)
    ultimately show ?thesis using linked g(3-5) by blast
  qed
qed

lemma http2_stream_create_cases:
  assumes "w_conns w p = Some c" and "conn_inv c" and "world_fresh w"
  obtains (no_stream) os n where
      "http2_stream_create (Some p) i w = Inr (None, w\<lparr>w_alloc := os, w_brk := w_brk w + n\<rparr>)"
      "\<not> alloc_ok (w_alloc w)"
  | (created) os a where
      "http2_stream_create (Some p) i w = Inr (Some (w_brk w),
         w\<lparr>w_alloc := os, w_brk := w_brk w + 1, w_streams := (w_streams w)(w_brk w \<mapsto> stream_init p i),
           w_conns := (w_conns w)(p \<mapsto> c\<lparr>conn_streams := a\<rparr>)\<rparr>)"
      "arr_wf a" "arr_list a = arr_list (conn_streams c) @ [w_brk w]" "0 < arr_capacity a"
      "alloc_ok (w_alloc w) \<Longrightarrow> alloc_ok os"
proof -
  obtain ok os1 where o1: "alloc_next (w_alloc w) = (ok, os1)" by force
  have al: "alloc_ok (w_alloc w) \<longrightarrow> ok \<and> alloc_ok os1" using o1 by (cases "w_alloc w") auto
  have f: "w_streams w (w_brk w) = None" using assms(3) by (simp add: world_fresh_def)
  define w1 where "w1 = w\<lparr>w_alloc := os1, w_brk := w_brk w + 1,
    w_streams := (w_streams w)(w_brk w \<mapsto> stream_init p i)\<rparr>"
  have w1: "w_conns w1 = w_conns w" "w_alloc w1 = os1" "w_streams w1 (w_brk w) = Some (stream_init p i)"
    by (simp_all add: w1_def)
  have start: "http2_stream_create (Some p) i w =
      (if \<not> ok then Inr (None, w\<lparr>w_alloc := os1\<rparr>)
       else bnd (http2_stream_link (Some p) (w_brk w)) (\<lambda>linked.
              if \<not> linked then bnd (strm_free (Some (w_brk w))) (\<lambda>_. ret None)
              else ret (Some (w_brk w))) w1)"
    unfolding http2_stream_create_def option.case bnd_def [of alloc_cmd] alloc_cmd_eq o1
    by (simp add: bnd_def [of "strm_new x" for x] bnd_def [of "http2_flow_control_init_stream x" for x]
        bnd_def [of "strm_upd x y" for x y] http2_flow_control_init_stream_def stream_init_def http2_stream_zero_def w1_def comp_def)
  show ?thesis
  proof (cases ok)
    case False
    moreover have "w\<lparr>w_alloc := os1\<rparr> = w\<lparr>w_alloc := os1, w_brk := w_brk w + 0\<rparr>" by (cases w) simp
    ultimately show ?thesis using no_stream [where os = os1 and n = 0] start al by simp
  next
    case True
    have c1: "w_conns w1 p = Some c" using assms(1) w1 by simp
    from c1 assms(2) show ?thesis
    proof (cases rule: http2_stream_link_cases [where s = "w_brk w"])
      case (no_slot os)
      have "http2_stream_create (Some p) i w = Inr (None, w\<lparr>w_alloc := os, w_brk := w_brk w + 1\<rparr>)"
        using start True no_slot(1) w1 f
        by (simp add: bnd_def) (cases w, simp add: w1_def fun_upd_idem)
      then show ?thesis using no_stream [where os = os and n = 1] al no_slot(2) w1 by simp
    next
      case (linked os a)
      have "http2_stream_create (Some p) i w = Inr (Some (w_brk w),
         w\<lparr>w_alloc := os, w_brk := w_brk w + 1, w_streams := (w_streams w)(w_brk w \<mapsto> stream_init p i),
           w_conns := (w_conns w)(p \<mapsto> c\<lparr>conn_streams := a\<rparr>)\<rparr>)"
        using start True linked(1) w1 by (simp add: bnd_def w1_def)
      then show ?thesis using created linked(2-5) al w1 by blast
    qed
  qed
qed

lemma arr_list_find:
  assumes "arr_wf a" and "distinct (arr_list a)" and "s \<in> set (arr_list a)"
  shows "\<exists>j<length (arr_list a). arr_list a ! j = s \<and>
    find_slot (arr_block a) (\<lambda>x. Inr (x = Some s)) 0 (arr_count a) = Inr (Some j)"
proof -
  from assms(3) obtain j where j: "j < length (arr_list a)" "arr_list a ! j = s"
    by (auto simp: in_set_conv_nth)
  have "find_slot (arr_block a) (\<lambda>x. Inr (x = Some s)) 0 (length (arr_list a) - 0) = Inr (Some j)"
    by (rule find_slot_hit [where Q = "\<lambda>x. x = s"])
      (use assms j in \<open>auto simp: nth_eq_iff_index_eq\<close>)
  with j length_arr_list [OF assms(1)] show ?thesis by auto
qed

lemma http2_stream_destroy_eq:
  assumes "conn_ok w p" and "w_conns w p = Some c" and "s \<in> set (arr_list (conn_streams c))"
  shows "\<exists>a. http2_stream_destroy (Some s) w = Inr ((),
      w\<lparr>w_conns := (w_conns w)(p \<mapsto> c\<lparr>conn_streams := a\<rparr>), w_streams := (w_streams w)(s := None)\<rparr>) \<and>
    arr_wf a \<and> 0 < arr_capacity a \<and> distinct (arr_list a) \<and>
    set (arr_list a) = set (arr_list (conn_streams c)) - {s}"
proof -
  from assms(1,2) have inv: "conn_inv c" by (auto simp: conn_ok_def)
  then have ci: "\<not> conn_streams_mutex c" "arr_wf (conn_streams c)" "distinct (arr_list (conn_streams c))"
    "0 < arr_capacity (conn_streams c)" by (auto simp: conn_inv_def)
  from assms obtain st where st: "w_streams w s = Some st" "strm_conn st = Some p" "stream_clean st"
    by (auto simp: conn_ok_def)
  from arr_list_find [OF ci(2,3) assms(3)] obtain j where
    j: "j < length (arr_list (conn_streams c))" "arr_list (conn_streams c) ! j = s"
      "find_slot (arr_block (conn_streams c)) (\<lambda>x. Inr (x = Some s)) 0 (arr_count (conn_streams c)) =
       Inr (Some j)" by blast
  from arr_swap_remove_ok [OF ci(2) j(1)] obtain a where
    a: "arr_swap_remove (conn_streams c) j = Inr a" "arr_wf a"
      "arr_list a = swap_remove j (arr_list (conn_streams c))"
      "arr_capacity a = arr_capacity (conn_streams c)" by blast
  define w1 where "w1 = w\<lparr>w_conns := (w_conns w)(p \<mapsto> c\<lparr>conn_streams := a\<rparr>)\<rparr>"
  have unlink: "http2_stream_unlink (Some p) (Some s) w = Inr ((), w1)"
    using assms(2) ci(1) j(3) a(1)
    by (simp add: http2_stream_unlink_def bnd_def cell_lock_free cell_unlock_eq w1_def comp_def)
  have buf: "grpc_byte_buffer_destroy (strm_recv_buffer st) = Inr ()"
    using st(3) by (auto simp: grpc_byte_buffer_destroy_def stream_clean_def block_free_ok split: option.splits)
  have md: "md_block_release (strm_initial_metadata st) = Inr ()"
    "md_block_release (strm_trailing_metadata st) = Inr ()"
    using st(3) by (auto simp: stream_clean_def intro: md_block_release_ok)
  have "w_streams w1 s = Some st" using st(1) by (simp add: w1_def)
  then have "http2_stream_destroy (Some s) w = Inr ((), w1\<lparr>w_streams := (w_streams w)(s := None)\<rparr>)"
    using st(1,2) unlink buf md by (simp add: http2_stream_destroy_def bnd_def) (simp add: w1_def)
  moreover have "set (arr_list a) = set (arr_list (conn_streams c)) - {s} \<and> distinct (arr_list a)"
    using set_swap_remove [OF ci(3) j(1)] j(2) a(3) by simp
  ultimately show ?thesis using a ci(4) by (auto simp: w1_def)
qed

section \<open>Creating connections\<close>

lemma conn_ok_with_conn: "conn_ok (world_with_conn fd) 0" "world_fresh (world_with_conn fd)"
  "streams_of (world_with_conn fd) 0 = []"
  by (auto simp: conn_ok_def world_with_conn_def world_empty_def conn_fresh_def conn_inv_def
      world_fresh_def streams_of_def) (simp add: arr_calloc_def)

lemma http2_connection_create_cases:
  assumes "world_fresh w"
  obtains (failed) os n where
      "http2_connection_create t is_client ssl w = Inr (None, w\<lparr>w_alloc := os, w_brk := w_brk w + n\<rparr>)"
      "\<not> alloc_ok (w_alloc w)"
  | (created) os where
      "http2_connection_create t is_client ssl w = Inr (Some (w_brk w),
         w\<lparr>w_alloc := os, w_brk := w_brk w + 1, w_conns := (w_conns w)(w_brk w \<mapsto> conn_fresh is_client)\<rparr>)"
      "alloc_ok (w_alloc w) \<Longrightarrow> alloc_ok os"
proof -
  obtain ok1 os1 where o1: "alloc_next (w_alloc w) = (ok1, os1)" by force
  obtain ok2 os2 where o2: "alloc_next os1 = (ok2, os2)" by force
  have al: "alloc_ok (w_alloc w) \<longrightarrow> ok1 \<and> ok2 \<and> alloc_ok os2"
    using o1 o2 by (cases "w_alloc w"; cases os1) auto
  have f: "(w_conns w)(w_brk w := None) = w_conns w"
    using assms by (auto simp: world_fresh_def fun_eq_iff)
  note run = http2_connection_create_def bnd_def alloc_cmd_eq o1 o2 http2_flow_control_init_connection_def
  show ?thesis
  proof (cases "ok1 \<and> ok2")
    case True
    then have "http2_connection_create t is_client ssl w = Inr (Some (w_brk w),
         w\<lparr>w_alloc := os2, w_brk := w_brk w + 1, w_conns := (w_conns w)(w_brk w \<mapsto> conn_fresh is_client)\<rparr>)"
      by (simp add: run conn_fresh_def)
    then show ?thesis using created al by blast
  next
    case False
    show ?thesis
    proof (cases ok1)
      case True
      with False f have "http2_connection_create t is_client ssl w =
          Inr (None, w\<lparr>w_alloc := os2, w_brk := w_brk w + 1\<rparr>)"
        by (simp add: run)
      then show ?thesis using failed al \<open>\<not> (ok1 \<and> ok2)\<close> by blast
    next
      case f1: False
      then have "http2_connection_create t is_client ssl w =
          Inr (None, w\<lparr>w_alloc := os1, w_brk := w_brk w + 0\<rparr>)"
        by (simp add: run)
      then show ?thesis using failed al f1 by blast
    qed
  qed
qed

section \<open>Properties of streams and connections\<close>

lemma http2_stream_create_ok:
  assumes "conn_ok w p" and "world_fresh w"
  shows "\<exists>r w'. http2_stream_create (Some p) i w = Inr (r, w') \<and> conn_ok w' p \<and> world_fresh w' \<and>
    (case r of
       None \<Rightarrow> \<not> alloc_ok (w_alloc w) \<and> streams_of w' p = streams_of w p \<and> w_streams w' = w_streams w
     | Some s \<Rightarrow> streams_of w' p = streams_of w p @ [s] \<and> w_streams w s = None \<and>
         (\<exists>st. w_streams w' = (w_streams w)(s \<mapsto> st) \<and> strm_id st = i \<and> strm_conn st = Some p \<and>
            strm_local_window_size st = 65535 \<and> strm_remote_window_size st = 65535))"
proof -
  from assms(1) obtain c where c: "w_conns w p = Some c" "conn_inv c"
    "streams_of w p = arr_list (conn_streams c)"
    "\<And>s. s \<in> set (arr_list (conn_streams c)) \<Longrightarrow>
       \<exists>st. w_streams w s = Some st \<and> strm_conn st = Some p \<and> stream_clean st"
    by (rule conn_okE) blast
  have f: "w_streams w (w_brk w) = None" using assms(2) by (simp add: world_fresh_def)
  have nin: "w_brk w \<notin> set (arr_list (conn_streams c))" using c(4) f by fastforce
  have pb: "p < w_brk w" using assms(2) c(1) by (auto simp: world_fresh_def not_le [symmetric])
  from c(1,2) assms(2) show ?thesis
  proof (cases rule: http2_stream_create_cases [where i = i])
    case (no_stream os n)
    then show ?thesis using assms c(3) by (simp add: conn_ok_def world_fresh_def streams_of_def)
  next
    case (created os a)
    let ?w' = "w\<lparr>w_alloc := os, w_brk := w_brk w + 1, w_streams := (w_streams w)(w_brk w \<mapsto> stream_init p i),
           w_conns := (w_conns w)(p \<mapsto> c\<lparr>conn_streams := a\<rparr>)\<rparr>"
    have "conn_ok ?w' p"
      using c(2,4) created(2-4) nin
      by (auto simp: conn_ok_def conn_inv_def stream_init_def http2_stream_zero_def stream_clean_def
          grpc_metadata_array_zero_def)
    moreover have "world_fresh ?w'" using assms(2) pb by (simp add: world_fresh_def)
    moreover have "streams_of ?w' p = streams_of w p @ [w_brk w]"
      using created(3) c(3) by (simp add: streams_of_def)
    ultimately show ?thesis
      using created(1) f by (auto simp: stream_init_def HTTP2_DEFAULT_WINDOW_SIZE_def)
  qed
qed

text \<open>A world whose connection has one stream.\<close>

definition world_with_stream :: "int \<Rightarrow> world" where
  "world_with_stream fd =
     (case http2_stream_create (Some 0) 1 (world_with_conn fd) of Inr (_, w) \<Rightarrow> w | Inl _ \<Rightarrow> world_empty)"

lemma world_with_stream:
  "\<exists>a os. world_with_stream fd = world_with_conn fd
     \<lparr>w_alloc := os, w_brk := w_brk (world_with_conn fd) + 1, w_streams := [1 \<mapsto> stream_init 0 1],
      w_conns := [0 \<mapsto> (conn_fresh True)\<lparr>conn_socket_fd := fd, conn_streams := a\<rparr>]\<rparr> \<and>
     arr_wf a \<and> arr_list a = [1] \<and> 0 < arr_capacity a \<and> alloc_ok os"
proof -
  let ?c = "(conn_fresh True)\<lparr>conn_socket_fd := fd\<rparr>"
  have c: "w_conns (world_with_conn fd) 0 = Some ?c" "conn_inv ?c" "arr_list (conn_streams ?c) = []"
    "w_brk (world_with_conn fd) = 1" "w_streams (world_with_conn fd) = (\<lambda>_. None)"
    "w_conns (world_with_conn fd) = [0 \<mapsto> ?c]" "alloc_ok (w_alloc (world_with_conn fd))"
    by (simp_all add: world_with_conn_def world_empty_def conn_fresh_def conn_inv_def)
      (simp add: arr_calloc_def)
  from c(1,2) conn_ok_with_conn(2) show ?thesis
    by (cases rule: http2_stream_create_cases [where i = 1])
      (use c(3-7) in \<open>auto simp: world_with_stream_def\<close>)
qed

lemma conn_ok_with_stream: "conn_ok (world_with_stream fd) 0" "streams_of (world_with_stream fd) 0 = [1]"
  using world_with_stream [of fd]
  by (auto simp: conn_ok_def conn_inv_def streams_of_def conn_fresh_def stream_init_def
      http2_stream_zero_def stream_clean_def grpc_metadata_array_zero_def world_with_conn_def)

text \<open>
  C14. Creating a stream on a well-formed connection, for every pattern of allocation failures:
  either the new stream, with the given id and both windows at 65535, is listed behind the
  streams the connection had, or an allocation failed and the streams are what they were. The
  connection stays well-formed and its mutexes are released.
\<close>

theorem http2_stream_create_links:
  assumes "conn_ok w p" and "world_fresh w"
  shows "\<exists>r w'. http2_stream_create (Some p) i w = Inr (r, w') \<and> conn_ok w' p \<and> world_fresh w' \<and>
    (case r of
       None \<Rightarrow> \<not> alloc_ok (w_alloc w) \<and> streams_of w' p = streams_of w p \<and> w_streams w' = w_streams w
     | Some s \<Rightarrow> streams_of w' p = streams_of w p @ [s] \<and> w_streams w s = None \<and>
         (\<exists>st. w_streams w' = (w_streams w)(s \<mapsto> st) \<and> strm_id st = i \<and> strm_conn st = Some p \<and>
            strm_local_window_size st = 65535 \<and> strm_remote_window_size st = 65535))"
  using assms by (rule http2_stream_create_ok)

theorem http2_stream_create_links_witness:
  "\<exists>r w'. http2_stream_create (Some 0) 1 (world_with_conn 7) = Inr (Some r, w') \<and> conn_ok w' 0 \<and>
    streams_of w' 0 = [r]"
proof -
  have a: "alloc_ok (w_alloc (world_with_conn 7))" by (simp add: world_with_conn_def world_empty_def)
  from http2_stream_create_links [OF conn_ok_with_conn(1,2), of 1 7] a show ?thesis
    by (elim exE conjE) (auto simp: conn_ok_with_conn split: option.split_asm)
qed

lemma http2_stream_destroy_ok:
  assumes "conn_ok w p" and "s \<in> set (streams_of w p)"
  shows "\<exists>w'. http2_stream_destroy (Some s) w = Inr ((), w') \<and> conn_ok w' p \<and>
    set (streams_of w' p) = set (streams_of w p) - {s} \<and> distinct (streams_of w' p) \<and>
    w_streams w' = (w_streams w)(s := None)"
proof -
  from assms(1) obtain c where c: "w_conns w p = Some c" "conn_inv c"
    "streams_of w p = arr_list (conn_streams c)"
    "\<And>s. s \<in> set (arr_list (conn_streams c)) \<Longrightarrow>
       \<exists>st. w_streams w s = Some st \<and> strm_conn st = Some p \<and> stream_clean st"
    by (rule conn_okE) blast
  from http2_stream_destroy_eq [OF assms(1) c(1)] assms(2) c(3) obtain a where
    a: "http2_stream_destroy (Some s) w = Inr ((),
      w\<lparr>w_conns := (w_conns w)(p \<mapsto> c\<lparr>conn_streams := a\<rparr>), w_streams := (w_streams w)(s := None)\<rparr>)"
      "arr_wf a" "0 < arr_capacity a" "distinct (arr_list a)"
      "set (arr_list a) = set (arr_list (conn_streams c)) - {s}" by auto
  then show ?thesis using c by (auto simp: conn_ok_def conn_inv_def streams_of_def)
qed

text \<open>
  C15. Destroying a stream of a well-formed connection removes exactly this stream, whatever its
  position: the connection lists the other streams (the last one moved into the gap), they stay
  live, and the stream itself is freed.
\<close>

theorem http2_stream_destroy_unlinks:
  assumes "conn_ok w p" and "s \<in> set (streams_of w p)"
  shows "\<exists>w'. http2_stream_destroy (Some s) w = Inr ((), w') \<and> conn_ok w' p \<and>
    set (streams_of w' p) = set (streams_of w p) - {s} \<and> distinct (streams_of w' p) \<and>
    w_streams w' = (w_streams w)(s := None)"
  using assms by (rule http2_stream_destroy_ok)

theorem http2_stream_destroy_unlinks_witness:
  "\<exists>w'. http2_stream_destroy (Some 1) (world_with_stream 7) = Inr ((), w') \<and> conn_ok w' 0 \<and>
    streams_of w' 0 = []"
  using http2_stream_destroy_unlinks [OF conn_ok_with_stream(1), of 1 7]
  by (auto simp: conn_ok_with_stream)

lemma connection_destroy_deadlock:
  assumes "conn_ok w p" and "streams_of w p \<noteq> []"
  shows "http2_connection_destroy (Some p) w = Inl Deadlock"
proof -
  from assms(1) obtain c where c: "w_conns w p = Some c" "conn_inv c"
    "streams_of w p = arr_list (conn_streams c)"
    "\<And>s. s \<in> set (arr_list (conn_streams c)) \<Longrightarrow>
       \<exists>st. w_streams w s = Some st \<and> strm_conn st = Some p \<and> stream_clean st"
    by (rule conn_okE) blast
  let ?a = "conn_streams c"
  let ?w = "w\<lparr>w_conns := (w_conns w)(p \<mapsto> c\<lparr>conn_streams_mutex := True\<rparr>)\<rparr>"
  have m: "\<not> conn_streams_mutex c" and wf: "arr_wf ?a" using c(2) by (simp_all add: conn_inv_def)
  have len: "0 < length (arr_list ?a)" using assms(2) c(3) by simp
  then obtain n where n: "arr_count ?a = Suc n" using length_arr_list [OF wf] by (cases "arr_count ?a") auto
  from c(4) [OF nth_mem [OF len]] obtain st where
    st: "w_streams w (arr_list ?a ! 0) = Some st" "strm_conn st = Some p" by blast
  have "http2_stream_destroy (Some (arr_list ?a ! 0)) ?w = Inl Deadlock"
    using st by (simp add: http2_stream_destroy_def http2_stream_unlink_def bnd_def cell_lock_held)
  then have "http2_destroy_streams (arr_count ?a) (Some p) 0 ?w = Inl Deadlock"
    using block_load_list [OF wf len] n by (simp add: bnd_def)
  then show ?thesis
    using c(1) m by (simp add: http2_connection_destroy_def bnd_def cell_lock_free)
qed

text \<open>
  A connection that still lists a stream cannot be destroyed: the destructor holds the
  mutex of the streams while it calls the destructor of the first stream, which locks the same
  mutex again.
\<close>

theorem http2_connection_destroy_deadlocks:
  assumes "conn_ok w p" and "streams_of w p \<noteq> []"
  shows "http2_connection_destroy (Some p) w = Inl Deadlock"
  using assms by (rule connection_destroy_deadlock)

theorem http2_connection_destroy_deadlocks_witness:
  "http2_connection_destroy (Some 0) (world_with_stream 7) = Inl Deadlock"
  by (rule http2_connection_destroy_deadlocks) (simp_all add: conn_ok_with_stream)

lemma connection_destroy_empty:
  assumes "conn_ok w p" and "w_conns w p = Some c" and "streams_of w p = []"
  shows "http2_connection_destroy (Some p) w = Inr ((),
    w\<lparr>w_conns := (w_conns w)(p := None),
      w_closed := w_closed w @ (if conn_socket_fd c \<ge> 0 then [conn_socket_fd c] else [])\<rparr>)"
proof -
  from assms have inv: "conn_inv c" and l: "arr_list (conn_streams c) = []"
    by (auto simp: conn_ok_def streams_of_def)
  then have m: "\<not> conn_streams_mutex c" and wf: "arr_wf (conn_streams c)"
    by (simp_all add: conn_inv_def)
  have n: "arr_count (conn_streams c) = 0" using length_arr_list [OF wf] l by simp
  have "arr_block (conn_streams c) \<noteq> Freed_Block" using wf by (auto simp: arr_wf_def)
  then have bf: "block_free (arr_block (conn_streams c)) = Inr ()" by (rule block_free_ok)
  show ?thesis
    using assms(2) m n bf
    by (simp add: http2_connection_destroy_def bnd_def cell_lock_free cell_unlock_eq sock_close_def)
qed

text \<open>
  A connection without streams is destroyed: it leaves the heap, its array is freed and its
  socket is closed exactly if it had one.
\<close>

theorem http2_connection_destroy_ok:
  assumes "conn_ok w p" and "w_conns w p = Some c" and "streams_of w p = []"
  shows "http2_connection_destroy (Some p) w = Inr ((),
    w\<lparr>w_conns := (w_conns w)(p := None),
      w_closed := w_closed w @ (if conn_socket_fd c \<ge> 0 then [conn_socket_fd c] else [])\<rparr>)"
  using assms by (rule connection_destroy_empty)

theorem http2_connection_destroy_ok_witness:
  "\<exists>w'. http2_connection_destroy (Some 0) (world_with_conn 7) = Inr ((), w') \<and> w_closed w' = [7]"
  using http2_connection_destroy_ok [OF conn_ok_with_conn(1), of 7 "(conn_fresh True)\<lparr>conn_socket_fd := 7\<rparr>"]
    conn_ok_with_conn(3) [of 7]
  by (simp add: world_with_conn_def world_empty_def)

end
