(* ===== verification/Connection_Pool.thy ===== *)
theory Connection_Pool
  imports Transport C_Lib
begin

text \<open>
  The connection pool of \<^verbatim>\<open>src/connection_pool.c\<close>: a linked list of pooled connections in a store
  of nodes, next to the heap of HTTP/2 connections. Operations return a result or a fault; the
  outer \<open>None\<close> stands for a loop that does not end. \<open>time (NULL)\<close> is an argument: \<open>clock k\<close> is
  the \<open>k\<close>-th reading during the operation. The keep-alive thread is the sequence of its ticks. The
  counter of active calls is an \<open>int\<close> of 32 bits: one more than the largest wraps around, as
  compilers have it.
\<close>

section \<open>Data\<close>

record grpc_keepalive_config =
  ka_interval_ms :: int
  ka_timeout_ms :: int
  ka_permit_without_calls :: bool

record grpc_pooled_connection =
  pc_target :: string
  pc_connection :: "addr option"
  pc_last_used :: int
  pc_last_keepalive :: int
  pc_active_calls :: int
  pc_is_healthy :: bool

text \<open>\<open>cp_keepalive_thread\<close> tells whether the thread handle belongs to a thread.\<close>

record grpc_connection_pool =
  cp_connections :: "addr option"
  cp_max_connections :: nat
  cp_current_connections :: nat
  cp_idle_timeout_ms :: int
  cp_keepalive :: grpc_keepalive_config
  cp_mutex :: mutex
  cp_keepalive_thread :: bool
  cp_keepalive_running :: bool
  cp_nodes :: "grpc_pooled_connection store"

section \<open>Pooled connections\<close>

definition grpc_pooled_connection_create ::
    "(nat \<Rightarrow> int) \<Rightarrow> nat \<Rightarrow> string \<Rightarrow> addr option \<Rightarrow> grpc_pooled_connection option cmd" where
  "grpc_pooled_connection_create clock k target connection =
     bnd alloc_cmd (\<lambda>ok.
       if \<not> ok then ret None
       else
         bnd alloc_cmd (\<lambda>ok2.
           if \<not> ok2 then ret None
           else ret (Some \<lparr>pc_target = target, pc_connection = connection, pc_last_used = clock k,
                  pc_last_keepalive = clock (k + 1), pc_active_calls = 0, pc_is_healthy = True\<rparr>)))"

definition grpc_pooled_connection_destroy ::
    "addr option \<Rightarrow> grpc_pooled_connection store \<Rightarrow> grpc_pooled_connection store cmd" where
  "grpc_pooled_connection_destroy conn nodes =
     (case conn of
        None \<Rightarrow> ret nodes
      | Some _ \<Rightarrow>
          bnd (lift (store_get nodes conn)) (\<lambda>n.
          bnd (if pc_connection (node_val n) \<noteq> None then http2_connection_destroy (pc_connection (node_val n))
               else skip) (\<lambda>_.
          lift (store_free nodes conn))))"

section \<open>The keep-alive thread\<close>

definition keepalive_node :: "grpc_connection_pool \<Rightarrow> int \<Rightarrow> grpc_pooled_connection \<Rightarrow> grpc_pooled_connection" where
  "keepalive_node pool now conn =
     (let elapsed = now - pc_last_keepalive conn;
          should_keepalive = elapsed * 1000 \<ge> ka_interval_ms (cp_keepalive pool);
          conn1 = (if should_keepalive \<and> pc_is_healthy conn \<and>
                      (ka_permit_without_calls (cp_keepalive pool) \<or> pc_active_calls conn > 0)
                   then conn\<lparr>pc_last_keepalive := now\<rparr> else conn)
      in if pc_active_calls conn1 = 0 \<and> cp_idle_timeout_ms pool > 0 \<and>
            (now - pc_last_used conn1) * 1000 \<ge> cp_idle_timeout_ms pool
         then conn1\<lparr>pc_is_healthy := False\<rparr> else conn1)"

partial_function (option) keepalive_loop ::
    "(grpc_pooled_connection \<Rightarrow> grpc_pooled_connection) \<Rightarrow> grpc_pooled_connection store \<Rightarrow> addr option \<Rightarrow>
     grpc_pooled_connection store exec option" where
  "keepalive_loop f st conn =
     (case conn of
        None \<Rightarrow> Some (Inr st)
      | Some a \<Rightarrow>
          (case store_upd st conn f of
             Inl e \<Rightarrow> Some (Inl e)
           | Inr st' \<Rightarrow>
               (case store_get st' conn of
                  Inl e \<Rightarrow> Some (Inl e)
                | Inr n \<Rightarrow> keepalive_loop f st' (node_next n))))"

text \<open>One round of the thread, between two sleeps.\<close>

definition grpc_keepalive_thread_tick ::
    "int \<Rightarrow> grpc_connection_pool \<Rightarrow> grpc_connection_pool exec option" where
  "grpc_keepalive_thread_tick now pool =
     (case mutex_lock (cp_mutex pool) of
        Inl e \<Rightarrow> Some (Inl e)
      | Inr m \<Rightarrow>
          map_option (map_sum id (\<lambda>st. pool\<lparr>cp_nodes := st, cp_mutex := mutex_unlock m\<rparr>))
            (keepalive_loop (keepalive_node pool now) (cp_nodes pool) (cp_connections pool)))"

text \<open>The thread: one round per clock reading for as long as the flag is set.\<close>

fun grpc_keepalive_thread_func :: "int list \<Rightarrow> grpc_connection_pool \<Rightarrow> grpc_connection_pool exec option" where
  "grpc_keepalive_thread_func [] pool = Some (Inr pool)"
| "grpc_keepalive_thread_func (now # ts) pool =
     (if \<not> cp_keepalive_running pool then Some (Inr pool)
      else
        (case grpc_keepalive_thread_tick now pool of
           None \<Rightarrow> None
         | Some (Inl e) \<Rightarrow> Some (Inl e)
         | Some (Inr pool') \<Rightarrow> grpc_keepalive_thread_func ts pool'))"

section \<open>Operations\<close>

text \<open>\<open>started\<close>: whether \<open>pthread_create\<close> succeeds.\<close>

definition grpc_connection_pool_create ::
    "nat \<Rightarrow> int \<Rightarrow> bool \<Rightarrow> alloc \<Rightarrow> grpc_connection_pool option \<times> alloc" where
  "grpc_connection_pool_create max_connections idle_timeout_ms started os =
     (let (ok, os1) = alloc_next os
      in if \<not> ok then (None, os1)
         else
           (Some \<lparr>cp_connections = None,
                  cp_max_connections = (if max_connections > 0 then max_connections else 10),
                  cp_current_connections = 0,
                  cp_idle_timeout_ms = (if idle_timeout_ms > 0 then idle_timeout_ms else 30000),
                  cp_keepalive = \<lparr>ka_interval_ms = 30000, ka_timeout_ms = 10000, ka_permit_without_calls = False\<rparr>,
                  cp_mutex = False, cp_keepalive_thread = started, cp_keepalive_running = started,
                  cp_nodes = store_empty\<rparr>, os1))"

definition grpc_connection_pool_set_keepalive ::
    "grpc_connection_pool option \<Rightarrow> int \<Rightarrow> int \<Rightarrow> bool \<Rightarrow> (int \<times> grpc_connection_pool option) exec" where
  "grpc_connection_pool_set_keepalive pool interval_ms timeout_ms permit_without_calls =
     (case pool of
        None \<Rightarrow> Inr (-1, None)
      | Some p \<Rightarrow>
          exec_bind (mutex_lock (cp_mutex p)) (\<lambda>m.
            Inr (0, Some (p\<lparr>cp_keepalive := \<lparr>ka_interval_ms = (if interval_ms > 0 then interval_ms else 30000),
                     ka_timeout_ms = (if timeout_ms > 0 then timeout_ms else 10000),
                     ka_permit_without_calls = permit_without_calls\<rparr>,
                   cp_mutex := mutex_unlock m\<rparr>))))"

text \<open>The search for the idle connection that was unused for longest; \<open>best\<close> is \<open>oldest\<close> with
  \<open>oldest_time\<close>, \<open>k\<close> counts the clock readings.\<close>

partial_function (option) oldest_loop ::
    "(nat \<Rightarrow> int) \<Rightarrow> grpc_pooled_connection store \<Rightarrow> addr option \<Rightarrow> nat \<Rightarrow> (addr \<times> int) option \<Rightarrow>
     (addr option \<times> nat) exec option" where
  "oldest_loop clock st conn k best =
     (case conn of
        None \<Rightarrow> Some (Inr (map_option fst best, k))
      | Some a \<Rightarrow>
          (case store_get st conn of
             Inl e \<Rightarrow> Some (Inl e)
           | Inr n \<Rightarrow>
               (if pc_active_calls (node_val n) = 0
                then oldest_loop clock st (node_next n) (k + 1)
                       (if best = None \<or> clock k - pc_last_used (node_val n) > snd (the best)
                        then Some (a, clock k - pc_last_used (node_val n)) else best)
                else oldest_loop clock st (node_next n) k best)))"

text \<open>The part that makes a new connection and puts it in front of the list.\<close>

definition pool_add_connection ::
    "(nat \<Rightarrow> int) \<Rightarrow> nat \<Rightarrow> grpc_connection_pool \<Rightarrow> string \<Rightarrow> (addr option \<times> grpc_connection_pool) cmd" where
  "pool_add_connection clock k p target =
     bnd (http2_connection_create target True None) (\<lambda>new_conn.
       if new_conn = None then ret (None, p\<lparr>cp_mutex := False\<rparr>)
       else
         bnd (grpc_pooled_connection_create clock k target new_conn) (\<lambda>pooled.
           (case pooled of
              None \<Rightarrow> bnd (http2_connection_destroy new_conn) (\<lambda>_. ret (None, p\<lparr>cp_mutex := False\<rparr>))
            | Some pc \<Rightarrow>
                (let (a, st) = store_new (cp_nodes p) (pc\<lparr>pc_active_calls := to_int32 (pc_active_calls pc + 1)\<rparr>) (cp_connections p)
                 in ret (new_conn, p\<lparr>cp_nodes := st, cp_connections := Some a,
                      cp_current_connections := cp_current_connections p + 1, cp_mutex := False\<rparr>)))))"

text \<open>The part for a full pool: the oldest idle connection is destroyed. The list is left as it is.\<close>

definition pool_evict :: "grpc_connection_pool \<Rightarrow> addr \<Rightarrow> grpc_connection_pool cmd" where
  "pool_evict p oldest =
     bnd (grpc_pooled_connection_destroy (Some oldest) (cp_nodes p)) (\<lambda>st.
       ret (p\<lparr>cp_nodes := st, cp_current_connections := cp_current_connections p - 1\<rparr>))"

text \<open>The critical section of \<open>grpc_connection_pool_get\<close>, entered with the mutex held.\<close>

definition pool_get_locked ::
    "(nat \<Rightarrow> int) \<Rightarrow> grpc_connection_pool \<Rightarrow> string \<Rightarrow> world \<Rightarrow>
     ((addr option \<times> grpc_connection_pool) \<times> world) exec option" where
  "pool_get_locked clock p target w =
     (case list_find (\<lambda>c. pc_is_healthy c \<and> pc_target c = target) (cp_nodes p) (cp_connections p) of
        None \<Rightarrow> None
      | Some (Inl e) \<Rightarrow> Some (Inl e)
      | Some (Inr (Some a)) \<Rightarrow>
          Some (exec_bind (store_upd (cp_nodes p) (Some a)
                  (\<lambda>c. c\<lparr>pc_last_used := clock 0, pc_active_calls := to_int32 (pc_active_calls c + 1)\<rparr>)) (\<lambda>st.
                exec_bind (store_get st (Some a)) (\<lambda>n.
                  Inr ((pc_connection (node_val n), p\<lparr>cp_nodes := st, cp_mutex := False\<rparr>), w))))
      | Some (Inr None) \<Rightarrow>
          (if cp_current_connections p \<ge> cp_max_connections p
           then (case oldest_loop clock (cp_nodes p) (cp_connections p) 0 None of
                   None \<Rightarrow> None
                 | Some (Inl e) \<Rightarrow> Some (Inl e)
                 | Some (Inr (None, k)) \<Rightarrow> Some (Inr ((None, p\<lparr>cp_mutex := False\<rparr>), w))
                 | Some (Inr (Some a, k)) \<Rightarrow>
                     Some (bnd (pool_evict p a) (\<lambda>p'. pool_add_connection clock k p' target) w))
           else Some (pool_add_connection clock 0 p target w)))"

definition grpc_connection_pool_get ::
    "(nat \<Rightarrow> int) \<Rightarrow> grpc_connection_pool option \<Rightarrow> string option \<Rightarrow> world \<Rightarrow>
     ((addr option \<times> grpc_connection_pool option) \<times> world) exec option" where
  "grpc_connection_pool_get clock pool target w =
     (case (pool, target) of
        (Some p, Some t) \<Rightarrow>
          (case mutex_lock (cp_mutex p) of
             Inl e \<Rightarrow> Some (Inl e)
           | Inr m \<Rightarrow>
               map_option (map_sum id (\<lambda>((r, p'), w'). ((r, Some p'), w')))
                 (pool_get_locked clock (p\<lparr>cp_mutex := m\<rparr>) t w))
      | _ \<Rightarrow> Some (Inr ((None, pool), w)))"

definition grpc_connection_pool_return ::
    "(nat \<Rightarrow> int) \<Rightarrow> grpc_connection_pool option \<Rightarrow> string option \<Rightarrow> addr option \<Rightarrow>
     (int \<times> grpc_connection_pool option) exec option" where
  "grpc_connection_pool_return clock pool target connection =
     (case (pool, target, connection) of
        (Some p, Some t, Some _) \<Rightarrow>
          (case mutex_lock (cp_mutex p) of
             Inl e \<Rightarrow> Some (Inl e)
           | Inr m \<Rightarrow>
               (case list_find (\<lambda>c. pc_connection c = connection \<and> pc_target c = t) (cp_nodes p) (cp_connections p) of
                  None \<Rightarrow> None
                | Some (Inl e) \<Rightarrow> Some (Inl e)
                | Some (Inr None) \<Rightarrow> Some (Inr (-1, Some (p\<lparr>cp_mutex := mutex_unlock m\<rparr>)))
                | Some (Inr (Some a)) \<Rightarrow>
                    Some (exec_bind (store_upd (cp_nodes p) (Some a)
                      (\<lambda>c. c\<lparr>pc_active_calls := (if pc_active_calls c > 0 then pc_active_calls c - 1 else pc_active_calls c),
                             pc_last_used := clock 0\<rparr>)) (\<lambda>st.
                      Inr (0, Some (p\<lparr>cp_nodes := st, cp_mutex := mutex_unlock m\<rparr>))))))
      | _ \<Rightarrow> Some (Inr (-1, pool)))"

text \<open>The loop of the cleanup: \<open>prev\<close> is the last node that was kept.\<close>

partial_function (option) cleanup_loop ::
    "addr option \<Rightarrow> addr option \<Rightarrow> grpc_connection_pool \<Rightarrow> world \<Rightarrow> (grpc_connection_pool \<times> world) exec option" where
  "cleanup_loop prev conn p w =
     (case conn of
        None \<Rightarrow> Some (Inr (p, w))
      | Some a \<Rightarrow>
          (case store_get (cp_nodes p) conn of
             Inl e \<Rightarrow> Some (Inl e)
           | Inr n \<Rightarrow>
               (if pc_active_calls (node_val n) = 0 \<and> \<not> pc_is_healthy (node_val n) then
                  (case (if prev \<noteq> None
                         then exec_bind (store_set_next (cp_nodes p) prev (node_next n)) (\<lambda>st. Inr (p\<lparr>cp_nodes := st\<rparr>))
                         else Inr (p\<lparr>cp_connections := node_next n\<rparr>)) of
                     Inl e \<Rightarrow> Some (Inl e)
                   | Inr p1 \<Rightarrow>
                       (case grpc_pooled_connection_destroy conn (cp_nodes p1) w of
                          Inl e \<Rightarrow> Some (Inl e)
                        | Inr stw \<Rightarrow>
                            cleanup_loop prev (node_next n)
                              (p1\<lparr>cp_nodes := fst stw, cp_current_connections := cp_current_connections p1 - 1\<rparr>)
                              (snd stw)))
                else cleanup_loop conn (node_next n) p w)))"

definition grpc_connection_pool_cleanup_idle ::
    "grpc_connection_pool option \<Rightarrow> world \<Rightarrow> (grpc_connection_pool option \<times> world) exec option" where
  "grpc_connection_pool_cleanup_idle pool w =
     (case pool of
        None \<Rightarrow> Some (Inr (None, w))
      | Some p \<Rightarrow>
          (case mutex_lock (cp_mutex p) of
             Inl e \<Rightarrow> Some (Inl e)
           | Inr m \<Rightarrow>
               map_option (map_sum id (\<lambda>(p', w'). (Some (p'\<lparr>cp_mutex := mutex_unlock m\<rparr>), w')))
                 (cleanup_loop None (cp_connections p) p w)))"

partial_function (option) pool_destroy_loop ::
    "addr option \<Rightarrow> grpc_pooled_connection store \<Rightarrow> world \<Rightarrow> (grpc_pooled_connection store \<times> world) exec option" where
  "pool_destroy_loop conn st w =
     (case conn of
        None \<Rightarrow> Some (Inr (st, w))
      | Some a \<Rightarrow>
          (case store_get st conn of
             Inl e \<Rightarrow> Some (Inl e)
           | Inr n \<Rightarrow>
               (case grpc_pooled_connection_destroy conn st w of
                  Inl e \<Rightarrow> Some (Inl e)
                | Inr stw \<Rightarrow> pool_destroy_loop (node_next n) (fst stw) (snd stw))))"

text \<open>Joining through the handle of a thread that was never created goes through its zeroed
  handle; the nodes that are left are part of the result.\<close>

definition grpc_connection_pool_destroy ::
    "grpc_connection_pool option \<Rightarrow> world \<Rightarrow> (grpc_pooled_connection store option \<times> world) exec option" where
  "grpc_connection_pool_destroy pool w =
     (case pool of
        None \<Rightarrow> Some (Inr (None, w))
      | Some p \<Rightarrow>
          (if \<not> cp_keepalive_thread p then Some (Inl Null_Deref)
           else
             (case mutex_lock (cp_mutex p) of
                Inl e \<Rightarrow> Some (Inl e)
              | Inr m \<Rightarrow>
                  map_option (map_sum id (\<lambda>(st, w'). (Some st, w')))
                    (pool_destroy_loop (cp_connections p) (cp_nodes p) w))))"

section \<open>Contents and invariant\<close>

definition pool_list :: "grpc_connection_pool \<Rightarrow> grpc_pooled_connection list" where
  "pool_list p = walk (brk (cp_nodes p)) (cp_nodes p) (cp_connections p)"

text \<open>A pooled connection is live, and an idle one has no open streams.\<close>

definition pooled_ok :: "world \<Rightarrow> grpc_pooled_connection \<Rightarrow> bool" where
  "pooled_ok w pc \<longleftrightarrow> 0 \<le> pc_active_calls pc \<and> pc_active_calls pc < 2 ^ 31 \<and>
     (\<exists>c. pc_connection pc = Some c \<and> conn_ok w c \<and> (pc_active_calls pc = 0 \<longrightarrow> streams_of w c = []))"

definition pool_inv :: "grpc_connection_pool \<Rightarrow> world \<Rightarrow> bool" where
  "pool_inv p w \<longleftrightarrow> world_fresh w \<and> \<not> cp_mutex p \<and>
     (\<exists>cs. list_in (cp_nodes p) (cp_connections p) cs \<and> cp_current_connections p = length cs) \<and>
     cp_current_connections p \<le> cp_max_connections p \<and>
     distinct (map pc_connection (pool_list p)) \<and> list_all (pooled_ok w) (pool_list p)"

lemma pool_list_eq: "list_in (cp_nodes p) (cp_connections p) cs \<Longrightarrow> pool_list p = map snd cs"
  unfolding pool_list_def by (rule walk_list_in)

lemma pool_invE:
  assumes "pool_inv p w"
  obtains cs where "world_fresh w" "\<not> cp_mutex p" "list_in (cp_nodes p) (cp_connections p) cs"
    "cp_current_connections p = length cs" "length cs \<le> cp_max_connections p"
    "distinct (map pc_connection (map snd cs))" "list_all (pooled_ok w) (map snd cs)" "pool_list p = map snd cs"
  using assms by (auto simp: pool_inv_def pool_list_eq)

lemma pool_invI:
  assumes "world_fresh w" "\<not> cp_mutex p" "list_in (cp_nodes p) (cp_connections p) cs"
    "cp_current_connections p = length cs" "length cs \<le> cp_max_connections p"
    "distinct (map pc_connection (map snd cs))" "list_all (pooled_ok w) (map snd cs)"
  shows "pool_inv p w" "pool_list p = map snd cs"
  using assms pool_list_eq [OF assms(3)] by (auto simp: pool_inv_def)

lemma conn_ok_cong:
  "w_conns w' c = w_conns w c \<Longrightarrow> w_streams w' = w_streams w \<Longrightarrow> conn_ok w' c = conn_ok w c"
  "w_conns w' c = w_conns w c \<Longrightarrow> streams_of w' c = streams_of w c"
  by (simp_all add: conn_ok_def streams_of_def)

lemma pooled_ok_cong:
  assumes "\<And>c. pc_connection pc = Some c \<Longrightarrow> w_conns w' c = w_conns w c" and "w_streams w' = w_streams w"
  shows "pooled_ok w' pc = pooled_ok w pc"
proof (cases "pc_connection pc")
  case None
  then show ?thesis by (simp add: pooled_ok_def)
next
  case (Some c)
  with assms conn_ok_cong [of w' c w] show ?thesis by (simp add: pooled_ok_def)
qed

lemma map_snd_splitE:
  assumes "map snd cs = us @ x # vs"
  obtains us' a vs' where "cs = us' @ (a, x) # vs'" "map snd us' = us" "map snd vs' = vs"
  using assms by (auto simp: map_eq_append_conv map_eq_Cons_conv)

lemma find_first: "(\<forall>u\<in>set us. \<not> P u) \<Longrightarrow> P x \<Longrightarrow> find P (us @ x # vs) = Some x"
  by (induction us) auto

lemma find_SomeD_split: "find P xs = Some x \<Longrightarrow> \<exists>us vs. xs = us @ x # vs \<and> (\<forall>u\<in>set us. \<not> P u) \<and> P x"
proof (induction xs)
  case (Cons y ys)
  show ?case
  proof (cases "P y")
    case True
    with Cons.prems show ?thesis by (intro exI [of _ "[]"] exI [of _ ys]) simp
  next
    case False
    with Cons obtain us vs where "ys = us @ x # vs" "\<forall>u\<in>set us. \<not> P u" "P x" by auto
    with False show ?thesis by (intro exI [of _ "y # us"] exI [of _ vs]) simp
  qed
qed simp

text \<open>Changing one pooled connection in place, as \<open>get\<close> and \<open>return\<close> do once they found it.\<close>

lemma pool_update:
  assumes "pool_inv p w" and "pool_list p = us @ pc # vs"
    and "\<forall>u\<in>set us. \<not> P u" and "P pc"
    and "pc_connection (f pc) = pc_connection pc"
  shows "\<exists>a st n. list_find P (cp_nodes p) (cp_connections p) = Some (Inr (Some a)) \<and>
    store_upd (cp_nodes p) (Some a) f = Inr st \<and> store_get st (Some a) = Inr n \<and> node_val n = f pc \<and>
    (pooled_ok w (f pc) \<longrightarrow> pool_inv (p\<lparr>cp_nodes := st, cp_mutex := False\<rparr>) w) \<and>
    pool_list (p\<lparr>cp_nodes := st, cp_mutex := False\<rparr>) = us @ f pc # vs"
proof -
  from assms(1) obtain cs where cs: "world_fresh w" "\<not> cp_mutex p" "list_in (cp_nodes p) (cp_connections p) cs"
    "cp_current_connections p = length cs" "length cs \<le> cp_max_connections p"
    "distinct (map pc_connection (map snd cs))" "list_all (pooled_ok w) (map snd cs)" "pool_list p = map snd cs"
    by (rule pool_invE)
  from cs(8) assms(2) have "map snd cs = us @ pc # vs" by simp
  then obtain us' a vs' where sp: "cs = us' @ (a, pc) # vs'" "map snd us' = us" "map snd vs' = vs"
    by (rule map_snd_splitE)
  have "find (\<lambda>c. P (snd c)) cs = Some (a, pc)"
    unfolding sp(1) using assms(3,4) sp(2) by (intro find_first) force+
  then have fd: "list_find P (cp_nodes p) (cp_connections p) = Some (Inr (Some a))"
    using list_find_chain [of "cp_nodes p" "cp_connections p" cs P] cs(3) by (simp add: list_in_def)
  from list_in_update [of "cp_nodes p" "cp_connections p" us' a pc vs' f] cs(3) sp(1) obtain st where
    st: "store_upd (cp_nodes p) (Some a) f = Inr st" "list_in st (cp_connections p) (us' @ (a, f pc) # vs')" by auto
  from st(2) obtain n where n: "cells st a = Some n" "node_val n = f pc" by (rule list_in_node)
  let ?p = "p\<lparr>cp_nodes := st, cp_mutex := False\<rparr>"
  have l: "list_in (cp_nodes ?p) (cp_connections ?p) (us' @ (a, f pc) # vs')" using st(2) by simp
  have "pooled_ok w (f pc) \<longrightarrow> pool_inv ?p w"
    using cs sp assms(5) by (intro impI pool_invI(1) [OF cs(1) _ l]) simp_all
  moreover have "pool_list ?p = map snd (us' @ (a, f pc) # vs')" using l by (rule pool_list_eq)
  ultimately have "pooled_ok w (f pc) \<longrightarrow> pool_inv ?p w" "pool_list ?p = map snd (us' @ (a, f pc) # vs')" by blast+
  with fd st(1) n sp(2,3) show ?thesis by (auto simp: store_get_def)
qed

lemma one_more_call:
  assumes "pooled_ok w pc" and "pc_active_calls pc \<noteq> 2 ^ 31 - 1"
  shows "to_int32 (pc_active_calls pc + 1) = pc_active_calls pc + 1"
    "pooled_ok w (pc\<lparr>pc_last_used := now, pc_active_calls := to_int32 (pc_active_calls pc + 1)\<rparr>)"
proof -
  from assms have n: "0 \<le> pc_active_calls pc" "pc_active_calls pc + 1 < 2 ^ 31" by (simp_all add: pooled_ok_def)
  then show "to_int32 (pc_active_calls pc + 1) = pc_active_calls pc + 1" by (intro to_int32_id) simp_all
  with assms n show "pooled_ok w (pc\<lparr>pc_last_used := now, pc_active_calls := to_int32 (pc_active_calls pc + 1)\<rparr>)"
    by (auto simp: pooled_ok_def)
qed

lemma pool_get_hit:
  assumes "pool_inv p w" and "pool_list p = us @ pc # vs"
    and "\<forall>u\<in>set us. \<not> (pc_is_healthy u \<and> pc_target u = t)" and "pc_is_healthy pc" and "pc_target pc = t"
  shows "\<exists>p'. grpc_connection_pool_get clock (Some p) (Some t) w = Some (Inr ((pc_connection pc, Some p'), w)) \<and>
    (pc_active_calls pc \<noteq> 2 ^ 31 - 1 \<longrightarrow> pool_inv p' w) \<and>
    pool_list p' = us @ pc\<lparr>pc_last_used := clock 0, pc_active_calls := to_int32 (pc_active_calls pc + 1)\<rparr> # vs"
proof -
  let ?f = "\<lambda>c. c\<lparr>pc_last_used := clock 0, pc_active_calls := to_int32 (pc_active_calls c + 1)\<rparr>"
  have m: "\<not> cp_mutex p" using assms(1) by (auto elim: pool_invE)
  have "pooled_ok w pc" using assms(1,2) by (auto simp: pool_inv_def)
  then have ok: "pc_active_calls pc \<noteq> 2 ^ 31 - 1 \<Longrightarrow> pooled_ok w (?f pc)" by (rule one_more_call)
  from pool_update [where f = ?f and P = "\<lambda>c. pc_is_healthy c \<and> pc_target c = t", OF assms(1-3)] assms(4,5)
  obtain a st n where
    "list_find (\<lambda>c. pc_is_healthy c \<and> pc_target c = t) (cp_nodes p) (cp_connections p) = Some (Inr (Some a))"
    "store_upd (cp_nodes p) (Some a) ?f = Inr st" "store_get st (Some a) = Inr n" "node_val n = ?f pc"
    "pooled_ok w (?f pc) \<longrightarrow> pool_inv (p\<lparr>cp_nodes := st, cp_mutex := False\<rparr>) w"
    "pool_list (p\<lparr>cp_nodes := st, cp_mutex := False\<rparr>) = us @ ?f pc # vs" by auto
  with m ok show ?thesis by (simp add: grpc_connection_pool_get_def pool_get_locked_def)
qed

lemma pool_return_ok:
  assumes "pool_inv p w" and "pool_list p = us @ pc # vs"
    and "\<forall>u\<in>set us. \<not> (pc_connection u = Some c \<and> pc_target u = t)" and "pc_connection pc = Some c" and "pc_target pc = t"
    and "pc_active_calls pc \<le> 1 \<Longrightarrow> streams_of w c = []"
  shows "\<exists>p'. grpc_connection_pool_return clock (Some p) (Some t) (Some c) = Some (Inr (0, Some p')) \<and>
    pool_inv p' w \<and>
    pool_list p' = us @ pc\<lparr>pc_active_calls := max 0 (pc_active_calls pc - 1), pc_last_used := clock 0\<rparr> # vs"
proof -
  let ?f = "\<lambda>c. c\<lparr>pc_active_calls := (if pc_active_calls c > 0 then pc_active_calls c - 1 else pc_active_calls c),
      pc_last_used := clock 0\<rparr>"
  have m: "\<not> cp_mutex p" using assms(1) by (auto elim: pool_invE)
  have ok: "pooled_ok w pc" using assms(1,2) by (auto simp: pool_inv_def)
  then have "pooled_ok w (?f pc)" using assms(4,6) by (auto simp: pooled_ok_def)
  with pool_update [where f = ?f and P = "\<lambda>x. pc_connection x = Some c \<and> pc_target x = t",
      OF assms(1-3)] assms(4,5) obtain a st n where
    u: "list_find (\<lambda>x. pc_connection x = Some c \<and> pc_target x = t) (cp_nodes p) (cp_connections p) = Some (Inr (Some a))"
    "store_upd (cp_nodes p) (Some a) ?f = Inr st"
    "pool_inv (p\<lparr>cp_nodes := st, cp_mutex := False\<rparr>) w"
    "pool_list (p\<lparr>cp_nodes := st, cp_mutex := False\<rparr>) = us @ ?f pc # vs" by auto
  have "?f pc = pc\<lparr>pc_active_calls := max 0 (pc_active_calls pc - 1), pc_last_used := clock 0\<rparr>"
    using ok by (auto simp: pooled_ok_def)
  with u m show ?thesis by (simp add: grpc_connection_pool_return_def)
qed

section \<open>New connections\<close>

definition pooled_new :: "(nat \<Rightarrow> int) \<Rightarrow> nat \<Rightarrow> string \<Rightarrow> addr \<Rightarrow> grpc_pooled_connection" where
  "pooled_new clock k t c = \<lparr>pc_target = t, pc_connection = Some c, pc_last_used = clock k,
     pc_last_keepalive = clock (k + 1), pc_active_calls = 1, pc_is_healthy = True\<rparr>"

lemma conn_ok_fresh:
  "w_conns w c = Some (conn_fresh b) \<Longrightarrow> conn_ok w c" "w_conns w c = Some (conn_fresh b) \<Longrightarrow> streams_of w c = []"
  by (simp_all add: conn_ok_def streams_of_def conn_fresh_def conn_inv_def) (simp add: arr_calloc_def)

lemma pool_add_raw:
  assumes "world_fresh w"
  obtains (failed) w' where "pool_add_connection clock k p t w = Inr ((None, p\<lparr>cp_mutex := False\<rparr>), w')"
      "\<not> alloc_ok (w_alloc w)" "w_conns w' = w_conns w" "w_streams w' = w_streams w" "world_fresh w'"
  | (created) w' where "pool_add_connection clock k p t w = Inr ((Some (w_brk w),
        p\<lparr>cp_nodes := snd (store_new (cp_nodes p) (pooled_new clock k t (w_brk w)) (cp_connections p)),
          cp_connections := Some (brk (cp_nodes p)),
          cp_current_connections := cp_current_connections p + 1, cp_mutex := False\<rparr>), w')"
      "w_conns w' = (w_conns w)(w_brk w \<mapsto> conn_fresh True)" "w_streams w' = w_streams w" "world_fresh w'"
  using assms
proof (cases rule: http2_connection_create_cases [where t = t and is_client = True and ssl = None])
  case (failed os n)
  let ?w = "w\<lparr>w_alloc := os, w_brk := w_brk w + n\<rparr>"
  have "world_fresh ?w" using assms by (auto simp: world_fresh_def)
  with failed show ?thesis by (intro that(1) [of ?w]) (simp_all add: pool_add_connection_def bnd_def)
next
  case (created os)
  let ?w = "\<lambda>os. w\<lparr>w_alloc := os, w_brk := w_brk w + 1, w_conns := (w_conns w)(w_brk w \<mapsto> conn_fresh True)\<rparr>"
  have fr: "world_fresh (?w os')" for os' using assms by (auto simp: world_fresh_def)
  obtain ok1 os1 ok2 os2 where o: "alloc_next os = (ok1, os1)" "alloc_next os1 = (ok2, os2)" by (metis prod.collapse)
  have al: "alloc_ok (w_alloc w) \<Longrightarrow> ok1 \<and> ok2" using created(2) o by (cases os; cases os1) auto
  show ?thesis
  proof (cases "ok1 \<and> ok2")
    case True
    then have "grpc_pooled_connection_create clock k t (Some (w_brk w)) (?w os) =
        Inr (Some (pooled_new clock k t (w_brk w)\<lparr>pc_active_calls := 0\<rparr>), ?w os2)"
      using o by (simp add: grpc_pooled_connection_create_def bnd_def alloc_cmd_eq pooled_new_def)
    then show ?thesis using fr [of os2]
      by (intro that(2) [of "?w os2"]) (simp_all add: pool_add_connection_def bnd_def created(1) store_new_def, simp add: pooled_new_def)
  next
    case False
    let ?w1 = "?w (if ok1 then os2 else os1)"
    have pc: "grpc_pooled_connection_create clock k t (Some (w_brk w)) (?w os) = Inr (None, ?w1)"
      using o False by (cases ok1) (simp_all add: grpc_pooled_connection_create_def bnd_def alloc_cmd_eq)
    have "conn_ok ?w1 (w_brk w)" "streams_of ?w1 (w_brk w) = []"
      by (rule conn_ok_fresh, simp)+
    from connection_destroy_empty [OF this(1) _ this(2)] have
      d: "http2_connection_destroy (Some (w_brk w)) ?w1 = Inr ((),
        ?w1\<lparr>w_conns := (w_conns ?w1)(w_brk w := None), w_closed := w_closed w\<rparr>)" (is "_ = Inr ((), ?w2)")
      by (simp add: conn_fresh_def)
    have c: "w_conns ?w2 = w_conns w" using assms by (auto simp: world_fresh_def fun_eq_iff)
    then have "world_fresh ?w2" using assms by (auto simp: world_fresh_def)
    moreover have "\<not> alloc_ok (w_alloc w)" using False al by blast
    ultimately show ?thesis using c pc d
      by (intro that(1) [of ?w2]) (simp_all add: pool_add_connection_def bnd_def created(1))
  qed
qed

lemma pool_add_ok:
  assumes "pool_inv p w" and "cp_current_connections p < cp_max_connections p"
  obtains (failed) w' where "pool_add_connection clock k (p\<lparr>cp_mutex := True\<rparr>) t w = Inr ((None, p), w')"
      "\<not> alloc_ok (w_alloc w)" "w_conns w' = w_conns w" "pool_inv p w'"
  | (created) p' w' where "pool_add_connection clock k (p\<lparr>cp_mutex := True\<rparr>) t w = Inr ((Some (w_brk w), p'), w')"
      "w_conns w (w_brk w) = None" "w_conns w' = (w_conns w)(w_brk w \<mapsto> conn_fresh True)"
      "pool_inv p' w'" "pool_list p' = pooled_new clock k t (w_brk w) # pool_list p"
proof -
  from assms(1) obtain cs where cs: "world_fresh w" "\<not> cp_mutex p" "list_in (cp_nodes p) (cp_connections p) cs"
    "cp_current_connections p = length cs" "length cs \<le> cp_max_connections p"
    "distinct (map pc_connection (map snd cs))" "list_all (pooled_ok w) (map snd cs)" "pool_list p = map snd cs"
    by (rule pool_invE)
  have new: "w_conns w (w_brk w) = None" using cs(1) by (simp add: world_fresh_def)
  have notin: "pc_connection pc \<noteq> Some (w_brk w)" if "pc \<in> set (map snd cs)" for pc
    using cs(7) that new by (auto simp: list_all_iff pooled_ok_def conn_ok_def)
  have same: "p\<lparr>cp_mutex := False\<rparr> = p" using cs(2) by (cases p) simp
  from cs(1) show ?thesis
  proof (cases rule: pool_add_raw [where clock = clock and k = k and p = "p\<lparr>cp_mutex := True\<rparr>" and t = t])
    case (failed w')
    have "list_all (pooled_ok w') (map snd cs)"
      using cs(7) pooled_ok_cong [of _ w' w] failed(3,4) by (auto simp: list_all_iff)
    with failed(5) cs have "pool_inv p w'" by (intro pool_invI [of w' p cs]) simp_all
    with failed that(1) same show ?thesis by simp
  next
    case (created w')
    let ?pc = "pooled_new clock k t (w_brk w)"
    let ?p = "p\<lparr>cp_nodes := snd (store_new (cp_nodes p) ?pc (cp_connections p)),
          cp_connections := Some (brk (cp_nodes p)),
          cp_current_connections := cp_current_connections p + 1, cp_mutex := False\<rparr>"
    let ?cs = "(brk (cp_nodes p), ?pc) # cs"
    have l: "list_in (cp_nodes ?p) (cp_connections ?p) ?cs" using list_in_new_front [OF cs(3)] by simp
    have "pooled_ok w' pc" if "pc \<in> set (map snd cs)" for pc
    proof -
      have "pooled_ok w' pc = pooled_ok w pc" using notin [OF that] created(2,3) by (intro pooled_ok_cong) auto
      with cs(7) that show ?thesis by (auto simp: list_all_iff)
    qed
    moreover have "pooled_ok w' ?pc" using created(2)
      by (auto simp: pooled_ok_def pooled_new_def intro!: conn_ok_fresh(1))
    ultimately have ok: "list_all (pooled_ok w') (map snd ?cs)" by (auto simp: list_all_iff)
    have "Some (w_brk w) \<notin> set (map pc_connection (map snd cs))" using notin by (metis imageE list.set_map)
    then have "distinct (map pc_connection (map snd ?cs))" using cs(6) by (simp add: pooled_new_def)
    then have "pool_inv ?p w'" using cs(4) assms(2) ok by (intro pool_invI(1) [OF created(4) _ l]) simp_all
    moreover have "pool_list ?p = map snd ?cs" using l by (rule pool_list_eq)
    ultimately have "pool_inv ?p w'" "pool_list ?p = map snd ?cs" by blast+
    with created that(2) new cs(8) show ?thesis by simp
  qed
qed

section \<open>Loops over the pool\<close>

lemma keepalive_loop_chain:
  "list_in st p (us @ vs) \<Longrightarrow> chain st p us q \<Longrightarrow>
   \<exists>st'. keepalive_loop f st q = Some (Inr st') \<and> list_in st' p (us @ map (\<lambda>(a, v). (a, f v)) vs)"
proof (induction vs arbitrary: us st q)
  case Nil
  then have "chain st p us None" "q = None"
    by (auto simp: list_in_def dest: chain_det)
  with Nil show ?case by (subst keepalive_loop.simps) simp
next
  case (Cons c vs)
  obtain a v where c: "c = (a, v)" by (rule prod.exhaust)
  have q: "q = Some a" using Cons.prems c by (auto simp: list_in_def chain_append dest: chain_det)
  from Cons.prems(1) c list_in_update [of st p us a v vs f] obtain st1 where
    st1: "store_upd st (Some a) f = Inr st1" "list_in st1 p (us @ (a, f v) # vs)" by auto
  from st1(2) obtain n where n: "cells st1 a = Some n" "node_val n = f v" "chain st1 p us (Some a)"
    by (rule list_in_node)
  from n have ch: "chain st1 p (us @ [(a, f v)]) (node_next n)" by (auto simp: chain_append)
  from st1(2) have "list_in st1 p ((us @ [(a, f v)]) @ vs)" by simp
  from Cons.IH [OF this ch] q st1(1) n(1) c show ?case
    by (subst keepalive_loop.simps) (simp add: store_get_def)
qed

text \<open>A list that runs into a freed node.\<close>

lemma keepalive_loop_dangling:
  "chain st p us (Some a) \<Longrightarrow> cells st a = None \<Longrightarrow> distinct (map fst us) \<Longrightarrow>
   keepalive_loop f st p = Some (Inl Use_After_Free)"
proof (induction us arbitrary: st p)
  case Nil
  then show ?case by (subst keepalive_loop.simps) (simp add: store_upd_def store_get_def)
next
  case (Cons c us)
  obtain b v where c: "c = (b, v)" by (rule prod.exhaust)
  with Cons.prems obtain n where n: "p = Some b" "cells st b = Some n" "chain st (node_next n) us (Some a)"
    by (auto split: option.splits)
  let ?st = "st\<lparr>cells := (cells st)(b \<mapsto> n\<lparr>node_val := f (node_val n)\<rparr>)\<rparr>"
  have "chain ?st (node_next n) us (Some a)" "cells ?st a = None"
    using n c Cons.prems by auto
  from Cons.IH [OF this] Cons.prems(3) c n(1,2) show ?case
    by (subst keepalive_loop.simps) (simp add: store_upd_def store_get_def store_put_def)
qed

definition reclaimable :: "grpc_pooled_connection \<Rightarrow> bool" where
  "reclaimable pc \<longleftrightarrow> pc_active_calls pc = 0 \<and> \<not> pc_is_healthy pc"

lemma pooled_destroy_ok:
  assumes "cells st a = Some n" and "pooled_ok w (node_val n)" and "pc_active_calls (node_val n) = 0"
  shows "\<exists>w' c. grpc_pooled_connection_destroy (Some a) st w = Inr (st\<lparr>cells := (cells st)(a := None)\<rparr>, w') \<and>
    pc_connection (node_val n) = Some c \<and> w_conns w' = (w_conns w)(c := None) \<and>
    w_streams w' = w_streams w \<and> w_alloc w' = w_alloc w \<and> (world_fresh w \<longrightarrow> world_fresh w')"
proof -
  from assms(2,3) obtain c where c: "pc_connection (node_val n) = Some c" "conn_ok w c" "streams_of w c = []"
    by (auto simp: pooled_ok_def)
  then obtain x where "w_conns w c = Some x" by (auto simp: conn_ok_def)
  from connection_destroy_empty [OF c(2) this c(3)] assms(1) c(1) show ?thesis
    by (auto simp: grpc_pooled_connection_destroy_def bnd_def store_get_def store_free_def world_fresh_def)
qed

definition without_conns :: "grpc_pooled_connection list \<Rightarrow> http2_connection heap \<Rightarrow> http2_connection heap" where
  "without_conns pcs h = (\<lambda>c. if Some c \<in> set (map pc_connection pcs) then None else h c)"

text \<open>Destroying one pooled connection leaves the others as they were.\<close>

lemma pooled_ok_frame:
  assumes "list_all (pooled_ok w) pcs" and "w_conns w' = (w_conns w)(c := None)" and "w_streams w' = w_streams w"
    and "Some c \<notin> set (map pc_connection pcs)"
  shows "list_all (pooled_ok w') pcs"
  unfolding list_all_iff
proof
  fix pc assume pc: "pc \<in> set pcs"
  with assms(4) have "pc_connection pc \<noteq> Some c" by force
  with assms(2,3) have "pooled_ok w' pc = pooled_ok w pc" by (intro pooled_ok_cong) auto
  with assms(1) pc show "pooled_ok w' pc" by (simp add: list_all_iff)
qed

text \<open>What the cleanup keeps true: behind \<open>us\<close>, the nodes it kept, come \<open>vs\<close>, the ones it has
  not looked at.\<close>

definition cleanup_inv ::
    "(addr \<times> grpc_pooled_connection) list \<Rightarrow> grpc_connection_pool \<Rightarrow> world \<Rightarrow> bool" where
  "cleanup_inv cs p w \<longleftrightarrow> world_fresh w \<and> list_in (cp_nodes p) (cp_connections p) cs \<and>
     cp_current_connections p = length cs \<and>
     distinct (map pc_connection (map snd cs)) \<and> list_all (pooled_ok w) (map snd cs)"

lemma cleanup_keep:
  assumes "list_in (cp_nodes p) (cp_connections p) (us @ (a, v) # vs)" and "\<not> reclaimable v"
  shows "cleanup_loop prev (Some a) p w = cleanup_loop (Some a) (head_of vs) p w"
proof -
  from assms(1) obtain n where n: "cells (cp_nodes p) a = Some n" "node_val n = v"
    "chain (cp_nodes p) (node_next n) vs None" by (rule list_in_node)
  from assms(2) n(1,2) chain_head [OF n(3)] show ?thesis
    by (subst cleanup_loop.simps) (auto simp: store_get_def reclaimable_def)
qed

lemma cleanup_unlink:
  assumes "list_in (cp_nodes p) (cp_connections p) (us @ (a, v) # vs)" and "cells (cp_nodes p) a = Some n"
  obtains p1 where "(if tail_of us \<noteq> None
      then exec_bind (store_set_next (cp_nodes p) (tail_of us) (node_next n)) (\<lambda>st. Inr (p\<lparr>cp_nodes := st\<rparr>))
      else Inr (p\<lparr>cp_connections := node_next n\<rparr>)) = Inr p1"
    "cells (cp_nodes p1) a = Some n"
    "list_in ((cp_nodes p1)\<lparr>cells := (cells (cp_nodes p1))(a := None)\<rparr>) (cp_connections p1) (us @ vs)"
    "cp_current_connections p1 = cp_current_connections p" "cp_max_connections p1 = cp_max_connections p"
proof (cases us rule: rev_cases)
  case Nil
  with assms(1) have l: "list_in (cp_nodes p) (cp_connections p) ((a, v) # vs)" by simp
  from list_in_free_first [OF l assms(2)] Nil assms(2) show ?thesis
    by (intro that [of "p\<lparr>cp_connections := node_next n\<rparr>"]) (simp_all add: tail_of_def)
next
  case (snoc us' bw)
  obtain b x where bw: "bw = (b, x)" by (rule prod.exhaust)
  with assms(1) snoc have l: "list_in (cp_nodes p) (cp_connections p) ((us' @ [(b, x)]) @ (a, v) # vs)" by simp
  from list_in_unlink [OF l assms(2)] obtain st where
    st: "store_set_next (cp_nodes p) (Some b) (node_next n) = Inr st" "cells st a = Some n"
      "list_in (st\<lparr>cells := (cells st)(a := None)\<rparr>) (cp_connections p) ((us' @ [(b, x)]) @ vs)" by blast
  with snoc bw show ?thesis by (intro that [of "p\<lparr>cp_nodes := st\<rparr>"]) (simp_all add: tail_of_def)
qed

lemma cleanup_drop:
  assumes "cleanup_inv (us @ (a, v) # vs) p w" and "reclaimable v"
  shows "\<exists>p' w' c. pc_connection v = Some c \<and>
    cleanup_loop (tail_of us) (Some a) p w = cleanup_loop (tail_of us) (head_of vs) p' w' \<and>
    cleanup_inv (us @ vs) p' w' \<and>
    w_conns w' = (w_conns w)(c := None) \<and> cp_max_connections p' = cp_max_connections p"
proof -
  from assms(1) have l: "list_in (cp_nodes p) (cp_connections p) (us @ (a, v) # vs)" and fr: "world_fresh w"
    and cnt: "cp_current_connections p = length (us @ (a, v) # vs)"
    and d: "distinct (map pc_connection (map snd (us @ (a, v) # vs)))"
    and ok: "list_all (pooled_ok w) (map snd (us @ (a, v) # vs))" unfolding cleanup_inv_def by blast+
  from l obtain n where n: "cells (cp_nodes p) a = Some n" "node_val n = v"
    "chain (cp_nodes p) (node_next n) vs None" by (rule list_in_node)
  from l n(1) obtain p1 where
    p1: "(if tail_of us \<noteq> None
      then exec_bind (store_set_next (cp_nodes p) (tail_of us) (node_next n)) (\<lambda>st. Inr (p\<lparr>cp_nodes := st\<rparr>))
      else Inr (p\<lparr>cp_connections := node_next n\<rparr>)) = Inr p1"
    "cells (cp_nodes p1) a = Some n"
    "list_in ((cp_nodes p1)\<lparr>cells := (cells (cp_nodes p1))(a := None)\<rparr>) (cp_connections p1) (us @ vs)"
    "cp_current_connections p1 = cp_current_connections p" "cp_max_connections p1 = cp_max_connections p"
    by (rule cleanup_unlink)
  let ?st = "(cp_nodes p1)\<lparr>cells := (cells (cp_nodes p1))(a := None)\<rparr>"
  from ok n(2) assms(2) pooled_destroy_ok [OF p1(2), of w] obtain w' c where
    w': "grpc_pooled_connection_destroy (Some a) (cp_nodes p1) w = Inr (?st, w')"
      "pc_connection v = Some c" "w_conns w' = (w_conns w)(c := None)" "w_streams w' = w_streams w" "world_fresh w'"
    using fr by (auto simp: reclaimable_def)
  let ?p' = "p1\<lparr>cp_nodes := ?st, cp_current_connections := cp_current_connections p1 - 1\<rparr>"
  have loop: "cleanup_loop (tail_of us) (Some a) p w = cleanup_loop (tail_of us) (head_of vs) ?p' w'"
    using n(1,2) chain_head [OF n(3)] assms(2) p1(1) w'(1)
    by (subst cleanup_loop.simps) (simp add: store_get_def reclaimable_def)
  have "list_all (pooled_ok w') (map snd (us @ vs))"
    using ok d w'(2) by (intro pooled_ok_frame [OF _ w'(3,4)]) auto
  then have "cleanup_inv (us @ vs) ?p' w'"
    using w'(5) p1(3,4) cnt d by (simp add: cleanup_inv_def)
  with loop w'(2,3) p1(5) show ?thesis by fastforce
qed

lemma cleanup_loop_ok:
  "cleanup_inv (us @ vs) p w \<Longrightarrow> \<exists>p' w'. cleanup_loop (tail_of us) (head_of vs) p w = Some (Inr (p', w')) \<and>
    cleanup_inv (us @ filter (\<lambda>c. \<not> reclaimable (snd c)) vs) p' w' \<and>
    w_conns w' = without_conns (filter reclaimable (map snd vs)) (w_conns w) \<and>
    cp_max_connections p' = cp_max_connections p"
proof (induction vs arbitrary: us p w)
  case Nil
  then show ?case by (subst cleanup_loop.simps) (simp add: without_conns_def)
next
  case (Cons c vs)
  obtain a v where c: "c = (a, v)" by (rule prod.exhaust)
  show ?case
  proof (cases "reclaimable v")
    case True
    from cleanup_drop [OF Cons.prems [unfolded c] True] obtain p1 w1 x where
      d: "pc_connection v = Some x" "cleanup_loop (tail_of us) (Some a) p w = cleanup_loop (tail_of us) (head_of vs) p1 w1"
        "cleanup_inv (us @ vs) p1 w1" "w_conns w1 = (w_conns w)(x := None)" "cp_max_connections p1 = cp_max_connections p"
      by blast
    from Cons.IH [OF d(3)] d True c show ?thesis by (auto simp: without_conns_def fun_eq_iff)
  next
    case False
    from Cons.prems c have "list_in (cp_nodes p) (cp_connections p) (us @ (a, v) # vs)" by (simp add: cleanup_inv_def)
    from cleanup_keep [OF this False] have
      n: "cleanup_loop (tail_of us) (Some a) p w = cleanup_loop (Some a) (head_of vs) p w" .
    have "cleanup_inv ((us @ [(a, v)]) @ vs) p w" using Cons.prems c by simp
    moreover have "tail_of (us @ [(a, v)]) = Some a" by (simp add: tail_of_def)
    ultimately show ?thesis using Cons.IH [of "us @ [(a, v)]" p w] n False c by auto
  qed
qed

lemma pool_inv_cleanup: "pool_inv p w \<Longrightarrow> \<exists>cs. cleanup_inv cs p w \<and> pool_list p = map snd cs"
  by (elim pool_invE) (auto simp: cleanup_inv_def)

lemma cleanup_inv_pool:
  assumes "cleanup_inv cs p w" and "length cs \<le> cp_max_connections p" and "\<not> cp_mutex p"
  shows "pool_inv p w" "pool_list p = map snd cs"
  using assms unfolding cleanup_inv_def by (auto intro!: pool_invI [of w p cs] pool_list_eq)

lemma pool_cleanup_ok:
  assumes "pool_inv p w"
  shows "\<exists>p' w'. grpc_connection_pool_cleanup_idle (Some p) w = Some (Inr (Some p', w')) \<and> pool_inv p' w' \<and>
    pool_list p' = filter (\<lambda>pc. \<not> reclaimable pc) (pool_list p) \<and>
    w_conns w' = without_conns (filter reclaimable (pool_list p)) (w_conns w)"
proof -
  from pool_inv_cleanup [OF assms] obtain cs where cs: "cleanup_inv ([] @ cs) p w" "pool_list p = map snd cs" by auto
  have m: "\<not> cp_mutex p" "cp_current_connections p \<le> cp_max_connections p" using assms by (auto elim: pool_invE)
  have h: "cp_connections p = head_of cs" using cs(1) by (auto simp: cleanup_inv_def list_in_def intro: chain_head)
  let ?ks = "filter (\<lambda>c. \<not> reclaimable (snd c)) cs"
  from cleanup_loop_ok [OF cs(1)] h obtain p' w' where
    l: "cleanup_loop None (cp_connections p) p w = Some (Inr (p', w'))" "cleanup_inv ?ks p' w'"
      "w_conns w' = without_conns (filter reclaimable (map snd cs)) (w_conns w)"
      "cp_max_connections p' = cp_max_connections p" by (auto simp: tail_of_def)
  let ?p = "p'\<lparr>cp_mutex := False\<rparr>"
  have "length ?ks \<le> cp_max_connections ?p"
    using m(2) cs(1) l(4) le_trans [OF length_filter_le [of "\<lambda>c. \<not> reclaimable (snd c)" cs]]
    by (simp add: cleanup_inv_def)
  moreover have "cleanup_inv ?ks ?p w'" using l(2) by (simp add: cleanup_inv_def)
  ultimately have "pool_inv ?p w'" "pool_list ?p = map snd ?ks" by (auto intro!: cleanup_inv_pool)
  moreover have "map snd ?ks = filter (\<lambda>pc. \<not> reclaimable pc) (map snd cs)" by (simp add: filter_map comp_def)
  ultimately show ?thesis using l(1,3) m(1) cs(2) by (simp add: grpc_connection_pool_cleanup_idle_def)
qed

lemma keepalive_node_same [simp]:
  "pc_connection (keepalive_node p now pc) = pc_connection pc" "pc_active_calls (keepalive_node p now pc) = pc_active_calls pc"
  by (simp_all add: keepalive_node_def Let_def)

lemma pool_tick_ok:
  assumes "pool_inv p w"
  shows "\<exists>p'. grpc_keepalive_thread_tick now p = Some (Inr p') \<and> pool_inv p' w \<and>
    pool_list p' = map (keepalive_node p now) (pool_list p)"
proof -
  from assms obtain cs where cs: "world_fresh w" "\<not> cp_mutex p" "list_in (cp_nodes p) (cp_connections p) cs"
    "cp_current_connections p = length cs" "length cs \<le> cp_max_connections p"
    "distinct (map pc_connection (map snd cs))" "list_all (pooled_ok w) (map snd cs)" "pool_list p = map snd cs"
    by (rule pool_invE)
  let ?cs = "map (\<lambda>(a, v). (a, keepalive_node p now v)) cs"
  from cs(3) keepalive_loop_chain [of "cp_nodes p" "cp_connections p" "[]" cs "cp_connections p" "keepalive_node p now"]
  obtain st where st: "keepalive_loop (keepalive_node p now) (cp_nodes p) (cp_connections p) = Some (Inr st)"
    "list_in st (cp_connections p) ?cs" by auto
  let ?p = "p\<lparr>cp_nodes := st, cp_mutex := False\<rparr>"
  have snd: "map snd ?cs = map (keepalive_node p now) (map snd cs)" by auto
  have l: "list_in (cp_nodes ?p) (cp_connections ?p) ?cs" using st(2) by simp
  have "pool_inv ?p w"
    using cs by (intro pool_invI(1) [OF cs(1) _ l]) (auto simp only: snd, auto simp: list_all_iff pooled_ok_def comp_def)
  moreover have "pool_list ?p = map (keepalive_node p now) (pool_list p)"
    using pool_list_eq [OF l] snd cs(8) by simp
  ultimately show ?thesis using st(1) cs(2) by (simp add: grpc_keepalive_thread_tick_def)
qed

section \<open>Destroying a pool\<close>

lemma pool_destroy_loop_ok:
  "list_in st (head_of cs) cs \<Longrightarrow> distinct (map pc_connection (map snd cs)) \<Longrightarrow>
   list_all (\<lambda>c. pooled_ok w (snd c) \<and> pc_active_calls (snd c) = 0) cs \<Longrightarrow>
   \<exists>st' w'. pool_destroy_loop (head_of cs) st w = Some (Inr (st', w')) \<and> cells st' = (\<lambda>_. None) \<and>
     w_conns w' = without_conns (map snd cs) (w_conns w)"
proof (induction cs arbitrary: st w)
  case Nil
  then show ?case by (subst pool_destroy_loop.simps) (simp add: without_conns_def)
next
  case (Cons c cs)
  obtain a v where c: "c = (a, v)" by (rule prod.exhaust)
  from Cons.prems(1) [unfolded c] obtain n where n: "cells st a = Some n" "node_val n = v"
    "list_in (st\<lparr>cells := (cells st)(a := None)\<rparr>) (node_next n) cs" by (rule list_in_head)
  then have h: "node_next n = head_of cs" by (auto simp: list_in_def intro: chain_head)
  from Cons.prems(3) c n(2) pooled_destroy_ok [OF n(1), of w] obtain w' x where
    w': "grpc_pooled_connection_destroy (Some a) st w = Inr (st\<lparr>cells := (cells st)(a := None)\<rparr>, w')"
      "pc_connection v = Some x" "w_conns w' = (w_conns w)(x := None)" "w_streams w' = w_streams w" by auto
  have "list_all (pooled_ok w') (map snd cs)"
    using Cons.prems(2,3) c w'(2) by (intro pooled_ok_frame [OF _ w'(3,4)]) (auto simp: list_all_iff)
  with Cons.prems(3) have "list_all (\<lambda>c. pooled_ok w' (snd c) \<and> pc_active_calls (snd c) = 0) cs"
    by (auto simp: list_all_iff)
  from Cons.IH [OF n(3) [unfolded h] _ this] Cons.prems(2) w' c n(1) h show ?case
    by (subst pool_destroy_loop.simps) (auto simp: store_get_def without_conns_def fun_eq_iff)
qed

section \<open>A full pool\<close>

lemma oldest_loop_chain:
  "chain st p cs None \<Longrightarrow> \<exists>r k'. oldest_loop clock st p k best = Some (Inr (r, k')) \<and>
    (r = None \<longleftrightarrow> best = None \<and> (\<forall>c\<in>set cs. pc_active_calls (snd c) \<noteq> 0)) \<and>
    (\<forall>a. r = Some a \<longrightarrow> best \<noteq> None \<and> fst (the best) = a \<or> (\<exists>v. (a, v) \<in> set cs \<and> pc_active_calls v = 0))"
proof (induction cs arbitrary: p k best)
  case Nil
  then show ?case by (subst oldest_loop.simps) auto
next
  case (Cons c cs)
  obtain a v where c: "c = (a, v)" by (rule prod.exhaust)
  from Cons.prems c obtain n where n: "p = Some a" "cells st a = Some n" "node_val n = v"
    "chain st (node_next n) cs None" by (auto split: option.splits)
  show ?case
  proof (cases "pc_active_calls v = 0")
    case True
    let ?best = "if best = None \<or> clock k - pc_last_used v > snd (the best)
      then Some (a, clock k - pc_last_used v) else best"
    from Cons.IH [OF n(4), of "k + 1" ?best] obtain r k' where
      r: "oldest_loop clock st (node_next n) (k + 1) ?best = Some (Inr (r, k'))"
        "r = None \<longleftrightarrow> ?best = None \<and> (\<forall>c\<in>set cs. pc_active_calls (snd c) \<noteq> 0)"
        "\<forall>a. r = Some a \<longrightarrow> ?best \<noteq> None \<and> fst (the ?best) = a \<or> (\<exists>v. (a, v) \<in> set cs \<and> pc_active_calls v = 0)"
      by blast
    have "oldest_loop clock st p k best = Some (Inr (r, k'))"
      using r(1) True n(1-3) by (subst oldest_loop.simps) (simp add: store_get_def split del: if_split cong: if_cong)
    with r(2,3) True c show ?thesis by (auto split: if_splits)
  next
    case False
    from Cons.IH [OF n(4), of k best] obtain r k' where
      r: "oldest_loop clock st (node_next n) k best = Some (Inr (r, k'))"
        "r = None \<longleftrightarrow> best = None \<and> (\<forall>c\<in>set cs. pc_active_calls (snd c) \<noteq> 0)"
        "\<forall>a. r = Some a \<longrightarrow> best \<noteq> None \<and> fst (the best) = a \<or> (\<exists>v. (a, v) \<in> set cs \<and> pc_active_calls v = 0)"
      by blast
    have "oldest_loop clock st p k best = Some (Inr (r, k'))"
      using r(1) False n(1-3) by (subst oldest_loop.simps) (simp add: store_get_def)
    with r(2,3) False c show ?thesis by auto
  qed
qed

lemma pool_find_miss:
  assumes "list_in (cp_nodes p) (cp_connections p) cs" and "\<forall>pc\<in>set (map snd cs). \<not> P pc"
  shows "list_find P (cp_nodes p) (cp_connections p) = Some (Inr None)"
proof -
  have "find (\<lambda>c. P (snd c)) cs = None" using assms(2) by (auto simp: find_None_iff)
  with list_find_chain [of "cp_nodes p" "cp_connections p" cs P] assms(1) show ?thesis by (simp add: list_in_def)
qed

text \<open>After an eviction the list runs into the freed node, whatever \<open>get\<close> does next.\<close>

lemma evicted_dangles:
  assumes "list_in st p (us @ (a, v) # vs)"
  shows "keepalive_loop f (st\<lparr>cells := (cells st)(a := None)\<rparr>) p = Some (Inl Use_After_Free)"
    "keepalive_loop f (snd (store_new (st\<lparr>cells := (cells st)(a := None)\<rparr>) x p)) (Some (brk st)) =
      Some (Inl Use_After_Free)"
proof -
  let ?st = "st\<lparr>cells := (cells st)(a := None)\<rparr>"
  from assms obtain n where ch: "chain st p us (Some a)" and a: "a \<notin> set (map fst us)" by (rule list_in_node)
  from assms have d: "distinct (map fst us)" and b: "brk st \<notin> set (map fst us)" "brk st \<noteq> a"
    by (auto simp: list_in_def)
  have c1: "chain ?st p us (Some a)" using ch a by simp
  then show "keepalive_loop f ?st p = Some (Inl Use_After_Free)"
    using d by (intro keepalive_loop_dangling [of _ _ us a]) simp_all
  let ?st2 = "snd (store_new ?st x p)"
  have "chain ?st2 p us (Some a) = chain ?st p us (Some a)"
    using b(1) by (intro chain_cong) (force simp: store_new_def)
  with c1 have "chain ?st2 (Some (brk st)) ((brk st, x) # us) (Some a)" by (simp add: store_new_def)
  then show "keepalive_loop f ?st2 (Some (brk st)) = Some (Inl Use_After_Free)"
    using d b by (intro keepalive_loop_dangling [of _ _ "(brk st, x) # us" a]) (simp_all add: store_new_def)
qed

text \<open>Evicting an idle node: the pool goes on with a list that still contains the freed node.\<close>

lemma pool_evicts:
  assumes "pool_inv p w" and "list_in (cp_nodes p) (cp_connections p) cs" and "(a, v) \<in> set cs" and "pc_active_calls v = 0"
    and "list_all (pooled_ok w) (map snd cs)"
  obtains st w1 where "grpc_pooled_connection_destroy (Some a) (cp_nodes p) w = Inr (st, w1)" "w_alloc w1 = w_alloc w"
    "\<exists>r p' w'. pool_add_connection clock k
         (p\<lparr>cp_mutex := True, cp_nodes := st, cp_current_connections := cp_current_connections p - 1\<rparr>) t w1 = Inr ((r, p'), w') \<and>
       (alloc_ok (w_alloc w1) \<longrightarrow> r \<noteq> None) \<and> grpc_keepalive_thread_tick now p' = Some (Inl Use_After_Free)"
proof -
  from assms(3) obtain us vs where sp: "cs = us @ (a, v) # vs" by (meson split_list)
  from assms(2) [unfolded sp] obtain n where n: "cells (cp_nodes p) a = Some n" "node_val n = v" by (rule list_in_node)
  have fr: "world_fresh w" using assms(1) by (simp add: pool_inv_def)
  let ?st = "(cp_nodes p)\<lparr>cells := (cells (cp_nodes p))(a := None)\<rparr>"
  from assms(4,5) sp n pooled_destroy_ok [OF n(1), of w] fr obtain w1 where
    d: "grpc_pooled_connection_destroy (Some a) (cp_nodes p) w = Inr (?st, w1)" "world_fresh w1"
      "w_alloc w1 = w_alloc w" by auto
  let ?p = "p\<lparr>cp_mutex := True, cp_nodes := ?st, cp_current_connections := cp_current_connections p - 1\<rparr>"
  note dangles = evicted_dangles [OF assms(2) [unfolded sp]]
  from d(2) have "\<exists>r p' w'. pool_add_connection clock k ?p t w1 = Inr ((r, p'), w') \<and>
      (alloc_ok (w_alloc w1) \<longrightarrow> r \<noteq> None) \<and> grpc_keepalive_thread_tick now p' = Some (Inl Use_After_Free)"
  proof (cases rule: pool_add_raw [where clock = clock and k = k and p = ?p and t = t])
    case (failed w')
    with dangles(1) show ?thesis by (simp add: grpc_keepalive_thread_tick_def)
  next
    case (created w')
    with dangles(2) show ?thesis by (simp add: grpc_keepalive_thread_tick_def)
  qed
  with d(1,3) show ?thesis by (rule that)
qed

lemma pool_get_full:
  assumes "pool_inv p w" and "cp_current_connections p = cp_max_connections p"
    and "\<forall>pc\<in>set (pool_list p). \<not> (pc_is_healthy pc \<and> pc_target pc = t)"
  shows "if \<forall>pc\<in>set (pool_list p). pc_active_calls pc \<noteq> 0
    then grpc_connection_pool_get clock (Some p) (Some t) w = Some (Inr ((None, Some p), w))
    else \<exists>r p' w'. grpc_connection_pool_get clock (Some p) (Some t) w = Some (Inr ((r, Some p'), w')) \<and>
      (alloc_ok (w_alloc w) \<longrightarrow> r \<noteq> None) \<and> grpc_keepalive_thread_tick now p' = Some (Inl Use_After_Free)"
proof -
  from assms(1) obtain cs where cs: "world_fresh w" "\<not> cp_mutex p" "list_in (cp_nodes p) (cp_connections p) cs"
    "cp_current_connections p = length cs" "length cs \<le> cp_max_connections p"
    "distinct (map pc_connection (map snd cs))" "list_all (pooled_ok w) (map snd cs)" "pool_list p = map snd cs"
    by (rule pool_invE)
  have same: "p\<lparr>cp_mutex := False\<rparr> = p" using cs(2) by (cases p) simp
  from cs(3) assms(3) cs(8)
  have miss: "list_find (\<lambda>c. pc_is_healthy c \<and> pc_target c = t) (cp_nodes p) (cp_connections p) = Some (Inr None)"
    by (intro pool_find_miss) auto
  from oldest_loop_chain [of "cp_nodes p" "cp_connections p" cs clock 0 None] cs(3) obtain r k where
    r: "oldest_loop clock (cp_nodes p) (cp_connections p) 0 None = Some (Inr (r, k))"
      "r = None \<longleftrightarrow> (\<forall>c\<in>set cs. pc_active_calls (snd c) \<noteq> 0)"
      "\<forall>a. r = Some a \<longrightarrow> (\<exists>v. (a, v) \<in> set cs \<and> pc_active_calls v = 0)"
    by (auto simp: list_in_def)
  show ?thesis
  proof (cases r)
    case None
    with r(2) cs(8) have "\<forall>pc\<in>set (pool_list p). pc_active_calls pc \<noteq> 0" by auto
    with None r(1) miss assms(2) cs(2) same show ?thesis
      by (simp add: grpc_connection_pool_get_def pool_get_locked_def)
  next
    case (Some a)
    with r(3) obtain v where v: "(a, v) \<in> set cs" "pc_active_calls v = 0" by blast
    from assms(1) cs(3) v cs(7) obtain st w1 where
      d: "grpc_pooled_connection_destroy (Some a) (cp_nodes p) w = Inr (st, w1)" "w_alloc w1 = w_alloc w"
      "\<exists>r p' w'. pool_add_connection clock k
         (p\<lparr>cp_mutex := True, cp_nodes := st, cp_current_connections := cp_current_connections p - 1\<rparr>) t w1 = Inr ((r, p'), w') \<and>
       (alloc_ok (w_alloc w1) \<longrightarrow> r \<noteq> None) \<and> grpc_keepalive_thread_tick now p' = Some (Inl Use_After_Free)"
      by (rule pool_evicts)
    have "\<exists>r p' w'. grpc_connection_pool_get clock (Some p) (Some t) w = Some (Inr ((r, Some p'), w')) \<and>
      (alloc_ok (w_alloc w) \<longrightarrow> r \<noteq> None) \<and> grpc_keepalive_thread_tick now p' = Some (Inl Use_After_Free)"
      using Some r(1) miss assms(2) cs(2) d
      by (auto simp: grpc_connection_pool_get_def pool_get_locked_def pool_evict_def bnd_def)
    moreover have "\<not> (\<forall>pc\<in>set (pool_list p). pc_active_calls pc \<noteq> 0)" using v cs(8) by force
    ultimately show ?thesis by (simp only: if_False)
  qed
qed

section \<open>A pool with room\<close>

lemma pool_get_ok:
  assumes "pool_inv p w" and "cp_current_connections p < cp_max_connections p"
  shows "\<exists>r p' w'. grpc_connection_pool_get clock (Some p) (Some t) w = Some (Inr ((r, Some p'), w')) \<and>
    (case find (\<lambda>c. pc_is_healthy c \<and> pc_target c = t) (pool_list p) of
       Some pc \<Rightarrow> r = pc_connection pc \<and> w' = w \<and> (pc_active_calls pc \<noteq> 2 ^ 31 - 1 \<longrightarrow> pool_inv p' w') \<and>
         (\<exists>us vs. pool_list p = us @ pc # vs \<and> pool_list p' =
           us @ pc\<lparr>pc_last_used := clock 0, pc_active_calls := to_int32 (pc_active_calls pc + 1)\<rparr> # vs)
     | None \<Rightarrow> pool_inv p' w' \<and>
         (case r of
            None \<Rightarrow> \<not> alloc_ok (w_alloc w) \<and> p' = p \<and> w_conns w' = w_conns w
          | Some c \<Rightarrow> w_conns w c = None \<and> w_conns w' = (w_conns w)(c \<mapsto> conn_fresh True) \<and>
              pool_list p' = pooled_new clock 0 t c # pool_list p))"
proof (cases "find (\<lambda>c. pc_is_healthy c \<and> pc_target c = t) (pool_list p)")
  case (Some pc)
  then obtain us vs where sp: "pool_list p = us @ pc # vs" "\<forall>u\<in>set us. \<not> (pc_is_healthy u \<and> pc_target u = t)"
    "pc_is_healthy pc" "pc_target pc = t" by (auto dest!: find_SomeD_split)
  from pool_get_hit [OF assms(1) sp, of clock] Some sp(1) show ?thesis by auto
next
  case None
  from assms(1) have m: "\<not> cp_mutex p" by (auto elim: pool_invE)
  from assms(1) obtain cs where cs: "list_in (cp_nodes p) (cp_connections p) cs" "pool_list p = map snd cs"
    by (auto elim: pool_invE)
  from None cs(2) have "list_find (\<lambda>c. pc_is_healthy c \<and> pc_target c = t) (cp_nodes p) (cp_connections p) = Some (Inr None)"
    by (intro pool_find_miss [OF cs(1)]) (auto simp: find_None_iff)
  with m assms(2) have get: "grpc_connection_pool_get clock (Some p) (Some t) w =
      Some (map_sum id (\<lambda>((r, p'), w'). ((r, Some p'), w')) (pool_add_connection clock 0 (p\<lparr>cp_mutex := True\<rparr>) t w))"
    by (simp add: grpc_connection_pool_get_def pool_get_locked_def)
  from assms show ?thesis
  proof (cases rule: pool_add_ok [where clock = clock and k = 0 and t = t])
    case (failed w')
    with get None show ?thesis by simp
  next
    case (created p' w')
    with get None show ?thesis by simp
  qed
qed

section \<open>Properties\<close>

text \<open>
  C26. Asking a pool with room for a connection to a target: the first healthy connection to that
  target is handed out again, with one more active call (in 32 bits); if there is none, a fresh
  connection that nothing else uses is made and put in the pool, or, when memory runs out, nothing
  changes and \<open>NULL\<close> is returned. No access faults, and the invariant of the pool holds afterwards
  unless the counter of the connection handed out had its largest value.
\<close>

theorem grpc_connection_pool_get_reuses_or_creates:
  assumes "pool_inv p w" and "cp_current_connections p < cp_max_connections p"
  shows "\<exists>r p' w'. grpc_connection_pool_get clock (Some p) (Some t) w = Some (Inr ((r, Some p'), w')) \<and>
    (case find (\<lambda>c. pc_is_healthy c \<and> pc_target c = t) (pool_list p) of
       Some pc \<Rightarrow> r = pc_connection pc \<and> w' = w \<and> (pc_active_calls pc \<noteq> 2 ^ 31 - 1 \<longrightarrow> pool_inv p' w') \<and>
         (\<exists>us vs. pool_list p = us @ pc # vs \<and> pool_list p' =
           us @ pc\<lparr>pc_last_used := clock 0, pc_active_calls := to_int32 (pc_active_calls pc + 1)\<rparr> # vs)
     | None \<Rightarrow> pool_inv p' w' \<and>
         (case r of
            None \<Rightarrow> \<not> alloc_ok (w_alloc w) \<and> p' = p \<and> w_conns w' = w_conns w
          | Some c \<Rightarrow> w_conns w c = None \<and> w_conns w' = (w_conns w)(c \<mapsto> conn_fresh True) \<and>
              pool_list p' = pooled_new clock 0 t c # pool_list p))"
  using assms by (rule pool_get_ok)

definition pool_demo :: grpc_connection_pool where
  "pool_demo = the (fst (grpc_connection_pool_create 1 0 True []))"

lemma pool_demo_inv: "pool_inv pool_demo world_empty" "pool_list pool_demo = []"
    "cp_current_connections pool_demo = 0" "cp_max_connections pool_demo = 1"
  by (simp_all add: pool_demo_def grpc_connection_pool_create_def pool_inv_def pool_list_def world_fresh_def
      world_empty_def store_empty_def)

text \<open>A pool of size one that holds an idle connection.\<close>

definition pooled_demo :: grpc_pooled_connection where
  "pooled_demo = \<lparr>pc_target = ''h:1'', pc_connection = Some 0, pc_last_used = 0, pc_last_keepalive = 0,
     pc_active_calls = 0, pc_is_healthy = True\<rparr>"

definition pool_full :: grpc_connection_pool where
  "pool_full = pool_demo\<lparr>cp_nodes := snd (store_new store_empty pooled_demo None), cp_connections := Some 0,
     cp_current_connections := 1\<rparr>"

lemma pool_full_inv: "pool_inv pool_full (world_with_conn 7)" "pool_list pool_full = [pooled_demo]"
    "cp_current_connections pool_full = cp_max_connections pool_full"
proof -
  have b: "brk (store_empty :: grpc_pooled_connection store) = 0" by (simp add: store_empty_def)
  have l: "list_in (cp_nodes pool_full) (cp_connections pool_full) [(0, pooled_demo)]"
    using list_in_new_front [OF list_in_empty, of pooled_demo, unfolded b] by (simp add: pool_full_def)
  have m: "cp_max_connections pool_full = 1" "cp_current_connections pool_full = 1" "\<not> cp_mutex pool_full"
    by (simp_all add: pool_full_def pool_demo_def grpc_connection_pool_create_def)
  have "pooled_ok (world_with_conn 7) pooled_demo"
    by (simp add: pooled_ok_def pooled_demo_def conn_ok_with_conn)
  with m show "pool_inv pool_full (world_with_conn 7)"
    by (intro pool_invI(1) [OF conn_ok_with_conn(2) _ l]) simp_all
  show "pool_list pool_full = [pooled_demo]" using pool_list_eq [OF l] by simp
  show "cp_current_connections pool_full = cp_max_connections pool_full" using m by simp
qed

theorem grpc_connection_pool_get_reuses_or_creates_witness:
  "\<exists>c p' w'. grpc_connection_pool_get (\<lambda>_. 5) (Some pool_demo) (Some ''h:1'') world_empty = Some (Inr ((Some c, Some p'), w')) \<and>
    pool_list p' = [pooled_new (\<lambda>_. 5) 0 ''h:1'' c]"
proof -
  have "cp_current_connections pool_demo < cp_max_connections pool_demo" by (simp add: pool_demo_inv)
  from grpc_connection_pool_get_reuses_or_creates [OF pool_demo_inv(1) this, of "\<lambda>_. 5" "''h:1''"] show ?thesis
    by (auto simp: pool_demo_inv(2) world_empty_def split: option.splits)
qed

text \<open>
  A connection that a pool with room handed out can be returned at once: the result is 0,
  every connection of the pool has as many active calls as before it was asked for (a new one
  none), and none was added or lost in between. No counter may be at its largest value before.
\<close>

theorem grpc_connection_pool_get_return_roundtrip:
  assumes "pool_inv p w" and "cp_current_connections p < cp_max_connections p"
    and "\<forall>pc\<in>set (pool_list p). pc_active_calls pc \<noteq> 2 ^ 31 - 1"
    and "grpc_connection_pool_get clock (Some p) (Some t) w = Some (Inr ((Some c, Some p1), w1))"
  shows "\<exists>p2. grpc_connection_pool_return clock' (Some p1) (Some t) (Some c) = Some (Inr (0, Some p2)) \<and> pool_inv p2 w1 \<and>
    map (\<lambda>pc. (pc_connection pc, pc_active_calls pc)) (pool_list p2) =
      (if w_conns w c = None then [(Some c, 0)] else []) @
      map (\<lambda>pc. (pc_connection pc, pc_active_calls pc)) (pool_list p)"
proof -
  note ok = pool_get_ok [OF assms(1,2), of clock t]
  show ?thesis
  proof (cases "find (\<lambda>c. pc_is_healthy c \<and> pc_target c = t) (pool_list p)")
    case None
    with ok assms(4) have g: "pool_inv p1 w1" "w_conns w c = None" "w_conns w1 = (w_conns w)(c \<mapsto> conn_fresh True)"
      "pool_list p1 = [] @ pooled_new clock 0 t c # pool_list p" by auto
    have "streams_of w1 c = []" using g(3) by (intro conn_ok_fresh) simp
    with pool_return_ok [OF g(1,4), of c t clock'] g(2,4) show ?thesis by (auto simp: pooled_new_def)
  next
    case (Some pc)
    then have "pc \<in> set (pool_list p)" by (auto dest!: find_SomeD_split)
    with assms(1,3) have room: "pc_active_calls pc \<noteq> 2 ^ 31 - 1" "pooled_ok w pc" by (auto simp: pool_inv_def list_all_iff)
    note room = room(1) one_more_call(1) [OF room(2,1)]
    from Some ok assms(4) room obtain us vs where g: "pool_inv p1 w1" "pc_connection pc = Some c" "w1 = w"
      "pool_list p = us @ pc # vs"
      "pool_list p1 = us @ pc\<lparr>pc_last_used := clock 0, pc_active_calls := pc_active_calls pc + 1\<rparr> # vs" by auto
    from Some have t: "pc_target pc = t" by (auto dest!: find_SomeD_split)
    from assms(1) g(2,4) have pc: "0 \<le> pc_active_calls pc" "pc_active_calls pc = 0 \<longrightarrow> streams_of w c = []"
      "w_conns w c \<noteq> None" "Some c \<notin> set (map pc_connection us)"
      by (auto simp: pool_inv_def pooled_ok_def conn_ok_def)
    have "\<forall>u\<in>set us. \<not> (pc_connection u = Some c \<and> pc_target u = t)" using pc(4) by force
    from pool_return_ok [OF g(1,5) this, of clock'] g(2,3) t pc(1,2) obtain p2 where
      "grpc_connection_pool_return clock' (Some p1) (Some t) (Some c) = Some (Inr (0, Some p2))" "pool_inv p2 w1"
      "pool_list p2 = us @ pc\<lparr>pc_active_calls := max 0 (pc_active_calls pc), pc_last_used := clock' 0\<rparr> # vs" by auto
    with g(2,4) pc show ?thesis by (auto simp: max_def)
  qed
qed

theorem grpc_connection_pool_get_return_roundtrip_witness:
  "\<exists>c p1 w1 p2. grpc_connection_pool_get (\<lambda>_. 5) (Some pool_demo) (Some ''h:1'') world_empty = Some (Inr ((Some c, Some p1), w1)) \<and>
    grpc_connection_pool_return (\<lambda>_. 6) (Some p1) (Some ''h:1'') (Some c) = Some (Inr (0, Some p2)) \<and>
    map (\<lambda>pc. (pc_connection pc, pc_active_calls pc)) (pool_list p2) = [(Some c, 0)]"
proof -
  have lt: "cp_current_connections pool_demo < cp_max_connections pool_demo" by (simp add: pool_demo_inv)
  from pool_get_ok [OF pool_demo_inv(1) this, of "\<lambda>_. 5" "''h:1''"] obtain c p1 w1 where
    g: "grpc_connection_pool_get (\<lambda>_. 5) (Some pool_demo) (Some ''h:1'') world_empty = Some (Inr ((Some c, Some p1), w1))"
    by (auto simp: pool_demo_inv(2) world_empty_def split: option.splits)
  from grpc_connection_pool_get_return_roundtrip [OF pool_demo_inv(1) lt _ g, of "\<lambda>_. 6"] g show ?thesis
    by (auto simp: pool_demo_inv(2) world_empty_def)
qed

text \<open>
  C28. A round of the keep-alive thread followed by a cleanup: exactly the connections without
  calls that were already unhealthy or unused for the idle timeout disappear, in order and each
  with its HTTP/2 connection freed; all others stay, their HTTP/2 connections untouched, and the
  invariant of the pool holds.
\<close>

theorem grpc_connection_pool_keepalive_cleanup:
  assumes "pool_inv p w"
  shows "\<exists>p1 p2 w2. grpc_keepalive_thread_tick now p = Some (Inr p1) \<and>
    grpc_connection_pool_cleanup_idle (Some p1) w = Some (Inr (Some p2, w2)) \<and> pool_inv p2 w2 \<and>
    pool_list p2 = filter (\<lambda>pc. \<not> reclaimable pc) (map (keepalive_node p now) (pool_list p)) \<and>
    (\<forall>pc\<in>set (pool_list p). reclaimable (keepalive_node p now pc) \<longleftrightarrow> pc_active_calls pc = 0 \<and>
      (\<not> pc_is_healthy pc \<or> 0 < cp_idle_timeout_ms p \<and> cp_idle_timeout_ms p \<le> (now - pc_last_used pc) * 1000)) \<and>
    w_conns w2 = without_conns (filter reclaimable (map (keepalive_node p now) (pool_list p))) (w_conns w)"
proof -
  from pool_tick_ok [OF assms, of now] obtain p1 where
    p1: "grpc_keepalive_thread_tick now p = Some (Inr p1)" "pool_inv p1 w"
      "pool_list p1 = map (keepalive_node p now) (pool_list p)" by blast
  from pool_cleanup_ok [OF p1(2)] obtain p2 w2 where
    p2: "grpc_connection_pool_cleanup_idle (Some p1) w = Some (Inr (Some p2, w2))" "pool_inv p2 w2"
      "pool_list p2 = filter (\<lambda>pc. \<not> reclaimable pc) (pool_list p1)"
      "w_conns w2 = without_conns (filter reclaimable (pool_list p1)) (w_conns w)" by blast
  have "reclaimable (keepalive_node p now pc) \<longleftrightarrow> pc_active_calls pc = 0 \<and>
      (\<not> pc_is_healthy pc \<or> 0 < cp_idle_timeout_ms p \<and> cp_idle_timeout_ms p \<le> (now - pc_last_used pc) * 1000)" for pc
    by (auto simp: reclaimable_def keepalive_node_def Let_def)
  with p1 p2 show ?thesis by auto
qed

theorem grpc_connection_pool_keepalive_cleanup_witness:
  "\<exists>p1 p2 w2. grpc_keepalive_thread_tick 31 pool_full = Some (Inr p1) \<and>
    grpc_connection_pool_cleanup_idle (Some p1) (world_with_conn 7) = Some (Inr (Some p2, w2)) \<and>
    pool_list p2 = [] \<and> w_conns w2 0 = None"
proof -
  have "reclaimable (keepalive_node pool_full 31 pooled_demo)"
    by (simp add: reclaimable_def keepalive_node_def pooled_demo_def pool_full_def pool_demo_def
        grpc_connection_pool_create_def)
  with grpc_connection_pool_keepalive_cleanup [OF pool_full_inv(1), of 31] show ?thesis
    by (auto simp: pool_full_inv(2) without_conns_def pooled_demo_def)
qed

text \<open>
  C40. A full pool that holds an idle connection to another target hands out a new connection by
  destroying the idle one, but leaves it in the list: the next round of the keep-alive thread
  touches freed memory. A full pool without idle connections returns \<open>NULL\<close> and is unchanged.
\<close>

theorem grpc_connection_pool_eviction_dangles:
  assumes "pool_inv p w" and "cp_current_connections p = cp_max_connections p"
    and "\<forall>pc\<in>set (pool_list p). \<not> (pc_is_healthy pc \<and> pc_target pc = t)"
  shows "if \<forall>pc\<in>set (pool_list p). pc_active_calls pc \<noteq> 0
    then grpc_connection_pool_get clock (Some p) (Some t) w = Some (Inr ((None, Some p), w))
    else \<exists>r p' w'. grpc_connection_pool_get clock (Some p) (Some t) w = Some (Inr ((r, Some p'), w')) \<and>
      (alloc_ok (w_alloc w) \<longrightarrow> r \<noteq> None) \<and> grpc_keepalive_thread_tick now p' = Some (Inl Use_After_Free)"
  using assms by (rule pool_get_full)

theorem grpc_connection_pool_eviction_dangles_witness:
  "\<exists>c p' w'. grpc_connection_pool_get (\<lambda>_. 9) (Some pool_full) (Some ''other:2'') (world_with_conn 7) =
      Some (Inr ((Some c, Some p'), w')) \<and> grpc_keepalive_thread_tick 10 p' = Some (Inl Use_After_Free)"
proof -
  have "\<forall>pc\<in>set (pool_list pool_full). \<not> (pc_is_healthy pc \<and> pc_target pc = ''other:2'')"
    by (simp add: pool_full_inv(2) pooled_demo_def)
  note get = grpc_connection_pool_eviction_dangles [OF pool_full_inv(1,3) this, of "\<lambda>_. 9" 10]
  have "pc_active_calls pooled_demo = 0" "alloc_ok (w_alloc (world_with_conn 7))"
    by (simp_all add: pooled_demo_def world_with_conn_def world_empty_def)
  with get show ?thesis by (auto simp: pool_full_inv(2))
qed

text \<open>Destroying a pool whose connections are all idle frees every node and every connection, if
  the keep-alive thread was started.\<close>

lemma grpc_connection_pool_destroy_frees:
  assumes "pool_inv p w" and "\<forall>pc\<in>set (pool_list p). pc_active_calls pc = 0" and "cp_keepalive_thread p"
  shows "\<exists>st w'. grpc_connection_pool_destroy (Some p) w = Some (Inr (Some st, w')) \<and> cells st = (\<lambda>_. None) \<and>
    w_conns w' = without_conns (pool_list p) (w_conns w)"
proof -
  from assms(1) obtain cs where cs: "world_fresh w" "\<not> cp_mutex p" "list_in (cp_nodes p) (cp_connections p) cs"
    "cp_current_connections p = length cs" "length cs \<le> cp_max_connections p"
    "distinct (map pc_connection (map snd cs))" "list_all (pooled_ok w) (map snd cs)" "pool_list p = map snd cs"
    by (rule pool_invE)
  have h: "cp_connections p = head_of cs" using cs(3) by (auto simp: list_in_def intro: chain_head)
  from cs(7,8) assms(2) have "list_all (\<lambda>c. pooled_ok w (snd c) \<and> pc_active_calls (snd c) = 0) cs"
    by (auto simp: list_all_iff)
  from pool_destroy_loop_ok [OF cs(3) [unfolded h] cs(6) this] cs(2,8) assms(3) h show ?thesis
    by (auto simp: grpc_connection_pool_destroy_def)
qed

end
