(* ===== verification/Pool_Leases.thy ===== *)
theory Pool_Leases
  imports Connection_Pool "HOL-Library.Multiset"
begin

text \<open>
  The connection pool of \<^verbatim>\<open>src/connection_pool.c\<close> over time: clients ask for connections, open and
  close streams on the ones they hold and give them back, while the keep-alive thread runs its
  rounds and idle connections are cleaned up, in any order. A lease is a connection with the
  target it was asked for; a connection can be leased several times. The clients keep these rules:
  they return only what they hold, and they close the streams of a connection before they return
  its last lease. They hold less than \<open>2 ^ 31\<close> leases at any time, so that no counter of active
  calls overflows. Runs in which a full pool evicts an idle connection are left out: after an
  eviction the list of the pool has a dangling pointer.
\<close>

section \<open>Runs\<close>

text \<open>The situation in which \<open>grpc_connection_pool_get\<close> evicts.\<close>

definition evicts :: "grpc_connection_pool \<Rightarrow> string \<Rightarrow> bool" where
  "evicts p t \<longleftrightarrow> find (\<lambda>pc. pc_is_healthy pc \<and> pc_target pc = t) (pool_list p) = None \<and>
     cp_max_connections p \<le> cp_current_connections p \<and>
     find (\<lambda>pc. pc_active_calls pc = 0) (pool_list p) \<noteq> None"

type_synonym lease = "addr \<times> string"

inductive pool_run :: "grpc_connection_pool \<Rightarrow> world \<Rightarrow> lease multiset \<Rightarrow> bool" where
  run_create: "pool_run p w {#}"
    if "grpc_connection_pool_create n idle started os = (Some p, os')" "world_fresh w"
| run_get: "pool_run p' w' (add_mset (c, t) L)"
    if "pool_run p w L" "\<not> evicts p t" "size L + 1 < 2 ^ 31"
      "grpc_connection_pool_get clock (Some p) (Some t) w = Some (Inr ((Some c, Some p'), w'))"
| run_get_none: "pool_run p' w' L"
    if "pool_run p w L" "\<not> evicts p t" "size L + 1 < 2 ^ 31"
      "grpc_connection_pool_get clock (Some p) (Some t) w = Some (Inr ((None, Some p'), w'))"
| run_return: "pool_run p' w (L - {#(c, t)#})"
    if "pool_run p w L" "(c, t) \<in># L" "count L (c, t) = 1 \<longrightarrow> streams_of w c = []"
      "grpc_connection_pool_return clock (Some p) (Some t) (Some c) = Some (Inr (r, Some p'))"
| run_tick: "pool_run p' w L"
    if "pool_run p w L" "grpc_keepalive_thread_tick now p = Some (Inr p')"
| run_cleanup: "pool_run p' w' L"
    if "pool_run p w L" "grpc_connection_pool_cleanup_idle (Some p) w = Some (Inr (Some p', w'))"
| run_set_keepalive: "pool_run p' w L"
    if "pool_run p w L" "grpc_connection_pool_set_keepalive (Some p) i tm b = Inr (r, Some p')"
| run_open: "pool_run p w' L"
    if "pool_run p w L" "(c, t) \<in># L" "http2_stream_create (Some c) i w = Inr (s, w')"
| run_close: "pool_run p w' L"
    if "pool_run p w L" "(c, t) \<in># L" "s \<in> set (streams_of w c)" "http2_stream_destroy (Some s) w = Inr ((), w')"

section \<open>The books\<close>

text \<open>Every pooled connection has as many active calls as it has leases, and every lease is of a
  pooled connection.\<close>

definition leases_of :: "lease multiset \<Rightarrow> grpc_pooled_connection \<Rightarrow> nat" where
  "leases_of L pc = count L (the (pc_connection pc), pc_target pc)"

definition lease_inv :: "grpc_connection_pool \<Rightarrow> world \<Rightarrow> lease multiset \<Rightarrow> bool" where
  "lease_inv p w L \<longleftrightarrow> pool_inv p w \<and>
     (\<forall>pc\<in>set (pool_list p). pc_active_calls pc = int (leases_of L pc)) \<and>
     (\<forall>(c, t)\<in>set_mset L. \<exists>pc\<in>set (pool_list p). pc_connection pc = Some c \<and> pc_target pc = t)"

lemma lease_invD:
  assumes "lease_inv p w L"
  shows "pool_inv p w" "pc \<in> set (pool_list p) \<Longrightarrow> pc_active_calls pc = int (leases_of L pc)"
    "(c, t) \<in># L \<Longrightarrow> \<exists>pc\<in>set (pool_list p). pc_connection pc = Some c \<and> pc_target pc = t"
  using assms unfolding lease_inv_def by fast+

lemma lease_invI:
  assumes "pool_inv p w" and "\<And>pc. pc \<in> set (pool_list p) \<Longrightarrow> pc_active_calls pc = int (leases_of L pc)"
    and "\<And>c t. (c, t) \<in># L \<Longrightarrow> \<exists>pc\<in>set (pool_list p). pc_connection pc = Some c \<and> pc_target pc = t"
  shows "lease_inv p w L"
  using assms unfolding lease_inv_def by blast

lemma lease_held:
  assumes "lease_inv p w L" and "(c, t) \<in># L"
  obtains us pc vs where "pool_list p = us @ pc # vs" "pc_connection pc = Some c" "pc_target pc = t"
    "\<forall>u\<in>set (us @ vs). pc_connection u \<noteq> Some c" "conn_ok w c" "pc_active_calls pc = int (count L (c, t))" "0 < pc_active_calls pc"
proof -
  from lease_invD(3) [OF assms] obtain pc where pc: "pc \<in> set (pool_list p)" "pc_connection pc = Some c" "pc_target pc = t"
    by blast
  from pc(1) obtain us vs where sp: "pool_list p = us @ pc # vs" by (meson split_list)
  from lease_invD(1) [OF assms(1)] have d: "distinct (map pc_connection (pool_list p))" "pooled_ok w pc"
    using pc(1) by (auto simp: pool_inv_def list_all_iff)
  then have "\<forall>u\<in>set (us @ vs). pc_connection u \<noteq> Some c" using sp pc(2) by force
  moreover have "0 < count L (c, t)" using assms(2) by simp
  ultimately show ?thesis
    using that [OF sp pc(2,3)] d(2) pc lease_invD(2) [OF assms(1) pc(1)] by (auto simp: pooled_ok_def leases_of_def)
qed

lemma pool_conn_other:
  assumes "pool_inv p w" and "pool_list p = us @ pc # vs" and "x \<in> set (us @ vs)"
  shows "pc_connection x \<noteq> pc_connection pc" "\<exists>c. pc_connection x = Some c"
proof -
  from assms(1) have d: "distinct (map pc_connection (pool_list p))" and ok: "list_all (pooled_ok w) (pool_list p)"
    by (simp_all add: pool_inv_def)
  have "pc_connection pc \<notin> set (map pc_connection (us @ vs))" using d by (simp add: assms(2))
  moreover have "pc_connection x \<in> set (map pc_connection (us @ vs))" using assms(3) by auto
  ultimately show "pc_connection x \<noteq> pc_connection pc" by metis
  show "\<exists>c. pc_connection x = Some c"
    using ok assms(3) unfolding assms(2) by (auto simp: list_all_iff pooled_ok_def)
qed

text \<open>One pooled connection gets or loses leases, the others keep theirs.\<close>

lemma lease_inv_replace:
  assumes "lease_inv p w L" and "pool_list p = us @ pc # vs" and "pc_connection pc = Some c" and "pc_target pc = t"
    and "pool_inv p' w" and "pool_list p' = us @ pc' # vs" and "pc_connection pc' = Some c" and "pc_target pc' = t"
    and "pc_active_calls pc' = int (count L' (c, t))" and "\<And>l. l \<noteq> (c, t) \<Longrightarrow> count L' l = count L l"
  shows "lease_inv p' w L'"
proof (rule lease_invI)
  show "pool_inv p' w" by fact
  show "pc_active_calls x = int (leases_of L' x)" if "x \<in> set (pool_list p')" for x
  proof (cases "x \<in> set (us @ vs)")
    case True
    from pool_conn_other [OF lease_invD(1) [OF assms(1)] assms(2) True] assms(3)
    have "(the (pc_connection x), pc_target x) \<noteq> (c, t)" by auto
    then have "leases_of L' x = leases_of L x" unfolding leases_of_def by (rule assms(10))
    with True lease_invD(2) [OF assms(1), of x] assms(2) show ?thesis by simp
  next
    case False
    with that assms(6) have "x = pc'" by auto
    with assms(7-9) show ?thesis by (simp add: leases_of_def)
  qed
  show "\<exists>x\<in>set (pool_list p'). pc_connection x = Some d \<and> pc_target x = u" if "(d, u) \<in># L'" for d u
  proof (cases "(d, u) = (c, t)")
    case True
    with assms(6-8) show ?thesis by simp
  next
    case False
    with that assms(10) have "(d, u) \<in># L" by (metis count_greater_zero_iff)
    from lease_invD(3) [OF assms(1) this] False assms(2-4,6) show ?thesis by fastforce
  qed
qed

section \<open>Operations of the pool\<close>

lemma pool_get_cases:
  assumes "pool_inv p w" and "\<not> evicts p t"
  obtains (hit) us pc vs p' where "pool_list p = us @ pc # vs" "pc_target pc = t"
      "grpc_connection_pool_get clock (Some p) (Some t) w = Some (Inr ((pc_connection pc, Some p'), w))"
      "pc_active_calls pc \<noteq> 2 ^ 31 - 1 \<Longrightarrow> pool_inv p' w"
      "pool_list p' = us @ pc\<lparr>pc_last_used := clock 0, pc_active_calls := to_int32 (pc_active_calls pc + 1)\<rparr> # vs"
  | (fresh) c p' w' where
      "grpc_connection_pool_get clock (Some p) (Some t) w = Some (Inr ((Some c, Some p'), w'))" "pool_inv p' w'"
      "w_conns w c = None" "pool_list p' = pooled_new clock 0 t c # pool_list p"
  | (none) w' where
      "grpc_connection_pool_get clock (Some p) (Some t) w = Some (Inr ((None, Some p), w'))" "pool_inv p w'"
proof (cases "find (\<lambda>pc. pc_is_healthy pc \<and> pc_target pc = t) (pool_list p)")
  case (Some pc)
  then obtain us vs where sp: "pool_list p = us @ pc # vs" "\<forall>u\<in>set us. \<not> (pc_is_healthy u \<and> pc_target u = t)"
    "pc_is_healthy pc" "pc_target pc = t" by (auto dest!: find_SomeD_split)
  from pool_get_hit [OF assms(1) sp, of clock] sp(1,4) hit show ?thesis by blast
next
  case None
  show ?thesis
  proof (cases "cp_current_connections p < cp_max_connections p")
    case True
    from pool_get_ok [OF assms(1) True, of clock t] None fresh none show ?thesis
      by (auto split: option.split_asm)
  next
    case False
    then have full: "cp_current_connections p = cp_max_connections p" using assms(1) by (simp add: pool_inv_def)
    have "\<forall>pc\<in>set (pool_list p). \<not> (pc_is_healthy pc \<and> pc_target pc = t)" using None by (auto simp: find_None_iff)
    from pool_get_full [OF assms(1) full this, of clock] assms(2) None full
    have "grpc_connection_pool_get clock (Some p) (Some t) w = Some (Inr ((None, Some p), w))"
      by (auto simp: evicts_def find_None_iff)
    then show ?thesis using assms(1) by (rule none)
  qed
qed

lemma lease_inv_get:
  assumes "lease_inv p w L" and "\<not> evicts p t" and "size L + 1 < 2 ^ 31"
  obtains (leased) c p' w' where "grpc_connection_pool_get clock (Some p) (Some t) w = Some (Inr ((Some c, Some p'), w'))"
      "lease_inv p' w' (add_mset (c, t) L)"
  | (refused) p' w' where "grpc_connection_pool_get clock (Some p) (Some t) w = Some (Inr ((None, Some p'), w'))"
      "lease_inv p' w' L"
proof -
  note inv = lease_invD(1) [OF assms(1)] and cnt = lease_invD(2) [OF assms(1)] and lst = lease_invD(3) [OF assms(1)]
  from inv assms(2) show ?thesis
  proof (cases rule: pool_get_cases [where clock = clock])
    case (hit us pc vs p')
    from inv hit(1) obtain c where c: "pc_connection pc = Some c" by (auto simp: pool_inv_def pooled_ok_def)
    have n: "pc_active_calls pc = int (count L (c, t))" using cnt [of pc] hit(1,2) c by (simp add: leases_of_def)
    with count_le_size [of L "(c, t)"] assms(3) have room: "pc_active_calls pc \<noteq> 2 ^ 31 - 1" by simp
    have "pooled_ok w pc" using inv hit(1) by (simp add: pool_inv_def)
    from n one_more_call(1) [OF this room] have "lease_inv p' w (add_mset (c, t) L)"
      by (intro lease_inv_replace [OF assms(1) hit(1) c hit(2) hit(4) [OF room] hit(5)]) (use hit(2) c in simp_all)
    with leased hit(3) c show ?thesis by simp
  next
    case (fresh c p' w')
    have new: "pc_connection x \<noteq> Some c" if "x \<in> set (pool_list p)" for x
      using inv that fresh(3) by (force simp: pool_inv_def list_all_iff pooled_ok_def conn_ok_def)
    then have "(c, u) \<notin># L" for u using lst by blast
    then have "count L (c, t) = 0" by (simp add: not_in_iff)
    let ?L = "add_mset (c, t) L"
    have "pc_active_calls x = int (leases_of ?L x)" if "x \<in> set (pool_list p')" for x
      using that cnt new fresh(4) \<open>count L (c, t) = 0\<close> inv
      by (force simp: leases_of_def pooled_new_def pool_inv_def list_all_iff pooled_ok_def)
    moreover have "\<exists>x\<in>set (pool_list p'). pc_connection x = Some d \<and> pc_target x = u" if "(d, u) \<in># ?L" for d u
      using that lst fresh(4) by (fastforce simp: pooled_new_def)
    ultimately have "lease_inv p' w' ?L" using fresh(2) by (intro lease_invI) auto
    with leased fresh(1) show ?thesis by blast
  next
    case (none w')
    with assms(1) have "lease_inv p w' L" by (simp add: lease_inv_def)
    with refused none(1) show ?thesis by blast
  qed
qed

lemma lease_inv_return:
  assumes "lease_inv p w L" and "(c, t) \<in># L" and "count L (c, t) = 1 \<longrightarrow> streams_of w c = []"
  obtains p' where "grpc_connection_pool_return clock (Some p) (Some t) (Some c) = Some (Inr (0, Some p'))"
    "lease_inv p' w (L - {#(c, t)#})"
proof -
  from assms(1,2) obtain us pc vs where pc: "pool_list p = us @ pc # vs" "pc_connection pc = Some c" "pc_target pc = t"
    "\<forall>u\<in>set (us @ vs). pc_connection u \<noteq> Some c" "conn_ok w c" "pc_active_calls pc = int (count L (c, t))"
    by (rule lease_held)
  have "0 < count L (c, t)" using assms(2) by simp
  then have "pc_active_calls pc \<le> 1 \<Longrightarrow> streams_of w c = []" using assms(3) pc(6) by (cases "count L (c, t) = 1") auto
  from pool_return_ok [OF lease_invD(1) [OF assms(1)] pc(1) _ pc(2,3) this, of clock] pc(4) obtain p' where
    p': "grpc_connection_pool_return clock (Some p) (Some t) (Some c) = Some (Inr (0, Some p'))" "pool_inv p' w"
      "pool_list p' = us @ pc\<lparr>pc_active_calls := max 0 (pc_active_calls pc - 1), pc_last_used := clock 0\<rparr> # vs" by auto
  let ?L = "L - {#(c, t)#}"
  have "lease_inv p' w ?L"
    by (rule lease_inv_replace [OF assms(1) pc(1-3) p'(2,3)])
      (use \<open>0 < count L (c, t)\<close> pc(2,3,6) in \<open>auto simp: max_def\<close>)
  with p'(1) show ?thesis by (rule that)
qed

lemma keepalive_node_target [simp]: "pc_target (keepalive_node p now pc) = pc_target pc"
  by (simp add: keepalive_node_def Let_def)

lemma lease_inv_tick:
  assumes "lease_inv p w L"
  obtains p' where "grpc_keepalive_thread_tick now p = Some (Inr p')" "lease_inv p' w L"
proof -
  from pool_tick_ok [OF lease_invD(1) [OF assms], of now] obtain p' where
    p': "grpc_keepalive_thread_tick now p = Some (Inr p')" "pool_inv p' w"
      "pool_list p' = map (keepalive_node p now) (pool_list p)" by blast
  have "lease_inv p' w L"
    using p'(2,3) lease_invD(2,3) [OF assms] by (intro lease_invI) (auto simp: leases_of_def)
  with p'(1) show ?thesis by (rule that)
qed

lemma lease_inv_cleanup:
  assumes "lease_inv p w L"
  obtains p' w' where "grpc_connection_pool_cleanup_idle (Some p) w = Some (Inr (Some p', w'))" "lease_inv p' w' L"
    "\<And>c t. (c, t) \<in># L \<Longrightarrow> w_conns w' c = w_conns w c"
proof -
  from pool_cleanup_ok [OF lease_invD(1) [OF assms]] obtain p' w' where
    p': "grpc_connection_pool_cleanup_idle (Some p) w = Some (Inr (Some p', w'))" "pool_inv p' w'"
      "pool_list p' = filter (\<lambda>pc. \<not> reclaimable pc) (pool_list p)"
      "w_conns w' = without_conns (filter reclaimable (pool_list p)) (w_conns w)" by blast
  have busy: "\<not> reclaimable pc" if "pc \<in> set (pool_list p)" "pc_connection pc = Some c" "(c, t) \<in># L" for pc c t
  proof -
    from assms that(3) obtain us pc' vs where "pool_list p = us @ pc' # vs" "pc_connection pc' = Some c"
      "\<forall>u\<in>set (us @ vs). pc_connection u \<noteq> Some c" "0 < pc_active_calls pc'"
      by (rule lease_held)
    with that show ?thesis by (auto simp: reclaimable_def)
  qed
  have "lease_inv p' w' L"
  proof (rule lease_invI)
    show "\<exists>pc\<in>set (pool_list p'). pc_connection pc = Some c \<and> pc_target pc = t" if "(c, t) \<in># L" for c t
      using lease_invD(3) [OF assms that] busy that by (fastforce simp: p'(3))
  qed (use p'(2,3) lease_invD(2) [OF assms] in auto)
  moreover have "w_conns w' c = w_conns w c" if "(c, t) \<in># L" for c t
  proof -
    have "Some c \<notin> set (map pc_connection (filter reclaimable (pool_list p)))" using busy that by fastforce
    then show ?thesis by (simp add: p'(4) without_conns_def)
  qed
  ultimately show ?thesis using p'(1) that by blast
qed

lemma lease_inv_set_keepalive:
  assumes "lease_inv p w L" and "grpc_connection_pool_set_keepalive (Some p) i tm b = Inr (r, Some p')"
  shows "lease_inv p' w L"
proof -
  from assms have "cp_nodes p' = cp_nodes p" "cp_connections p' = cp_connections p" "\<not> cp_mutex p'"
    "cp_current_connections p' = cp_current_connections p" "cp_max_connections p' = cp_max_connections p"
    by (auto simp: lease_inv_def pool_inv_def grpc_connection_pool_set_keepalive_def)
  then show ?thesis using assms(1) by (simp add: lease_inv_def pool_inv_def pool_list_def)
qed

section \<open>Streams on leased connections\<close>

text \<open>A change of the streams of one leased connection does not concern the pool.\<close>

lemma lease_inv_streams:
  assumes "lease_inv p w L" and "(c, t) \<in># L" and "world_fresh w'" and "conn_ok w' c"
    and "\<And>d. d \<noteq> c \<Longrightarrow> w_conns w' d = w_conns w d"
    and "\<And>s st. w_streams w s = Some st \<Longrightarrow> strm_conn st \<noteq> Some c \<Longrightarrow> w_streams w' s = Some st"
  shows "lease_inv p w' L"
proof -
  from assms(1,2) obtain us pc vs where pc: "pool_list p = us @ pc # vs" "pc_connection pc = Some c"
    "0 < pc_active_calls pc" "\<forall>u\<in>set (us @ vs). pc_connection u \<noteq> Some c"
    by (rule lease_held)
  have "pooled_ok w' x" if "x \<in> set (pool_list p)" for x
  proof (cases "x = pc")
    case True
    with lease_invD(1) [OF assms(1)] that have "pooled_ok w pc" by (simp add: pool_inv_def list_all_iff)
    with True pc(2,3) assms(4) show ?thesis by (simp add: pooled_ok_def)
  next
    case False
    from lease_invD(1) [OF assms(1)] that obtain d where d: "0 \<le> pc_active_calls x \<and> pc_active_calls x < 2 ^ 31"
      "pc_connection x = Some d" "conn_ok w d" "pc_active_calls x = 0 \<longrightarrow> streams_of w d = []" by (auto simp: pool_inv_def list_all_iff pooled_ok_def)
    from False that pc(1,4) d(2) have "d \<noteq> c" by auto
    with assms(5) have w': "w_conns w' d = w_conns w d" by blast
    from d(3) \<open>d \<noteq> c\<close> have "conn_ok w' d" unfolding conn_ok_def w' by (metis assms(6) option.inject)
    with d w' show ?thesis by (auto simp: pooled_ok_def streams_of_def)
  qed
  then have "pool_inv p w'" using lease_invD(1) [OF assms(1)] assms(3) by (simp add: pool_inv_def list_all_iff)
  then show ?thesis using assms(1) by (simp add: lease_inv_def)
qed

lemma lease_inv_open:
  assumes "lease_inv p w L" and "(c, t) \<in># L"
  obtains s w' where "http2_stream_create (Some c) i w = Inr (s, w')" "lease_inv p w' L"
proof -
  have fr: "world_fresh w" using lease_invD(1) [OF assms(1)] by (simp add: pool_inv_def)
  from assms have ok: "conn_ok w c" by (rule lease_held)
  then obtain x where x: "w_conns w c = Some x" "conn_inv x" by (auto elim: conn_okE)
  from http2_stream_create_ok [OF ok fr, of i] obtain r w' where
    r: "http2_stream_create (Some c) i w = Inr (r, w')" "conn_ok w' c" "world_fresh w'" by blast
  have new: "w_streams w (w_brk w) = None" using fr by (simp add: world_fresh_def)
  from x fr have "(\<forall>d. d \<noteq> c \<longrightarrow> w_conns w' d = w_conns w d) \<and>
    (\<forall>s st. w_streams w s = Some st \<longrightarrow> w_streams w' s = Some st)"
  proof (cases rule: http2_stream_create_cases [where i = i])
    case (no_stream os n)
    with r(1) show ?thesis by auto
  next
    case (created os a)
    with r(1) new show ?thesis by auto
  qed
  then have "lease_inv p w' L" using assms r(2,3) by (intro lease_inv_streams [of p w L c t w']) blast+
  with r(1) show ?thesis by (rule that)
qed

lemma lease_inv_close:
  assumes "lease_inv p w L" and "(c, t) \<in># L" and "s \<in> set (streams_of w c)"
  obtains w' where "http2_stream_destroy (Some s) w = Inr ((), w')" "lease_inv p w' L"
proof -
  have fr: "world_fresh w" using lease_invD(1) [OF assms(1)] by (simp add: pool_inv_def)
  from assms(1,2) have ok: "conn_ok w c" by (rule lease_held)
  then obtain x where x: "w_conns w c = Some x" "streams_of w c = arr_list (conn_streams x)"
    "\<exists>st. w_streams w s = Some st \<and> strm_conn st = Some c \<and> stream_clean st"
    using assms(3) by (auto elim!: conn_okE)
  from http2_stream_destroy_ok [OF ok assms(3)] obtain w' where
    r: "http2_stream_destroy (Some s) w = Inr ((), w')" "conn_ok w' c" by blast
  from http2_stream_destroy_eq [OF ok x(1), of s] assms(3) x(2) r(1) obtain a where
    w': "w' = w\<lparr>w_conns := (w_conns w)(c \<mapsto> x\<lparr>conn_streams := a\<rparr>), w_streams := (w_streams w)(s := None)\<rparr>" by auto
  have "world_fresh w'" using fr x(1) by (auto simp: w' world_fresh_def)
  moreover have "w_conns w' d = w_conns w d" if "d \<noteq> c" for d using that by (simp add: w')
  moreover have "w_streams w' s' = Some st" if "w_streams w s' = Some st" "strm_conn st \<noteq> Some c" for s' st
    using that x(3) by (auto simp: w')
  ultimately have "lease_inv p w' L" using assms(1,2) r(2) by (intro lease_inv_streams [of p w L c t w']) blast+
  with r(1) show ?thesis by (rule that)
qed

section \<open>All runs\<close>

lemma lease_inv_create:
  assumes "grpc_connection_pool_create n idle started os = (Some p, os')" and "world_fresh w"
  shows "lease_inv p w {#}"
proof -
  from assms(1) have "cp_nodes p = store_empty" "cp_connections p = None" "\<not> cp_mutex p" "cp_current_connections p = 0"
    by (auto simp: grpc_connection_pool_create_def split: prod.splits if_splits)
  then show ?thesis using assms(2) by (simp add: lease_inv_def pool_inv_def pool_list_def store_empty_def)
qed

lemma pool_run_inv: "pool_run p w L \<Longrightarrow> lease_inv p w L"
proof (induction rule: pool_run.induct)
  case run_create
  then show ?case by (rule lease_inv_create)
next
  case (run_get p w L t clock c p' w')
  from run_get.IH run_get.hyps(2,3) show ?case
    by (cases rule: lease_inv_get [where clock = clock]) (use run_get.hyps(4) in simp_all)
next
  case (run_get_none p w L t clock p' w')
  from run_get_none.IH run_get_none.hyps(2,3) show ?case
    by (cases rule: lease_inv_get [where clock = clock]) (use run_get_none.hyps(4) in simp_all)
next
  case (run_return p w L c t clock r p')
  from run_return.IH run_return.hyps(2,3) obtain p'' where
    "grpc_connection_pool_return clock (Some p) (Some t) (Some c) = Some (Inr (0, Some p''))"
    "lease_inv p'' w (L - {#(c, t)#})" by (rule lease_inv_return)
  with run_return.hyps(4) show ?case by simp
next
  case (run_tick p w L now p')
  from run_tick.IH obtain p'' where "grpc_keepalive_thread_tick now p = Some (Inr p'')" "lease_inv p'' w L"
    by (rule lease_inv_tick)
  with run_tick.hyps(2) show ?case by simp
next
  case (run_cleanup p w L p' w')
  from run_cleanup.IH obtain p'' w'' where
    "grpc_connection_pool_cleanup_idle (Some p) w = Some (Inr (Some p'', w''))" "lease_inv p'' w'' L"
    by (rule lease_inv_cleanup)
  with run_cleanup.hyps(2) show ?case by simp
next
  case (run_set_keepalive p w L i tm b r p')
  from run_set_keepalive.IH run_set_keepalive.hyps(2) show ?case by (rule lease_inv_set_keepalive)
next
  case (run_open p w L c t i s w')
  from run_open.IH run_open.hyps(2) obtain s' w'' where
    "http2_stream_create (Some c) i w = Inr (s', w'')" "lease_inv p w'' L" by (rule lease_inv_open)
  with run_open.hyps(3) show ?case by simp
next
  case (run_close p w L c t s w')
  from run_close.IH run_close.hyps(2,3) obtain w'' where
    "http2_stream_destroy (Some s) w = Inr ((), w'')" "lease_inv p w'' L" by (rule lease_inv_close)
  with run_close.hyps(4) show ?case by simp
qed

text \<open>
  C27. Along every run of the pool (connections asked for and returned, streams opened and closed on
  leased connections, keep-alive rounds and cleanups, in any order and under all allocation
  failures, without evictions and with less than \<open>2 ^ 31\<close> leases at any time) no connection is taken from a client that holds it: every leased connection is live
  and pooled under its target, each pooled connection counts exactly its leases, a cleanup
  leaves the leased connections as they are, and every lease can be returned, with result 0, once
  its streams are closed. When everything was returned, destroying the pool frees every node
  and exactly the HTTP/2 connections of the pool.
\<close>

theorem grpc_connection_pool_leases_safe:
  assumes "pool_run p w L"
  shows "(\<forall>(c, t)\<in>set_mset L. conn_ok w c \<and> (\<exists>pc\<in>set (pool_list p). pc_connection pc = Some c \<and> pc_target pc = t)) \<and>
    (\<forall>pc\<in>set (pool_list p). pc_active_calls pc = int (leases_of L pc)) \<and>
    (\<exists>p' w'. grpc_connection_pool_cleanup_idle (Some p) w = Some (Inr (Some p', w')) \<and>
      (\<forall>(c, t)\<in>set_mset L. w_conns w' c = w_conns w c)) \<and>
    (\<forall>(c, t)\<in>set_mset L. streams_of w c = [] \<longrightarrow>
      (\<exists>p'. grpc_connection_pool_return clock (Some p) (Some t) (Some c) = Some (Inr (0, Some p')))) \<and>
    (L = {#} \<longrightarrow> cp_keepalive_thread p \<longrightarrow>
      (\<exists>st w'. grpc_connection_pool_destroy (Some p) w = Some (Inr (Some st, w')) \<and> cells st = (\<lambda>_. None) \<and>
        w_conns w' = without_conns (pool_list p) (w_conns w)))"
proof (intro conjI)
  note inv = pool_run_inv [OF assms]
  show "\<forall>(c, t)\<in>set_mset L. conn_ok w c \<and> (\<exists>pc\<in>set (pool_list p). pc_connection pc = Some c \<and> pc_target pc = t)"
    using lease_held [OF inv] lease_invD(3) [OF inv] by blast
  show "\<forall>pc\<in>set (pool_list p). pc_active_calls pc = int (leases_of L pc)" using lease_invD(2) [OF inv] by blast
  from inv obtain p' w' where "grpc_connection_pool_cleanup_idle (Some p) w = Some (Inr (Some p', w'))"
    "\<And>c t. (c, t) \<in># L \<Longrightarrow> w_conns w' c = w_conns w c" by (rule lease_inv_cleanup) blast
  then show "\<exists>p' w'. grpc_connection_pool_cleanup_idle (Some p) w = Some (Inr (Some p', w')) \<and>
      (\<forall>(c, t)\<in>set_mset L. w_conns w' c = w_conns w c)" by blast
  show "\<forall>(c, t)\<in>set_mset L. streams_of w c = [] \<longrightarrow>
      (\<exists>p'. grpc_connection_pool_return clock (Some p) (Some t) (Some c) = Some (Inr (0, Some p')))"
    using lease_inv_return [OF inv] by blast
  show "L = {#} \<longrightarrow> cp_keepalive_thread p \<longrightarrow>
      (\<exists>st w'. grpc_connection_pool_destroy (Some p) w = Some (Inr (Some st, w')) \<and> cells st = (\<lambda>_. None) \<and>
        w_conns w' = without_conns (pool_list p) (w_conns w))"
    using grpc_connection_pool_destroy_frees [OF lease_invD(1) [OF inv]] lease_invD(2) [OF inv]
    by (simp add: leases_of_def)
qed

theorem grpc_connection_pool_leases_safe_witness:
  "\<exists>p w c. pool_run p w {#(c, ''h:1'')#} \<and> conn_ok w c \<and>
     (\<exists>p'. grpc_connection_pool_return (\<lambda>_. 6) (Some p) (Some ''h:1'') (Some c) = Some (Inr (0, Some p')))"
proof -
  have "\<exists>os'. grpc_connection_pool_create 1 0 True [] = (Some pool_demo, os')"
    by (simp add: pool_demo_def grpc_connection_pool_create_def)
  moreover have "world_fresh world_empty" by (simp add: world_fresh_def world_empty_def)
  ultimately have run: "pool_run pool_demo world_empty {#}" by (blast intro: run_create)
  have lt: "cp_current_connections pool_demo < cp_max_connections pool_demo" by (simp add: pool_demo_inv)
  from pool_get_ok [OF pool_demo_inv(1) this, of "\<lambda>_. 5" "''h:1''"] obtain c p1 w1 where
    g: "grpc_connection_pool_get (\<lambda>_. 5) (Some pool_demo) (Some ''h:1'') world_empty = Some (Inr ((Some c, Some p1), w1))"
      "w_conns w1 c = Some (conn_fresh True)"
    by (auto simp: pool_demo_inv(2) world_empty_def split: option.splits)
  have "\<not> evicts pool_demo ''h:1''" using lt by (simp add: evicts_def)
  from run_get [OF run this _ g(1)] have r: "pool_run p1 w1 {#(c, ''h:1'')#}" by simp
  have "streams_of w1 c = []" using g(2) by (rule conn_ok_fresh)
  with grpc_connection_pool_leases_safe [OF r, of "\<lambda>_. 6"] r show ?thesis by auto
qed

end
