(* ===== verification/Process.thy ===== *)
theory Process
  imports Core
begin

text \<open>
  The programs under \<^verbatim>\<open>examples/\<close> as commands on a process: the globals of the library, the state
  \<open>'s\<close> the components of the program work on, and what the program wrote to its standard output
  and standard error. \<open>printf\<close> takes the text its format and arguments give. \<open>pr_live\<close> is the number
  of objects a program made and has not destroyed, for objects it keeps in local variables.
\<close>

section \<open>Processes\<close>

record 's proc =
  pr_globals :: grpc_globals
  pr_state :: 's
  pr_out :: string
  pr_err :: string
  pr_live :: int

type_synonym ('s, 'a) prog = "'s proc \<Rightarrow> ('a \<times> 's proc) exec"

definition pret :: "'a \<Rightarrow> ('s, 'a) prog" where
  "pret x P = Inr (x, P)"

definition pbnd :: "('s, 'a) prog \<Rightarrow> ('a \<Rightarrow> ('s, 'b) prog) \<Rightarrow> ('s, 'b) prog" where
  "pbnd m f P = exec_bind (m P) (\<lambda>(x, P'). f x P')"

text \<open>A list of statements and what follows them.\<close>

fun steps :: "('s, unit) prog list \<Rightarrow> ('s, 'b) prog \<Rightarrow> ('s, 'b) prog" where
  "steps [] k = k"
| "steps (m # ms) k = pbnd m (\<lambda>_. steps ms k)"

text \<open>An operation on the state.\<close>

definition run_op :: "('s \<Rightarrow> ('a \<times> 's) exec) \<Rightarrow> ('s, 'a) prog" where
  "run_op f P = exec_bind (f (pr_state P)) (\<lambda>(x, s). Inr (x, P\<lparr>pr_state := s\<rparr>))"

definition do_init :: "('s, unit) prog" where
  "do_init P = exec_bind (grpc_init (pr_globals P)) (\<lambda>g. Inr ((), P\<lparr>pr_globals := g\<rparr>))"

definition do_shutdown :: "('s, unit) prog" where
  "do_shutdown P = exec_bind (grpc_shutdown (pr_globals P)) (\<lambda>g. Inr ((), P\<lparr>pr_globals := g\<rparr>))"

text \<open>The command line argument at \<open>i\<close>, or a default.\<close>

definition arg_or :: "string list \<Rightarrow> nat \<Rightarrow> string \<Rightarrow> string" where
  "arg_or argv i dflt = (if length argv > i then argv ! i else dflt)"

text \<open>A process as the operating system starts it.\<close>

definition proc_start :: "'s \<Rightarrow> 's proc" where
  "proc_start s = \<lparr>pr_globals = \<lparr>g_grpc_initialized = False, g_init_mutex = False\<rparr>, pr_state = s,
     pr_out = [], pr_err = [], pr_live = 0\<rparr>"

section \<open>Output\<close>

definition nl :: string where
  "nl = [CHR 0x0A]"

text \<open>What \<open>%d\<close> prints.\<close>

definition dec_int :: "int \<Rightarrow> string" where
  "dec_int i = (if i < 0 then ''-'' @ dec (nat (- i)) else dec (nat i))"

definition printf :: "string \<Rightarrow> ('s, unit) prog" where
  "printf txt P = Inr ((), P\<lparr>pr_out := pr_out P @ txt\<rparr>)"

definition fprintf_stderr :: "string \<Rightarrow> ('s, unit) prog" where
  "fprintf_stderr txt P = Inr ((), P\<lparr>pr_err := pr_err P @ txt\<rparr>)"

text \<open>A text of whole lines.\<close>

definition text_lines :: "string list \<Rightarrow> string" where
  "text_lines ls = concat (map (\<lambda>l. l @ nl) ls)"

lemma text_lines_simps [simp]:
  "text_lines [] = []" "text_lines (l # ls) = l @ nl @ text_lines ls"
  "text_lines (xs @ ys) = text_lines xs @ text_lines ys"
  by (simp_all add: text_lines_def)

lemma pret_eq [simp]: "pret x P = Inr (x, P)"
  by (simp add: pret_def)

lemma pbnd_assoc [simp]: "pbnd (pbnd m f) g P = pbnd m (\<lambda>x. pbnd (f x) g) P"
  by (simp add: pbnd_def split_def exec_bind_assoc)

lemma pbnd_pret [simp]: "pbnd (pret x) f P = f x P"
  by (simp add: pbnd_def)

lemma pbnd_run: "m P = Inr (x, P') \<Longrightarrow> pbnd m f P = f x P'"
  by (simp add: pbnd_def)

lemma printf_eq [simp]: "pbnd (printf txt) f P = f () (P\<lparr>pr_out := pr_out P @ txt\<rparr>)"
  by (simp add: pbnd_def printf_def)

lemma fprintf_stderr_eq [simp]: "pbnd (fprintf_stderr txt) f P = f () (P\<lparr>pr_err := pr_err P @ txt\<rparr>)"
  by (simp add: pbnd_def fprintf_stderr_def)

lemma do_init_eq [simp]:
  "\<not> g_init_mutex (pr_globals P) \<Longrightarrow>
   pbnd do_init f P = f () (P\<lparr>pr_globals := (pr_globals P)\<lparr>g_grpc_initialized := True\<rparr>\<rparr>)"
  by (simp add: pbnd_def do_init_def)

lemma do_shutdown_eq [simp]:
  "\<not> g_init_mutex (pr_globals P) \<Longrightarrow>
   pbnd do_shutdown f P = f () (P\<lparr>pr_globals := (pr_globals P)\<lparr>g_grpc_initialized := False\<rparr>\<rparr>)"
  by (simp add: pbnd_def do_shutdown_def)

lemma run_op_fault: "f (pr_state P) = Inl e \<Longrightarrow> pbnd (run_op f) k P = Inl e"
  by (simp add: pbnd_def run_op_def)

lemma run_op_eq [simp]:
  "f (pr_state P) = Inr (x, s) \<Longrightarrow> pbnd (run_op f) k P = k x (P\<lparr>pr_state := s\<rparr>)"
  by (simp add: pbnd_def run_op_def)

text \<open>How a program ends: library shut down, its lock free.\<close>

definition lib_down :: "'s proc \<Rightarrow> bool" where
  "lib_down P \<longleftrightarrow> \<not> g_grpc_initialized (pr_globals P) \<and> \<not> g_init_mutex (pr_globals P)"

end
