(* ===== verification/Flow_Control.thy ===== *)
theory Flow_Control
  imports Transport
begin

text \<open>
  HTTP/2 flow control, \<^verbatim>\<open>src/flow_control.c\<close>: the send and receive windows of a connection and
  its streams and the WINDOW_UPDATE frames. Windows are 32-bit words read as signed numbers
  (\<open>sint\<close>) where the code compares them; adding and subtracting wraps as in the code.
\<close>

section \<open>Operations\<close>

definition HTTP2_WINDOW_UPDATE_THRESHOLD :: int where
  "HTTP2_WINDOW_UPDATE_THRESHOLD = 65535 * 50 div 100"

definition http2_flow_control_send_window_update :: "addr option \<Rightarrow> uint32 \<Rightarrow> uint32 \<Rightarrow> int cmd" where
  "http2_flow_control_send_window_update conn stream_id increment =
     (if conn = None \<or> increment = 0 \<or> increment > 0x7FFFFFFF then ret (-1)
      else
        http2_connection_send_frame conn
          (Some \<lparr>fh_length = 4, fh_type = frame_type_code HTTP2_FRAME_WINDOW_UPDATE, fh_flags = 0,
                 fh_stream_id = stream_id\<rparr>)
          (Some [ucast (drop_bit 24 increment AND 0x7F), ucast (drop_bit 16 increment AND 0xFF),
                 ucast (drop_bit 8 increment AND 0xFF), ucast (increment AND 0xFF)]))"

text \<open>The loop that looks a stream up by its id.\<close>

definition find_stream :: "addr option \<Rightarrow> uint32 \<Rightarrow> addr option cmd" where
  "find_stream conn stream_id =
     bnd (conn_get conn) (\<lambda>c.
     bnd (\<lambda>w. lift (find_slot (arr_block (conn_streams c))
                 (\<lambda>s. exec_bind (heap_get (w_streams w) s) (\<lambda>st. Inr (strm_id st = stream_id)))
                 0 (arr_count (conn_streams c))) w) (\<lambda>hit.
     (case hit of
        None \<Rightarrow> ret None
      | Some i \<Rightarrow> lift (block_load (arr_block (conn_streams c)) i))))"

definition http2_flow_control_receive_window_update :: "addr option \<Rightarrow> uint32 \<Rightarrow> uint32 \<Rightarrow> int cmd" where
  "http2_flow_control_receive_window_update conn stream_id increment =
     (if conn = None \<or> increment = 0 \<or> increment > 0x7FFFFFFF then ret (-1)
      else if stream_id = 0
      then
        bnd (lock_write conn) (\<lambda>_.
        bnd (conn_upd conn (\<lambda>c. c\<lparr>conn_remote_window_size := conn_remote_window_size c + increment\<rparr>)) (\<lambda>_.
        bnd (conn_get conn) (\<lambda>c.
        if sint (conn_remote_window_size c) > 0x7FFFFFFF
        then bnd (unlock_write conn) (\<lambda>_. ret (-1))
        else bnd (unlock_write conn) (\<lambda>_. ret 0))))
      else
        bnd (lock_streams conn) (\<lambda>_.
        bnd (find_stream conn stream_id) (\<lambda>stream.
        if stream \<noteq> None
        then
          bnd (strm_upd stream (\<lambda>s. s\<lparr>strm_remote_window_size := strm_remote_window_size s + increment\<rparr>)) (\<lambda>_.
          bnd (strm_get stream) (\<lambda>s.
          if sint (strm_remote_window_size s) > 0x7FFFFFFF
          then bnd (unlock_streams conn) (\<lambda>_. ret (-1))
          else bnd (unlock_streams conn) (\<lambda>_. ret 0)))
        else bnd (unlock_streams conn) (\<lambda>_. ret 0))))"

text \<open>The C conversion \<open>(int32_t)data_len\<close>.\<close>

definition int32_of_size :: "nat \<Rightarrow> int32" where
  "int32_of_size n = word_of_nat n"

definition http2_flow_control_can_send :: "addr option \<Rightarrow> addr option \<Rightarrow> nat \<Rightarrow> int cmd" where
  "http2_flow_control_can_send conn stream data_len =
     (if conn = None \<or> stream = None then ret (-1)
      else
        bnd (lock_write conn) (\<lambda>_.
        bnd (conn_get conn) (\<lambda>c.
        bnd (unlock_write conn) (\<lambda>_.
        bnd (strm_get stream) (\<lambda>s.
        if sint (int32_of_size data_len) \<le> sint (conn_remote_window_size c) \<and>
           sint (int32_of_size data_len) \<le> sint (strm_remote_window_size s)
        then ret 1 else ret 0)))))"

definition http2_flow_control_consume_send_window :: "addr option \<Rightarrow> addr option \<Rightarrow> nat \<Rightarrow> int cmd" where
  "http2_flow_control_consume_send_window conn stream data_len =
     (if conn = None \<or> stream = None then ret (-1)
      else
        bnd (lock_write conn) (\<lambda>_.
        bnd (conn_upd conn (\<lambda>c. c\<lparr>conn_remote_window_size :=
               conn_remote_window_size c - word_of_nat data_len\<rparr>)) (\<lambda>_.
        bnd (unlock_write conn) (\<lambda>_.
        bnd (strm_upd stream (\<lambda>s. s\<lparr>strm_remote_window_size :=
               strm_remote_window_size s - word_of_nat data_len\<rparr>)) (\<lambda>_.
        ret 0)))))"

text \<open>The two halves of \<open>consume_recv_window\<close>: the connection window, with the write mutex held
  throughout, then the stream window. The result of sending the update is ignored.\<close>

definition consume_conn_recv_window :: "addr option \<Rightarrow> nat \<Rightarrow> int cmd" where
  "consume_conn_recv_window conn data_len =
     bnd (lock_write conn) (\<lambda>_.
     bnd (conn_get conn) (\<lambda>c.
     if sint (conn_local_window_size c) < sint (int32_of_size data_len)
     then bnd (unlock_write conn) (\<lambda>_. ret (-1))
     else
       bnd (conn_upd conn (\<lambda>c. c\<lparr>conn_local_window_size :=
              conn_local_window_size c - word_of_nat data_len\<rparr>)) (\<lambda>_.
       bnd (conn_get conn) (\<lambda>c1.
       bnd (if sint (conn_local_window_size c1) < HTTP2_WINDOW_UPDATE_THRESHOLD
            then
              (let increment = HTTP2_DEFAULT_WINDOW_SIZE - conn_local_window_size c1
               in if increment > 0
                  then bnd (http2_flow_control_send_window_update conn 0 increment) (\<lambda>_.
                         conn_upd conn (\<lambda>c. c\<lparr>conn_local_window_size := HTTP2_DEFAULT_WINDOW_SIZE\<rparr>))
                  else skip)
            else skip) (\<lambda>_.
       bnd (unlock_write conn) (\<lambda>_. ret 0))))))"

definition consume_stream_recv_window :: "addr option \<Rightarrow> addr option \<Rightarrow> nat \<Rightarrow> int cmd" where
  "consume_stream_recv_window conn stream data_len =
     bnd (strm_get stream) (\<lambda>s.
     if sint (strm_local_window_size s) < sint (int32_of_size data_len) then ret (-1)
     else
       bnd (strm_upd stream (\<lambda>s. s\<lparr>strm_local_window_size :=
              strm_local_window_size s - word_of_nat data_len\<rparr>)) (\<lambda>_.
       bnd (strm_get stream) (\<lambda>s1.
       bnd (if sint (strm_local_window_size s1) < HTTP2_WINDOW_UPDATE_THRESHOLD
            then
              (let increment = HTTP2_DEFAULT_WINDOW_SIZE - strm_local_window_size s1
               in if increment > 0
                  then bnd (http2_flow_control_send_window_update conn (strm_id s1) increment) (\<lambda>_.
                         strm_upd stream (\<lambda>s. s\<lparr>strm_local_window_size := HTTP2_DEFAULT_WINDOW_SIZE\<rparr>))
                  else skip)
            else skip) (\<lambda>_. ret 0))))"

definition http2_flow_control_consume_recv_window :: "addr option \<Rightarrow> addr option \<Rightarrow> nat \<Rightarrow> int cmd" where
  "http2_flow_control_consume_recv_window conn stream data_len =
     (if conn = None \<or> stream = None then ret (-1)
      else if sint (int32_of_size data_len) < 0 \<or>
              sint (int32_of_size data_len) > sint HTTP2_DEFAULT_WINDOW_SIZE
      then ret (-1)
      else
        bnd (consume_conn_recv_window conn data_len) (\<lambda>r.
        if r \<noteq> 0 then ret (-1)
        else consume_stream_recv_window conn stream data_len))"

section \<open>Signed arithmetic\<close>

lemma sint_int32_of_size [simp]: "n < 2 ^ 31 \<Longrightarrow> sint (int32_of_size n) = int n"
  by (simp add: int32_of_size_def signed_of_nat signed_take_bit_int_eq_self)

lemma sint_32_bounds: "- (2 ^ 31) \<le> sint (x :: int32)" "sint (x :: int32) < 2 ^ 31"
  using sint_greater_eq [of x] sint_less [of x] by simp_all

lemma sint_add_32:
  "- (2 ^ 31) \<le> sint x + k \<Longrightarrow> sint x + k < 2 ^ 31 \<Longrightarrow> sint (x + word_of_int k :: int32) = sint x + k"
proof -
  assume k: "- (2 ^ 31) \<le> sint x + k" "sint x + k < 2 ^ 31"
  have "x + word_of_int k = (word_of_int (sint x + k) :: int32)" by simp
  then have "sint (x + word_of_int k) = signed_take_bit 31 (sint x + k)"
    by (simp only: signed_of_int) simp
  with k show ?thesis by (simp add: signed_take_bit_int_eq_self)
qed

lemma sint_add_32_overflow:
  "2 ^ 31 \<le> sint x + k \<Longrightarrow> k < 2 ^ 31 \<Longrightarrow> sint (x + word_of_int k :: int32) = sint x + k - 2 ^ 32"
proof -
  assume k: "2 ^ 31 \<le> sint x + k" "k < 2 ^ 31"
  have "x + word_of_int k = (word_of_int (sint x + k - 2 ^ 32) :: int32)"
    by simp
  then have "sint (x + word_of_int k) = signed_take_bit 31 (sint x + k - 2 ^ 32)"
    by (simp only: signed_of_int) simp
  with k sint_32_bounds [of x] show ?thesis by (simp add: signed_take_bit_int_eq_self)
qed

lemma word_of_int_unat [simp]: "(word_of_int (int (unat (i :: uint32))) :: int32) = i"
  by simp

lemma sint_sub_32:
  "0 \<le> sint x - int n \<Longrightarrow> sint (x - word_of_nat n :: int32) = sint x - int n"
  using sint_add_32 [of x "- int n"] sint_32_bounds [of x] by simp

section \<open>Updates received from the peer\<close>

definition valid_increment :: "uint32 \<Rightarrow> bool" where
  "valid_increment i \<longleftrightarrow> i \<noteq> 0 \<and> i \<le> 0x7FFFFFFF"

lemma valid_increment_unat: "valid_increment i \<Longrightarrow> 0 < unat i \<and> unat i < 2 ^ 31"
proof -
  assume v: "valid_increment i"
  then have "unat i \<le> unat (0x7FFFFFFF :: uint32)" unfolding valid_increment_def word_le_nat_alt by blast
  with v show ?thesis by (auto simp: valid_increment_def unat_gt_0)
qed

lemma sint_add_increment:
  assumes "sint (x :: int32) + int (unat n) < 2 ^ 31"
  shows "sint (x + n) = sint x + int (unat n)"
proof -
  have "- (2 ^ 31) \<le> sint x + int (unat n)" using sint_32_bounds(1) [of x] by linarith
  from sint_add_32 [OF this assms] show ?thesis by (simp only: word_of_int_unat)
qed

lemma int_less_pow: "n < 2 ^ k \<Longrightarrow> int n < 2 ^ k"
proof -
  assume "n < 2 ^ k"
  then have "int n < int (2 ^ k)" by (simp only: of_nat_less_iff)
  then show ?thesis by (simp only: of_nat_power of_nat_numeral)
qed

lemma sint_add_increment_overflow:
  assumes "2 ^ 31 \<le> sint (x :: int32) + int (unat n)" and "unat n < 2 ^ 31"
  shows "sint (x + n) = sint x + int (unat n) - 2 ^ 32"
proof -
  have "int (unat n) < 2 ^ 31" using assms(2) by (rule int_less_pow)
  from sint_add_32_overflow [OF assms(1) this] show ?thesis by (simp only: word_of_int_unat)
qed

lemma valid_increment_guard: "valid_increment i \<Longrightarrow> \<not> (i = 0 \<or> i > 0x7FFFFFFF)"
  by (simp add: valid_increment_def not_less)

lemma sint_never_above: "\<not> sint (x :: int32) > 0x7FFFFFFF"
  using sint_32_bounds(2) [of x] by simp

lemma receive_conn_update:
  assumes "w_conns w p = Some c" and "\<not> conn_write_mutex c" and "valid_increment i"
  shows "http2_flow_control_receive_window_update (Some p) 0 i w =
    Inr (0, w\<lparr>w_conns := (w_conns w)(p \<mapsto> c\<lparr>conn_remote_window_size := conn_remote_window_size c + i\<rparr>)\<rparr>)"
  using assms(1,2) valid_increment_guard [OF assms(3)] sint_never_above
  by (simp add: http2_flow_control_receive_window_update_def bnd_def cell_lock_free cell_unlock_eq)

lemma find_stream_hit:
  assumes "conn_ok w p" and "w_conns w p = Some c"
    and "ws = w\<lparr>w_conns := (w_conns w)(p \<mapsto> c\<lparr>conn_streams_mutex := True\<rparr>)\<rparr>"
    and "s \<in> set (streams_of w p)" and "w_streams w s = Some st" and "strm_id st = i"
    and "\<And>t tt. t \<in> set (streams_of w p) \<Longrightarrow> w_streams w t = Some tt \<Longrightarrow> strm_id tt = i \<Longrightarrow> t = s"
  shows "find_stream (Some p) i ws = Inr (Some s, ws)"
proof -
  from assms(1,2) have wf: "arr_wf (conn_streams c)" "distinct (arr_list (conn_streams c))"
    and live: "\<And>t. t \<in> set (arr_list (conn_streams c)) \<Longrightarrow> \<exists>tt. w_streams w t = Some tt"
    by (auto simp: conn_ok_def conn_inv_def)
  have so: "streams_of w p = arr_list (conn_streams c)" using assms(2) by (simp add: streams_of_def)
  let ?P = "\<lambda>s. exec_bind (heap_get (w_streams ws) s) (\<lambda>st. Inr (strm_id st = i))"
  from assms(4) so obtain j where j: "j < length (arr_list (conn_streams c))"
    "arr_list (conn_streams c) ! j = s" by (auto simp: in_set_conv_nth)
  have "find_slot (arr_block (conn_streams c)) ?P 0 (length (arr_list (conn_streams c)) - 0) = Inr (Some j)"
  proof (rule find_slot_hit [where Q = "\<lambda>t. t = s"])
    fix t
    assume t: "t \<in> set (arr_list (conn_streams c))"
    from live [OF t] obtain tt where tt: "w_streams w t = Some tt" by blast
    with t so assms(5,6) assms(7) [of t tt] have "(strm_id tt = i) = (t = s)" by auto
    with tt show "?P (Some t) = Inr (t = s)" by (simp add: assms(3))
  next
    fix k
    assume "0 \<le> k" "k < j"
    with j wf(2) show "arr_list (conn_streams c) ! k \<noteq> s" by (auto simp: nth_eq_iff_index_eq)
  qed (use wf j in auto)
  with length_arr_list [OF wf(1)] block_load_list [OF wf(1) j(1)] j(2) assms(3) show ?thesis
    by (simp add: find_stream_def bnd_def)
qed

lemma find_stream_miss:
  assumes "conn_ok w p" and "w_conns w p = Some c"
    and "ws = w\<lparr>w_conns := (w_conns w)(p \<mapsto> c\<lparr>conn_streams_mutex := True\<rparr>)\<rparr>"
    and "\<And>t tt. t \<in> set (streams_of w p) \<Longrightarrow> w_streams w t = Some tt \<Longrightarrow> strm_id tt \<noteq> i"
  shows "find_stream (Some p) i ws = Inr (None, ws)"
proof -
  from assms(1,2) have wf: "arr_wf (conn_streams c)"
    and live: "\<And>t. t \<in> set (arr_list (conn_streams c)) \<Longrightarrow> \<exists>tt. w_streams w t = Some tt"
    by (auto simp: conn_ok_def conn_inv_def)
  have so: "streams_of w p = arr_list (conn_streams c)" using assms(2) by (simp add: streams_of_def)
  let ?P = "\<lambda>s. exec_bind (heap_get (w_streams ws) s) (\<lambda>st. Inr (strm_id st = i))"
  have "find_slot (arr_block (conn_streams c)) ?P 0 (length (arr_list (conn_streams c)) - 0) = Inr None"
  proof (rule find_slot_miss [where Q = "\<lambda>t. False"])
    fix t
    assume t: "t \<in> set (arr_list (conn_streams c))"
    from live [OF t] obtain tt where tt: "w_streams w t = Some tt" by blast
    with t so assms(4) [of t tt] have "strm_id tt \<noteq> i" by auto
    with tt show "?P (Some t) = Inr False" by (simp add: assms(3))
  qed (use wf in auto)
  with length_arr_list [OF wf(1)] assms(3) show ?thesis
    by (simp add: find_stream_def bnd_def)
qed

lemma receive_stream_update:
  assumes "conn_ok w p" and "i \<noteq> 0" and "valid_increment n"
    and "s \<in> set (streams_of w p)" and "w_streams w s = Some st" and "strm_id st = i"
    and "\<And>t tt. t \<in> set (streams_of w p) \<Longrightarrow> w_streams w t = Some tt \<Longrightarrow> strm_id tt = i \<Longrightarrow> t = s"
  shows "http2_flow_control_receive_window_update (Some p) i n w =
    Inr (0, w\<lparr>w_streams := (w_streams w)(s \<mapsto> st\<lparr>strm_remote_window_size := strm_remote_window_size st + n\<rparr>)\<rparr>)"
proof -
  from assms(1) obtain c where c: "w_conns w p = Some c" "conn_inv c" by (rule conn_okE)
  then have m: "\<not> conn_streams_mutex c" by (simp add: conn_inv_def)
  have same: "(w_conns w)(p \<mapsto> c) = w_conns w" using c(1) by (simp add: map_upd_triv)
  from find_stream_hit [OF assms(1) c(1) refl assms(4-7)] show ?thesis
    using c(1) m assms(2,5) same valid_increment_guard [OF assms(3)] sint_never_above
    by (simp add: http2_flow_control_receive_window_update_def bnd_def cell_lock_free cell_unlock_eq)
qed

lemma receive_stream_unknown:
  assumes "conn_ok w p" and "i \<noteq> 0" and "valid_increment n"
    and "\<And>t tt. t \<in> set (streams_of w p) \<Longrightarrow> w_streams w t = Some tt \<Longrightarrow> strm_id tt \<noteq> i"
  shows "http2_flow_control_receive_window_update (Some p) i n w = Inr (0, w)"
proof -
  from assms(1) obtain c where c: "w_conns w p = Some c" "conn_inv c" by (rule conn_okE)
  then have m: "\<not> conn_streams_mutex c" by (simp add: conn_inv_def)
  have same: "(w_conns w)(p \<mapsto> c) = w_conns w" using c(1) by (simp add: map_upd_triv)
  from find_stream_miss [OF assms(1) c(1) refl assms(4)] show ?thesis
    using c(1) m assms(2) same valid_increment_guard [OF assms(3)]
    by (simp add: http2_flow_control_receive_window_update_def bnd_def cell_lock_free cell_unlock_eq)
qed

text \<open>
  A WINDOW_UPDATE for a stream of the connection that does not overflow the window adds
  exactly the increment to that stream and leaves every other stream and the connection as
  they were; for an id the connection does not list it changes nothing. Both mutexes are free
  afterwards.
\<close>

theorem http2_flow_control_receive_window_update_stream:
  assumes "conn_ok w p" and "i \<noteq> 0" and "valid_increment n"
    and "\<forall>t\<in>set (streams_of w p). \<forall>u\<in>set (streams_of w p).
           map_option strm_id (w_streams w t) = map_option strm_id (w_streams w u) \<longrightarrow> t = u"
    and "\<forall>st. st \<in> ran (w_streams w) \<longrightarrow> sint (strm_remote_window_size st) + int (unat n) < 2 ^ 31"
  shows "\<exists>w'. http2_flow_control_receive_window_update (Some p) i n w = Inr (0, w') \<and>
    w_conns w' = w_conns w \<and>
    (\<forall>t. map_option (\<lambda>st. sint (strm_remote_window_size st)) (w_streams w' t) =
         map_option (\<lambda>st. sint (strm_remote_window_size st) +
           (if t \<in> set (streams_of w p) \<and> strm_id st = i then int (unat n) else 0)) (w_streams w t))"
proof (cases "\<exists>s\<in>set (streams_of w p). \<exists>st. w_streams w s = Some st \<and> strm_id st = i")
  case True
  then obtain s st where s: "s \<in> set (streams_of w p)" "w_streams w s = Some st" "strm_id st = i" by blast
  have u: "t = s" if "t \<in> set (streams_of w p)" "w_streams w t = Some tt" "strm_id tt = i" for t tt
    using assms(4) s that by auto
  have "st \<in> ran (w_streams w)" using s(2) by (auto simp: ran_def)
  then have "sint (strm_remote_window_size st) + int (unat n) < 2 ^ 31" using assms(5) by blast
  then have "sint (strm_remote_window_size st + n) = sint (strm_remote_window_size st) + int (unat n)"
    by (rule sint_add_increment)
  note sum = this
  let ?w' = "w\<lparr>w_streams := (w_streams w)(s \<mapsto> st\<lparr>strm_remote_window_size := strm_remote_window_size st + n\<rparr>)\<rparr>"
  have "http2_flow_control_receive_window_update (Some p) i n w = Inr (0, ?w')"
    using assms(1-3) s u by (rule receive_stream_update)
  moreover have "map_option (\<lambda>st. sint (strm_remote_window_size st)) (w_streams ?w' t) =
         map_option (\<lambda>st. sint (strm_remote_window_size st) +
           (if t \<in> set (streams_of w p) \<and> strm_id st = i then int (unat n) else 0)) (w_streams w t)" for t
  proof (cases "t = s")
    case True
    with s sum show ?thesis by simp
  next
    case False
    with u [of t] show ?thesis by (cases "w_streams w t") auto
  qed
  ultimately show ?thesis by (intro exI [of _ ?w']) simp
next
  case False
  then have "http2_flow_control_receive_window_update (Some p) i n w = Inr (0, w)"
    by (intro receive_stream_unknown assms) auto
  with False show ?thesis by (fastforce intro!: option.map_cong)
qed

theorem http2_flow_control_receive_window_update_stream_witness:
  "\<exists>w'. http2_flow_control_receive_window_update (Some 0) 1 1000 (world_with_stream 7) = Inr (0, w') \<and>
    map_option (\<lambda>st. sint (strm_remote_window_size st)) (w_streams w' 1) = Some 66535"
proof -
  let ?w = "world_with_stream 7"
  from world_with_stream [of 7] have st: "w_streams ?w = [1 \<mapsto> stream_init 0 1]" by auto
  have "\<exists>w'. http2_flow_control_receive_window_update (Some 0) 1 1000 ?w = Inr (0, w') \<and>
    w_conns w' = w_conns ?w \<and>
    (\<forall>t. map_option (\<lambda>st. sint (strm_remote_window_size st)) (w_streams w' t) =
         map_option (\<lambda>st. sint (strm_remote_window_size st) +
           (if t \<in> set (streams_of ?w 0) \<and> strm_id st = 1 then int (unat (1000 :: uint32)) else 0))
           (w_streams ?w t))"
    by (rule http2_flow_control_receive_window_update_stream)
      (auto simp: conn_ok_with_stream st valid_increment_def stream_init_def HTTP2_DEFAULT_WINDOW_SIZE_def)
  then obtain w' where w': "http2_flow_control_receive_window_update (Some 0) 1 1000 ?w = Inr (0, w')"
    and all: "\<And>t. map_option (\<lambda>st. sint (strm_remote_window_size st)) (w_streams w' t) =
         map_option (\<lambda>st. sint (strm_remote_window_size st) +
           (if t \<in> set (streams_of ?w 0) \<and> strm_id st = 1 then int (unat (1000 :: uint32)) else 0))
           (w_streams ?w t)" by blast
  from all [of 1] have "map_option (\<lambda>st. sint (strm_remote_window_size st)) (w_streams w' 1) = Some 66535"
    by (simp add: st conn_ok_with_stream stream_init_def HTTP2_DEFAULT_WINDOW_SIZE_def)
  with w' show ?thesis by blast
qed

text \<open>
  The overflow check never fires: an update that pushes the connection window past
  2^31 - 1, which HTTP/2 requires to be treated as an error, returns 0 and leaves the window
  negative (2^32 below the true sum).
\<close>

theorem http2_window_update_overflow_undetected:
  assumes "w_conns w p = Some c" and "\<not> conn_write_mutex c" and "valid_increment i"
    and "2 ^ 31 \<le> sint (conn_remote_window_size c) + int (unat i)"
  shows "\<exists>w' c'. http2_flow_control_receive_window_update (Some p) 0 i w = Inr (0, w') \<and>
    w_conns w' p = Some c' \<and> sint (conn_remote_window_size c') < 0 \<and>
    sint (conn_remote_window_size c') = sint (conn_remote_window_size c) + int (unat i) - 2 ^ 32"
proof -
  let ?x = "conn_remote_window_size c"
  have "unat i < 2 ^ 31" using valid_increment_unat [OF assms(3)] by simp
  then have "sint (?x + i) = sint ?x + int (unat i) - 2 ^ 32"
    using assms(4) by (intro sint_add_increment_overflow)
  moreover have "sint ?x + int (unat i) - 2 ^ 32 < 0"
  proof -
    have "(2 :: int) ^ 31 + 2 ^ 31 = 2 ^ 32" by simp
    then show ?thesis
      using sint_32_bounds(2) [of ?x] int_less_pow [OF \<open>unat i < 2 ^ 31\<close>] by linarith
  qed
  ultimately show ?thesis
    using receive_conn_update [OF assms(1-3)] by (intro exI conjI) (assumption | simp)+
qed

theorem http2_window_update_overflow_undetected_witness:
  "\<exists>w' c'. http2_flow_control_receive_window_update (Some 0) 0 0x7FFFFFFF (world_with_conn 7) = Inr (0, w') \<and>
    w_conns w' 0 = Some c' \<and> sint (conn_remote_window_size c') = - 2147418114"
  using http2_window_update_overflow_undetected
    [of "world_with_conn 7" 0 "(conn_fresh True)\<lparr>conn_socket_fd := 7\<rparr>" "0x7FFFFFFF"]
  by (auto simp: world_with_conn_def conn_fresh_def valid_increment_def HTTP2_DEFAULT_WINDOW_SIZE_def)

section \<open>Sending within the windows\<close>

lemma can_send_eq:
  assumes "w_conns w p = Some c" and "\<not> conn_write_mutex c" and "w_streams w s = Some st"
  shows "http2_flow_control_can_send (Some p) (Some s) n w =
    Inr (if sint (int32_of_size n) \<le> sint (conn_remote_window_size c) \<and>
            sint (int32_of_size n) \<le> sint (strm_remote_window_size st) then 1 else 0, w)"
proof -
  have same: "(w_conns w)(p \<mapsto> c) = w_conns w" using assms(1) by (simp add: map_upd_triv)
  show ?thesis
    using assms same
    by (simp add: http2_flow_control_can_send_def bnd_def cell_lock_free cell_unlock_eq)
qed

lemma consume_send_eq:
  assumes "w_conns w p = Some c" and "\<not> conn_write_mutex c" and "w_streams w s = Some st"
  shows "http2_flow_control_consume_send_window (Some p) (Some s) n w =
    Inr (0, w\<lparr>w_conns := (w_conns w)(p \<mapsto> c\<lparr>conn_remote_window_size := conn_remote_window_size c - word_of_nat n\<rparr>),
              w_streams := (w_streams w)(s \<mapsto> st\<lparr>strm_remote_window_size := strm_remote_window_size st - word_of_nat n\<rparr>)\<rparr>)"
  using assms
  by (simp add: http2_flow_control_consume_send_window_def bnd_def cell_lock_free cell_unlock_eq)

text \<open>A sender that asks before it sends: the lengths of the messages it did send.\<close>

fun guarded_sends :: "addr option \<Rightarrow> addr option \<Rightarrow> nat list \<Rightarrow> nat list cmd" where
  "guarded_sends conn stream [] = ret []"
| "guarded_sends conn stream (n # ns) =
     bnd (http2_flow_control_can_send conn stream n) (\<lambda>r.
       if r = 1
       then bnd (http2_flow_control_consume_send_window conn stream n) (\<lambda>_.
            bnd (guarded_sends conn stream ns) (\<lambda>sent. ret (n # sent)))
       else guarded_sends conn stream ns)"

lemma guarded_sends_ok:
  assumes "w_conns w p = Some c" and "\<not> conn_write_mutex c" and "w_streams w s = Some st"
    and "0 \<le> sint (conn_remote_window_size c)" and "0 \<le> sint (strm_remote_window_size st)"
    and "\<forall>n\<in>set ns. n < 2 ^ 31"
  shows "\<exists>sent w' c' st'. guarded_sends (Some p) (Some s) ns w = Inr (sent, w') \<and>
    w_conns w' p = Some c' \<and> w_streams w' s = Some st' \<and> \<not> conn_write_mutex c' \<and>
    sint (conn_remote_window_size c') = sint (conn_remote_window_size c) - int (sum_list sent) \<and>
    sint (strm_remote_window_size st') = sint (strm_remote_window_size st) - int (sum_list sent) \<and>
    0 \<le> sint (conn_remote_window_size c') \<and> 0 \<le> sint (strm_remote_window_size st')"
  using assms
proof (induction ns arbitrary: w c st)
  case Nil
  then show ?case by simp
next
  case (Cons n ns)
  have n: "n < 2 ^ 31" "sint (int32_of_size n) = int n" using Cons.prems(6) by auto
  have cs: "http2_flow_control_can_send (Some p) (Some s) n w =
      Inr (if int n \<le> sint (conn_remote_window_size c) \<and> int n \<le> sint (strm_remote_window_size st) then 1 else 0, w)"
    using can_send_eq [OF Cons.prems(1-3), of n] n(2) by simp
  show ?case
  proof (cases "int n \<le> sint (conn_remote_window_size c) \<and> int n \<le> sint (strm_remote_window_size st)")
    case False
    with cs Cons.IH [OF Cons.prems(1-5)] Cons.prems(6) show ?thesis by (simp add: bnd_def)
  next
    case True
    let ?c = "c\<lparr>conn_remote_window_size := conn_remote_window_size c - word_of_nat n\<rparr>"
    let ?st = "st\<lparr>strm_remote_window_size := strm_remote_window_size st - word_of_nat n\<rparr>"
    let ?w = "w\<lparr>w_conns := (w_conns w)(p \<mapsto> ?c), w_streams := (w_streams w)(s \<mapsto> ?st)\<rparr>"
    have x: "sint (conn_remote_window_size ?c) = sint (conn_remote_window_size c) - int n"
      "sint (strm_remote_window_size ?st) = sint (strm_remote_window_size st) - int n"
      using True by (simp_all add: sint_sub_32)
    have "\<exists>sent w' c' st'. guarded_sends (Some p) (Some s) ns ?w = Inr (sent, w') \<and>
      w_conns w' p = Some c' \<and> w_streams w' s = Some st' \<and> \<not> conn_write_mutex c' \<and>
      sint (conn_remote_window_size c') = sint (conn_remote_window_size ?c) - int (sum_list sent) \<and>
      sint (strm_remote_window_size st') = sint (strm_remote_window_size ?st) - int (sum_list sent) \<and>
      0 \<le> sint (conn_remote_window_size c') \<and> 0 \<le> sint (strm_remote_window_size st')"
      by (rule Cons.IH) (use Cons.prems(2,6) x True in simp_all)
    then obtain sent w' c' st' where g: "guarded_sends (Some p) (Some s) ns ?w = Inr (sent, w')"
      "w_conns w' p = Some c'" "w_streams w' s = Some st'" "\<not> conn_write_mutex c'"
      "sint (conn_remote_window_size c') = sint (conn_remote_window_size ?c) - int (sum_list sent)"
      "sint (strm_remote_window_size st') = sint (strm_remote_window_size ?st) - int (sum_list sent)"
      "0 \<le> sint (conn_remote_window_size c')" "0 \<le> sint (strm_remote_window_size st')"
      by blast
    have "guarded_sends (Some p) (Some s) (n # ns) w = Inr (n # sent, w')"
      using cs True consume_send_eq [OF Cons.prems(1-3), of n] g(1) by (simp add: bnd_def)
    moreover have "sint (conn_remote_window_size c') = sint (conn_remote_window_size c) - int (sum_list (n # sent))"
      "sint (strm_remote_window_size st') = sint (strm_remote_window_size st) - int (sum_list (n # sent))"
      using g(5,6) unfolding x by simp_all
    ultimately show ?thesis using g by blast
  qed
qed

text \<open>
  C16. A sender that calls \<open>can_send\<close> before each message (of less than 2^31 bytes) and consumes
  the windows after it never overdraws them: whatever it tries to send, what it did send is
  exactly what both windows shrank by, and neither window ever becomes negative.
\<close>

theorem guarded_sends_respect_windows:
  assumes "w_conns w p = Some c" and "\<not> conn_write_mutex c" and "w_streams w s = Some st"
    and "0 \<le> sint (conn_remote_window_size c)" and "0 \<le> sint (strm_remote_window_size st)"
    and "\<forall>n\<in>set ns. n < 2 ^ 31"
  shows "\<exists>sent w' c' st'. guarded_sends (Some p) (Some s) ns w = Inr (sent, w') \<and>
    w_conns w' p = Some c' \<and> w_streams w' s = Some st' \<and>
    sint (conn_remote_window_size c') = sint (conn_remote_window_size c) - int (sum_list sent) \<and>
    sint (strm_remote_window_size st') = sint (strm_remote_window_size st) - int (sum_list sent) \<and>
    int (sum_list sent) \<le> sint (conn_remote_window_size c) \<and>
    int (sum_list sent) \<le> sint (strm_remote_window_size st)"
  using guarded_sends_ok [OF assms] by fastforce

theorem guarded_sends_respect_windows_witness:
  "\<exists>sent w'. guarded_sends (Some 0) (Some 1) [60000, 6000, 5000] (world_with_stream 7) = Inr (sent, w') \<and>
    sum_list sent \<le> 65535"
proof -
  from world_with_stream [of 7] obtain a where st: "w_streams (world_with_stream 7) 1 = Some (stream_init 0 1)"
    "w_conns (world_with_stream 7) 0 = Some ((conn_fresh True)\<lparr>conn_socket_fd := 7, conn_streams := a\<rparr>)"
    by auto
  show ?thesis
    using guarded_sends_respect_windows [OF st(2) _ st(1), of "[60000, 6000, 5000]"]
    by (auto simp: conn_fresh_def stream_init_def HTTP2_DEFAULT_WINDOW_SIZE_def simp del: guarded_sends.simps)
qed

text \<open>
  Lengths from 2^31 to 2^32 - 1 pass the check of \<open>can_send\<close> although they exceed every
  window, because the length is converted to a negative 32-bit number first.
\<close>

theorem http2_flow_control_can_send_accepts_huge:
  assumes "w_conns w p = Some c" and "\<not> conn_write_mutex c" and "w_streams w s = Some st"
    and "0 \<le> sint (conn_remote_window_size c)" and "0 \<le> sint (strm_remote_window_size st)"
    and "2 ^ 31 \<le> n" and "n < 2 ^ 32"
  shows "http2_flow_control_can_send (Some p) (Some s) n w = Inr (1, w)"
proof -
  have "(word_of_nat n :: int32) = word_of_int (int n - 2 ^ 32)" by simp
  then have "sint (int32_of_size n) = signed_take_bit 31 (int n - 2 ^ 32)"
    unfolding int32_of_size_def by (simp only: signed_of_int) simp
  also have "\<dots> = int n - 2 ^ 32" using assms(6,7) by (intro signed_take_bit_int_eq_self) simp_all
  finally show ?thesis using can_send_eq [OF assms(1-3), of n] assms(4,5,7) by simp
qed

theorem http2_flow_control_can_send_accepts_huge_witness:
  "http2_flow_control_can_send (Some 0) (Some 1) 3000000000 (world_with_stream 7) =
     Inr (1, world_with_stream 7)"
proof -
  from world_with_stream [of 7] obtain a where st: "w_streams (world_with_stream 7) 1 = Some (stream_init 0 1)"
    "w_conns (world_with_stream 7) 0 = Some ((conn_fresh True)\<lparr>conn_socket_fd := 7, conn_streams := a\<rparr>)"
    by auto
  show ?thesis
    by (rule http2_flow_control_can_send_accepts_huge [OF st(2) _ st(1)])
      (simp_all add: conn_fresh_def stream_init_def HTTP2_DEFAULT_WINDOW_SIZE_def)
qed

section \<open>The receive windows\<close>

definition recv_refill :: "int \<Rightarrow> int" where
  "recv_refill x = (if x < 32767 then 65535 else x)"

lemma threshold_eq [simp]: "HTTP2_WINDOW_UPDATE_THRESHOLD = 32767"
  by (simp add: HTTP2_WINDOW_UPDATE_THRESHOLD_def)

lemma window_increment_pos:
  assumes "0 \<le> sint (x :: int32)" and "sint x < 65535"
  shows "HTTP2_DEFAULT_WINDOW_SIZE - x \<noteq> 0" "HTTP2_DEFAULT_WINDOW_SIZE - x \<le> 0x7FFFFFFF"
proof -
  have "uint (word_of_int (sint x) :: int32) = sint x mod 2 ^ 32"
    by (simp only: uint_word_of_int_eq take_bit_eq_mod) simp
  with assms have u: "uint x = sint x" by simp
  have "uint (HTTP2_DEFAULT_WINDOW_SIZE - x) = 65535 - sint x"
    using assms u by (simp add: HTTP2_DEFAULT_WINDOW_SIZE_def uint_word_ariths)
  then show "HTTP2_DEFAULT_WINDOW_SIZE - x \<noteq> 0" "HTTP2_DEFAULT_WINDOW_SIZE - x \<le> 0x7FFFFFFF"
    using assms by (auto simp: word_le_def)
qed

text \<open>Without a socket the update cannot be sent; the failure is ignored.\<close>

lemma send_window_update_no_socket:
  "w_conns w p = Some c \<Longrightarrow> conn_socket_fd c < 0 \<Longrightarrow>
   http2_flow_control_send_window_update (Some p) i n w = Inr (- 1, w)"
  by (simp add: http2_flow_control_send_window_update_def http2_connection_send_frame_def bnd_def)

lemma send_window_update_locked:
  "w_conns w p = Some c \<Longrightarrow> conn_socket_fd c \<ge> 0 \<Longrightarrow> conn_write_mutex c \<Longrightarrow> n \<noteq> 0 \<Longrightarrow> n \<le> 0x7FFFFFFF \<Longrightarrow>
   http2_flow_control_send_window_update (Some p) i n w = Inl Deadlock"
  by (simp add: http2_flow_control_send_window_update_def http2_connection_send_frame_def bnd_def
      cell_lock_held not_less [symmetric])

lemma sint_default_window: "sint HTTP2_DEFAULT_WINDOW_SIZE = 65535"
  by (simp add: HTTP2_DEFAULT_WINDOW_SIZE_def)

text \<open>A connection-level update is due on a connection with a socket.\<close>

definition update_blocks :: "http2_connection \<Rightarrow> nat \<Rightarrow> bool" where
  "update_blocks c n \<longleftrightarrow> 0 \<le> conn_socket_fd c \<and> int n \<le> sint (conn_local_window_size c) \<and>
     sint (conn_local_window_size c) - int n < 32767"

text \<open>With the mutex free an update may be sent in part, and the result is ignored.\<close>

lemma send_window_update_free:
  assumes "w_conns w p = Some c" and "\<not> conn_write_mutex c"
  shows "\<exists>r x y. http2_flow_control_send_window_update (Some p) i k w = Inr (r, w\<lparr>w_sent := x, w_send_ret := y\<rparr>)"
proof -
  let ?h = "\<lparr>fh_length = 4, fh_type = frame_type_code HTTP2_FRAME_WINDOW_UPDATE, fh_flags = 0, fh_stream_id = i\<rparr>"
  let ?pl = "[ucast (drop_bit 24 k AND 0x7F), ucast (drop_bit 16 k AND 0xFF), ucast (drop_bit 8 k AND 0xFF), ucast (k AND 0xFF)]"
  have same: "\<exists>x y. w = w\<lparr>w_sent := x, w_send_ret := y\<rparr>"
    by (intro exI [of _ "w_sent w"] exI [of _ "w_send_ret w"]) simp
  show ?thesis
  proof (cases "k = 0 \<or> k > 0x7FFFFFFF \<or> conn_socket_fd c < 0")
    case True
    then have "http2_flow_control_send_window_update (Some p) i k w = Inr (- 1, w)"
      using send_window_update_no_socket [OF assms(1), of i k] by (auto simp: http2_flow_control_send_window_update_def)
    with same show ?thesis by auto
  next
    case False
    then have fd: "0 \<le> conn_socket_fd c" by simp
    have "unat (fh_length ?h) \<le> length ?pl" by simp
    with assms(1) fd assms(2) show ?thesis
      by (cases rule: send_frame_cases [where h = ?h and pl = ?pl])
        (use False in \<open>auto simp: http2_flow_control_send_window_update_def\<close>)
  qed
qed

lemma consume_conn_recv_window_eq:
  assumes "w_conns w p = Some c" and "\<not> conn_write_mutex c" and "\<not> update_blocks c n"
    and "n \<le> 65535" and "0 \<le> sint (conn_local_window_size c)" and "sint (conn_local_window_size c) \<le> 65535"
  shows "\<exists>r x. consume_conn_recv_window (Some p) n w =
      Inr (r, w\<lparr>w_conns := (w_conns w)(p \<mapsto> c\<lparr>conn_local_window_size := x\<rparr>)\<rparr>) \<and>
    (if int n \<le> sint (conn_local_window_size c)
     then r = 0 \<and> sint x = recv_refill (sint (conn_local_window_size c) - int n)
     else r = - 1 \<and> x = conn_local_window_size c)"
proof -
  let ?x = "conn_local_window_size c"
  let ?y = "?x - word_of_nat n"
  have n: "sint (int32_of_size n) = int n" using assms(4) by simp
  have same: "c\<lparr>conn_local_window_size := ?x\<rparr> = c" by (cases c) simp
  have fd: "conn_socket_fd c < 0" if "int n \<le> sint ?x" "sint ?x - int n < 32767"
    using assms(3) that by (auto simp: update_blocks_def)
  note run = consume_conn_recv_window_def bnd_def cell_lock_free cell_unlock_eq Let_def assms(1,2) n same
  show ?thesis
  proof (cases "int n \<le> sint ?x")
    case False
    then show ?thesis by (intro exI [of _ "- 1"] exI [of _ ?x]) (simp add: run)
  next
    case True
    then have y: "sint ?y = sint ?x - int n" by (simp add: sint_sub_32)
    have no: "\<not> sint ?x < int n" using True by simp
    show ?thesis
    proof (cases "sint ?y < 32767")
      case low: True
      have inc: "HTTP2_DEFAULT_WINDOW_SIZE - ?y > 0"
        using window_increment_pos [of ?y] y True low by (simp add: word_gt_0)
      have "consume_conn_recv_window (Some p) n w =
          Inr (0, w\<lparr>w_conns := (w_conns w)(p \<mapsto> c\<lparr>conn_local_window_size := HTTP2_DEFAULT_WINDOW_SIZE\<rparr>)\<rparr>)"
        using inc low fd [OF True] y by (simp add: run no send_window_update_no_socket)
      moreover have "sint HTTP2_DEFAULT_WINDOW_SIZE = recv_refill (sint ?x - int n)"
        using low y by (simp add: recv_refill_def sint_default_window)
      ultimately show ?thesis using True by auto
    next
      case high: False
      then have "consume_conn_recv_window (Some p) n w =
          Inr (0, w\<lparr>w_conns := (w_conns w)(p \<mapsto> c\<lparr>conn_local_window_size := ?y\<rparr>)\<rparr>)"
        by (simp add: run no)
      moreover have "sint ?y = recv_refill (sint ?x - int n)" using high y by (simp add: recv_refill_def)
      ultimately show ?thesis using True by auto
    qed
  qed
qed

lemma consume_stream_recv_window_eq:
  assumes "w_conns w p = Some c" and "\<not> conn_write_mutex c" and "w_streams w s = Some st"
    and "n \<le> 65535" and "0 \<le> sint (strm_local_window_size st)" and "sint (strm_local_window_size st) \<le> 65535"
  shows "\<exists>r x w'. consume_stream_recv_window (Some p) (Some s) n w = Inr (r, w') \<and> w_conns w' = w_conns w \<and>
    w_streams w' = (w_streams w)(s \<mapsto> st\<lparr>strm_local_window_size := x\<rparr>) \<and>
    (if int n \<le> sint (strm_local_window_size st)
     then r = 0 \<and> sint x = recv_refill (sint (strm_local_window_size st) - int n)
     else r = - 1 \<and> x = strm_local_window_size st)"
proof -
  let ?x = "strm_local_window_size st"
  let ?y = "?x - word_of_nat n"
  have n: "sint (int32_of_size n) = int n" using assms(4) by simp
  have same: "(w_streams w)(s \<mapsto> st) = w_streams w" using assms(3) by (simp add: map_upd_triv)
  show ?thesis
  proof (cases "int n \<le> sint ?x")
    case False
    with assms n same show ?thesis
      by (intro exI [of _ "- 1"] exI [of _ ?x]) (simp add: consume_stream_recv_window_def bnd_def)
  next
    case True
    then have y: "sint ?y = sint ?x - int n" by (simp add: sint_sub_32)
    let ?w = "w\<lparr>w_streams := (w_streams w)(s \<mapsto> st\<lparr>strm_local_window_size := ?y\<rparr>)\<rparr>"
    show ?thesis
    proof (cases "sint ?y < 32767")
      case low: True
      have inc: "HTTP2_DEFAULT_WINDOW_SIZE - ?y > 0"
        using window_increment_pos [of ?y] y True low by (simp add: word_gt_0)
      have "w_conns ?w p = Some c" using assms(1) by simp
      from send_window_update_free [OF this assms(2), of "strm_id st" "HTTP2_DEFAULT_WINDOW_SIZE - ?y"] obtain r' sx sy where
        u: "http2_flow_control_send_window_update (Some p) (strm_id st) (HTTP2_DEFAULT_WINDOW_SIZE - ?y) ?w =
          Inr (r', ?w\<lparr>w_sent := sx, w_send_ret := sy\<rparr>)" by blast
      from True assms(3) n y low inc u show ?thesis
        by (intro exI [of _ 0] exI [of _ HTTP2_DEFAULT_WINDOW_SIZE])
          (simp add: consume_stream_recv_window_def bnd_def Let_def recv_refill_def sint_default_window)
    next
      case high: False
      from True assms(3) n y high show ?thesis
        by (intro exI [of _ 0] exI [of _ ?y])
          (simp add: consume_stream_recv_window_def bnd_def recv_refill_def)
    qed
  qed
qed

lemma consume_conn_recv_window_blocks:
  assumes "w_conns w p = Some c" and "\<not> conn_write_mutex c" and "n \<le> 65535" and "update_blocks c n"
  shows "consume_conn_recv_window (Some p) n w = Inl Deadlock"
proof -
  let ?y = "conn_local_window_size c - word_of_nat n"
  from assms(4) have b: "0 \<le> conn_socket_fd c" "int n \<le> sint (conn_local_window_size c)"
    "sint (conn_local_window_size c) - int n < 32767" by (simp_all add: update_blocks_def)
  have n: "sint (int32_of_size n) = int n" using assms(3) by simp
  have y: "sint ?y = sint (conn_local_window_size c) - int n" using b(2) by (simp add: sint_sub_32)
  have "0 \<le> sint ?y" "sint ?y < 65535" using y b(2,3) by linarith+
  note inc = window_increment_pos [OF this]
  then have "0 < HTTP2_DEFAULT_WINDOW_SIZE - ?y" by (simp add: word_gt_0)
  with assms(1,2) b n y inc show ?thesis
    by (simp add: consume_conn_recv_window_def bnd_def cell_lock_free Let_def send_window_update_locked)
qed

text \<open>
  C17. Receiving \<open>n\<close> bytes on any connection, with or without a socket. If the connection has a
  socket and the data takes its window below 32767, the receiver blocks for ever: it holds the
  write mutex when it sends the update, and sending locks it again. In all other cases the call
  takes \<open>n\<close> from both receive windows, refills a window to 65535 once it falls below 32767, and
  returns 0, if both windows have \<open>n\<close> left; otherwise it returns -1, with the connection window
  already charged when only the stream window was too small. The windows stay between 0 and
  65535, and the mutex is free.
\<close>

theorem http2_flow_control_consume_recv_window_exact:
  assumes "w_conns w p = Some c" and "\<not> conn_write_mutex c"
    and "w_streams w s = Some st" and "n \<le> 65535"
    and "0 \<le> sint (conn_local_window_size c)" and "sint (conn_local_window_size c) \<le> 65535"
    and "0 \<le> sint (strm_local_window_size st)" and "sint (strm_local_window_size st) \<le> 65535"
  shows "if 0 \<le> conn_socket_fd c \<and> int n \<le> sint (conn_local_window_size c) \<and>
        sint (conn_local_window_size c) - int n < 32767
    then http2_flow_control_consume_recv_window (Some p) (Some s) n w = Inl Deadlock
    else \<exists>r w' c' st'. http2_flow_control_consume_recv_window (Some p) (Some s) n w = Inr (r, w') \<and>
      w_conns w' p = Some c' \<and> w_streams w' s = Some st' \<and> \<not> conn_write_mutex c' \<and>
      r = (if int n \<le> sint (conn_local_window_size c) \<and> int n \<le> sint (strm_local_window_size st)
           then 0 else - 1) \<and>
      sint (conn_local_window_size c') =
        (if int n \<le> sint (conn_local_window_size c)
         then recv_refill (sint (conn_local_window_size c) - int n) else sint (conn_local_window_size c)) \<and>
      sint (strm_local_window_size st') =
        (if r = 0 then recv_refill (sint (strm_local_window_size st) - int n)
         else sint (strm_local_window_size st))"
proof -
  have n: "sint (int32_of_size n) = int n" using assms(4) by simp
  note def = http2_flow_control_consume_recv_window_def bnd_def sint_default_window n
  show ?thesis
  proof (cases "update_blocks c n")
    case True
    with consume_conn_recv_window_blocks [OF assms(1,2,4)] assms(4) show ?thesis
      by (simp add: def update_blocks_def)
  next
    case False
    from consume_conn_recv_window_eq [OF assms(1,2) False assms(4-6)] obtain r x where
      cr: "consume_conn_recv_window (Some p) n w =
        Inr (r, w\<lparr>w_conns := (w_conns w)(p \<mapsto> c\<lparr>conn_local_window_size := x\<rparr>)\<rparr>)"
      and rx: "if int n \<le> sint (conn_local_window_size c)
       then r = 0 \<and> sint x = recv_refill (sint (conn_local_window_size c) - int n)
       else r = - 1 \<and> x = conn_local_window_size c" by blast
    let ?w = "w\<lparr>w_conns := (w_conns w)(p \<mapsto> c\<lparr>conn_local_window_size := x\<rparr>)\<rparr>"
    have "w_conns ?w p = Some (c\<lparr>conn_local_window_size := x\<rparr>)" "w_streams ?w s = Some st"
      "\<not> conn_write_mutex (c\<lparr>conn_local_window_size := x\<rparr>)" using assms(2,3) by simp_all
    from consume_stream_recv_window_eq [OF this(1,3,2) assms(4,7,8)] obtain r' x' w' where
      sr: "consume_stream_recv_window (Some p) (Some s) n ?w = Inr (r', w')" "w_conns w' = w_conns ?w"
        "w_streams w' = (w_streams ?w)(s \<mapsto> st\<lparr>strm_local_window_size := x'\<rparr>)"
      and rx': "if int n \<le> sint (strm_local_window_size st)
       then r' = 0 \<and> sint x' = recv_refill (sint (strm_local_window_size st) - int n)
       else r' = - 1 \<and> x' = strm_local_window_size st" by blast
    have run: "http2_flow_control_consume_recv_window (Some p) (Some s) n w = (if r \<noteq> 0 then Inr (- 1, ?w) else Inr (r', w'))"
      using cr sr(1) assms(4) by (simp add: def)
    show ?thesis
    proof (cases "int n \<le> sint (conn_local_window_size c)")
      case True
      with rx have "r = 0" by simp
      with run sr(2,3) rx rx' True assms(2) False show ?thesis
        by (cases "int n \<le> sint (strm_local_window_size st)") (simp_all add: update_blocks_def)
    next
      case not: False
      with run rx assms(2,3) show ?thesis by simp
    qed
  qed
qed

theorem http2_flow_control_consume_recv_window_exact_witness:
  "(\<exists>w' c'. http2_flow_control_consume_recv_window (Some 0) (Some 1) 40000 (world_with_stream (- 1)) = Inr (0, w') \<and>
    w_conns w' 0 = Some c' \<and> sint (conn_local_window_size c') = 65535) \<and>
   http2_flow_control_consume_recv_window (Some 0) (Some 1) 40000 (world_with_stream 7) = Inl Deadlock"
proof -
  have st: "w_streams (world_with_stream fd) 1 = Some (stream_init 0 1) \<and>
    (\<exists>a. w_conns (world_with_stream fd) 0 = Some ((conn_fresh True)\<lparr>conn_socket_fd := fd, conn_streams := a\<rparr>))" for fd
    using world_with_stream [of fd] by auto
  obtain a where a: "w_conns (world_with_stream (- 1)) 0 = Some ((conn_fresh True)\<lparr>conn_socket_fd := - 1, conn_streams := a\<rparr>)"
    using st by blast
  obtain b where b: "w_conns (world_with_stream 7) 0 = Some ((conn_fresh True)\<lparr>conn_socket_fd := 7, conn_streams := b\<rparr>)"
    using st by blast
  note init = conn_fresh_def stream_init_def HTTP2_DEFAULT_WINDOW_SIZE_def recv_refill_def
  from http2_flow_control_consume_recv_window_exact [OF a _ conjunct1 [OF st], of 40000]
    http2_flow_control_consume_recv_window_exact [OF b _ conjunct1 [OF st], of 40000] show ?thesis
    by (auto simp: init)
qed

end
