(* ===== verification/Channel.thy ===== *)
theory Channel
  imports Flow_Control
begin

text \<open>
  Channels and calls, \<^verbatim>\<open>src/grpc_channel.c\<close>. A call owns one stream of its channel's connection. The
  string arguments are texts, \<open>None\<close> being a \<open>NULL\<close> pointer; the credentials and channel
  arguments are only stored, so they are opaque pointers. How a client uses a call from its
  creation to its end is the subject of \<open>Call_Session\<close>.
\<close>

section \<open>Channels\<close>

definition grpc_channel_create :: "string option \<Rightarrow> nat option \<Rightarrow> nat option \<Rightarrow> addr option cmd" where
  "grpc_channel_create target creds args =
     (case target of
        None \<Rightarrow> ret None
      | Some t \<Rightarrow>
          bnd alloc_cmd (\<lambda>ok1.
          if \<not> ok1 then ret None
          else
            bnd alloc_cmd (\<lambda>ok2.
            if \<not> ok2 then ret None
            else
              bnd (chan_new \<lparr>chan_target = t, chan_connection = None, chan_creds = creds,
                             chan_args = args, chan_mutex = False\<rparr>) (\<lambda>channel.
              bnd (http2_connection_create t True None) (\<lambda>connection.
              bnd (chan_upd (Some channel) (\<lambda>ch. ch\<lparr>chan_connection := connection\<rparr>)) (\<lambda>_.
              if connection = None
              then bnd (chan_free (Some channel)) (\<lambda>_. ret None)
              else ret (Some channel)))))))"

definition grpc_insecure_channel_create :: "string option \<Rightarrow> nat option \<Rightarrow> addr option cmd" where
  "grpc_insecure_channel_create target args = grpc_channel_create target None args"

definition grpc_channel_destroy :: "addr option \<Rightarrow> unit cmd" where
  "grpc_channel_destroy channel =
     (case channel of
        None \<Rightarrow> skip
      | Some _ \<Rightarrow>
          bnd (lock_channel channel) (\<lambda>_.
          bnd (chan_get channel) (\<lambda>ch.
          bnd (if chan_connection ch \<noteq> None then http2_connection_destroy (chan_connection ch) else skip) (\<lambda>_.
          bnd (unlock_channel channel) (\<lambda>_.
          chan_free channel)))))"

section \<open>Calls\<close>

text \<open>\<open>strdup\<close> of a text: \<open>None\<close> when the allocation fails.\<close>

definition strdup :: "string \<Rightarrow> string option cmd" where
  "strdup s = bnd alloc_cmd (\<lambda>ok. ret (if ok then Some s else None))"

text \<open>The critical section that gives a call its stream.\<close>

definition call_open_stream :: "addr option \<Rightarrow> addr \<Rightarrow> unit cmd" where
  "call_open_stream channel call =
     bnd (lock_channel channel) (\<lambda>_.
     bnd (chan_get channel) (\<lambda>ch.
     bnd (if chan_connection ch \<noteq> None
          then
            bnd (conn_get (chan_connection ch)) (\<lambda>c.
            bnd (conn_upd (chan_connection ch)
                   (\<lambda>c. c\<lparr>conn_next_stream_id := conn_next_stream_id c + 2\<rparr>)) (\<lambda>_.
            bnd (http2_stream_create (chan_connection ch) (conn_next_stream_id c)) (\<lambda>stream.
            bnd (call_upd (Some call) (\<lambda>cl. cl\<lparr>call_stream := stream\<rparr>)) (\<lambda>_.
            if stream \<noteq> None
            then strm_upd stream (\<lambda>s. s\<lparr>strm_call := Some call\<rparr>)
            else skip))))
          else skip) (\<lambda>_.
     unlock_channel channel)))"

definition grpc_channel_create_call ::
    "addr option \<Rightarrow> addr option \<Rightarrow> uint32 \<Rightarrow> addr option \<Rightarrow> string option \<Rightarrow> string option \<Rightarrow>
     grpc_timespec \<Rightarrow> addr option cmd" where
  "grpc_channel_create_call channel parent_call propagation_mask cq method host deadline =
     (if channel = None \<or> cq = None \<or> method = None then ret None
      else
        bnd alloc_cmd (\<lambda>ok.
        if \<not> ok then ret None
        else
          bnd (strdup (the method)) (\<lambda>meth.
          bnd (case host of None \<Rightarrow> ret None | Some h \<Rightarrow> strdup h) (\<lambda>hst.
          bnd (call_new \<lparr>call_channel = channel, call_server = None, call_stream = None,
                 call_cq = cq, call_method = meth, call_host = hst, call_deadline = deadline,
                 call_initial_metadata = grpc_metadata_array_zero,
                 call_trailing_metadata = grpc_metadata_array_zero, call_send_buffer = None,
                 call_recv_buffer = None, call_status = GRPC_STATUS_OK, call_status_details = None,
                 call_cancelled = False, call_mutex = False\<rparr>) (\<lambda>call.
          bnd (call_open_stream channel call) (\<lambda>_.
          bnd (call_get (Some call)) (\<lambda>cl.
          if call_stream cl = None
          then bnd (call_free (Some call)) (\<lambda>_. ret None)
          else ret (Some call))))))))"

text \<open>An operation of the completion queue component on a queue of the heap.\<close>

definition cq_push_cmd :: "addr option \<Rightarrow> grpc_event \<Rightarrow> unit cmd" where
  "cq_push_cmd cq event =
     (case cq of
        None \<Rightarrow> skip
      | Some a \<Rightarrow>
          bnd (cq_get cq) (\<lambda>q w.
            exec_bind (completion_queue_push_event (Some q) event (w_alloc w)) (\<lambda>(q', os).
              Inr ((), w\<lparr>w_cqs := (w_cqs w)(a := q'), w_alloc := os\<rparr>))))"

definition grpc_call_start_batch :: "addr option \<Rightarrow> nat option \<Rightarrow> nat \<Rightarrow> nat option \<Rightarrow> grpc_call_error cmd" where
  "grpc_call_start_batch call ops nops tag =
     (if call = None then ret GRPC_CALL_ERROR
      else
        bnd (call_get call) (\<lambda>cl.
        if call_cq cl = None then ret GRPC_CALL_ERROR
        else bnd (cq_push_cmd (call_cq cl) \<lparr>ev_type = 1, ev_success = True, ev_tag = tag\<rparr>) (\<lambda>_.
               ret GRPC_CALL_OK)))"

definition grpc_call_cancel :: "addr option \<Rightarrow> grpc_call_error cmd" where
  "grpc_call_cancel call =
     (if call = None then ret GRPC_CALL_ERROR
      else
        bnd (lock_call call) (\<lambda>_.
        bnd (call_upd call (\<lambda>cl. cl\<lparr>call_cancelled := True, call_status := GRPC_STATUS_CANCELLED\<rparr>)) (\<lambda>_.
        bnd (unlock_call call) (\<lambda>_.
        ret GRPC_CALL_OK))))"

definition grpc_call_destroy :: "addr option \<Rightarrow> unit cmd" where
  "grpc_call_destroy call =
     (case call of
        None \<Rightarrow> skip
      | Some _ \<Rightarrow>
          bnd (lock_call call) (\<lambda>_.
          bnd (call_get call) (\<lambda>cl.
          bnd (if call_stream cl \<noteq> None
               then
                 bnd (call_upd call (\<lambda>cl. cl\<lparr>call_stream := None\<rparr>)) (\<lambda>_.
                 bnd (unlock_call call) (\<lambda>_.
                 bnd (http2_stream_destroy (call_stream cl)) (\<lambda>_.
                 lock_call call)))
               else skip) (\<lambda>_.
          bnd (lift (grpc_byte_buffer_destroy (call_send_buffer cl))) (\<lambda>_.
          bnd (lift (grpc_byte_buffer_destroy (call_recv_buffer cl))) (\<lambda>_.
          bnd (lift (md_block_release (call_initial_metadata cl))) (\<lambda>_.
          bnd (lift (md_block_release (call_trailing_metadata cl))) (\<lambda>_.
          bnd (unlock_call call) (\<lambda>_.
          call_free call)))))))))"

section \<open>Opening a stream for a call\<close>

definition chan_at :: "world \<Rightarrow> addr \<Rightarrow> grpc_channel \<Rightarrow> addr \<Rightarrow> http2_connection \<Rightarrow> bool" where
  "chan_at w ch k p c \<longleftrightarrow> w_channels w ch = Some k \<and> \<not> chan_mutex k \<and> chan_connection k = Some p \<and>
     w_conns w p = Some c \<and> conn_inv c \<and> world_fresh w"

lemma chan_update_same [simp]: "chan_mutex k = m \<Longrightarrow> k\<lparr>chan_mutex := m\<rparr> = k"
  by (cases k) simp

lemma call_update_same [simp]: "call_mutex k = m \<Longrightarrow> k\<lparr>call_mutex := m\<rparr> = k"
  "call_stream k = s \<Longrightarrow> k\<lparr>call_stream := s\<rparr> = k"
  by (cases k, simp)+

lemma call_open_stream_cases:
  assumes "chan_at w ch k p c" and "w_calls w cl = Some x" and "call_stream x = None"
  obtains (no_stream) os n where
      "call_open_stream (Some ch) cl w = Inr ((),
         w\<lparr>w_conns := (w_conns w)(p \<mapsto> c\<lparr>conn_next_stream_id := conn_next_stream_id c + 2\<rparr>),
           w_brk := w_brk w + n, w_alloc := os\<rparr>)"
      "\<not> alloc_ok (w_alloc w)"
  | (opened) os a where
      "call_open_stream (Some ch) cl w = Inr ((),
         w\<lparr>w_conns := (w_conns w)(p \<mapsto> c\<lparr>conn_next_stream_id := conn_next_stream_id c + 2,
             conn_streams := a\<rparr>),
           w_streams := (w_streams w)(w_brk w \<mapsto>
             (stream_init p (conn_next_stream_id c))\<lparr>strm_call := Some cl\<rparr>),
           w_calls := (w_calls w)(cl \<mapsto> x\<lparr>call_stream := Some (w_brk w)\<rparr>),
           w_brk := w_brk w + 1, w_alloc := os\<rparr>)"
      "arr_wf a" "arr_list a = arr_list (conn_streams c) @ [w_brk w]" "0 < arr_capacity a"
      "alloc_ok (w_alloc w) \<Longrightarrow> alloc_ok os"
proof -
  let ?id = "conn_next_stream_id c"
  let ?c = "c\<lparr>conn_next_stream_id := ?id + 2\<rparr>"
  let ?k = "k\<lparr>chan_mutex := True\<rparr>"
  define w2 where "w2 = w\<lparr>w_channels := (w_channels w)(ch \<mapsto> ?k), w_conns := (w_conns w)(p \<mapsto> ?c)\<rparr>"
  from assms(1) have k: "w_channels w ch = Some k" "\<not> chan_mutex k" "chan_connection k = Some p"
    "w_conns w p = Some c" "conn_inv c" "world_fresh w" by (auto simp: chan_at_def)
  have same: "(w_channels w)(ch \<mapsto> k) = w_channels w" "(w_calls w)(cl \<mapsto> x) = w_calls w"
    using k(1) assms(2) by (simp_all add: map_upd_triv)
  have w2: "w_conns w2 p = Some ?c" "conn_inv ?c" "world_fresh w2" "w_brk w2 = w_brk w"
    using k by (auto simp: w2_def conn_inv_def world_fresh_def)
  have start: "call_open_stream (Some ch) cl w =
      bnd (http2_stream_create (Some p) ?id) (\<lambda>stream.
      bnd (call_upd (Some cl) (\<lambda>cl. cl\<lparr>call_stream := stream\<rparr>)) (\<lambda>_.
      bnd (if stream \<noteq> None then strm_upd stream (\<lambda>s. s\<lparr>strm_call := Some cl\<rparr>) else skip) (\<lambda>_.
      unlock_channel (Some ch)))) w2"
    using k by (simp add: call_open_stream_def bnd_def cell_lock_free exec_bind_assoc split_def w2_def)
  from w2(1-3) show ?thesis
  proof (cases rule: http2_stream_create_cases [where i = ?id])
    case (no_stream os n)
    have "call_open_stream (Some ch) cl w = Inr ((),
         w\<lparr>w_conns := (w_conns w)(p \<mapsto> ?c), w_brk := w_brk w + n, w_alloc := os\<rparr>)"
      using no_stream(1) assms(2,3) k same
      by (simp add: start bnd_def cell_unlock_eq w2_def)
    then show ?thesis using no_stream(2) that(1) by (simp add: w2_def)
  next
    case (created os a)
    have "call_open_stream (Some ch) cl w = Inr ((),
         w\<lparr>w_conns := (w_conns w)(p \<mapsto> ?c\<lparr>conn_streams := a\<rparr>),
           w_streams := (w_streams w)(w_brk w \<mapsto> (stream_init p ?id)\<lparr>strm_call := Some cl\<rparr>),
           w_calls := (w_calls w)(cl \<mapsto> x\<lparr>call_stream := Some (w_brk w)\<rparr>),
           w_brk := w_brk w + 1, w_alloc := os\<rparr>)"
      using created(1) assms(2) k same
      by (simp add: start bnd_def cell_unlock_eq w2_def)
    then show ?thesis using that(2) created(2-5) w2(4) by (simp add: w2_def)
  qed
qed

section \<open>Creating and destroying calls\<close>

definition call_init :: "addr \<Rightarrow> addr \<Rightarrow> string option \<Rightarrow> string option \<Rightarrow> grpc_timespec \<Rightarrow> grpc_call" where
  "call_init ch cq meth hst deadline = \<lparr>call_channel = Some ch, call_server = None, call_stream = None,
     call_cq = Some cq, call_method = meth, call_host = hst, call_deadline = deadline,
     call_initial_metadata = grpc_metadata_array_zero,
     call_trailing_metadata = grpc_metadata_array_zero, call_send_buffer = None,
     call_recv_buffer = None, call_status = GRPC_STATUS_OK, call_status_details = None,
     call_cancelled = False, call_mutex = False\<rparr>"

text \<open>What \<open>strdup\<close> makes of a text under the allocator state.\<close>

lemma strdup_eq: "strdup s w = Inr (if fst (alloc_next (w_alloc w)) then Some s else None,
    w\<lparr>w_alloc := snd (alloc_next (w_alloc w))\<rparr>)"
  by (simp add: strdup_def bnd_def alloc_cmd_eq)

lemma alloc_next_snd_ok: "alloc_ok os \<Longrightarrow> alloc_ok (snd (alloc_next os)) \<and> fst (alloc_next os)"
  by (cases os) auto

text \<open>The state once the call object is filled in and its stream is still to be opened.\<close>

definition call_stored :: "addr \<Rightarrow> addr \<Rightarrow> string \<Rightarrow> string option \<Rightarrow> grpc_timespec \<Rightarrow> world \<Rightarrow> world" where
  "call_stored ch cq m h d w =
     (let os1 = snd (alloc_next (w_alloc w));
          os2 = snd (alloc_next os1);
          meth = (if fst (alloc_next os1) then Some m else None);
          hst = (if h \<noteq> None \<and> fst (alloc_next os2) then h else None)
      in w\<lparr>w_alloc := (if h = None then os2 else snd (alloc_next os2)), w_brk := w_brk w + 1,
           w_calls := (w_calls w)(w_brk w \<mapsto> call_init ch cq meth hst d)\<rparr>)"

lemma grpc_channel_create_call_start:
  "grpc_channel_create_call (Some ch) pc pm (Some cq) (Some m) h d w =
      (if \<not> fst (alloc_next (w_alloc w)) then Inr (None, w\<lparr>w_alloc := snd (alloc_next (w_alloc w))\<rparr>)
       else bnd (call_open_stream (Some ch) (w_brk w)) (\<lambda>_.
          bnd (call_get (Some (w_brk w))) (\<lambda>cl.
          if call_stream cl = None
          then bnd (call_free (Some (w_brk w))) (\<lambda>_. ret None)
          else ret (Some (w_brk w)))) (call_stored ch cq m h d w))"
  by (cases h) (simp_all add: grpc_channel_create_call_def bnd_def alloc_cmd_eq strdup_eq call_stored_def
      call_init_def Let_def cong: if_cong)

text \<open>The state once the call has its stream.\<close>

definition call_added ::
    "addr \<Rightarrow> addr \<Rightarrow> http2_connection \<Rightarrow> addr arr \<Rightarrow> addr \<Rightarrow> string option \<Rightarrow> string option \<Rightarrow> grpc_timespec \<Rightarrow>
     alloc \<Rightarrow> world \<Rightarrow> world" where
  "call_added ch p c a cq meth hst d os w =
     w\<lparr>w_conns := (w_conns w)(p \<mapsto> c\<lparr>conn_next_stream_id := conn_next_stream_id c + 2, conn_streams := a\<rparr>),
       w_streams := (w_streams w)(w_brk w + 1 \<mapsto>
         (stream_init p (conn_next_stream_id c))\<lparr>strm_call := Some (w_brk w)\<rparr>),
       w_calls := (w_calls w)(w_brk w \<mapsto> (call_init ch cq meth hst d)\<lparr>call_stream := Some (w_brk w + 1)\<rparr>),
       w_brk := w_brk w + 2, w_alloc := os\<rparr>"

lemma call_stored_facts:
  assumes "chan_at w ch k p c"
  obtains meth hst os where
    "call_stored ch cq m h d w = w\<lparr>w_alloc := os, w_brk := w_brk w + 1,
       w_calls := (w_calls w)(w_brk w \<mapsto> call_init ch cq meth hst d)\<rparr>"
    "chan_at (call_stored ch cq m h d w) ch k p c"
    "alloc_ok (w_alloc w) \<Longrightarrow> alloc_ok os \<and> meth = Some m \<and> hst = h"
proof -
  let ?os1 = "snd (alloc_next (w_alloc w))"
  let ?os2 = "snd (alloc_next ?os1)"
  let ?os = "if h = None then ?os2 else snd (alloc_next ?os2)"
  let ?meth = "if fst (alloc_next ?os1) then Some m else None"
  let ?hst = "if h \<noteq> None \<and> fst (alloc_next ?os2) then h else None"
  show ?thesis
  proof (rule that [where os = ?os and meth = ?meth and hst = ?hst])
    show "chan_at (call_stored ch cq m h d w) ch k p c"
      using assms by (auto simp: chan_at_def call_stored_def Let_def world_fresh_def)
    show "alloc_ok ?os \<and> ?meth = Some m \<and> ?hst = h" if "alloc_ok (w_alloc w)"
      using that alloc_next_snd_ok by (cases h) simp_all
  qed (simp add: call_stored_def Let_def)
qed

lemma grpc_channel_create_call_cases:
  assumes "chan_at w ch k p c"
  obtains (no_call) os where
      "grpc_channel_create_call (Some ch) pc pm (Some cq) (Some m) h d w =
         Inr (None, w\<lparr>w_alloc := os\<rparr>)" "\<not> alloc_ok (w_alloc w)"
  | (no_stream) os n where
      "grpc_channel_create_call (Some ch) pc pm (Some cq) (Some m) h d w =
         Inr (None, w\<lparr>w_conns := (w_conns w)(p \<mapsto> c\<lparr>conn_next_stream_id := conn_next_stream_id c + 2\<rparr>),
           w_brk := w_brk w + n, w_alloc := os\<rparr>)" "\<not> alloc_ok (w_alloc w)"
  | (created) os a meth hst where
      "grpc_channel_create_call (Some ch) pc pm (Some cq) (Some m) h d w =
         Inr (Some (w_brk w), call_added ch p c a cq meth hst d os w)"
      "arr_wf a" "arr_list a = arr_list (conn_streams c) @ [w_brk w + 1]" "0 < arr_capacity a"
      "alloc_ok (w_alloc w) \<Longrightarrow> alloc_ok os \<and> meth = Some m \<and> hst = h"
proof (cases "fst (alloc_next (w_alloc w))")
  case False
  then show ?thesis
    using no_call grpc_channel_create_call_start [of ch pc pm cq m h d w] alloc_next_snd_ok by auto
next
  case True
  note start = grpc_channel_create_call_start [of ch pc pm cq m h d w]
  let ?w1 = "call_stored ch cq m h d w"
  have fresh: "(w_calls w)(w_brk w := None) = w_calls w"
    using assms by (auto simp: chan_at_def world_fresh_def fun_eq_iff)
  from assms obtain meth hst os where w1: "?w1 = w\<lparr>w_alloc := os, w_brk := w_brk w + 1,
       w_calls := (w_calls w)(w_brk w \<mapsto> call_init ch cq meth hst d)\<rparr>" "chan_at ?w1 ch k p c"
    and al: "alloc_ok (w_alloc w) \<Longrightarrow> alloc_ok os \<and> meth = Some m \<and> hst = h" by (rule call_stored_facts) blast
  have x: "w_calls ?w1 (w_brk w) = Some (call_init ch cq meth hst d)" "call_stream (call_init ch cq meth hst d) = None"
    by (simp_all add: w1(1) call_init_def)
  from w1(2) x show ?thesis
  proof (cases rule: call_open_stream_cases)
    case (no_stream os' n)
    have "grpc_channel_create_call (Some ch) pc pm (Some cq) (Some m) h d w =
       Inr (None, w\<lparr>w_conns := (w_conns w)(p \<mapsto> c\<lparr>conn_next_stream_id := conn_next_stream_id c + 2\<rparr>),
         w_brk := w_brk w + (n + 1), w_alloc := os'\<rparr>)"
      using start True no_stream(1) x fresh by (simp add: bnd_def w1(1))
    moreover have "\<not> alloc_ok (w_alloc w)" using no_stream(2) al by (auto simp: w1(1))
    ultimately show ?thesis by (rule that(2))
  next
    case (opened os' a)
    have "grpc_channel_create_call (Some ch) pc pm (Some cq) (Some m) h d w =
       Inr (Some (w_brk w), call_added ch p c a cq meth hst d os' w)"
      using start True opened(1) x by (simp add: bnd_def w1(1) call_added_def)
    then show ?thesis using opened(2-5) al by (intro that(3) [where os = os' and a = a and meth = meth and hst = hst]) (simp_all add: w1(1))
  qed
qed

definition call_clean :: "grpc_call \<Rightarrow> bool" where
  "call_clean k \<longleftrightarrow> \<not> call_mutex k \<and> md_block (call_initial_metadata k) \<noteq> Freed_Block \<and>
     md_block (call_trailing_metadata k) \<noteq> Freed_Block \<and>
     (case call_send_buffer k of None \<Rightarrow> True | Some b \<Rightarrow> bb_data b \<noteq> Freed_Block) \<and>
     (case call_recv_buffer k of None \<Rightarrow> True | Some b \<Rightarrow> bb_data b \<noteq> Freed_Block)"

lemma grpc_call_destroy_eq:
  assumes "conn_ok w p" and "w_conns w p = Some c" and "s \<in> set (arr_list (conn_streams c))"
    and "w_calls w cl = Some x" and "call_stream x = Some s" and "call_clean x"
  shows "\<exists>a. grpc_call_destroy (Some cl) w = Inr ((),
      w\<lparr>w_conns := (w_conns w)(p \<mapsto> c\<lparr>conn_streams := a\<rparr>), w_streams := (w_streams w)(s := None),
        w_calls := (w_calls w)(cl := None)\<rparr>) \<and>
    arr_wf a \<and> 0 < arr_capacity a \<and> distinct (arr_list a) \<and>
    set (arr_list a) = set (arr_list (conn_streams c)) - {s}"
proof -
  define w1 where "w1 = w\<lparr>w_calls := (w_calls w)(cl \<mapsto> x\<lparr>call_stream := None\<rparr>)\<rparr>"
  have m: "\<not> call_mutex x" using assms(6) by (simp add: call_clean_def)
  have "conn_ok w1 p" "w_conns w1 p = Some c"
    using assms(1,2) by (auto simp: w1_def conn_ok_def)
  from http2_stream_destroy_eq [OF this assms(3)] obtain a where
    a: "http2_stream_destroy (Some s) w1 = Inr ((),
      w1\<lparr>w_conns := (w_conns w1)(p \<mapsto> c\<lparr>conn_streams := a\<rparr>), w_streams := (w_streams w1)(s := None)\<rparr>)"
      "arr_wf a" "0 < arr_capacity a" "distinct (arr_list a)"
      "set (arr_list a) = set (arr_list (conn_streams c)) - {s}" by blast
  have b: "grpc_byte_buffer_destroy (call_send_buffer x) = Inr ()"
    "grpc_byte_buffer_destroy (call_recv_buffer x) = Inr ()"
    "md_block_release (call_initial_metadata x) = Inr ()"
    "md_block_release (call_trailing_metadata x) = Inr ()"
    using assms(6)
    by (auto simp: call_clean_def grpc_byte_buffer_destroy_def block_free_ok md_block_release_ok
        split: option.splits)
  have "grpc_call_destroy (Some cl) w = Inr ((),
      w\<lparr>w_conns := (w_conns w)(p \<mapsto> c\<lparr>conn_streams := a\<rparr>), w_streams := (w_streams w)(s := None),
        w_calls := (w_calls w)(cl := None)\<rparr>)"
    using a(1) b assms(4,5) m
    by (simp add: grpc_call_destroy_def bnd_def cell_lock_free cell_unlock_eq w1_def)
  with a(2-5) show ?thesis by blast
qed

lemma create_call_strdup_fails:
  assumes "chan_at w ch k p c" and "w_alloc w = [True, False]"
  shows "\<exists>w' x. grpc_channel_create_call (Some ch) pc pm (Some cq) (Some m) None d w = Inr (Some (w_brk w), w') \<and>
    w_calls w' (w_brk w) = Some x \<and> call_method x = None"
proof -
  let ?w1 = "call_stored ch cq m None d w"
  let ?x = "call_init ch cq None None d"
  have w1: "?w1 = w\<lparr>w_alloc := [], w_brk := w_brk w + 1, w_calls := (w_calls w)(w_brk w \<mapsto> ?x)\<rparr>"
    using assms(2) by (simp add: call_stored_def Let_def)
  have "chan_at ?w1 ch k p c" "w_calls ?w1 (w_brk w) = Some ?x" "call_stream ?x = None"
    using assms(1) by (auto simp: w1 chan_at_def world_fresh_def call_init_def)
  then show ?thesis
  proof (cases rule: call_open_stream_cases)
    case no_stream
    then show ?thesis by (simp add: w1)
  next
    case (opened os a)
    with assms(2) show ?thesis
      by (simp add: grpc_channel_create_call_start bnd_def w1) (simp add: call_init_def)
  qed
qed

section \<open>Abstract view of a channel\<close>

text \<open>A channel seen from outside: the live calls with their stream ids and the id of the next
  stream. The ids are those of the code, 32-bit words, or, in the specification, natural numbers
  that never run out.\<close>

record 'i chan_spec =
  cs_calls :: "addr \<Rightarrow> 'i option"
  cs_next :: 'i

definition spec_open :: "addr \<Rightarrow> 'i :: semiring_1 chan_spec \<Rightarrow> 'i chan_spec" where
  "spec_open cl S = \<lparr>cs_calls = (cs_calls S)(cl \<mapsto> cs_next S), cs_next = cs_next S + 2\<rparr>"

definition spec_skip :: "'i :: semiring_1 chan_spec \<Rightarrow> 'i chan_spec" where
  "spec_skip S = S\<lparr>cs_next := cs_next S + 2\<rparr>"

definition spec_close :: "addr \<Rightarrow> 'i chan_spec \<Rightarrow> 'i chan_spec" where
  "spec_close cl S = S\<lparr>cs_calls := (cs_calls S)(cl := None)\<rparr>"

text \<open>
  What a client of the channel sees of an operation: the call that was opened, that a creation was
  refused and whether the memory was working then, and the call that was destroyed, cancelled or
  given a batch.
\<close>

datatype chan_label = Opened addr | Refused bool | Destroyed addr | Cancelled addr | Batched addr

text \<open>
  The specification. An opened call is new and gets the next id. A creation may be refused only
  when memory is short, and then spends an id or not. A destroyed call was alive and is gone
  afterwards, all others stay; cancelling and batches concern live calls and change nothing here.
\<close>

inductive spec_step :: "chan_label \<Rightarrow> nat chan_spec \<Rightarrow> nat chan_spec \<Rightarrow> bool" where
  opened: "cs_calls S cl = None \<Longrightarrow> spec_step (Opened cl) S (spec_open cl S)"
| refused: "spec_step (Refused False) S S"
| refused_late: "spec_step (Refused False) S (spec_skip S)"
| destroyed: "cs_calls S cl \<noteq> None \<Longrightarrow> spec_step (Destroyed cl) S (spec_close cl S)"
| cancelled: "cs_calls S cl \<noteq> None \<Longrightarrow> spec_step (Cancelled cl) S S"
| batched: "cs_calls S cl \<noteq> None \<Longrightarrow> spec_step (Batched cl) S S"

inductive spec_run :: "chan_label list \<Rightarrow> nat chan_spec \<Rightarrow> nat chan_spec \<Rightarrow> bool" where
  start: "spec_run [] S S"
| step: "spec_run ls S S1 \<Longrightarrow> spec_step l S1 S2 \<Longrightarrow> spec_run (ls @ [l]) S S2"

text \<open>The ids of the specification as the words the code stores.\<close>

definition chan_word :: "nat chan_spec \<Rightarrow> uint32 chan_spec" where
  "chan_word S = \<lparr>cs_calls = (\<lambda>cl. map_option word_of_nat (cs_calls S cl)), cs_next = word_of_nat (cs_next S)\<rparr>"

lemma chan_word_ops:
  "chan_word (spec_open cl S) = spec_open cl (chan_word S)" "chan_word (spec_skip S) = spec_skip (chan_word S)"
  "chan_word (spec_close cl S) = spec_close cl (chan_word S)" "(cs_calls (chan_word S) cl = None) = (cs_calls S cl = None)"
  by (simp_all add: chan_word_def spec_open_def spec_skip_def spec_close_def fun_eq_iff)

definition call_id :: "http2_stream heap \<Rightarrow> grpc_call \<Rightarrow> uint32 option" where
  "call_id h x = (case call_stream x of None \<Rightarrow> None | Some s \<Rightarrow> map_option strm_id (h s))"

definition call_entry :: "addr \<Rightarrow> http2_stream heap \<Rightarrow> grpc_call \<Rightarrow> uint32 option" where
  "call_entry ch h x = (if call_channel x = Some ch then call_id h x else None)"

definition chan_abs :: "addr \<Rightarrow> addr \<Rightarrow> world \<Rightarrow> uint32 chan_spec" where
  "chan_abs ch p w =
     \<lparr>cs_calls = (\<lambda>cl. Option.bind (w_calls w cl) (call_entry ch (w_streams w))),
      cs_next = (case w_conns w p of None \<Rightarrow> 0 | Some c \<Rightarrow> conn_next_stream_id c)\<rparr>"

text \<open>
  Between the operations on a channel: channel and connection are idle and well-formed, every
  call of the channel owns a listed stream that points back at it, and every listed stream
  belongs to a call of the channel.
\<close>

definition chan_call_ok :: "addr \<Rightarrow> addr \<Rightarrow> world \<Rightarrow> addr \<Rightarrow> grpc_call \<Rightarrow> bool" where
  "chan_call_ok ch p w cl x \<longleftrightarrow> call_channel x = Some ch \<and> call_clean x \<and>
     (\<exists>s st. call_stream x = Some s \<and> s \<in> set (streams_of w p) \<and> w_streams w s = Some st \<and>
        strm_call st = Some cl)"

definition chan_inv :: "addr \<Rightarrow> addr \<Rightarrow> world \<Rightarrow> bool" where
  "chan_inv ch p w \<longleftrightarrow> world_fresh w \<and> conn_ok w p \<and>
     (\<exists>k. w_channels w ch = Some k \<and> \<not> chan_mutex k \<and> chan_connection k = Some p) \<and>
     (\<forall>cl x. w_calls w cl = Some x \<longrightarrow> call_channel x = Some ch \<longrightarrow> chan_call_ok ch p w cl x) \<and>
     (\<forall>s\<in>set (streams_of w p). \<exists>st cl x. w_streams w s = Some st \<and> strm_call st = Some cl \<and>
        w_calls w cl = Some x \<and> call_channel x = Some ch \<and> call_stream x = Some s)"

lemma chan_invE:
  assumes "chan_inv ch p w"
  obtains k c where "chan_at w ch k p c" "streams_of w p = arr_list (conn_streams c)" "conn_ok w p"
  using assms by (auto simp: chan_inv_def chan_at_def elim!: conn_okE)

text \<open>Changes that leave the streams, the conns' arrays and the calls alone.\<close>

lemma chan_inv_no_stream:
  assumes "chan_inv ch p w" and "w_conns w p = Some c"
  shows "chan_inv ch p (w\<lparr>w_conns := (w_conns w)(p \<mapsto> c\<lparr>conn_next_stream_id := i\<rparr>),
      w_brk := w_brk w + n, w_alloc := os\<rparr>)"
    (is "chan_inv ch p ?w'")
proof -
  have so: "streams_of ?w' p = streams_of w p" using assms(2) by (simp add: streams_of_def)
  have "world_fresh ?w'" using assms by (auto simp: chan_inv_def world_fresh_def)
  moreover have "conn_ok ?w' p" using assms by (auto simp: chan_inv_def conn_ok_def conn_inv_def)
  ultimately show ?thesis
    using assms(1) unfolding chan_inv_def so chan_call_ok_def by simp
qed

lemma chan_inv_alloc: "chan_inv ch p w \<Longrightarrow> chan_inv ch p (w\<lparr>w_alloc := os\<rparr>)"
  by (simp add: chan_inv_def chan_call_ok_def streams_of_def conn_ok_def world_fresh_def)

lemma conn_streams_live:
  assumes "chan_inv ch p w" and "t \<in> set (streams_of w p)"
  shows "\<exists>st. w_streams w t = Some st \<and> strm_conn st = Some p \<and> stream_clean st"
  using assms by (auto simp: chan_inv_def conn_ok_def streams_of_def)

text \<open>A new call with its stream at the next two addresses.\<close>

lemma call_added_cells:
  assumes "chan_inv ch p w" and "w_conns w p = Some c"
    and "arr_list a = arr_list (conn_streams c) @ [w_brk w + 1]"
  obtains st x where "w_streams (call_added ch p c a cq meth hst d os w) = (w_streams w)(w_brk w + 1 \<mapsto> st)"
    "w_calls (call_added ch p c a cq meth hst d os w) = (w_calls w)(w_brk w \<mapsto> x)"
    "streams_of (call_added ch p c a cq meth hst d os w) p = streams_of w p @ [w_brk w + 1]"
    "strm_call st = Some (w_brk w)" "strm_conn st = Some p" "stream_clean st"
    "call_channel x = Some ch" "call_stream x = Some (w_brk w + 1)" "call_clean x"
    "w_streams w (w_brk w + 1) = None" "w_calls w (w_brk w) = None"
proof (rule that [where st = "(stream_init p (conn_next_stream_id c))\<lparr>strm_call := Some (w_brk w)\<rparr>"
    and x = "(call_init ch cq meth hst d)\<lparr>call_stream := Some (w_brk w + 1)\<rparr>"])
  show "streams_of (call_added ch p c a cq meth hst d os w) p = streams_of w p @ [w_brk w + 1]"
    using assms(2,3) by (simp add: streams_of_def call_added_def)
  show "w_streams w (w_brk w + 1) = None" "w_calls w (w_brk w) = None"
    using assms(1) by (simp_all add: chan_inv_def world_fresh_def)
qed (simp_all (no_asm) add: call_added_def stream_init_def http2_stream_zero_def stream_clean_def
    call_init_def call_clean_def grpc_metadata_array_zero_def)

lemma conn_ok_created:
  assumes "chan_inv ch p w" and "w_conns w p = Some c" and "arr_wf a" and "0 < arr_capacity a"
    and "arr_list a = arr_list (conn_streams c) @ [w_brk w + 1]"
  shows "conn_ok (call_added ch p c a cq meth hst d os w) p" (is "conn_ok ?w' p")
proof -
  from assms(1,2,5) obtain st x where st: "w_streams ?w' = (w_streams w)(w_brk w + 1 \<mapsto> st)"
    "strm_conn st = Some p" "stream_clean st" and f: "w_streams w (w_brk w + 1) = None"
    by (rule call_added_cells [where cq = cq and meth = meth and hst = hst and d = d and os = os])
  have so: "streams_of w p = arr_list (conn_streams c)" using assms(2) by (simp add: streams_of_def)
  have "w_brk w + 1 \<notin> set (streams_of w p)" using conn_streams_live [OF assms(1)] f by fastforce
  then have "conn_inv (c\<lparr>conn_next_stream_id := conn_next_stream_id c + 2, conn_streams := a\<rparr>)"
    using assms so by (auto simp: conn_inv_def conn_ok_def chan_inv_def)
  moreover have "\<exists>st. w_streams ?w' t = Some st \<and> strm_conn st = Some p \<and> stream_clean st"
    if "t \<in> set (arr_list a)" for t
    using that conn_streams_live [OF assms(1), of t] assms(5) so st by (cases "t = w_brk w + 1") auto
  ultimately show ?thesis unfolding conn_ok_def by (simp add: call_added_def)
qed

lemma chan_inv_created:
  assumes "chan_inv ch p w" and "w_conns w p = Some c" and "arr_wf a" and "0 < arr_capacity a"
    and "arr_list a = arr_list (conn_streams c) @ [w_brk w + 1]"
  shows "chan_inv ch p (call_added ch p c a cq meth hst d os w)" (is "chan_inv ch p ?w'")
proof -
  from assms(1,2,5) obtain st0 x0 where w': "w_streams ?w' = (w_streams w)(w_brk w + 1 \<mapsto> st0)"
      "w_calls ?w' = (w_calls w)(w_brk w \<mapsto> x0)" "streams_of ?w' p = streams_of w p @ [w_brk w + 1]"
    and new: "strm_call st0 = Some (w_brk w)" "call_channel x0 = Some ch" "call_stream x0 = Some (w_brk w + 1)"
      "call_clean x0" and f: "w_streams w (w_brk w + 1) = None" "w_calls w (w_brk w) = None"
    by (rule call_added_cells [where cq = cq and meth = meth and hst = hst and d = d and os = os])
  have "p < w_brk w" using assms(1,2) by (auto simp: chan_inv_def world_fresh_def not_le [symmetric])
  then have "world_fresh ?w'" using assms(1) by (simp add: chan_inv_def world_fresh_def call_added_def)
  moreover have "conn_ok ?w' p" using assms by (rule conn_ok_created)
  moreover have "\<exists>k. w_channels ?w' ch = Some k \<and> \<not> chan_mutex k \<and> chan_connection k = Some p"
    using assms(1) by (simp add: chan_inv_def call_added_def)
  moreover have "chan_call_ok ch p ?w' cl x" if "w_calls ?w' cl = Some x" "call_channel x = Some ch" for cl x
  proof (cases "cl = w_brk w")
    case True
    with that(1) new show ?thesis by (simp add: chan_call_ok_def w')
  next
    case False
    with that assms(1) have "chan_call_ok ch p w cl x" by (simp add: w' chan_inv_def)
    then obtain s st where s: "call_stream x = Some s" "s \<in> set (streams_of w p)" "w_streams w s = Some st"
      "strm_call st = Some cl" "call_clean x" by (auto simp: chan_call_ok_def)
    with f(1) have "s \<noteq> w_brk w + 1" by auto
    with s that(2) show ?thesis by (simp add: chan_call_ok_def w')
  qed
  moreover have "\<exists>st cl x. w_streams ?w' s = Some st \<and> strm_call st = Some cl \<and>
        w_calls ?w' cl = Some x \<and> call_channel x = Some ch \<and> call_stream x = Some s"
    if "s \<in> set (streams_of ?w' p)" for s
  proof (cases "s = w_brk w + 1")
    case False
    with that have "s \<in> set (streams_of w p)" by (simp add: w')
    with assms(1) obtain st cl x where "w_streams w s = Some st" "strm_call st = Some cl"
      "w_calls w cl = Some x" "call_channel x = Some ch" "call_stream x = Some s"
      unfolding chan_inv_def by blast
    with f(2) False show ?thesis by (intro exI [of _ st] exI [of _ cl] exI [of _ x]) (auto simp: w')
  qed (use new in \<open>simp add: w'\<close>)
  ultimately show ?thesis unfolding chan_inv_def by blast
qed

lemma chan_abs_created:
  assumes "chan_inv ch p w" and "w_conns w p = Some c"
  shows "chan_abs ch p (call_added ch p c a cq meth hst d os w) = spec_open (w_brk w) (chan_abs ch p w)"
    (is "chan_abs ch p ?w' = _")
proof -
  let ?cl = "w_brk w" and ?s = "w_brk w + 1"
  have f: "w_streams w ?s = None" using assms(1) by (simp add: chan_inv_def world_fresh_def)
  have "cs_calls (chan_abs ch p ?w') cl = cs_calls (spec_open ?cl (chan_abs ch p w)) cl" for cl
  proof (cases "cl = ?cl")
    case True
    then show ?thesis using assms(2)
      by (simp add: chan_abs_def call_entry_def call_added_def spec_open_def call_id_def call_init_def stream_init_def)
  next
    case False
    have "call_id (w_streams ?w') x = call_id (w_streams w) x" if "w_calls w cl = Some x" "call_channel x = Some ch" for x
      using assms(1) that f by (fastforce simp: chan_inv_def chan_call_ok_def call_id_def call_added_def)
    with False show ?thesis
      by (cases "w_calls w cl") (auto simp: chan_abs_def call_entry_def spec_open_def call_added_def)
  qed
  moreover have "cs_next (chan_abs ch p ?w') = cs_next (spec_open ?cl (chan_abs ch p w))"
    using assms(2) by (simp add: chan_abs_def call_added_def spec_open_def)
  ultimately show ?thesis by (intro chan_spec.equality) (auto simp: fun_eq_iff)
qed

lemma chan_inv_destroyed:
  assumes "chan_inv ch p w" and "w_conns w p = Some c" and "arr_wf a" and "0 < arr_capacity a"
    and "distinct (arr_list a)" and "set (arr_list a) = set (arr_list (conn_streams c)) - {s}"
    and "w_calls w cl = Some x" and "call_channel x = Some ch" and "call_stream x = Some s"
    and "w' = w\<lparr>w_conns := (w_conns w)(p \<mapsto> c\<lparr>conn_streams := a\<rparr>), w_streams := (w_streams w)(s := None),
        w_calls := (w_calls w)(cl := None)\<rparr>"
  shows "chan_inv ch p w'"
proof -
  have fr: "world_fresh w" and ok: "conn_ok w p" using assms(1) by (auto simp: chan_inv_def)
  have so: "streams_of w p = arr_list (conn_streams c)" "set (streams_of w' p) = set (streams_of w p) - {s}"
    using assms(2,6,10) by (simp_all add: streams_of_def)
  have w': "w_streams w' = (w_streams w)(s := None)" "w_calls w' = (w_calls w)(cl := None)"
    by (simp_all add: assms(10))
  have "p < w_brk w" using fr assms(2) by (auto simp: world_fresh_def not_le [symmetric])
  then have "world_fresh w'" using fr unfolding assms(10) by (simp add: world_fresh_def)
  moreover have "conn_ok w' p"
    using ok assms(2-6) by (auto simp: conn_ok_def conn_inv_def assms(10))
  moreover have "\<exists>k. w_channels w' ch = Some k \<and> \<not> chan_mutex k \<and> chan_connection k = Some p"
    using assms(1) by (simp add: chan_inv_def assms(10))
  moreover have "chan_call_ok ch p w' cl' y" if "w_calls w' cl' = Some y" "call_channel y = Some ch" for cl' y
  proof -
    from that have ne: "cl' \<noteq> cl" "w_calls w cl' = Some y" by (auto simp: w' split: if_splits)
    with assms(1) that have y: "chan_call_ok ch p w cl' y" by (simp add: chan_inv_def)
    have "chan_call_ok ch p w cl x" using assms(1,7,8) by (simp add: chan_inv_def)
    then have "call_stream y \<noteq> Some s" using y ne(1) assms(9) by (auto simp: chan_call_ok_def)
    with y so(2) show ?thesis by (auto simp: chan_call_ok_def w')
  qed
  moreover have "\<exists>st cl x. w_streams w' t = Some st \<and> strm_call st = Some cl \<and>
        w_calls w' cl = Some x \<and> call_channel x = Some ch \<and> call_stream x = Some t"
    if "t \<in> set (streams_of w' p)" for t
  proof -
    from that so(2) have t: "t \<in> set (streams_of w p)" "t \<noteq> s" by auto
    with assms(1) obtain st cl' y where "w_streams w t = Some st" "strm_call st = Some cl'"
      "w_calls w cl' = Some y" "call_channel y = Some ch" "call_stream y = Some t"
      unfolding chan_inv_def by blast
    moreover from this t assms(7,9) have "cl' \<noteq> cl" by auto
    ultimately show ?thesis using t by (simp add: w')
  qed
  ultimately show ?thesis unfolding chan_inv_def by blast
qed

section \<open>The operations refine the abstract channel\<close>

text \<open>What any client of the channel can do, with the label it sees.\<close>

inductive chan_act :: "addr \<Rightarrow> chan_label \<Rightarrow> world \<Rightarrow> world \<Rightarrow> bool" for ch where
  create: "grpc_channel_create_call (Some ch) pc pm (Some cq) (Some m) h d w = Inr (r, w') \<Longrightarrow>
    chan_act ch (case r of None \<Rightarrow> Refused (alloc_ok (w_alloc w)) | Some cl \<Rightarrow> Opened cl) w w'"
| destroy: "w_calls w cl = Some x \<Longrightarrow> call_channel x = Some ch \<Longrightarrow>
    grpc_call_destroy (Some cl) w = Inr ((), w') \<Longrightarrow> chan_act ch (Destroyed cl) w w'"
| cancel: "w_calls w cl = Some x \<Longrightarrow> call_channel x = Some ch \<Longrightarrow>
    grpc_call_cancel (Some cl) w = Inr (e, w') \<Longrightarrow> chan_act ch (Cancelled cl) w w'"
| batch: "w_calls w cl = Some x \<Longrightarrow> call_channel x = Some ch \<Longrightarrow>
    grpc_call_start_batch (Some cl) ops n tag w = Inr (e, w') \<Longrightarrow> chan_act ch (Batched cl) w w'"

inductive_cases chan_actE: "chan_act ch l w w'"

inductive chan_run :: "addr \<Rightarrow> chan_label list \<Rightarrow> world \<Rightarrow> world \<Rightarrow> bool" for ch where
  start: "chan_run ch [] w w"
| step: "chan_run ch ls w w1 \<Longrightarrow> chan_act ch l w1 w2 \<Longrightarrow> chan_run ch (ls @ [l]) w w2"

text \<open>One operation, whatever its label.\<close>

definition chan_step :: "addr \<Rightarrow> world \<Rightarrow> world \<Rightarrow> bool" where
  "chan_step ch w w' \<longleftrightarrow> (\<exists>l. chan_act ch l w w')"

lemma create_call_simulates:
  assumes "chan_inv ch p w"
  shows "\<exists>r w'. grpc_channel_create_call (Some ch) pc pm (Some cq) (Some m) h d w = Inr (r, w') \<and>
    chan_inv ch p w' \<and> w_cqs w' = w_cqs w \<and>
    (case r of
       None \<Rightarrow> \<not> alloc_ok (w_alloc w) \<and> w_calls w' = w_calls w \<and> w_streams w' = w_streams w \<and>
         streams_of w' p = streams_of w p \<and>
         chan_abs ch p w' \<in> {chan_abs ch p w, spec_skip (chan_abs ch p w)}
     | Some cl \<Rightarrow> cs_calls (chan_abs ch p w) cl = None \<and> chan_abs ch p w' = spec_open cl (chan_abs ch p w) \<and>
         (\<exists>x s st. w_calls w cl = None \<and> w_calls w' = (w_calls w)(cl \<mapsto> x) \<and> call_cq x = Some cq \<and>
            call_channel x = Some ch \<and> call_deadline x = d \<and> w_streams w s = None \<and>
            w_streams w' = (w_streams w)(s \<mapsto> st) \<and> streams_of w' p = streams_of w p @ [s] \<and>
            (alloc_ok (w_alloc w) \<longrightarrow> alloc_ok (w_alloc w') \<and> call_method x = Some m \<and> call_host x = h)))"
proof -
  from assms obtain k c where at: "chan_at w ch k p c" and so: "streams_of w p = arr_list (conn_streams c)"
    and ok: "conn_ok w p" by (rule chan_invE)
  have c: "w_conns w p = Some c" and fr: "world_fresh w" using at by (auto simp: chan_at_def)
  from at show ?thesis
  proof (cases rule: grpc_channel_create_call_cases [where pc = pc and pm = pm and cq = cq and m = m and h = h and d = d])
    case (no_call os)
    have "chan_abs ch p (w\<lparr>w_alloc := os\<rparr>) = chan_abs ch p w"
      by (simp add: chan_abs_def call_id_def)
    with no_call chan_inv_alloc [OF assms] show ?thesis by (auto simp: streams_of_def)
  next
    case (no_stream os n)
    let ?w' = "w\<lparr>w_conns := (w_conns w)(p \<mapsto> c\<lparr>conn_next_stream_id := conn_next_stream_id c + 2\<rparr>),
           w_brk := w_brk w + n, w_alloc := os\<rparr>"
    have "chan_abs ch p ?w' = spec_skip (chan_abs ch p w)"
      using c by (simp add: chan_abs_def call_id_def spec_skip_def)
    with no_stream chan_inv_no_stream [OF assms c] c show ?thesis by (auto simp: streams_of_def)
  next
    case (created os a meth hst)
    define w' where "w' = call_added ch p c a cq meth hst d os w"
    let ?cl = "w_brk w"
    have f: "w_streams w (?cl + 1) = None" "w_calls w ?cl = None" using fr by (simp_all add: world_fresh_def)
    have inv: "chan_inv ch p w'" unfolding w'_def using assms c created(2,4,3) by (rule chan_inv_created)
    have abs: "chan_abs ch p w' = spec_open ?cl (chan_abs ch p w)" unfolding w'_def using assms c by (rule chan_abs_created)
    have none: "cs_calls (chan_abs ch p w) ?cl = None" using f(2) by (simp add: chan_abs_def)
    have "\<exists>x s st. w_calls w ?cl = None \<and> w_calls w' = (w_calls w)(?cl \<mapsto> x) \<and> call_cq x = Some cq \<and>
            call_channel x = Some ch \<and> call_deadline x = d \<and> w_streams w s = None \<and>
            w_streams w' = (w_streams w)(s \<mapsto> st) \<and> streams_of w' p = streams_of w p @ [s] \<and>
            (alloc_ok (w_alloc w) \<longrightarrow> alloc_ok (w_alloc w') \<and> call_method x = Some m \<and> call_host x = h)"
      using f created(3,5) so
      by (intro exI [of _ "(call_init ch cq meth hst d)\<lparr>call_stream := Some (?cl + 1)\<rparr>"] exI [of _ "?cl + 1"]
          exI [of _ "(stream_init p (conn_next_stream_id c))\<lparr>strm_call := Some ?cl\<rparr>"])
        (simp add: w'_def call_added_def call_init_def streams_of_def)
    moreover have "w_cqs w' = w_cqs w" by (simp add: w'_def call_added_def)
    ultimately show ?thesis
      using created(1) inv abs none unfolding w'_def [symmetric]
      by (intro exI [of _ "Some ?cl"] exI [of _ w']) simp
  qed
qed

lemma destroy_call_simulates:
  assumes "chan_inv ch p w" and "w_calls w cl = Some x" and "call_channel x = Some ch"
  shows "\<exists>w' s. grpc_call_destroy (Some cl) w = Inr ((), w') \<and> chan_inv ch p w' \<and> w_cqs w' = w_cqs w \<and>
    w_alloc w' = w_alloc w \<and>
    chan_abs ch p w' = spec_close cl (chan_abs ch p w) \<and> w_calls w' = (w_calls w)(cl := None) \<and>
    call_stream x = Some s \<and> w_streams w' = (w_streams w)(s := None) \<and>
    set (streams_of w' p) = set (streams_of w p) - {s}"
proof -
  from assms(1) obtain k c where at: "chan_at w ch k p c" and so: "streams_of w p = arr_list (conn_streams c)"
    and ok: "conn_ok w p" by (rule chan_invE)
  have c: "w_conns w p = Some c" using at by (simp add: chan_at_def)
  from assms have co: "chan_call_ok ch p w cl x" by (simp add: chan_inv_def)
  then obtain s where s: "call_stream x = Some s" "s \<in> set (arr_list (conn_streams c))" "call_clean x"
    using so by (auto simp: chan_call_ok_def)
  from grpc_call_destroy_eq [OF ok c s(2) assms(2) s(1,3)] obtain a where
    a: "grpc_call_destroy (Some cl) w = Inr ((),
      w\<lparr>w_conns := (w_conns w)(p \<mapsto> c\<lparr>conn_streams := a\<rparr>), w_streams := (w_streams w)(s := None),
        w_calls := (w_calls w)(cl := None)\<rparr>)" "arr_wf a" "0 < arr_capacity a" "distinct (arr_list a)"
      "set (arr_list a) = set (arr_list (conn_streams c)) - {s}" by blast
  define w' where "w' = w\<lparr>w_conns := (w_conns w)(p \<mapsto> c\<lparr>conn_streams := a\<rparr>),
    w_streams := (w_streams w)(s := None), w_calls := (w_calls w)(cl := None)\<rparr>"
  have inv: "chan_inv ch p w'"
    using assms(1) c a(2-5) assms(2,3) s(1) w'_def by (rule chan_inv_destroyed)
  have "cs_calls (chan_abs ch p w') cl' = cs_calls (spec_close cl (chan_abs ch p w)) cl'" for cl'
  proof (cases "cl' = cl")
    case True
    then show ?thesis by (simp add: chan_abs_def w'_def spec_close_def)
  next
    case False
    have "call_id (w_streams w') y = call_id (w_streams w) y" if "w_calls w cl' = Some y" "call_channel y = Some ch" for y
    proof -
      from assms(1) that have "chan_call_ok ch p w cl' y" by (simp add: chan_inv_def)
      then have "call_stream y \<noteq> Some s" using co s(1) False by (auto simp: chan_call_ok_def)
      then show ?thesis by (auto simp: call_id_def w'_def split: option.splits)
    qed
    with False show ?thesis
      by (cases "w_calls w cl'") (auto simp: chan_abs_def call_entry_def spec_close_def w'_def)
  qed
  moreover have "cs_next (chan_abs ch p w') = cs_next (spec_close cl (chan_abs ch p w))"
    using c by (simp add: chan_abs_def w'_def spec_close_def)
  ultimately have abs: "chan_abs ch p w' = spec_close cl (chan_abs ch p w)"
    by (intro chan_spec.equality) (auto simp: fun_eq_iff)
  have "set (streams_of w' p) = set (streams_of w p) - {s}"
    using a(5) so by (simp add: streams_of_def w'_def)
  then show ?thesis
    using a(1) inv abs s(1) unfolding w'_def [symmetric]
    by (intro exI [of _ w'] exI [of _ s]) (simp add: w'_def)
qed

lemma chan_inv_call_upd:
  assumes "chan_inv ch p w" and "w_calls w cl = Some x" and "call_channel x = Some ch"
    and "call_channel y = call_channel x" and "call_stream y = call_stream x" and "call_clean y"
  shows "chan_inv ch p (w\<lparr>w_calls := (w_calls w)(cl \<mapsto> y)\<rparr>)" (is "chan_inv ch p ?w'")
proof -
  have so: "streams_of ?w' p = streams_of w p" by (simp add: streams_of_def)
  have "world_fresh ?w'" "conn_ok ?w' p"
    using assms(1,2) by (auto simp: chan_inv_def world_fresh_def conn_ok_def)
  moreover have "\<exists>k. w_channels ?w' ch = Some k \<and> \<not> chan_mutex k \<and> chan_connection k = Some p"
    using assms(1) by (simp add: chan_inv_def)
  moreover have "chan_call_ok ch p ?w' cl' z" if "w_calls ?w' cl' = Some z" "call_channel z = Some ch" for cl' z
  proof (cases "cl' = cl")
    case True
    from assms(1-3) have "chan_call_ok ch p w cl x" by (simp add: chan_inv_def)
    with True that assms(4-6) so show ?thesis by (auto simp: chan_call_ok_def)
  next
    case False
    with that assms(1) have "chan_call_ok ch p w cl' z" by (simp add: chan_inv_def)
    then show ?thesis by (simp add: chan_call_ok_def so)
  qed
  moreover have "\<exists>st c2 z. w_streams ?w' s = Some st \<and> strm_call st = Some c2 \<and>
        w_calls ?w' c2 = Some z \<and> call_channel z = Some ch \<and> call_stream z = Some s"
    if "s \<in> set (streams_of ?w' p)" for s
  proof -
    from that assms(1) obtain st c2 z where z: "w_streams w s = Some st" "strm_call st = Some c2"
      "w_calls w c2 = Some z" "call_channel z = Some ch" "call_stream z = Some s"
      unfolding so chan_inv_def by blast
    then show ?thesis using assms(2,4,5) by (cases "c2 = cl") auto
  qed
  ultimately show ?thesis unfolding chan_inv_def by blast
qed

lemma cancel_simulates:
  assumes "chan_inv ch p w" and "w_calls w cl = Some x" and "call_channel x = Some ch"
  shows "\<exists>w'. grpc_call_cancel (Some cl) w = Inr (GRPC_CALL_OK, w') \<and> chan_inv ch p w' \<and>
    chan_abs ch p w' = chan_abs ch p w \<and>
    w' = w\<lparr>w_calls := (w_calls w)(cl \<mapsto> x\<lparr>call_cancelled := True, call_status := GRPC_STATUS_CANCELLED\<rparr>)\<rparr>"
proof -
  let ?x = "x\<lparr>call_cancelled := True, call_status := GRPC_STATUS_CANCELLED\<rparr>"
  let ?w' = "w\<lparr>w_calls := (w_calls w)(cl \<mapsto> ?x)\<rparr>"
  from assms have co: "chan_call_ok ch p w cl x" by (simp add: chan_inv_def)
  then have m: "\<not> call_mutex x" by (simp add: chan_call_ok_def call_clean_def)
  have run: "grpc_call_cancel (Some cl) w = Inr (GRPC_CALL_OK, ?w')"
    using assms(2) m by (simp add: grpc_call_cancel_def bnd_def cell_lock_free cell_unlock_eq)
  have "call_clean ?x" using co by (simp add: chan_call_ok_def call_clean_def)
  then have "chan_inv ch p ?w'"
    using assms by (intro chan_inv_call_upd [where x = x]) simp_all
  moreover have "chan_abs ch p ?w' = chan_abs ch p w"
    using assms(2) by (auto simp: chan_abs_def call_entry_def call_id_def fun_eq_iff)
  ultimately show ?thesis using run by blast
qed

lemma cq_push_cmd_frame:
  assumes "cq_push_cmd cq e w = Inr ((), w')" and "world_fresh w"
  shows "\<exists>q os. w' = w\<lparr>w_cqs := q, w_alloc := os\<rparr> \<and> world_fresh w'"
proof (cases cq)
  case None
  with assms have "w' = w\<lparr>w_cqs := w_cqs w, w_alloc := w_alloc w\<rparr>" "world_fresh w'"
    by (simp_all add: cq_push_cmd_def)
  then show ?thesis by blast
next
  case (Some a)
  with assms(1) obtain q q' os where q: "w_cqs w a = Some q"
    "w' = w\<lparr>w_cqs := (w_cqs w)(a := q'), w_alloc := os\<rparr>"
    by (auto simp: cq_push_cmd_def bnd_def cell_get_def heap_get_def exec_bind_eq_Inr split: option.splits)
  then have "a < w_brk w" using assms(2) by (auto simp: world_fresh_def not_le [symmetric])
  with q assms(2) show ?thesis by (auto simp: world_fresh_def)
qed

lemma chan_inv_cqs:
  "chan_inv ch p w \<Longrightarrow> world_fresh (w\<lparr>w_cqs := q, w_alloc := os\<rparr>) \<Longrightarrow>
   chan_inv ch p (w\<lparr>w_cqs := q, w_alloc := os\<rparr>)"
  by (simp add: chan_inv_def chan_call_ok_def streams_of_def conn_ok_def)

lemma batch_simulates:
  assumes "chan_inv ch p w" and "w_calls w cl = Some x"
    and "grpc_call_start_batch (Some cl) ops n tag w = Inr (e, w')"
  shows "chan_inv ch p w' \<and> chan_abs ch p w' = chan_abs ch p w"
proof (cases "call_cq x")
  case None
  with assms show ?thesis by (simp add: grpc_call_start_batch_def bnd_def)
next
  case (Some a)
  with assms(2,3) have "cq_push_cmd (Some a) \<lparr>ev_type = 1, ev_success = True, ev_tag = tag\<rparr> w = Inr ((), w')"
    by (auto simp: grpc_call_start_batch_def bnd_def exec_bind_eq_Inr)
  moreover have "world_fresh w" using assms(1) by (simp add: chan_inv_def)
  ultimately obtain q os where w': "w' = w\<lparr>w_cqs := q, w_alloc := os\<rparr>" "world_fresh w'"
    using cq_push_cmd_frame by blast
  with chan_inv_cqs [OF assms(1)] have "chan_inv ch p w'" by simp
  moreover have "chan_abs ch p w' = chan_abs ch p w"
    by (simp add: w'(1) chan_abs_def call_id_def)
  ultimately show ?thesis by blast
qed

lemma chan_inv_live:
  assumes "chan_inv ch p w" and "w_calls w cl = Some x" and "call_channel x = Some ch"
  shows "cs_calls (chan_abs ch p w) cl \<noteq> None"
proof -
  from assms have "chan_call_ok ch p w cl x" by (simp add: chan_inv_def)
  with assms(2,3) show ?thesis by (auto simp: chan_call_ok_def chan_abs_def call_entry_def call_id_def)
qed

text \<open>Every operation is a step of the specification with the same label.\<close>

lemma chan_act_simulates:
  assumes "chan_inv ch p w" and "chan_abs ch p w = chan_word S" and "chan_act ch l w w'"
  shows "chan_inv ch p w' \<and> (\<exists>S'. spec_step l S S' \<and> chan_abs ch p w' = chan_word S')"
proof -
  have live: "cs_calls S cl \<noteq> None" if "w_calls w cl = Some x" "call_channel x = Some ch" for cl x
    using chan_inv_live [OF assms(1) that] assms(2) chan_word_ops(4) by simp
  from assms(3) show ?thesis
  proof cases
    case (create pc pm cq m h d r)
    from create_call_simulates [OF assms(1), of pc pm cq m h d] create(2) have
      i: "chan_inv ch p w'" and
      r: "case r of
         None \<Rightarrow> \<not> alloc_ok (w_alloc w) \<and> chan_abs ch p w' \<in> {chan_word S, spec_skip (chan_word S)}
       | Some cl \<Rightarrow> cs_calls (chan_word S) cl = None \<and> chan_abs ch p w' = spec_open cl (chan_word S)"
      by (auto simp: assms(2) split: option.splits)
    show ?thesis
    proof (cases r)
      case None
      with r create(1) have "l = Refused False" "chan_abs ch p w' \<in> {chan_word S, chan_word (spec_skip S)}"
        by (simp_all add: chan_word_ops)
      with i show ?thesis by (auto intro: spec_step.refused spec_step.refused_late)
    next
      case (Some cl)
      with r create(1) have "l = Opened cl" "cs_calls S cl = None" "chan_abs ch p w' = chan_word (spec_open cl S)"
        by (simp_all add: chan_word_ops)
      with i show ?thesis by (auto intro: spec_step.opened)
    qed
  next
    case (destroy cl x)
    from destroy_call_simulates [OF assms(1) destroy(2,3)] destroy(4) have
      "chan_inv ch p w'" "chan_abs ch p w' = chan_word (spec_close cl S)" by (auto simp: assms(2) chan_word_ops)
    with destroy(1) live [OF destroy(2,3)] show ?thesis by (auto intro: spec_step.destroyed)
  next
    case (cancel cl x e)
    from cancel_simulates [OF assms(1) cancel(2,3)] cancel(4) have
      "chan_inv ch p w'" "chan_abs ch p w' = chan_word S" by (auto simp: assms(2))
    with cancel(1) live [OF cancel(2,3)] show ?thesis by (auto intro: spec_step.cancelled)
  next
    case (batch cl x ops n tag e)
    from batch_simulates [OF assms(1) batch(2,4)] have
      "chan_inv ch p w'" "chan_abs ch p w' = chan_word S" by (auto simp: assms(2))
    with batch(1) live [OF batch(2,3)] show ?thesis by (auto intro: spec_step.batched)
  qed
qed

lemma chan_run_simulates:
  "chan_run ch ls w w' \<Longrightarrow> chan_inv ch p w \<Longrightarrow> chan_abs ch p w = chan_word S \<Longrightarrow>
   chan_inv ch p w' \<and> (\<exists>S'. spec_run ls S S' \<and> chan_abs ch p w' = chan_word S')"
proof (induction rule: chan_run.induct)
  case (start w)
  then show ?case by (auto intro: spec_run.start)
next
  case (step ls w w1 l w2)
  then obtain S1 where S1: "chan_inv ch p w1" "spec_run ls S S1" "chan_abs ch p w1 = chan_word S1" by blast
  from chan_act_simulates [OF S1(1,3) step.hyps(2)] S1(2) show ?case by (auto intro: spec_run.step)
qed

section \<open>Stream ids in the specification\<close>

text \<open>No two live calls have the same id, and all ids are odd and were given out before.\<close>

definition spec_ok :: "nat chan_spec \<Rightarrow> bool" where
  "spec_ok S \<longleftrightarrow> odd (cs_next S) \<and>
     (\<forall>cl i. cs_calls S cl = Some i \<longrightarrow> odd i \<and> i < cs_next S) \<and>
     (\<forall>c1 c2 i. cs_calls S c1 = Some i \<longrightarrow> cs_calls S c2 = Some i \<longrightarrow> c1 = c2)"

definition spec_init :: "nat chan_spec" where
  "spec_init = \<lparr>cs_calls = (\<lambda>_. None), cs_next = 1\<rparr>"

lemma spec_init_ok: "spec_ok spec_init" "chan_word spec_init = \<lparr>cs_calls = (\<lambda>_. None), cs_next = 1\<rparr>"
  by (simp_all add: spec_ok_def spec_init_def chan_word_def)

lemma spec_step_ok: "spec_step l S S' \<Longrightarrow> spec_ok S \<Longrightarrow> spec_ok S' \<and> cs_next S' \<le> cs_next S + 2"
proof (induction rule: spec_step.induct)
  case (opened S cl)
  then have "\<And>c i. cs_calls S c = Some i \<Longrightarrow> odd i \<and> i < cs_next S" by (simp add: spec_ok_def)
  with opened show ?case by (fastforce simp: spec_ok_def spec_open_def split: if_splits)
next
  case (refused_late S)
  then show ?case by (fastforce simp: spec_ok_def spec_skip_def)
qed (auto simp: spec_ok_def spec_close_def split: if_splits)

lemma spec_run_ok: "spec_run ls S S' \<Longrightarrow> spec_ok S \<Longrightarrow> spec_ok S' \<and> cs_next S' \<le> cs_next S + 2 * length ls"
proof (induction rule: spec_run.induct)
  case (step ls S S1 l S2)
  then show ?case using spec_step_ok [of l S1 S2] by auto
qed simp

lemma chan_steps_run: "(chan_step ch ^^ n) w w' \<Longrightarrow> \<exists>ls. length ls = n \<and> chan_run ch ls w w'"
proof (induction n arbitrary: w')
  case 0
  then show ?case by (auto intro: chan_run.start)
next
  case (Suc n)
  from Suc.prems obtain w1 where w1: "(chan_step ch ^^ n) w w1" "chan_step ch w1 w'" by auto
  from w1(2) obtain l where l: "chan_act ch l w1 w'" unfolding chan_step_def by blast
  from Suc.IH [OF w1(1)] obtain ls where "length ls = n" "chan_run ch ls w w1" by blast
  with l show ?case by (intro exI [of _ "ls @ [l]"]) (auto intro: chan_run.step)
qed

text \<open>Below \<open>2 ^ 32\<close> the words are the numbers.\<close>

lemma chan_word_id:
  assumes "spec_ok S" and "cs_next S < 2 ^ 32" and "cs_calls (chan_word S) cl = Some i"
  shows "cs_calls S cl = Some (unat i) \<and> odd (unat i)"
proof -
  from assms(3) obtain k where k: "cs_calls S cl = Some k" "i = word_of_nat k" by (auto simp: chan_word_def)
  with assms(1) have "odd k" "k < cs_next S" by (auto simp: spec_ok_def)
  with assms(2) k show ?thesis by (simp add: unat_of_nat)
qed

section \<open>Creating and destroying channels\<close>

text \<open>No call refers to an address that was not handed out yet.\<close>

definition calls_below :: "world \<Rightarrow> bool" where
  "calls_below w \<longleftrightarrow> (\<forall>cl x a. w_calls w cl = Some x \<longrightarrow> call_channel x = Some a \<longrightarrow> a < w_brk w)"

lemma conn_inv_fresh: "conn_inv (conn_fresh b)" "arr_list (conn_streams (conn_fresh b)) = []"
  by (simp_all add: conn_inv_def conn_fresh_def) (simp add: arr_calloc_def)

text \<open>The state with a new channel and its connection at the next two addresses.\<close>

definition chan_added :: "string \<Rightarrow> nat option \<Rightarrow> nat option \<Rightarrow> alloc \<Rightarrow> world \<Rightarrow> world" where
  "chan_added t creds args os w =
     w\<lparr>w_alloc := os, w_brk := w_brk w + 2,
       w_channels := (w_channels w)(w_brk w \<mapsto> \<lparr>chan_target = t, chan_connection = Some (w_brk w + 1),
         chan_creds = creds, chan_args = args, chan_mutex = False\<rparr>),
       w_conns := (w_conns w)(w_brk w + 1 \<mapsto> conn_fresh True)\<rparr>"

lemma grpc_channel_create_run:
  assumes "world_fresh w"
  obtains (failed) os n where "grpc_channel_create (Some t) creds args w =
        Inr (None, w\<lparr>w_alloc := os, w_brk := w_brk w + n\<rparr>)" "\<not> alloc_ok (w_alloc w)"
  | (created) os where "grpc_channel_create (Some t) creds args w =
        Inr (Some (w_brk w), chan_added t creds args os w)" "alloc_ok (w_alloc w) \<Longrightarrow> alloc_ok os"
proof -
  obtain ok1 os1 where o1: "alloc_next (w_alloc w) = (ok1, os1)" by force
  obtain ok2 os2 where o2: "alloc_next os1 = (ok2, os2)" by force
  have al: "alloc_ok (w_alloc w) \<Longrightarrow> ok1 \<and> ok2 \<and> alloc_ok os2"
    using o1 o2 by (cases "w_alloc w"; cases os1) auto
  let ?ch = "w_brk w"
  let ?k = "\<lparr>chan_target = t, chan_connection = None, chan_creds = creds, chan_args = args, chan_mutex = False\<rparr>"
  define w1 where "w1 = w\<lparr>w_alloc := os2, w_brk := w_brk w + 1, w_channels := (w_channels w)(?ch \<mapsto> ?k)\<rparr>"
  have fr1: "world_fresh w1" using assms by (auto simp: world_fresh_def w1_def)
  have nch: "(w_channels w)(?ch := None) = w_channels w"
    using assms by (auto simp: world_fresh_def fun_eq_iff)
  show ?thesis
  proof (cases "ok1 \<and> ok2")
    case False
    then have "\<exists>os. grpc_channel_create (Some t) creds args w = Inr (None, w\<lparr>w_alloc := os, w_brk := w_brk w + 0\<rparr>)"
      by (cases ok1) (auto simp: grpc_channel_create_def bnd_def alloc_cmd_eq o1 o2)
    with False al that(1) show ?thesis by blast
  next
    case True
    have start: "grpc_channel_create (Some t) creds args w =
        bnd (http2_connection_create t True None) (\<lambda>connection.
              bnd (chan_upd (Some ?ch) (\<lambda>ch. ch\<lparr>chan_connection := connection\<rparr>)) (\<lambda>_.
              if connection = None
              then bnd (chan_free (Some ?ch)) (\<lambda>_. ret None)
              else ret (Some ?ch))) w1"
      using True by (simp add: grpc_channel_create_def bnd_def alloc_cmd_eq o1 o2 w1_def cong: if_cong)
    from fr1 show ?thesis
    proof (cases rule: http2_connection_create_cases [where t = t and is_client = True and ssl = None])
      case (failed os n)
      have "grpc_channel_create (Some t) creds args w =
          Inr (None, w\<lparr>w_alloc := os, w_brk := w_brk w + (n + 1)\<rparr>)"
        using start failed(1) nch by (simp add: bnd_def w1_def)
      then show ?thesis using failed(2) al by (intro that(1) [where os = os and n = "n + 1"]) (auto simp: w1_def)
    next
      case (created os)
      have "grpc_channel_create (Some t) creds args w = Inr (Some ?ch, chan_added t creds args os w)"
        using start created(1) by (simp add: bnd_def w1_def chan_added_def)
      then show ?thesis using created(2) al by (intro that(2)) (simp_all add: w1_def)
    qed
  qed
qed

lemma chan_inv_added:
  assumes "world_fresh w" and "calls_below w"
  shows "chan_inv (w_brk w) (w_brk w + 1) (chan_added t creds args os w)" (is "chan_inv ?ch ?p ?w'")
    and "chan_abs (w_brk w) (w_brk w + 1) (chan_added t creds args os w) = \<lparr>cs_calls = (\<lambda>_. None), cs_next = 1\<rparr>"
proof -
  have so: "streams_of ?w' ?p = []" by (simp add: streams_of_def chan_added_def conn_inv_fresh)
  have nc: "call_channel x \<noteq> Some ?ch" if "w_calls ?w' cl = Some x" for cl x
    using that assms(2) by (auto simp: chan_added_def calls_below_def)
  have "world_fresh ?w'" using assms(1) by (auto simp: world_fresh_def chan_added_def)
  moreover have "conn_ok ?w' ?p" using conn_inv_fresh [of True] by (simp add: conn_ok_def chan_added_def)
  ultimately show "chan_inv ?ch ?p ?w'"
    unfolding chan_inv_def so using nc by (auto simp: chan_added_def)
  have "Option.bind (w_calls ?w' cl) (call_entry ?ch (w_streams ?w')) = None" for cl
    using nc by (cases "w_calls ?w' cl") (auto simp: call_entry_def)
  then show "chan_abs ?ch ?p ?w' = \<lparr>cs_calls = (\<lambda>_. None), cs_next = 1\<rparr>"
    by (simp add: chan_abs_def) (simp add: chan_added_def conn_fresh_def)
qed

lemma chan_inv_no_calls:
  assumes "chan_inv ch p w"
  shows "(\<forall>cl. cs_calls (chan_abs ch p w) cl = None) \<longleftrightarrow> streams_of w p = []"
proof
  assume n: "\<forall>cl. cs_calls (chan_abs ch p w) cl = None"
  show "streams_of w p = []"
  proof (rule ccontr)
    assume "streams_of w p \<noteq> []"
    then obtain s where "s \<in> set (streams_of w p)" by (cases "streams_of w p") auto
    with assms obtain st cl x where "w_streams w s = Some st" "w_calls w cl = Some x"
      "call_channel x = Some ch" "call_stream x = Some s" unfolding chan_inv_def by blast
    with n have "call_id (w_streams w) x = None"
      by (auto simp: chan_abs_def call_entry_def dest: spec [of _ cl])
    with \<open>call_stream x = Some s\<close> \<open>w_streams w s = Some st\<close> show False by (simp add: call_id_def)
  qed
next
  assume e: "streams_of w p = []"
  show "\<forall>cl. cs_calls (chan_abs ch p w) cl = None"
  proof
    fix cl
    show "cs_calls (chan_abs ch p w) cl = None"
    proof (cases "w_calls w cl")
      case (Some x)
      then have "call_channel x \<noteq> Some ch"
        using assms e by (auto simp: chan_inv_def chan_call_ok_def)
      with Some show ?thesis by (simp add: chan_abs_def call_entry_def)
    qed (simp add: chan_abs_def)
  qed
qed

lemma grpc_channel_destroy_live:
  assumes "chan_inv ch p w" and "cs_calls (chan_abs ch p w) cl \<noteq> None"
  shows "grpc_channel_destroy (Some ch) w = Inl Deadlock"
proof -
  from assms(1) obtain k c where at: "chan_at w ch k p c" and ok: "conn_ok w p" by (rule chan_invE)
  have ne: "streams_of w p \<noteq> []" using chan_inv_no_calls [OF assms(1)] assms(2) by auto
  let ?w = "w\<lparr>w_channels := (w_channels w)(ch \<mapsto> k\<lparr>chan_mutex := True\<rparr>)\<rparr>"
  have "conn_ok ?w p" "streams_of ?w p \<noteq> []" using ok ne by (simp_all add: conn_ok_def streams_of_def)
  then have "http2_connection_destroy (Some p) ?w = Inl Deadlock" by (rule connection_destroy_deadlock)
  then show ?thesis using at
    by (simp add: grpc_channel_destroy_def bnd_def cell_lock_free chan_at_def)
qed

lemma grpc_channel_destroy_idle:
  assumes "chan_inv ch p w" and "\<And>cl. cs_calls (chan_abs ch p w) cl = None"
  shows "grpc_channel_destroy (Some ch) w = Inr ((), w\<lparr>w_channels := (w_channels w)(ch := None),
    w_conns := (w_conns w)(p := None), w_closed := w_closed w @
      (if conn_socket_fd (the (w_conns w p)) \<ge> 0 then [conn_socket_fd (the (w_conns w p))] else [])\<rparr>)"
proof -
  from assms(1) obtain k c where at: "chan_at w ch k p c" and ok: "conn_ok w p" by (rule chan_invE)
  have e: "streams_of w p = []" using chan_inv_no_calls [OF assms(1)] assms(2) by auto
  let ?w = "w\<lparr>w_channels := (w_channels w)(ch \<mapsto> k\<lparr>chan_mutex := True\<rparr>)\<rparr>"
  have "conn_ok ?w p" "w_conns ?w p = Some c" "streams_of ?w p = []"
    using ok e at by (simp_all add: conn_ok_def streams_of_def chan_at_def)
  from connection_destroy_empty [OF this] show ?thesis using at
    by (simp add: grpc_channel_destroy_def bnd_def cell_lock_free cell_unlock_eq chan_at_def)
qed

section \<open>Properties\<close>


text \<open>A world with one channel, made by the code.\<close>

definition world_with_channel :: world where
  "world_with_channel =
     (case grpc_channel_create (Some ''localhost:50051'') None None world_empty of
        Inr (_, w) \<Rightarrow> w | Inl _ \<Rightarrow> world_empty)"

lemma world_with_channel:
  "\<exists>p. chan_inv 0 p world_with_channel \<and>
     chan_abs 0 p world_with_channel = \<lparr>cs_calls = (\<lambda>_. None), cs_next = 1\<rparr> \<and>
     alloc_ok (w_alloc world_with_channel)"
proof -
  have *: "world_fresh world_empty" "calls_below world_empty"
    by (simp_all add: world_empty_def world_fresh_def calls_below_def)
  from *(1) show ?thesis
  proof (cases rule: grpc_channel_create_run [where t = "''localhost:50051''" and creds = None and args = None])
    case (created os)
    with chan_inv_added [OF *, of "''localhost:50051''" None None os] show ?thesis
      by (auto simp: world_with_channel_def) (auto simp: world_empty_def chan_added_def)
  qed (simp add: world_empty_def)
qed

text \<open>The same after one call was created.\<close>

definition no_deadline :: grpc_timespec where
  "no_deadline = \<lparr>tv_sec = 0, tv_nsec = 0\<rparr>"

lemma one_call:
  "\<exists>p cl w'. grpc_channel_create_call (Some 0) None 0 (Some 7) (Some ''/s/m'') None no_deadline world_with_channel =
     Inr (Some cl, w') \<and> chan_inv 0 p world_with_channel \<and> chan_inv 0 p w' \<and>
     chan_abs 0 p world_with_channel = \<lparr>cs_calls = (\<lambda>_. None), cs_next = 1\<rparr> \<and>
     chan_abs 0 p w' = \<lparr>cs_calls = [cl \<mapsto> 1], cs_next = 3\<rparr>"
proof -
  from world_with_channel obtain p where p: "chan_inv 0 p world_with_channel"
    "chan_abs 0 p world_with_channel = \<lparr>cs_calls = (\<lambda>_. None), cs_next = 1\<rparr>"
    "alloc_ok (w_alloc world_with_channel)" by blast
  from create_call_simulates [OF p(1), of None 0 7 "''/s/m''" None no_deadline] p(2,3) show ?thesis
    using p(1) by (auto simp: spec_open_def split: option.split_asm)
qed


text \<open>
  C19. Stream ids are unique: on a client channel as \<open>grpc_channel_create\<close> makes it (no calls,
  next id 1), after any \<open>n < 2^31\<close> operations all live calls have different, odd stream ids.
\<close>

theorem grpc_channel_stream_ids_unique:
  assumes "chan_inv ch p w" and "chan_abs ch p w = \<lparr>cs_calls = (\<lambda>_. None), cs_next = 1\<rparr>"
    and "(chan_step ch ^^ n) w w'" and "n < 2 ^ 31"
    and "cs_calls (chan_abs ch p w') c1 = Some i" and "cs_calls (chan_abs ch p w') c2 = Some i"
  shows "c1 = c2 \<and> odd (unat i)"
proof -
  from chan_steps_run [OF assms(3)] obtain ls where ls: "length ls = n" "chan_run ch ls w w'" by blast
  from chan_run_simulates [OF ls(2) assms(1) assms(2) [folded spec_init_ok(2)]] obtain S where
    S: "spec_run ls spec_init S" "chan_abs ch p w' = chan_word S" by blast
  from spec_run_ok [OF S(1) spec_init_ok(1)] ls(1) assms(4) have ok: "spec_ok S" "cs_next S < 2 ^ 32"
    by (auto simp: spec_init_def)
  from chan_word_id [OF ok] assms(5,6) S(2) have
    "cs_calls S c1 = Some (unat i)" "cs_calls S c2 = Some (unat i)" "odd (unat i)" by simp_all
  with ok(1) show ?thesis unfolding spec_ok_def by blast
qed

theorem grpc_channel_stream_ids_unique_witness:
  "\<exists>p w' cl. (chan_step 0 ^^ 1) world_with_channel w' \<and> cs_calls (chan_abs 0 p w') cl = Some 1 \<and>
     odd (unat (1 :: uint32))"
proof -
  from one_call obtain p cl w' where c: "grpc_channel_create_call (Some 0) None 0 (Some 7) (Some ''/s/m'')
       None no_deadline world_with_channel = Inr (Some cl, w')" "chan_inv 0 p world_with_channel"
    "chan_abs 0 p world_with_channel = \<lparr>cs_calls = (\<lambda>_. None), cs_next = 1\<rparr>"
    "chan_abs 0 p w' = \<lparr>cs_calls = [cl \<mapsto> 1], cs_next = 3\<rparr>" by blast
  have "chan_step 0 world_with_channel w'" unfolding chan_step_def using chan_act.create [OF c(1)] by blast
  then have s: "(chan_step 0 ^^ 1) world_with_channel w'" by auto
  have i: "cs_calls (chan_abs 0 p w') cl = Some 1" using c(4) by simp
  from grpc_channel_stream_ids_unique [OF c(2,3) s _ i i] s i show ?thesis by (intro exI conjI) auto
qed

text \<open>
  C20. On a consistent channel creating a call, destroying or cancelling one of its calls never
  faults or blocks, for every pattern of allocation failures; with working allocations a call
  is created, carries the method, host, deadline and queue it was given, and its stream is
  listed behind the others.
\<close>

theorem grpc_channel_calls_safe:
  assumes "chan_inv ch p w"
  shows "(\<exists>r w'. grpc_channel_create_call (Some ch) pc pm (Some cq) (Some m) h d w = Inr (r, w') \<and>
      chan_inv ch p w' \<and>
      (alloc_ok (w_alloc w) \<longrightarrow> (\<exists>cl x. r = Some cl \<and> w_calls w' cl = Some x \<and> call_method x = Some m \<and>
         call_host x = h \<and> call_deadline x = d \<and> call_cq x = Some cq \<and>
         length (streams_of w' p) = length (streams_of w p) + 1))) \<and>
    (\<forall>cl x. w_calls w cl = Some x \<and> call_channel x = Some ch \<longrightarrow>
      (\<exists>w'. grpc_call_destroy (Some cl) w = Inr ((), w') \<and> chan_inv ch p w' \<and> w_calls w' cl = None) \<and>
      (\<exists>w' x'. grpc_call_cancel (Some cl) w = Inr (GRPC_CALL_OK, w') \<and> chan_inv ch p w' \<and>
         w_calls w' cl = Some x' \<and> call_cancelled x' \<and> call_status x' = GRPC_STATUS_CANCELLED))"
    (is "?create \<and> ?rest")
proof
  show ?create
    using create_call_simulates [OF assms, of pc pm cq m h d] by (fastforce split: option.split_asm)
  show ?rest
  proof (intro allI impI, elim conjE)
    fix cl x
    assume x: "w_calls w cl = Some x" "call_channel x = Some ch"
    from destroy_call_simulates [OF assms x] have
      "\<exists>w'. grpc_call_destroy (Some cl) w = Inr ((), w') \<and> chan_inv ch p w' \<and> w_calls w' cl = None"
      by (metis fun_upd_same)
    moreover from cancel_simulates [OF assms x] have
      "\<exists>w' x'. grpc_call_cancel (Some cl) w = Inr (GRPC_CALL_OK, w') \<and> chan_inv ch p w' \<and>
         w_calls w' cl = Some x' \<and> call_cancelled x' \<and> call_status x' = GRPC_STATUS_CANCELLED" by auto
    ultimately show "(\<exists>w'. grpc_call_destroy (Some cl) w = Inr ((), w') \<and> chan_inv ch p w' \<and> w_calls w' cl = None) \<and>
      (\<exists>w' x'. grpc_call_cancel (Some cl) w = Inr (GRPC_CALL_OK, w') \<and> chan_inv ch p w' \<and>
         w_calls w' cl = Some x' \<and> call_cancelled x' \<and> call_status x' = GRPC_STATUS_CANCELLED)" by blast
  qed
qed

theorem grpc_channel_calls_safe_witness:
  "\<exists>p w' cl x. grpc_channel_create_call (Some 0) None 0 (Some 7) (Some ''/s/m'') None no_deadline
      world_with_channel = Inr (Some cl, w') \<and> chan_inv 0 p w' \<and> w_calls w' cl = Some x \<and>
      call_method x = Some ''/s/m''"
proof -
  from world_with_channel obtain p where p: "chan_inv 0 p world_with_channel"
    "alloc_ok (w_alloc world_with_channel)" by blast
  from grpc_channel_calls_safe [OF p(1), of None 0 7 "''/s/m''" None no_deadline] p(2) show ?thesis by auto
qed

text \<open>
  A channel can be destroyed exactly when it has no calls left: then channel and connection
  are freed and the socket is closed; while a call is alive the destructor deadlocks on the
  connection's streams.
\<close>

theorem grpc_channel_destroy_needs_no_calls:
  assumes "chan_inv ch p w"
  shows "if \<exists>cl. cs_calls (chan_abs ch p w) cl \<noteq> None
    then grpc_channel_destroy (Some ch) w = Inl Deadlock
    else \<exists>w'. grpc_channel_destroy (Some ch) w = Inr ((), w') \<and> w_channels w' ch = None \<and>
      w_conns w' p = None"
proof (cases "\<exists>cl. cs_calls (chan_abs ch p w) cl \<noteq> None")
  case True
  then obtain cl where "cs_calls (chan_abs ch p w) cl \<noteq> None" by blast
  from grpc_channel_destroy_live [OF assms this] True show ?thesis by simp
next
  case False
  then have "\<And>cl. cs_calls (chan_abs ch p w) cl = None" by blast
  from grpc_channel_destroy_idle [OF assms this] False show ?thesis by fastforce
qed

theorem grpc_channel_destroy_needs_no_calls_witness:
  "\<exists>cl w' w''. grpc_channel_create_call (Some 0) None 0 (Some 7) (Some ''/s/m'') None no_deadline
      world_with_channel = Inr (Some cl, w') \<and> grpc_channel_destroy (Some 0) w' = Inl Deadlock \<and>
    grpc_channel_destroy (Some 0) world_with_channel = Inr ((), w'')"
proof -
  from one_call obtain p cl w' where c: "grpc_channel_create_call (Some 0) None 0 (Some 7) (Some ''/s/m'')
       None no_deadline world_with_channel = Inr (Some cl, w')" "chan_inv 0 p world_with_channel"
    "chan_inv 0 p w'" "chan_abs 0 p world_with_channel = \<lparr>cs_calls = (\<lambda>_. None), cs_next = 1\<rparr>"
    "chan_abs 0 p w' = \<lparr>cs_calls = [cl \<mapsto> 1], cs_next = 3\<rparr>" by blast
  from grpc_channel_destroy_needs_no_calls [OF c(3)] c(5)
  have "grpc_channel_destroy (Some 0) w' = Inl Deadlock" by (auto split: if_splits)
  moreover from grpc_channel_destroy_needs_no_calls [OF c(2)] c(4)
  obtain w'' where "grpc_channel_destroy (Some 0) world_with_channel = Inr ((), w'')" by auto
  ultimately show ?thesis using c(1) by blast
qed

text \<open>
  A call whose method name could not be copied is handed out all the same: with the second
  allocation failing, \<open>grpc_channel_create_call\<close> returns a call whose method is \<open>NULL\<close>.
\<close>

theorem grpc_channel_create_call_unchecked_strdup:
  "\<exists>cl w' x. grpc_channel_create_call (Some 0) None 0 (Some 7) (Some ''/s/m'') None no_deadline
      (world_with_channel\<lparr>w_alloc := [True, False]\<rparr>) = Inr (Some cl, w') \<and>
    w_calls w' cl = Some x \<and> call_method x = None"
proof -
  let ?w = "world_with_channel\<lparr>w_alloc := [True, False]\<rparr>"
  from world_with_channel obtain p where "chan_inv 0 p world_with_channel" by blast
  then have "chan_inv 0 p ?w" by (rule chan_inv_alloc)
  then obtain k c where at: "chan_at ?w 0 k p c" by (rule chan_invE)
  show ?thesis using create_call_strdup_fails [OF at] by fastforce
qed

end
