(* ===== verification/Call_Session.thy ===== *)
theory Call_Session
  imports Channel
begin

text \<open>
  One call from its queue to its end: the streaming variants of call creation and the health
  check of \<^verbatim>\<open>src/enhanced_features.c\<close>. Whatever creates the call, a client makes a queue, the call
  on it, destroys the call and then the queue; the locale \<open>call_factory\<close> states what the creating
  function promises, and shows once that such a session restores the heaps. It is interpreted
  on \<open>grpc_channel_create_call\<close> and on the three streaming variants.
\<close>

section \<open>Streaming calls and the health check\<close>

definition grpc_channel_create_server_streaming_call ::
    "addr option \<Rightarrow> addr option \<Rightarrow> string option \<Rightarrow> string option \<Rightarrow> grpc_timespec \<Rightarrow> addr option cmd" where
  "grpc_channel_create_server_streaming_call channel cq method host deadline =
     grpc_channel_create_call channel None 0 cq method host deadline"

definition grpc_channel_create_client_streaming_call ::
    "addr option \<Rightarrow> addr option \<Rightarrow> string option \<Rightarrow> string option \<Rightarrow> grpc_timespec \<Rightarrow> addr option cmd" where
  "grpc_channel_create_client_streaming_call channel cq method host deadline =
     grpc_channel_create_call channel None 0 cq method host deadline"

definition grpc_channel_create_bidi_streaming_call ::
    "addr option \<Rightarrow> addr option \<Rightarrow> string option \<Rightarrow> string option \<Rightarrow> grpc_timespec \<Rightarrow> addr option cmd" where
  "grpc_channel_create_bidi_streaming_call channel cq method host deadline =
     grpc_channel_create_call channel None 0 cq method host deadline"

definition GRPC_HEALTH_CHECK_TIMEOUT_MS :: int where
  "GRPC_HEALTH_CHECK_TIMEOUT_MS = 5000"

definition cq_create_cmd :: "grpc_completion_type \<Rightarrow> addr option cmd" where
  "cq_create_cmd ty w =
     (let (r, os) = grpc_completion_queue_create ty (w_alloc w)
      in case r of
           None \<Rightarrow> Inr (None, w\<lparr>w_alloc := os\<rparr>)
         | Some q \<Rightarrow> bnd (cq_new q) (\<lambda>a. ret (Some a)) (w\<lparr>w_alloc := os\<rparr>))"

definition cq_shutdown_cmd :: "addr option \<Rightarrow> unit cmd" where
  "cq_shutdown_cmd cq =
     (case cq of
        None \<Rightarrow> skip
      | Some a \<Rightarrow>
          bnd (cq_get cq) (\<lambda>q w.
            exec_bind (grpc_completion_queue_shutdown (Some q)) (\<lambda>q'.
              Inr ((), w\<lparr>w_cqs := (w_cqs w)(a := q')\<rparr>))))"

text \<open>Destroying a queue of the heap. A destructor that never returned would be a run that
  blocks; the loop over the nodes of a well-formed queue always ends (\<open>cq_free_nodes_list\<close>).\<close>

definition cq_destroy_cmd :: "addr option \<Rightarrow> unit cmd" where
  "cq_destroy_cmd cq =
     (case cq of
        None \<Rightarrow> skip
      | Some a \<Rightarrow>
          bnd (cq_get cq) (\<lambda>q w.
            (case grpc_completion_queue_destroy (Some q) of
               None \<Rightarrow> Inl Deadlock
             | Some (Inl e) \<Rightarrow> Inl e
             | Some (Inr _) \<Rightarrow> Inr ((), w\<lparr>w_cqs := (w_cqs w)(a := None)\<rparr>))))"

text \<open>The clock reading of the deadline is an argument; \<open>service\<close> is not used by the code.\<close>

definition grpc_health_check :: "timeval \<Rightarrow> addr option \<Rightarrow> string option \<Rightarrow> int cmd" where
  "grpc_health_check clock channel service =
     (if channel = None then ret (-1)
      else
        bnd (cq_create_cmd GRPC_CQ_NEXT) (\<lambda>cq.
        if cq = None then ret (-1)
        else
          bnd (grpc_channel_create_call channel None 0 cq (Some ''/grpc.health.v1.Health/Check'') None
                 (grpc_timeout_milliseconds_to_deadline clock GRPC_HEALTH_CHECK_TIMEOUT_MS)) (\<lambda>call.
          if call = None then bnd (cq_destroy_cmd cq) (\<lambda>_. ret (-1))
          else
            bnd (grpc_call_destroy call) (\<lambda>_.
            bnd (cq_shutdown_cmd cq) (\<lambda>_.
            bnd (cq_destroy_cmd cq) (\<lambda>_.
            ret 0))))))"

section \<open>Queues of the heap\<close>

lemma streams_of_other [simp]:
  "streams_of (w\<lparr>w_cqs := q\<rparr>) p = streams_of w p" "streams_of (w\<lparr>w_alloc := os\<rparr>) p = streams_of w p"
  by (simp_all add: streams_of_def)

lemma cq_create_cmd_eq:
  "cq_create_cmd ty w =
     (if fst (alloc_next (w_alloc w))
      then Inr (Some (w_brk w), w\<lparr>w_alloc := snd (alloc_next (w_alloc w)), w_brk := w_brk w + 1,
        w_cqs := (w_cqs w)(w_brk w \<mapsto> cq_fresh\<lparr>cq_type := ty\<rparr>)\<rparr>)
      else Inr (None, w\<lparr>w_alloc := snd (alloc_next (w_alloc w))\<rparr>))"
  by (simp add: cq_create_cmd_def grpc_completion_queue_create_def bnd_def cq_fresh_def split: prod.splits)

lemma chan_inv_new_cq:
  assumes "chan_inv ch p w"
  shows "chan_inv ch p (w\<lparr>w_alloc := os, w_brk := w_brk w + 1, w_cqs := (w_cqs w)(w_brk w \<mapsto> q)\<rparr>)"
proof -
  have "world_fresh (w\<lparr>w_alloc := os, w_brk := w_brk w + 1, w_cqs := (w_cqs w)(w_brk w \<mapsto> q)\<rparr>)"
    using assms by (auto simp: chan_inv_def world_fresh_def)
  with assms show ?thesis by (simp add: chan_inv_def chan_call_ok_def streams_of_def conn_ok_def)
qed

lemma chan_inv_free_cq:
  assumes "chan_inv ch p w"
  shows "chan_inv ch p (w\<lparr>w_cqs := (w_cqs w)(a := None)\<rparr>)"
proof -
  have "world_fresh (w\<lparr>w_cqs := (w_cqs w)(a := None)\<rparr>)"
    using assms by (auto simp: chan_inv_def world_fresh_def)
  with assms show ?thesis by (simp add: chan_inv_def chan_call_ok_def streams_of_def conn_ok_def)
qed

lemma cq_destroy_cmd_eq:
  assumes "w_cqs w a = Some q" and "cq_inv q"
  shows "cq_destroy_cmd (Some a) w = Inr ((), w\<lparr>w_cqs := (w_cqs w)(a := None)\<rparr>)"
  using cq_destroy_ok [OF assms(2)] assms(1) by (auto simp: cq_destroy_cmd_def bnd_def)

lemma cq_shutdown_cmd_eq:
  assumes "w_cqs w a = Some q" and "cq_inv q"
  shows "cq_shutdown_cmd (Some a) w =
    Inr ((), w\<lparr>w_cqs := (w_cqs w)(a \<mapsto> q\<lparr>cq_shutdown := True, cq_cond := True, cq_mutex := False\<rparr>)\<rparr>)"
  using assms by (simp add: cq_shutdown_cmd_def bnd_def grpc_completion_queue_shutdown_def cq_inv_def)

lemma cq_inv_fresh_type: "cq_inv (cq_fresh\<lparr>cq_type := ty\<rparr>)"
  using cq_linked_fresh [of "cq_fresh\<lparr>cq_type := ty\<rparr>"] by (auto simp: cq_inv_def cq_fresh_def)

text \<open>Creating a call and destroying it restores the calls, the streams and the queues.\<close>

lemma create_destroy_restores:
  assumes "chan_inv ch p w" and "w_calls w cl = None" and "w_calls w2 = (w_calls w)(cl \<mapsto> x)"
    and "call_channel x = Some ch" and "w_streams w s = None" and "w_streams w2 = (w_streams w)(s \<mapsto> st)"
    and "streams_of w2 p = streams_of w p @ [s]" and "chan_inv ch p w2"
  obtains w3 where "grpc_call_destroy (Some cl) w2 = Inr ((), w3)" and "chan_inv ch p w3" and "w_cqs w3 = w_cqs w2"
    and "w_calls w3 = w_calls w" and "w_streams w3 = w_streams w" and "set (streams_of w3 p) = set (streams_of w p)"
proof -
  have cl: "w_calls w2 cl = Some x" using assms(3) by simp
  from destroy_call_simulates [OF assms(8) this assms(4)] obtain w3 t where
    w3: "grpc_call_destroy (Some cl) w2 = Inr ((), w3)" "chan_inv ch p w3" "w_cqs w3 = w_cqs w2"
      "w_calls w3 = (w_calls w2)(cl := None)" "call_stream x = Some t"
      "w_streams w3 = (w_streams w2)(t := None)" "set (streams_of w3 p) = set (streams_of w2 p) - {t}" by blast
  from assms(8) cl assms(4) have ok: "chan_call_ok ch p w2 cl x" by (simp add: chan_inv_def)
  then obtain tt where "w_streams w2 t = Some tt" "strm_call tt = Some cl" "t \<in> set (streams_of w2 p)"
    using w3(5) by (auto simp: chan_call_ok_def)
  moreover have "strm_call tt \<noteq> Some cl" if "w_streams w t = Some tt" "t \<in> set (streams_of w p)" for tt
    using that assms(1,2) by (fastforce simp: chan_inv_def)
  ultimately have t: "t = s" using assms(6,7) by (auto split: if_splits)
  have "s \<notin> set (streams_of w p)" using assms(1,5) unfolding chan_inv_def by fastforce
  then have "set (streams_of w3 p) = set (streams_of w p)" using w3(7) assms(7) t by auto
  moreover have "w_calls w3 = w_calls w" using w3(4) assms(2,3) by (auto simp: fun_eq_iff)
  moreover have "w_streams w3 = w_streams w" using w3(6) assms(5,6) t by (auto simp: fun_eq_iff)
  ultimately show ?thesis using that w3(1-3) by blast
qed

section \<open>What a session on a channel leaves alone\<close>

text \<open>The channels, the other connections, the sockets and their bytes; and it does not use up
  memory that works.\<close>

definition calls_frame :: "addr \<Rightarrow> world \<Rightarrow> world \<Rightarrow> bool" where
  "calls_frame p w w' \<longleftrightarrow> w_channels w' = w_channels w \<and> (w_conns w')(p := None) = (w_conns w)(p := None) \<and>
     conn_socket_fd (the (w_conns w' p)) = conn_socket_fd (the (w_conns w p)) \<and> w_brk w \<le> w_brk w' \<and>
     w_sent w' = w_sent w \<and> w_incoming w' = w_incoming w \<and> w_closed w' = w_closed w \<and>
     (alloc_ok (w_alloc w) \<longrightarrow> alloc_ok (w_alloc w'))"

lemma calls_frame_trans: "calls_frame p w1 w2 \<Longrightarrow> calls_frame p w2 w3 \<Longrightarrow> calls_frame p w1 w3"
  by (simp add: calls_frame_def)

lemma calls_frame_other:
  "\<not> alloc_ok (w_alloc w) \<Longrightarrow> calls_frame p w (w\<lparr>w_alloc := os\<rparr>)" "calls_frame p w (w\<lparr>w_cqs := q\<rparr>)"
  by (simp_all add: calls_frame_def)

lemma create_call_frame:
  assumes "chan_inv ch p w"
    and "grpc_channel_create_call (Some ch) pc pm (Some cq) (Some m) h d w = Inr (r, w')"
  shows "calls_frame p w w'"
proof -
  from assms(1) obtain k c where at: "chan_at w ch k p c" by (rule chan_invE)
  then have c: "w_conns w p = Some c" by (simp add: chan_at_def)
  from at show ?thesis
    by (cases rule: grpc_channel_create_call_cases [where pc = pc and pm = pm and cq = cq and m = m and h = h and d = d])
      (use assms(2) c in \<open>auto simp: calls_frame_def call_added_def\<close>)
qed

lemma destroy_call_frame:
  assumes "chan_inv ch p w" and "w_calls w cl = Some x" and "call_channel x = Some ch"
    and "grpc_call_destroy (Some cl) w = Inr ((), w')"
  shows "calls_frame p w w'"
proof -
  from assms(1) obtain k c where at: "chan_at w ch k p c" and so: "streams_of w p = arr_list (conn_streams c)"
    and ok: "conn_ok w p" by (rule chan_invE)
  have c: "w_conns w p = Some c" using at by (simp add: chan_at_def)
  from assms(1-3) have "chan_call_ok ch p w cl x" by (simp add: chan_inv_def)
  then obtain s where s: "call_stream x = Some s" "s \<in> set (arr_list (conn_streams c))" "call_clean x"
    using so by (auto simp: chan_call_ok_def)
  from grpc_call_destroy_eq [OF ok c s(2) assms(2) s(1,3)] obtain a where
    "grpc_call_destroy (Some cl) w = Inr ((), w\<lparr>w_conns := (w_conns w)(p \<mapsto> c\<lparr>conn_streams := a\<rparr>),
       w_streams := (w_streams w)(s := None), w_calls := (w_calls w)(cl := None)\<rparr>)" by blast
  with assms(4) have "w' = w\<lparr>w_conns := (w_conns w)(p \<mapsto> c\<lparr>conn_streams := a\<rparr>),
       w_streams := (w_streams w)(s := None), w_calls := (w_calls w)(cl := None)\<rparr>" by simp
  then show ?thesis using c by (simp add: calls_frame_def)
qed

section \<open>Sessions\<close>

definition session_restored :: "addr \<Rightarrow> world \<Rightarrow> world \<Rightarrow> bool" where
  "session_restored p w w' \<longleftrightarrow> calls_frame p w w' \<and> w_calls w' = w_calls w \<and> w_streams w' = w_streams w \<and>
     w_cqs w' = w_cqs w \<and> set (streams_of w' p) = set (streams_of w p)"

lemma session_restored_trans: "session_restored p w1 w2 \<Longrightarrow> session_restored p w2 w3 \<Longrightarrow> session_restored p w1 w3"
  by (auto simp: session_restored_def intro: calls_frame_trans)

lemma session_restored_alloc:
  "session_restored p w w' \<Longrightarrow> alloc_ok (w_alloc w) \<Longrightarrow> alloc_ok (w_alloc w')"
  by (simp add: session_restored_def calls_frame_def)

text \<open>A queue around a session: whatever restores the heaps between its creation and its
  destruction, the queue is freed, with or without shutting it down first.\<close>

lemma queue_cases:
  assumes "chan_inv ch p w"
  obtains (no_queue) os where "cq_create_cmd ty w = Inr (None, w\<lparr>w_alloc := os\<rparr>)" "\<not> alloc_ok (w_alloc w)"
  | (queue) a w1 where "cq_create_cmd ty w = Inr (Some a, w1)" "chan_inv ch p w1"
      "alloc_ok (w_alloc w) \<longrightarrow> alloc_ok (w_alloc w1)"
      "\<And>v. chan_inv ch p v \<Longrightarrow> session_restored p w1 v \<Longrightarrow>
        \<exists>v' w2. cq_shutdown_cmd (Some a) v = Inr ((), v') \<and> cq_destroy_cmd (Some a) v' = Inr ((), w2) \<and>
          cq_destroy_cmd (Some a) v = Inr ((), w2) \<and> chan_inv ch p w2 \<and> session_restored p w w2"
proof (cases "fst (alloc_next (w_alloc w))")
  case False
  then show ?thesis using no_queue alloc_next_snd_ok by (auto simp: cq_create_cmd_eq)
next
  case True
  let ?a = "w_brk w" and ?q = "cq_fresh\<lparr>cq_type := ty\<rparr>"
  let ?w1 = "w\<lparr>w_alloc := snd (alloc_next (w_alloc w)), w_brk := w_brk w + 1, w_cqs := (w_cqs w)(?a \<mapsto> ?q)\<rparr>"
  have fq: "(w_cqs w)(?a := None) = w_cqs w"
    using assms by (auto simp: chan_inv_def world_fresh_def fun_eq_iff)
  have al: "alloc_ok (w_alloc w) \<longrightarrow> alloc_ok (w_alloc ?w1)" using alloc_next_snd_ok by simp
  have "\<exists>v' w2. cq_shutdown_cmd (Some ?a) v = Inr ((), v') \<and> cq_destroy_cmd (Some ?a) v' = Inr ((), w2) \<and>
      cq_destroy_cmd (Some ?a) v = Inr ((), w2) \<and> chan_inv ch p w2 \<and> session_restored p w w2"
    if v: "chan_inv ch p v" "session_restored p ?w1 v" for v
  proof -
    let ?v' = "v\<lparr>w_cqs := (w_cqs v)(?a \<mapsto> ?q\<lparr>cq_shutdown := True, cq_cond := True, cq_mutex := False\<rparr>)\<rparr>" and ?w2 = "v\<lparr>w_cqs := (w_cqs v)(?a := None)\<rparr>"
    have q: "w_cqs v ?a = Some ?q" "(w_cqs v)(?a := None) = w_cqs w"
      using v(2) fq by (simp_all add: session_restored_def)
    have "cq_inv (?q\<lparr>cq_shutdown := True, cq_cond := True, cq_mutex := False\<rparr>)"
      using cq_inv_fresh_type [of ty] by (simp add: cq_inv_def)
    then have "cq_destroy_cmd (Some ?a) ?v' = Inr ((), ?w2)" by (subst cq_destroy_cmd_eq) simp_all
    moreover have "session_restored p w ?w2"
      using v(2) q al by (auto simp: session_restored_def calls_frame_def streams_of_def)
    ultimately show ?thesis
      using cq_shutdown_cmd_eq [OF q(1) cq_inv_fresh_type] cq_destroy_cmd_eq [OF q(1) cq_inv_fresh_type]
        chan_inv_free_cq [OF v(1)] by blast
  qed
  moreover have "cq_create_cmd ty w = Inr (Some ?a, ?w1)" using True by (simp add: cq_create_cmd_eq)
  ultimately show ?thesis using queue chan_inv_new_cq [OF assms] al by blast
qed

text \<open>
  \<open>create channel cq deadline\<close>: a function that makes a call on a consistent channel. Either it
  fails for want of memory and the calls and streams are as before, or there is exactly one new
  call on the channel, with the deadline it was given and one new stream behind the others.
\<close>

locale call_factory =
  fixes create :: "addr option \<Rightarrow> addr option \<Rightarrow> grpc_timespec \<Rightarrow> addr option cmd"
  assumes create_law: "chan_inv ch p w \<Longrightarrow>
    \<exists>r w'. create (Some ch) (Some cq) d w = Inr (r, w') \<and> chan_inv ch p w' \<and> calls_frame p w w' \<and>
      w_cqs w' = w_cqs w \<and>
      (case r of
         None \<Rightarrow> \<not> alloc_ok (w_alloc w) \<and> w_calls w' = w_calls w \<and> w_streams w' = w_streams w \<and>
           streams_of w' p = streams_of w p
       | Some cl \<Rightarrow> \<exists>x s st. w_calls w cl = None \<and> w_calls w' = (w_calls w)(cl \<mapsto> x) \<and>
           call_channel x = Some ch \<and> call_deadline x = d \<and> w_streams w s = None \<and>
           w_streams w' = (w_streams w)(s \<mapsto> st) \<and> streams_of w' p = streams_of w p @ [s])"
begin

text \<open>A call that was created can be destroyed, which restores the calls and the streams.\<close>

lemma call_cases:
  assumes "chan_inv ch p w"
  obtains (no_call) w2 where "create (Some ch) (Some cq) d w = Inr (None, w2)" "chan_inv ch p w2"
      "session_restored p w w2" "\<not> alloc_ok (w_alloc w)"
  | (call) cl w2 w3 where "create (Some ch) (Some cq) d w = Inr (Some cl, w2)"
      "grpc_call_destroy (Some cl) w2 = Inr ((), w3)" "chan_inv ch p w3" "session_restored p w w3"
proof -
  from create_law [OF assms, of cq d] obtain r w2 where
    c: "create (Some ch) (Some cq) d w = Inr (r, w2)" "chan_inv ch p w2" "calls_frame p w w2" "w_cqs w2 = w_cqs w" by blast
  show ?thesis
  proof (cases r)
    case None
    with create_law [OF assms, of cq d] c have "session_restored p w w2" "\<not> alloc_ok (w_alloc w)"
      by (auto simp: session_restored_def)
    with c None no_call show ?thesis by blast
  next
    case (Some cl)
    with create_law [OF assms, of cq d] c(1) obtain x s st where
      x: "w_calls w cl = None" "w_calls w2 = (w_calls w)(cl \<mapsto> x)" "call_channel x = Some ch"
        "w_streams w s = None" "w_streams w2 = (w_streams w)(s \<mapsto> st)" "streams_of w2 p = streams_of w p @ [s]"
      by auto
    from assms x c(2) obtain w3 where
      w3: "grpc_call_destroy (Some cl) w2 = Inr ((), w3)" "chan_inv ch p w3" "w_cqs w3 = w_cqs w2"
        "w_calls w3 = w_calls w" "w_streams w3 = w_streams w" "set (streams_of w3 p) = set (streams_of w p)"
      by (rule create_destroy_restores)
    have "w_calls w2 cl = Some x" using x(2) by simp
    from destroy_call_frame [OF c(2) this x(3) w3(1)] have "calls_frame p w w3"
      using c(3) by (blast intro: calls_frame_trans)
    with w3 c(4) have "session_restored p w w3" by (simp add: session_restored_def)
    with c(1) Some w3 call show ?thesis by blast
  qed
qed

lemma call_life:
  assumes "chan_inv ch p w" and "alloc_ok (w_alloc w)"
  obtains cl w2 w3 where "create (Some ch) (Some cq) d w = Inr (Some cl, w2)"
    "grpc_call_destroy (Some cl) w2 = Inr ((), w3)" "chan_inv ch p w3" "session_restored p w w3" "alloc_ok (w_alloc w3)"
  using assms(1)
proof (cases rule: call_cases [where cq = cq and d = d])
  case no_call
  with assms(2) show ?thesis by simp
next
  case call
  with assms(2) that session_restored_alloc show ?thesis by blast
qed

text \<open>The three ways a session can go, with the state after each of its operations.\<close>

lemma session_cases:
  assumes "chan_inv ch p w"
  obtains (no_queue) os where "cq_create_cmd ty w = Inr (None, w\<lparr>w_alloc := os\<rparr>)" "\<not> alloc_ok (w_alloc w)"
  | (no_call) a w1 w2 w3 where "cq_create_cmd ty w = Inr (Some a, w1)"
      "create (Some ch) (Some a) d w1 = Inr (None, w2)" "cq_destroy_cmd (Some a) w2 = Inr ((), w3)"
      "chan_inv ch p w3" "session_restored p w w3" "\<not> alloc_ok (w_alloc w)"
  | (finished) a w1 cl w2 w3 w4 w5 where "cq_create_cmd ty w = Inr (Some a, w1)"
      "create (Some ch) (Some a) d w1 = Inr (Some cl, w2)" "grpc_call_destroy (Some cl) w2 = Inr ((), w3)"
      "cq_shutdown_cmd (Some a) w3 = Inr ((), w4)" "cq_destroy_cmd (Some a) w4 = Inr ((), w5)"
      "cq_destroy_cmd (Some a) w3 = Inr ((), w5)" "chan_inv ch p w5" "session_restored p w w5"
  using assms
proof (cases rule: queue_cases [where ty = ty])
  case no_queue
  then show ?thesis by (rule that(1))
next
  case (queue a w1)
  note q = queue
  from queue(2) show ?thesis
  proof (cases rule: call_cases [where cq = a and d = d])
    case (no_call w2)
    with q show ?thesis using that(2) by blast
  next
    case (call cl w2 w3)
    from q(4) [OF call(3,4)] that(3) [OF q(1) call(1,2)] show ?thesis by blast
  qed
qed

end

lemma create_call_law:
  assumes "chan_inv ch p w"
  shows "\<exists>r w'. grpc_channel_create_call (Some ch) pc pm (Some cq) (Some m) h d w = Inr (r, w') \<and>
      chan_inv ch p w' \<and> calls_frame p w w' \<and> w_cqs w' = w_cqs w \<and>
      (case r of
         None \<Rightarrow> \<not> alloc_ok (w_alloc w) \<and> w_calls w' = w_calls w \<and> w_streams w' = w_streams w \<and>
           streams_of w' p = streams_of w p
       | Some cl \<Rightarrow> \<exists>x s st. w_calls w cl = None \<and> w_calls w' = (w_calls w)(cl \<mapsto> x) \<and>
           call_channel x = Some ch \<and> call_deadline x = d \<and> w_streams w s = None \<and>
           w_streams w' = (w_streams w)(s \<mapsto> st) \<and> streams_of w' p = streams_of w p @ [s])"
proof -
  from create_call_simulates [OF assms, of pc pm cq m h d] obtain r w' where
    r: "grpc_channel_create_call (Some ch) pc pm (Some cq) (Some m) h d w = Inr (r, w')" by blast
  from create_call_frame [OF assms r] create_call_simulates [OF assms, of pc pm cq m h d] r show ?thesis
    by (cases r) auto
qed

interpretation unary: call_factory "\<lambda>ch cq d. grpc_channel_create_call ch None 0 cq (Some m) None d" for m
  by unfold_locales (rule create_call_law)

interpretation server_streaming: call_factory
  "\<lambda>ch cq d. grpc_channel_create_server_streaming_call ch cq (Some m) None d" for m
  unfolding grpc_channel_create_server_streaming_call_def by unfold_locales (rule create_call_law)

interpretation client_streaming: call_factory
  "\<lambda>ch cq d. grpc_channel_create_client_streaming_call ch cq (Some m) None d" for m
  unfolding grpc_channel_create_client_streaming_call_def by unfold_locales (rule create_call_law)

interpretation bidi_streaming: call_factory
  "\<lambda>ch cq d. grpc_channel_create_bidi_streaming_call ch cq (Some m) None d" for m
  unfolding grpc_channel_create_bidi_streaming_call_def by unfold_locales (rule create_call_law)

section \<open>The health check\<close>

lemma grpc_health_check_ok:
  assumes "chan_inv ch p w"
  shows "\<exists>r w'. grpc_health_check clock (Some ch) service w = Inr (r, w') \<and> chan_inv ch p w' \<and>
    (r = 0 \<or> r = - 1 \<and> \<not> alloc_ok (w_alloc w)) \<and> session_restored p w w'"
  using assms
proof (cases rule: unary.session_cases [where ty = GRPC_CQ_NEXT and m = "''/grpc.health.v1.Health/Check''"
      and d = "grpc_timeout_milliseconds_to_deadline clock GRPC_HEALTH_CHECK_TIMEOUT_MS"])
  case (no_queue os)
  then show ?thesis using chan_inv_alloc [OF assms, of os]
    by (simp add: grpc_health_check_def bnd_def session_restored_def calls_frame_other)
next
  case no_call
  then show ?thesis by (auto simp: grpc_health_check_def bnd_def)
next
  case finished
  then show ?thesis by (auto simp: grpc_health_check_def bnd_def)
qed

section \<open>Properties\<close>

text \<open>
  A health check leaves no trace: whatever allocations fail, it does not fault, the calls,
  the streams and the completion queues are afterwards what they were, and the channel is
  consistent. It returns 0 whenever the allocations succeed although it never contacts the
  server: no byte is sent or received.
\<close>

theorem grpc_health_check_restores:
  assumes "chan_inv ch p w"
  shows "\<exists>r w'. grpc_health_check clock (Some ch) service w = Inr (r, w') \<and> chan_inv ch p w' \<and>
    (r = 0 \<or> r = - 1 \<and> \<not> alloc_ok (w_alloc w)) \<and>
    w_calls w' = w_calls w \<and> w_streams w' = w_streams w \<and> w_cqs w' = w_cqs w \<and>
    set (streams_of w' p) = set (streams_of w p) \<and> w_sent w' = w_sent w \<and> w_incoming w' = w_incoming w"
  using grpc_health_check_ok [OF assms] unfolding session_restored_def calls_frame_def by blast

theorem grpc_health_check_restores_witness:
  "\<exists>w'. grpc_health_check \<lparr>timeval_sec = 0, timeval_usec = 0\<rparr> (Some 0) None world_with_channel = Inr (0, w') \<and>
     w_cqs w' = w_cqs world_with_channel"
proof -
  from world_with_channel obtain p where p: "chan_inv 0 p world_with_channel"
    "alloc_ok (w_alloc world_with_channel)" by blast
  from grpc_health_check_restores [OF p(1), of "\<lparr>timeval_sec = 0, timeval_usec = 0\<rparr>" None] p(2)
  show ?thesis by auto
qed

end
