(* ===== verification/Client_Examples.thy ===== *)
theory Client_Examples
  imports Process Call_Session
begin

text \<open>
  The client programs \<^verbatim>\<open>examples/echo_client.c\<close> and \<^verbatim>\<open>examples/streaming_example.c\<close>, from the first
  \<open>printf\<close> to the exit code, on the channels, calls and queues of the library. The clock readings
  of their deadlines are arguments, as are the command line arguments. Each program opens a
  channel, a queue and a call and takes them down again; the locale \<open>call_factory\<close> is extended
  with that whole life, so one lemma serves the four ways to create the call.
\<close>

section \<open>The echo client\<close>

definition echo_client_main :: "timeval \<Rightarrow> string list \<Rightarrow> (world, int) prog" where
  "echo_client_main clock argv =
     (let server_address = arg_or argv 1 ''localhost:50051'';
          message = arg_or argv 2 ''Hello, gRPC!''
      in steps
           [printf (''Echo Client connecting to '' @ server_address @ nl),
            printf (''Message: '' @ message @ nl @ nl),
            do_init]
         (pbnd (run_op (grpc_insecure_channel_create (Some server_address) None)) (\<lambda>channel.
          if channel = None
          then steps [fprintf_stderr (''Failed to create channel'' @ nl), do_shutdown] (pret 1)
          else
            pbnd (printf (''Channel created successfully'' @ nl)) (\<lambda>_.
            pbnd (run_op (cq_create_cmd GRPC_CQ_NEXT)) (\<lambda>cq.
            if cq = None
            then steps [fprintf_stderr (''Failed to create completion queue'' @ nl),
                   run_op (grpc_channel_destroy channel), do_shutdown] (pret 1)
            else
              let deadline = grpc_timeout_milliseconds_to_deadline clock 5000
              in pbnd (run_op (grpc_channel_create_call channel None 0 cq
                        (Some ''/echo.Echo/SayHello'') None deadline)) (\<lambda>call.
                 if call = None
                 then steps [fprintf_stderr (''Failed to create call'' @ nl), run_op (cq_destroy_cmd cq),
                        run_op (grpc_channel_destroy channel), do_shutdown] (pret 1)
                 else
                   steps
                     [printf (''Call created successfully'' @ nl),
                      printf (''Call completed (simplified implementation)'' @ nl),
                      run_op (grpc_call_destroy call),
                      run_op (cq_shutdown_cmd cq),
                      run_op (cq_destroy_cmd cq),
                      run_op (grpc_channel_destroy channel),
                      do_shutdown,
                      printf (''Client finished'' @ nl)]
                     (pret 0)))))))"

section \<open>The streaming examples\<close>

definition example_server_streaming :: "timeval \<Rightarrow> (world, unit) prog" where
  "example_server_streaming clock =
     steps
       [printf (nl @ ''=== Server Streaming Example ==='' @ nl),
        printf (''In server streaming, the client sends one request and receives'' @ nl),
        printf (''a stream of responses from the server.'' @ nl @ nl),
        do_init]
     (pbnd (run_op (grpc_insecure_channel_create (Some ''localhost:50051'') None)) (\<lambda>channel.
      if channel = None
      then steps [printf (''Failed to create channel'' @ nl), do_shutdown] (pret ())
      else
        pbnd (run_op (cq_create_cmd GRPC_CQ_NEXT)) (\<lambda>cq.
        if cq = None
        then steps [printf (''Failed to create completion queue'' @ nl), run_op (grpc_channel_destroy channel),
               do_shutdown] (pret ())
        else
          let deadline = grpc_timeout_milliseconds_to_deadline clock 30000
          in pbnd (run_op (grpc_channel_create_server_streaming_call channel cq
                    (Some ''/example.Service/ServerStream'') None deadline)) (\<lambda>call.
             if call = None
             then steps [printf (''Failed to create call'' @ nl), run_op (cq_destroy_cmd cq),
                    run_op (grpc_channel_destroy channel), do_shutdown] (pret ())
             else
               steps
                 [printf (''Created server streaming call'' @ nl),
                  printf (''In a real implementation:'' @ nl),
                  printf (''  1. Client sends initial request'' @ nl),
                  printf (''  2. Client reads multiple responses in a loop'' @ nl),
                  printf (''  3. Server indicates end of stream'' @ nl),
                  printf (''  4. Client receives final status'' @ nl @ nl),
                  run_op (grpc_call_destroy call),
                  run_op (cq_destroy_cmd cq),
                  run_op (grpc_channel_destroy channel),
                  do_shutdown]
                 (pret ())))))"

definition example_client_streaming :: "timeval \<Rightarrow> (world, unit) prog" where
  "example_client_streaming clock =
     steps
       [printf (nl @ ''=== Client Streaming Example ==='' @ nl),
        printf (''In client streaming, the client sends a stream of requests'' @ nl),
        printf (''and receives one response from the server.'' @ nl @ nl),
        do_init]
     (pbnd (run_op (grpc_insecure_channel_create (Some ''localhost:50051'') None)) (\<lambda>channel.
      if channel = None
      then steps [printf (''Failed to create channel'' @ nl), do_shutdown] (pret ())
      else
        pbnd (run_op (cq_create_cmd GRPC_CQ_NEXT)) (\<lambda>cq.
        if cq = None
        then steps [printf (''Failed to create completion queue'' @ nl), run_op (grpc_channel_destroy channel),
               do_shutdown] (pret ())
        else
          let deadline = grpc_timeout_milliseconds_to_deadline clock 30000
          in pbnd (run_op (grpc_channel_create_client_streaming_call channel cq
                    (Some ''/example.Service/ClientStream'') None deadline)) (\<lambda>call.
             if call = None
             then steps [printf (''Failed to create call'' @ nl), run_op (cq_destroy_cmd cq),
                    run_op (grpc_channel_destroy channel), do_shutdown] (pret ())
             else
               steps
                 [printf (''Created client streaming call'' @ nl),
                  printf (''In a real implementation:'' @ nl),
                  printf (''  1. Client sends multiple requests in a loop'' @ nl),
                  printf (''  2. Client signals end of stream (half-close)'' @ nl),
                  printf (''  3. Server processes all requests'' @ nl),
                  printf (''  4. Server sends final response and status'' @ nl @ nl),
                  run_op (grpc_call_destroy call),
                  run_op (cq_destroy_cmd cq),
                  run_op (grpc_channel_destroy channel),
                  do_shutdown]
                 (pret ())))))"

definition example_bidirectional_streaming :: "timeval \<Rightarrow> (world, unit) prog" where
  "example_bidirectional_streaming clock =
     steps
       [printf (nl @ ''=== Bidirectional Streaming Example ==='' @ nl),
        printf (''In bidirectional streaming, both client and server send'' @ nl),
        printf (''streams of messages concurrently.'' @ nl @ nl),
        do_init]
     (pbnd (run_op (grpc_insecure_channel_create (Some ''localhost:50051'') None)) (\<lambda>channel.
      if channel = None
      then steps [printf (''Failed to create channel'' @ nl), do_shutdown] (pret ())
      else
        pbnd (run_op (cq_create_cmd GRPC_CQ_NEXT)) (\<lambda>cq.
        if cq = None
        then steps [printf (''Failed to create completion queue'' @ nl), run_op (grpc_channel_destroy channel),
               do_shutdown] (pret ())
        else
          let deadline = grpc_timeout_milliseconds_to_deadline clock 30000
          in pbnd (run_op (grpc_channel_create_bidi_streaming_call channel cq
                    (Some ''/example.Service/BidiStream'') None deadline)) (\<lambda>call.
             if call = None
             then steps [printf (''Failed to create call'' @ nl), run_op (cq_destroy_cmd cq),
                    run_op (grpc_channel_destroy channel), do_shutdown] (pret ())
             else
               steps
                 [printf (''Created bidirectional streaming call'' @ nl),
                  printf (''In a real implementation:'' @ nl),
                  printf (''  1. Client and server can send messages concurrently'' @ nl),
                  printf (''  2. Each side can read and write independently'' @ nl),
                  printf (''  3. Either side can close their write stream'' @ nl),
                  printf (''  4. Call completes when both sides have closed'' @ nl @ nl),
                  printf (''Use cases:'' @ nl),
                  printf (''  - Chat applications'' @ nl),
                  printf (''  - Real-time data synchronization'' @ nl),
                  printf (''  - Interactive sessions'' @ nl @ nl),
                  run_op (grpc_call_destroy call),
                  run_op (cq_destroy_cmd cq),
                  run_op (grpc_channel_destroy channel),
                  do_shutdown]
                 (pret ())))))"

definition example_backpressure :: "('s, unit) prog" where
  "example_backpressure =
     steps
       [printf (nl @ ''=== Backpressure Handling ==='' @ nl),
        printf (''Backpressure mechanisms prevent overwhelming receivers:'' @ nl @ nl),
        printf (''1. HTTP/2 Flow Control:'' @ nl),
        printf (''   - Window-based flow control at connection and stream level'' @ nl),
        printf (''   - Receiver advertises available buffer space'' @ nl),
        printf (''   - Sender respects window limits'' @ nl),
        printf (''   - Automatically handled by grpc-c implementation'' @ nl @ nl),
        printf (''2. Application-Level Control:'' @ nl),
        printf (''   - Check completion queue for processing capacity'' @ nl),
        printf (''   - Use timeouts to avoid blocking indefinitely'' @ nl),
        printf (''   - Monitor call status for backpressure signals'' @ nl @ nl),
        printf (''3. Best Practices:'' @ nl),
        printf (''   - Process messages in order received'' @ nl),
        printf (''   - Don'' @ [CHR 0x27] @ ''t queue too many operations'' @ nl),
        printf (''   - Use appropriate buffer sizes'' @ nl),
        printf (''   - Handle slow consumers gracefully'' @ nl @ nl)]
       (pret ())"

definition streaming_example_main :: "timeval \<Rightarrow> timeval \<Rightarrow> timeval \<Rightarrow> (world, int) prog" where
  "streaming_example_main clock1 clock2 clock3 =
     steps
       [printf (''========================================'' @ nl),
        printf (''   gRPC-C Streaming RPC Examples'' @ nl),
        printf (''========================================'' @ nl),
        example_server_streaming clock1,
        example_client_streaming clock2,
        example_bidirectional_streaming clock3,
        example_backpressure,
        printf (''========================================'' @ nl),
        printf (''Streaming RPC Implementation Complete'' @ nl),
        printf (''========================================'' @ nl @ nl),
        printf (''The grpc-c library provides:'' @ nl),
        printf ([CHR 0xE2, CHR 0x9C, CHR 0x93] @ '' API helpers for creating streaming calls'' @ nl),
        printf ([CHR 0xE2, CHR 0x9C, CHR 0x93] @ '' HTTP/2 multiplexing for concurrent streams'' @ nl),
        printf ([CHR 0xE2, CHR 0x9C, CHR 0x93] @ '' Flow control to prevent overwhelming receivers'' @ nl),
        printf ([CHR 0xE2, CHR 0x9C, CHR 0x93] @ '' Backpressure handling via completion queues'' @ nl),
        printf ([CHR 0xE2, CHR 0x9C, CHR 0x93] @ '' Automatic window management'' @ nl @ nl)]
       (pret 0)"

section \<open>The life of a client\<close>

text \<open>All objects the program made are freed and no byte went over a socket.\<close>

definition world_restored :: "world \<Rightarrow> world \<Rightarrow> bool" where
  "world_restored w w' \<longleftrightarrow> w_channels w' = w_channels w \<and> w_conns w' = w_conns w \<and>
     w_streams w' = w_streams w \<and> w_calls w' = w_calls w \<and> w_cqs w' = w_cqs w \<and>
     w_sent w' = w_sent w \<and> w_incoming w' = w_incoming w \<and> w_closed w' = w_closed w \<and>
     (alloc_ok (w_alloc w) \<longrightarrow> alloc_ok (w_alloc w'))"

text \<open>The states a client program can start in.\<close>

definition client_ready :: "world \<Rightarrow> bool" where
  "client_ready w \<longleftrightarrow> world_fresh w \<and> calls_below w"

lemma client_ready_restored:
  assumes "client_ready w" and "world_restored w w'" and "w_brk w \<le> w_brk w'"
  shows "client_ready w'"
  using assms by (fastforce simp: client_ready_def world_restored_def world_fresh_def calls_below_def)

lemma world_restored_trans: "world_restored w1 w2 \<Longrightarrow> world_restored w2 w3 \<Longrightarrow> world_restored w1 w3"
  by (simp add: world_restored_def)

text \<open>After a session on a new channel the channel can be destroyed.\<close>

lemma channel_session_restores:
  assumes "client_ready w" and "w1 = chan_added t creds args os w" and "alloc_ok (w_alloc w) \<longrightarrow> alloc_ok os"
    and "chan_inv (w_brk w) (w_brk w + 1) w2" and "session_restored (w_brk w + 1) w1 w2"
  obtains w3 where "grpc_channel_destroy (Some (w_brk w)) w2 = Inr ((), w3)" "world_restored w w3" "client_ready w3"
proof -
  let ?ch = "w_brk w" and ?p = "w_brk w + 1"
  from assms(1) have fr: "world_fresh w" "calls_below w" by (simp_all add: client_ready_def)
  have f: "(w_channels w)(?ch := None) = w_channels w" "(w_conns w)(?p := None) = w_conns w"
    using fr(1) by (auto simp: world_fresh_def fun_eq_iff)
  have w2: "w_channels w2 = w_channels w1" "(w_conns w2)(?p := None) = (w_conns w1)(?p := None)"
    "w_streams w2 = w_streams w" "w_calls w2 = w_calls w" "w_cqs w2 = w_cqs w" "w_brk w \<le> w_brk w2"
    "w_sent w2 = w_sent w" "w_incoming w2 = w_incoming w" "w_closed w2 = w_closed w"
    "conn_socket_fd (the (w_conns w2 ?p)) = -1"
    using assms(2,5) by (simp_all add: session_restored_def calls_frame_def chan_added_def)
      (simp add: conn_fresh_def)
  have "streams_of w1 ?p = []" by (simp add: assms(2) chan_added_def streams_of_def conn_inv_fresh)
  then have s2: "streams_of w2 ?p = []" using assms(5) by (simp add: session_restored_def)
  let ?w3 = "w2\<lparr>w_channels := (w_channels w2)(?ch := None), w_conns := (w_conns w2)(?p := None), w_closed := w_closed w2\<rparr>"
  have "grpc_channel_destroy (Some ?ch) w2 = Inr ((), ?w3)"
    using grpc_channel_destroy_idle [OF assms(4)] chan_inv_no_calls [OF assms(4)] w2(10) s2 by simp
  moreover have "alloc_ok (w_alloc w) \<longrightarrow> alloc_ok (w_alloc w2)"
    using assms(2,3,5) by (simp add: session_restored_def calls_frame_def chan_added_def)
  then have r: "world_restored w ?w3" using w2 f assms(2) by (simp add: world_restored_def chan_added_def)
  moreover have "client_ready ?w3" using w2(6) by (intro client_ready_restored [OF assms(1) r]) simp
  ultimately show ?thesis using r that by blast
qed

text \<open>With working memory: a channel around whatever restores the heaps, and a channel or a queue
  alone, made and destroyed.\<close>

lemma channel_around:
  assumes "client_ready w" and "alloc_ok (w_alloc w)"
  obtains ch p w1 where "grpc_channel_create (Some t) creds args w = Inr (Some ch, w1)" "chan_inv ch p w1"
    "alloc_ok (w_alloc w1)"
    "\<forall>v. chan_inv ch p v \<longrightarrow> session_restored p w1 v \<longrightarrow>
      (\<exists>w2. grpc_channel_destroy (Some ch) v = Inr ((), w2) \<and> world_restored w w2 \<and> client_ready w2)"
proof -
  from assms(1) have fr: "world_fresh w" "calls_below w" by (simp_all add: client_ready_def)
  from fr(1) show ?thesis
  proof (cases rule: grpc_channel_create_run [where t = t and creds = creds and args = args])
    case (failed os n)
    with assms(2) show ?thesis by simp
  next
    case (created os)
    let ?w1 = "chan_added t creds args os w"
    have os: "alloc_ok (w_alloc w) \<longrightarrow> alloc_ok os" using created(2) by blast
    have "\<exists>w2. grpc_channel_destroy (Some (w_brk w)) v = Inr ((), w2) \<and> world_restored w w2 \<and> client_ready w2"
      if v: "chan_inv (w_brk w) (w_brk w + 1) v" "session_restored (w_brk w + 1) ?w1 v" for v
      using channel_session_restores [OF assms(1) refl os v] by blast
    moreover have "alloc_ok (w_alloc ?w1)" using os assms(2) by (simp add: chan_added_def)
    ultimately show ?thesis using that [OF created(1) chan_inv_added(1) [OF fr]] by blast
  qed
qed

lemma channel_life:
  assumes "client_ready w" and "alloc_ok (w_alloc w)"
  obtains ch w1 w2 where "grpc_channel_create (Some t) creds args w = Inr (Some ch, w1)"
    "grpc_channel_destroy (Some ch) w1 = Inr ((), w2)" "world_restored w w2" "client_ready w2"
proof -
  from assms obtain ch p w1 where w1: "grpc_channel_create (Some t) creds args w = Inr (Some ch, w1)" "chan_inv ch p w1"
    "alloc_ok (w_alloc w1)"
    "\<forall>v. chan_inv ch p v \<longrightarrow> session_restored p w1 v \<longrightarrow>
      (\<exists>w2. grpc_channel_destroy (Some ch) v = Inr ((), w2) \<and> world_restored w w2 \<and> client_ready w2)"
    by (rule channel_around)
  have "session_restored p w1 w1" by (simp add: session_restored_def calls_frame_def)
  with w1(1,2,4) that show ?thesis by blast
qed

lemma queue_life:
  assumes "client_ready w" and "alloc_ok (w_alloc w)"
  obtains a w1 w2 w3 where "cq_create_cmd ty w = Inr (Some a, w1)" "cq_shutdown_cmd (Some a) w1 = Inr ((), w2)"
    "cq_destroy_cmd (Some a) w2 = Inr ((), w3)" "world_restored w w3" "client_ready w3"
proof -
  let ?a = "w_brk w" and ?q = "cq_fresh\<lparr>cq_type := ty\<rparr>"
  let ?w1 = "w\<lparr>w_alloc := snd (alloc_next (w_alloc w)), w_brk := w_brk w + 1, w_cqs := (w_cqs w)(?a \<mapsto> ?q)\<rparr>"
  let ?w2 = "?w1\<lparr>w_cqs := (w_cqs ?w1)(?a \<mapsto> ?q\<lparr>cq_shutdown := True, cq_cond := True, cq_mutex := False\<rparr>)\<rparr>"
  let ?w3 = "?w2\<lparr>w_cqs := (w_cqs ?w2)(?a := None)\<rparr>"
  have ok: "fst (alloc_next (w_alloc w))" "alloc_ok (snd (alloc_next (w_alloc w)))"
    using assms(2) by (cases "w_alloc w"; simp)+
  have q: "w_cqs ?w1 ?a = Some ?q" by simp
  have "cq_inv (?q\<lparr>cq_shutdown := True, cq_cond := True, cq_mutex := False\<rparr>)"
    using cq_inv_fresh_type [of ty] by (simp add: cq_inv_def)
  then have d: "cq_destroy_cmd (Some ?a) ?w2 = Inr ((), ?w3)" by (intro cq_destroy_cmd_eq) simp_all
  have "(w_cqs w)(?a := None) = w_cqs w"
    using assms(1) by (auto simp: client_ready_def world_fresh_def fun_eq_iff)
  with ok(2) have r: "world_restored w ?w3" by (simp add: world_restored_def)
  have "client_ready ?w3" by (rule client_ready_restored [OF assms(1) r]) simp
  with ok(1) cq_shutdown_cmd_eq [OF q cq_inv_fresh_type] d r that show ?thesis by (simp add: cq_create_cmd_eq)
qed

context call_factory
begin

text \<open>The four ways such a program can go, with the state after each operation.\<close>

lemma client_cases:
  assumes "client_ready w"
  obtains (no_channel) w1 where "grpc_insecure_channel_create (Some t) args w = Inr (None, w1)"
      "world_restored w w1" "client_ready w1" "\<not> alloc_ok (w_alloc w)"
  | (no_queue) ch w1 w2 w3 where "grpc_insecure_channel_create (Some t) args w = Inr (Some ch, w1)"
      "cq_create_cmd ty w1 = Inr (None, w2)" "grpc_channel_destroy (Some ch) w2 = Inr ((), w3)"
      "world_restored w w3" "client_ready w3" "\<not> alloc_ok (w_alloc w)"
  | (no_call) ch w1 a w2 w3 w4 w5 where "grpc_insecure_channel_create (Some t) args w = Inr (Some ch, w1)"
      "cq_create_cmd ty w1 = Inr (Some a, w2)" "create (Some ch) (Some a) d w2 = Inr (None, w3)"
      "cq_destroy_cmd (Some a) w3 = Inr ((), w4)" "grpc_channel_destroy (Some ch) w4 = Inr ((), w5)"
      "world_restored w w5" "client_ready w5" "\<not> alloc_ok (w_alloc w)"
  | (finished) ch w1 a w2 cl w3 w4 w5 w6 w7 where "grpc_insecure_channel_create (Some t) args w = Inr (Some ch, w1)"
      "cq_create_cmd ty w1 = Inr (Some a, w2)" "create (Some ch) (Some a) d w2 = Inr (Some cl, w3)"
      "grpc_call_destroy (Some cl) w3 = Inr ((), w4)" "cq_shutdown_cmd (Some a) w4 = Inr ((), w5)"
      "cq_destroy_cmd (Some a) w5 = Inr ((), w6)" "cq_destroy_cmd (Some a) w4 = Inr ((), w6)"
      "grpc_channel_destroy (Some ch) w6 = Inr ((), w7)" "world_restored w w7" "client_ready w7"
proof -
  from assms have fr: "world_fresh w" "calls_below w" by (simp_all add: client_ready_def)
  from fr(1) show ?thesis
  proof (cases rule: grpc_channel_create_run [where t = t and creds = None and args = args])
    case (failed os n)
    have r: "world_restored w (w\<lparr>w_alloc := os, w_brk := w_brk w + n\<rparr>)"
      using failed by (simp add: world_restored_def)
    show ?thesis
      using no_channel [OF _ r client_ready_restored [OF assms r]] failed
      by (simp add: grpc_insecure_channel_create_def)
  next
    case (created os)
    let ?w1 = "chan_added t None args os w"
    note ch = created(1) [folded grpc_insecure_channel_create_def]
    note inv = chan_inv_added(1) [OF fr, of t None args os]
    have os: "alloc_ok (w_alloc w) \<longrightarrow> alloc_ok os" using created(2) by blast
    have al: "\<not> alloc_ok (w_alloc ?w1) \<Longrightarrow> \<not> alloc_ok (w_alloc w)" using created(2) by (auto simp: chan_added_def)
    from inv show ?thesis
    proof (cases rule: session_cases [where ty = ty and d = d])
      case (no_queue os')
      let ?w2 = "?w1\<lparr>w_alloc := os'\<rparr>"
      have "session_restored (w_brk w + 1) ?w1 ?w2"
        using no_queue(2) by (simp add: session_restored_def calls_frame_other)
      with assms refl os chan_inv_alloc [OF inv] obtain w3 where
        "grpc_channel_destroy (Some (w_brk w)) ?w2 = Inr ((), w3)" "world_restored w w3" "client_ready w3"
        by (rule channel_session_restores)
      with ch no_queue al show ?thesis by (blast intro: that(2))
    next
      case (no_call a w2 w3 w4)
      from assms refl os no_call(4,5) obtain w5 where
        "grpc_channel_destroy (Some (w_brk w)) w4 = Inr ((), w5)" "world_restored w w5" "client_ready w5"
        by (rule channel_session_restores)
      with ch no_call al show ?thesis by (blast intro: that(3))
    next
      case (finished a w2 cl w3 w4 w5 w6)
      from assms refl os finished(7,8) obtain w7 where
        "grpc_channel_destroy (Some (w_brk w)) w6 = Inr ((), w7)" "world_restored w w7" "client_ready w7"
        by (rule channel_session_restores)
      with ch finished show ?thesis by (blast intro: that(4))
    qed
  qed
qed

end

section \<open>The programs end properly\<close>

text \<open>What the echo client prints when everything works.\<close>

definition echo_transcript :: "string \<Rightarrow> string \<Rightarrow> string" where
  "echo_transcript server_address message = text_lines
     [''Echo Client connecting to '' @ server_address, ''Message: '' @ message, [],
      ''Channel created successfully'', ''Call created successfully'',
      ''Call completed (simplified implementation)'', ''Client finished'']"

lemma echo_client_run:
  assumes "client_ready (pr_state P)" and "\<not> g_init_mutex (pr_globals P)"
  shows "\<exists>r P'. echo_client_main clock argv P = Inr (r, P') \<and> world_restored (pr_state P) (pr_state P') \<and>
    client_ready (pr_state P') \<and> lib_down P' \<and>
    (r = 0 \<and> pr_err P' = pr_err P \<and> pr_out P' = pr_out P @ echo_transcript
       (arg_or argv 1 ''localhost:50051'') (arg_or argv 2 ''Hello, gRPC!'') \<or>
     r = 1 \<and> \<not> alloc_ok (w_alloc (pr_state P)))"
  using assms(1)
proof (cases rule: unary.client_cases [where t = "arg_or argv 1 ''localhost:50051''" and args = None and ty = GRPC_CQ_NEXT
      and m = "''/echo.Echo/SayHello''" and d = "grpc_timeout_milliseconds_to_deadline clock 5000"])
qed (use assms(2) in \<open>simp_all add: echo_client_main_def Let_def lib_down_def echo_transcript_def\<close>)

lemma example_server_streaming_run:
  assumes "client_ready (pr_state P)" and "\<not> g_init_mutex (pr_globals P)"
  shows "\<exists>P'. example_server_streaming clock P = Inr ((), P') \<and> world_restored (pr_state P) (pr_state P') \<and>
    client_ready (pr_state P') \<and> lib_down P'"
  using assms(1)
proof (cases rule: server_streaming.client_cases [where t = "''localhost:50051''" and args = None and ty = GRPC_CQ_NEXT
      and m = "''/example.Service/ServerStream''" and d = "grpc_timeout_milliseconds_to_deadline clock 30000"])
qed (use assms(2) in \<open>simp_all add: example_server_streaming_def Let_def lib_down_def\<close>)

lemma example_client_streaming_run:
  assumes "client_ready (pr_state P)" and "\<not> g_init_mutex (pr_globals P)"
  shows "\<exists>P'. example_client_streaming clock P = Inr ((), P') \<and> world_restored (pr_state P) (pr_state P') \<and>
    client_ready (pr_state P') \<and> lib_down P'"
  using assms(1)
proof (cases rule: client_streaming.client_cases [where t = "''localhost:50051''" and args = None and ty = GRPC_CQ_NEXT
      and m = "''/example.Service/ClientStream''" and d = "grpc_timeout_milliseconds_to_deadline clock 30000"])
qed (use assms(2) in \<open>simp_all add: example_client_streaming_def Let_def lib_down_def\<close>)

lemma example_bidirectional_streaming_run:
  assumes "client_ready (pr_state P)" and "\<not> g_init_mutex (pr_globals P)"
  shows "\<exists>P'. example_bidirectional_streaming clock P = Inr ((), P') \<and> world_restored (pr_state P) (pr_state P') \<and>
    client_ready (pr_state P') \<and> lib_down P'"
  using assms(1)
proof (cases rule: bidi_streaming.client_cases [where t = "''localhost:50051''" and args = None and ty = GRPC_CQ_NEXT
      and m = "''/example.Service/BidiStream''" and d = "grpc_timeout_milliseconds_to_deadline clock 30000"])
qed (use assms(2) in \<open>simp_all add: example_bidirectional_streaming_def Let_def lib_down_def\<close>)

lemma example_backpressure_run: "\<exists>out. example_backpressure P = Inr ((), P\<lparr>pr_out := out\<rparr>)"
  by (simp add: example_backpressure_def) blast

lemma streaming_example_main_run:
  assumes "client_ready (pr_state P)" and "\<not> g_init_mutex (pr_globals P)"
  shows "\<exists>P'. streaming_example_main clock1 clock2 clock3 P = Inr (0, P') \<and>
    world_restored (pr_state P) (pr_state P') \<and> lib_down P'"
proof -
  define P0 where "P0 = P\<lparr>pr_out := pr_out P @ text_lines [''========================================'',
    ''   gRPC-C Streaming RPC Examples'', ''========================================'']\<rparr>"
  from assms have "client_ready (pr_state P0)" "\<not> g_init_mutex (pr_globals P0)" by (simp_all add: P0_def)
  from example_server_streaming_run [OF this, of clock1] obtain P1 where P1: "example_server_streaming clock1 P0 = Inr ((), P1)"
    "world_restored (pr_state P0) (pr_state P1)" "client_ready (pr_state P1)" "lib_down P1" by blast
  from example_client_streaming_run [OF P1(3), of clock2] P1(4) obtain P2 where P2: "example_client_streaming clock2 P1 = Inr ((), P2)"
    "world_restored (pr_state P1) (pr_state P2)" "client_ready (pr_state P2)" "lib_down P2" by (auto simp: lib_down_def)
  from example_bidirectional_streaming_run [OF P2(3), of clock3] P2(4) obtain P3 where P3: "example_bidirectional_streaming clock3 P2 = Inr ((), P3)"
    "world_restored (pr_state P2) (pr_state P3)" "lib_down P3" by (auto simp: lib_down_def)
  obtain out where P4: "example_backpressure P3 = Inr ((), P3\<lparr>pr_out := out\<rparr>)"
    using example_backpressure_run [of P3] by blast
  have "\<exists>out. streaming_example_main clock1 clock2 clock3 P = Inr (0, P3\<lparr>pr_out := out\<rparr>)"
    using P1(1) P2(1) P3(1) P4 by (simp add: streaming_example_main_def pbnd_run P0_def) blast
  moreover have "world_restored (pr_state P) (pr_state P3)"
    using P1(2) P2(2) P3(2) by (auto simp: P0_def intro: world_restored_trans)
  ultimately show ?thesis using P3(3) by (auto simp: lib_down_def)
qed

section \<open>Properties\<close>

text \<open>
  C21. The echo client, whatever its arguments and whichever allocations fail, never faults or
  blocks and ends with every channel, connection, stream, call and queue it made freed and the
  library shut down. With working memory it prints its transcript and returns 0, otherwise it may
  return 1. In both cases it has not exchanged a single byte with the server.
\<close>

theorem echo_client_main_restores:
  assumes "client_ready (pr_state P)" and "\<not> g_init_mutex (pr_globals P)"
  shows "\<exists>r P'. echo_client_main clock argv P = Inr (r, P') \<and> world_restored (pr_state P) (pr_state P') \<and> lib_down P' \<and>
    (r = 0 \<and> pr_err P' = pr_err P \<and> pr_out P' = pr_out P @ echo_transcript
       (arg_or argv 1 ''localhost:50051'') (arg_or argv 2 ''Hello, gRPC!'') \<or>
     r = 1 \<and> \<not> alloc_ok (w_alloc (pr_state P)))"
  using echo_client_run [OF assms] by blast

lemma proc_start_ready: "client_ready (pr_state (proc_start world_empty))"
  "\<not> g_init_mutex (pr_globals (proc_start s))" "alloc_ok (w_alloc (pr_state (proc_start world_empty)))"
  "pr_out (proc_start s) = []"
  by (simp_all add: proc_start_def client_ready_def world_empty_def world_fresh_def calls_below_def)

theorem echo_client_main_restores_witness:
  "\<exists>P'. echo_client_main \<lparr>timeval_sec = 0, timeval_usec = 0\<rparr> [''echo_client'', ''10.0.0.1:80''] (proc_start world_empty) = Inr (0, P') \<and>
     pr_out P' = echo_transcript ''10.0.0.1:80'' ''Hello, gRPC!'' \<and> w_calls (pr_state P') = (\<lambda>_. None)"
proof -
  have a: "arg_or [''echo_client'', ''10.0.0.1:80''] 1 ''localhost:50051'' = ''10.0.0.1:80''"
    "arg_or [''echo_client'', ''10.0.0.1:80''] 2 ''Hello, gRPC!'' = ''Hello, gRPC!''"
    by (simp_all add: arg_or_def)
  have c: "w_calls (pr_state (proc_start world_empty)) = (\<lambda>_. None)" by (simp add: proc_start_def world_empty_def)
  show ?thesis
    using echo_client_main_restores [OF proc_start_ready(1,2), of "\<lparr>timeval_sec = 0, timeval_usec = 0\<rparr>"
        "[''echo_client'', ''10.0.0.1:80'']"] proc_start_ready(3)
    unfolding a world_restored_def c proc_start_ready(4) by auto
qed

text \<open>
  The streaming program runs its three sessions one after the other and returns 0 for every
  pattern of allocation failures; all their objects are freed, nothing was sent or received, and
  the library is shut down.
\<close>

theorem streaming_example_main_restores:
  assumes "client_ready (pr_state P)" and "\<not> g_init_mutex (pr_globals P)"
  shows "\<exists>P'. streaming_example_main clock1 clock2 clock3 P = Inr (0, P') \<and>
    world_restored (pr_state P) (pr_state P') \<and> lib_down P'"
  using streaming_example_main_run [OF assms] .

theorem streaming_example_main_restores_witness:
  "\<exists>P'. streaming_example_main \<lparr>timeval_sec = 0, timeval_usec = 0\<rparr> \<lparr>timeval_sec = 1, timeval_usec = 0\<rparr>
      \<lparr>timeval_sec = 2, timeval_usec = 0\<rparr> (proc_start world_empty) = Inr (0, P') \<and> lib_down P'"
  using streaming_example_main_restores [OF proc_start_ready(1,2)] by blast

end
