(* ===== verification/Server.thy ===== *)
theory Server
  imports Core Completion_Queue Arrays C_Lib "HOL-Library.Multiset"
begin

text \<open>
  The server of \<^verbatim>\<open>src/grpc_server.c\<close>: its listening ports and completion queues in growable
  arrays, the started and shutdown flags, and the worker threads. What the operating system
  answers is an argument: the results of \<open>socket\<close>, \<open>bind\<close> and \<open>listen\<close> in \<open>sys\<close>, of
  \<open>inet_pton\<close> and \<open>pthread_create\<close> as functions, and of \<open>select\<close> and \<open>accept\<close>, in which a worker may
  block, as lists. Each operation returns the descriptors it closed.
\<close>

section \<open>Data\<close>

definition GRPC_DEFAULT_WORKER_THREADS :: nat where "GRPC_DEFAULT_WORKER_THREADS = 4"

record sockaddr_in =
  sin_addr :: uint32
  sin_port :: nat

definition INADDR_ANY :: uint32 where "INADDR_ANY = 0"

record server_port =
  port_socket_fd :: int
  port_addr :: sockaddr_in
  port_creds :: "nat option"

text \<open>\<open>srv_worker_threads\<close>: \<open>None\<close> is a \<open>NULL\<close> array; a handle is \<open>True\<close> when it belongs to a
  thread and \<open>False\<close> as \<open>calloc\<close> left it.\<close>

record grpc_server =
  srv_args :: "nat option"
  srv_ports :: "server_port arr"
  srv_cqs :: "nat arr"
  srv_started :: bool
  srv_shutdown_called :: bool
  srv_worker_threads :: "bool list option"
  srv_worker_count :: nat
  srv_mutex :: mutex

record sys =
  sys_socket :: int
  sys_bind :: int
  sys_listen :: int

section \<open>Operations\<close>

definition grpc_server_create :: "nat option \<Rightarrow> alloc \<Rightarrow> grpc_server option \<times> alloc" where
  "grpc_server_create args os =
     (let (ok1, os1) = alloc_next os
      in if \<not> ok1 then (None, os1)
         else
           (let (ok2, os2) = alloc_next os1
            in if \<not> ok2 then (None, os2)
               else
                 (let (ok3, os3) = alloc_next os2
                  in if \<not> ok3 then (None, os3)
                     else (Some \<lparr>srv_args = args, srv_ports = arr_calloc 4, srv_cqs = arr_calloc 4,
                        srv_started = False, srv_shutdown_called = False, srv_worker_threads = None,
                        srv_worker_count = 0, srv_mutex = False\<rparr>, os3))))"

text \<open>The host and port an address asks for; without a colon the port is 50051.\<close>

definition parse_address :: "string \<Rightarrow> string \<times> int" where
  "parse_address addr =
     (case split_at_char (CHR '':'') addr of
        None \<Rightarrow> (addr, 50051)
      | Some (host, rest) \<Rightarrow> (host, atoi rest))"

text \<open>The address that is bound: zeroed first, so a host \<open>inet_pton\<close> cannot read leaves it zero.\<close>

definition bind_address :: "(string \<Rightarrow> uint32 option) \<Rightarrow> string \<Rightarrow> int \<Rightarrow> sockaddr_in" where
  "bind_address inet_pton host port =
     \<lparr>sin_addr = (if host = ''0.0.0.0'' \<or> host = ''[::]'' then INADDR_ANY
                  else (case inet_pton host of None \<Rightarrow> 0 | Some a \<Rightarrow> a)),
      sin_port = to_uint16 port\<rparr>"

definition server_add_port ::
    "grpc_server \<Rightarrow> server_port \<Rightarrow> alloc \<Rightarrow> (bool \<times> grpc_server \<times> alloc) exec" where
  "server_add_port s p os =
     exec_bind (arr_grow (srv_ports s) (arr_capacity (srv_ports s) * 2) os) (\<lambda>(grown, a, os1).
       if \<not> grown then Inr (False, s, os1)
       else exec_bind (arr_put a p) (\<lambda>a'. Inr (True, s\<lparr>srv_ports := a'\<rparr>, os1)))"

definition grpc_server_add_insecure_http2_port ::
    "(string \<Rightarrow> uint32 option) \<Rightarrow> sys \<Rightarrow> grpc_server option \<Rightarrow> string option \<Rightarrow> alloc \<Rightarrow>
     (int \<times> grpc_server option \<times> int list \<times> alloc) exec" where
  "grpc_server_add_insecure_http2_port inet_pton sys server addr os =
     (case (server, addr) of
        (Some s, Some ad) \<Rightarrow>
          exec_bind (mutex_lock (srv_mutex s)) (\<lambda>m.
            if srv_started s then Inr (0, Some (s\<lparr>srv_mutex := mutex_unlock m\<rparr>), [], os)
            else
              (let (ok, os1) = alloc_next os
               in if \<not> ok then Inl Null_Deref
                  else
                    (let (host, port) = parse_address ad;
                         fd = sys_socket sys
                     in if fd < 0 then Inr (0, Some (s\<lparr>srv_mutex := mutex_unlock m\<rparr>), [], os1)
                        else if sys_bind sys < 0 then Inr (0, Some (s\<lparr>srv_mutex := mutex_unlock m\<rparr>), [fd], os1)
                        else if sys_listen sys < 0 then Inr (0, Some (s\<lparr>srv_mutex := mutex_unlock m\<rparr>), [fd], os1)
                        else
                          exec_bind (server_add_port s \<lparr>port_socket_fd = fd,
                              port_addr = bind_address inet_pton host port, port_creds = None\<rparr> os1) (\<lambda>(added, s', os2).
                            if \<not> added then Inr (0, Some (s'\<lparr>srv_mutex := mutex_unlock m\<rparr>), [fd], os2)
                            else Inr (port, Some (s'\<lparr>srv_mutex := mutex_unlock m\<rparr>), [], os2)))))
      | _ \<Rightarrow> Inr (0, server, [], os))"

definition grpc_server_add_secure_http2_port ::
    "(string \<Rightarrow> uint32 option) \<Rightarrow> sys \<Rightarrow> grpc_server option \<Rightarrow> string option \<Rightarrow> nat option \<Rightarrow> alloc \<Rightarrow>
     (int \<times> grpc_server option \<times> int list \<times> alloc) exec" where
  "grpc_server_add_secure_http2_port inet_pton sys server addr creds os =
     grpc_server_add_insecure_http2_port inet_pton sys server addr os"

definition grpc_server_register_completion_queue ::
    "grpc_server option \<Rightarrow> nat option \<Rightarrow> alloc \<Rightarrow> (grpc_server option \<times> alloc) exec" where
  "grpc_server_register_completion_queue server cq os =
     (case (server, cq) of
        (Some s, Some q) \<Rightarrow>
          exec_bind (mutex_lock (srv_mutex s)) (\<lambda>m.
            exec_bind (arr_grow (srv_cqs s) (arr_capacity (srv_cqs s) * 2) os) (\<lambda>(grown, a, os1).
              if \<not> grown then Inr (Some (s\<lparr>srv_mutex := mutex_unlock m\<rparr>), os1)
              else exec_bind (arr_put a q) (\<lambda>a'.
                Inr (Some (s\<lparr>srv_cqs := a', srv_mutex := mutex_unlock m\<rparr>), os1))))
      | _ \<Rightarrow> Inr (server, os))"

text \<open>
  What a worker meets at one port: \<open>select\<close> reports nothing, or it reports a client and \<open>accept\<close>
  returns (a descriptor, negative on failure), or it reports a client that is gone when the worker
  calls \<open>accept\<close>: another worker took it, the socket is blocking, and the call does not return.
\<close>

datatype poll = No_Client | Accepts int | Accept_Blocks

text \<open>The descriptors the worker closes at the next port; \<open>None\<close>: it never gets past it.\<close>

fun polled :: "poll list \<Rightarrow> int list option" where
  "polled (Accepts fd # polls) = Some (if fd \<ge> 0 then [fd] else [])"
| "polled (Accept_Blocks # polls) = None"
| "polled polls = Some []"

text \<open>One pass of a worker over the ports; accepted connections are closed at once.\<close>

fun worker_round :: "server_port block \<Rightarrow> nat \<Rightarrow> nat \<Rightarrow> poll list \<Rightarrow> int list exec option" where
  "worker_round ports i 0 polls = Some (Inr [])"
| "worker_round ports i (Suc n) polls =
     (case block_load ports i of
        Inl e \<Rightarrow> Some (Inl e)
      | Inr p \<Rightarrow>
          (case polled polls of
             None \<Rightarrow> None
           | Some fds \<Rightarrow> map_option (map_sum id ((@) fds)) (worker_round ports (i + 1) n (tl polls))))"

text \<open>A worker: the server as it finds it at the start of each round it made, with what it met in
  that round, and the server at its last look at the flag. It ends at the first look that sees the
  flag set. \<open>None\<close>: it is still running, or blocked.\<close>

fun server_worker_thread :: "(grpc_server \<times> poll list) list \<Rightarrow> grpc_server \<Rightarrow> int list exec option" where
  "server_worker_thread [] s' = (if srv_shutdown_called s' then Some (Inr []) else None)"
| "server_worker_thread ((s, polls) # views) s' =
     (if srv_shutdown_called s then Some (Inr [])
      else
        (case worker_round (arr_block (srv_ports s)) 0 (arr_count (srv_ports s)) polls of
           None \<Rightarrow> None
         | Some (Inl e) \<Rightarrow> Some (Inl e)
         | Some (Inr closed) \<Rightarrow> map_option (map_sum id (\<lambda>cs. closed @ cs)) (server_worker_thread views s')))"

text \<open>\<open>created\<close>: which calls of \<open>pthread_create\<close> succeed. The array is not checked.\<close>

definition grpc_server_start ::
    "(nat \<Rightarrow> bool) \<Rightarrow> grpc_server option \<Rightarrow> alloc \<Rightarrow> (grpc_server option \<times> alloc) exec" where
  "grpc_server_start created server os =
     (case server of
        None \<Rightarrow> Inr (None, os)
      | Some s \<Rightarrow>
          exec_bind (mutex_lock (srv_mutex s)) (\<lambda>m.
            if srv_started s then Inr (Some (s\<lparr>srv_mutex := mutex_unlock m\<rparr>), os)
            else
              (let (ok, os1) = alloc_next os
               in if \<not> ok then Inl Null_Deref
                  else Inr (Some (s\<lparr>srv_started := True,
                         srv_worker_threads := Some (map created [0..<GRPC_DEFAULT_WORKER_THREADS]),
                         srv_worker_count := GRPC_DEFAULT_WORKER_THREADS,
                         srv_mutex := mutex_unlock m\<rparr>), os1))))"

definition grpc_server_request_call ::
    "grpc_server option \<Rightarrow> nat option \<Rightarrow> nat option \<Rightarrow> nat option \<Rightarrow> nat option \<Rightarrow> grpc_call_error" where
  "grpc_server_request_call server call details cq tag =
     (if server = None \<or> call = None \<or> cq = None then GRPC_CALL_ERROR else GRPC_CALL_OK)"

text \<open>
  Where a worker is when it is joined: in a round, at the port \<open>wk_port\<close>, with what it will meet
  from there to the end of the round. After the round it looks at the flag of the server, which
  does not change any more: the only thread that writes it is the one that waits here. A worker
  that is still running then is never joined.
\<close>

record worker =
  wk_port :: nat
  wk_polls :: "poll list"

definition join_worker :: "grpc_server \<Rightarrow> worker \<Rightarrow> unit exec" where
  "join_worker s w =
     (case worker_round (arr_block (srv_ports s)) (wk_port w) (arr_count (srv_ports s) - wk_port w) (wk_polls w) of
        None \<Rightarrow> Inl Deadlock
      | Some (Inl e) \<Rightarrow> Inl e
      | Some (Inr _) \<Rightarrow>
          (case server_worker_thread [] s of
             None \<Rightarrow> Inl Deadlock
           | Some (Inl e) \<Rightarrow> Inl e
           | Some (Inr _) \<Rightarrow> Inr ()))"

text \<open>Joining all workers; a handle that belongs to no thread is a zero pointer.\<close>

fun join_workers :: "grpc_server \<Rightarrow> (nat \<Rightarrow> worker) \<Rightarrow> bool list \<Rightarrow> nat \<Rightarrow> nat \<Rightarrow> unit exec" where
  "join_workers s workers ts i 0 = Inr ()"
| "join_workers s workers ts i (Suc n) =
     (if i \<ge> length ts then Inl Out_Of_Bounds
      else if \<not> ts ! i then Inl Null_Deref
      else exec_bind (join_worker s (workers i)) (\<lambda>_. join_workers s workers ts (i + 1) n))"

definition grpc_server_shutdown_and_notify ::
    "(nat \<Rightarrow> worker) \<Rightarrow> grpc_server option \<Rightarrow> grpc_completion_queue option \<Rightarrow> nat option \<Rightarrow> alloc \<Rightarrow>
     (grpc_server option \<times> grpc_completion_queue option \<times> alloc) exec" where
  "grpc_server_shutdown_and_notify workers server cq tag os =
     (case server of
        None \<Rightarrow> Inr (None, cq, os)
      | Some s \<Rightarrow>
          exec_bind (mutex_lock (srv_mutex s)) (\<lambda>m.
            let s1 = s\<lparr>srv_shutdown_called := True, srv_mutex := mutex_unlock m\<rparr>
            in exec_bind
                 (case srv_worker_threads s1 of
                    None \<Rightarrow> Inr s1
                  | Some ts \<Rightarrow> exec_bind (join_workers s1 workers ts 0 (srv_worker_count s1)) (\<lambda>_.
                                Inr (s1\<lparr>srv_worker_threads := None\<rparr>)))
                 (\<lambda>s2.
                   if cq \<noteq> None \<and> tag \<noteq> None
                   then exec_bind (completion_queue_push_event cq
                          \<lparr>ev_type = 1, ev_success = True, ev_tag = tag\<rparr> os) (\<lambda>(cq', os').
                          Inr (Some s2, cq', os'))
                   else Inr (Some s2, cq, os))))"

text \<open>The loop that closes the listening sockets.\<close>

fun close_ports :: "server_port block \<Rightarrow> nat \<Rightarrow> nat \<Rightarrow> int list exec" where
  "close_ports ports i 0 = Inr []"
| "close_ports ports i (Suc n) =
     exec_bind (block_load ports i) (\<lambda>p.
       exec_bind (close_ports ports (i + 1) n) (\<lambda>closed.
         Inr (case p of
                None \<Rightarrow> closed
              | Some sp \<Rightarrow> if port_socket_fd sp \<ge> 0 then port_socket_fd sp # closed else closed)))"

definition grpc_server_destroy :: "grpc_server option \<Rightarrow> int list exec" where
  "grpc_server_destroy server =
     (case server of
        None \<Rightarrow> Inr []
      | Some s \<Rightarrow>
          exec_bind (mutex_lock (srv_mutex s)) (\<lambda>m.
          exec_bind (close_ports (arr_block (srv_ports s)) 0 (arr_count (srv_ports s))) (\<lambda>closed.
          exec_bind (block_free (arr_block (srv_ports s))) (\<lambda>_.
          exec_bind (block_free (arr_block (srv_cqs s))) (\<lambda>_. Inr closed)))))"

section \<open>Invariant\<close>

definition srv_inv :: "grpc_server \<Rightarrow> bool" where
  "srv_inv s \<longleftrightarrow> \<not> srv_mutex s \<and> arr_wf (srv_ports s) \<and> 0 < arr_capacity (srv_ports s) \<and>
     arr_wf (srv_cqs s) \<and> 0 < arr_capacity (srv_cqs s) \<and>
     (\<forall>p\<in>set (arr_list (srv_ports s)). 0 \<le> port_socket_fd p) \<and>
     (case srv_worker_threads s of None \<Rightarrow> True | Some ts \<Rightarrow> srv_started s \<and> length ts = srv_worker_count s)"

lemma arr_capacity_calloc [simp]: "arr_capacity (arr_calloc n) = n"
  by (simp add: arr_calloc_def)

lemma srv_same [simp]: "\<not> srv_mutex s \<Longrightarrow> s\<lparr>srv_mutex := False\<rparr> = s"
  by (cases s) simp

lemma srv_invD: "srv_inv s \<Longrightarrow> \<not> srv_mutex s"
  by (simp add: srv_inv_def)

text \<open>Appending through the growable array: the new contents or, without memory, no change.\<close>

lemma server_add_port_cases:
  assumes "srv_inv s" and "0 \<le> port_socket_fd p"
  obtains (failed) os' where "server_add_port s p os = Inr (False, s, os')" "\<not> alloc_ok os"
  | (added) a os' where "server_add_port s p os = Inr (True, s\<lparr>srv_ports := a\<rparr>, os')"
      "srv_inv (s\<lparr>srv_ports := a\<rparr>)" "arr_list a = arr_list (srv_ports s) @ [p]" "alloc_ok os \<Longrightarrow> alloc_ok os'"
proof -
  from assms(1) have w: "arr_wf (srv_ports s)" "arr_capacity (srv_ports s) < arr_capacity (srv_ports s) * 2"
    by (simp_all add: srv_inv_def)
  from arr.grow_put [OF w, of os p] show ?thesis
  proof
    assume "\<exists>os'. arr_grow (srv_ports s) (arr_capacity (srv_ports s) * 2) os = Inr (False, srv_ports s, os') \<and> \<not> alloc_ok os"
    with that(1) show ?thesis by (auto simp: server_add_port_def)
  next
    assume "\<exists>s1 os1 s2. arr_grow (srv_ports s) (arr_capacity (srv_ports s) * 2) os = Inr (True, s1, os1) \<and> arr_wf s1 \<and>
      arr_list s1 = arr_list (srv_ports s) \<and> arr_put s1 p = Inr s2 \<and> arr_wf s2 \<and>
      arr_list s2 = arr_list (srv_ports s) @ [p] \<and> (alloc_ok os \<longrightarrow> alloc_ok os1)"
    then obtain a1 os1 a where a: "arr_grow (srv_ports s) (arr_capacity (srv_ports s) * 2) os = Inr (True, a1, os1)"
      "arr_put a1 p = Inr a" "arr_wf a" "arr_list a = arr_list (srv_ports s) @ [p]" "alloc_ok os \<longrightarrow> alloc_ok os1" by blast
    have "0 < arr_capacity a" using arr_capacity_pos [OF a(3)] a(4) by simp
    with a assms have "srv_inv (s\<lparr>srv_ports := a\<rparr>)" by (auto simp: srv_inv_def split: option.splits)
    with a show ?thesis by (intro that(2) [of a os1]) (simp_all add: server_add_port_def)
  qed
qed

section \<open>Adding ports\<close>

lemma add_port_cases:
  assumes "srv_inv s" and "\<not> srv_started s" and "fst (alloc_next os)"
  obtains (failed) closed os' where "grpc_server_add_insecure_http2_port inet_pton sys (Some s) (Some ad) os = Inr (0, Some s, closed, os')"
      "closed = (if sys_socket sys < 0 then [] else [sys_socket sys])"
      "sys_socket sys < 0 \<or> sys_bind sys < 0 \<or> sys_listen sys < 0 \<or> \<not> alloc_ok os"
  | (added) a os' where "grpc_server_add_insecure_http2_port inet_pton sys (Some s) (Some ad) os =
        Inr (snd (parse_address ad), Some (s\<lparr>srv_ports := a\<rparr>), [], os')"
      "0 \<le> sys_socket sys" "0 \<le> sys_bind sys" "0 \<le> sys_listen sys" "srv_inv (s\<lparr>srv_ports := a\<rparr>)"
      "arr_list a = arr_list (srv_ports s) @ [\<lparr>port_socket_fd = sys_socket sys,
         port_addr = bind_address inet_pton (fst (parse_address ad)) (snd (parse_address ad)), port_creds = None\<rparr>]"
      "alloc_ok os \<Longrightarrow> alloc_ok os'"
proof -
  have m: "\<not> srv_mutex s" using assms(1) by (rule srv_invD)
  obtain os1 where os1: "alloc_next os = (True, os1)" using assms(3) by (cases "alloc_next os") auto
  have al: "alloc_ok os \<Longrightarrow> alloc_ok os1" using os1 by (cases os) auto
  obtain host port where hp: "parse_address ad = (host, port)" by force
  let ?p = "\<lparr>port_socket_fd = sys_socket sys, port_addr = bind_address inet_pton host port, port_creds = None\<rparr>"
  show ?thesis
  proof (cases "sys_socket sys < 0 \<or> sys_bind sys < 0 \<or> sys_listen sys < 0")
    case True
    then show ?thesis using m assms(2) os1 hp
      by (intro that(1) [of "if sys_socket sys < 0 then [] else [sys_socket sys]" os1])
        (auto simp: grpc_server_add_insecure_http2_port_def Let_def)
  next
    case False
    then have f: "0 \<le> port_socket_fd ?p" by simp
    from assms(1) f show ?thesis
    proof (cases rule: server_add_port_cases [where os = os1])
      case (failed os')
      with False m assms(2) os1 hp al show ?thesis
        by (intro that(1) [of "[sys_socket sys]" os']) (auto simp: grpc_server_add_insecure_http2_port_def)
    next
      case (added a os')
      have same: "s\<lparr>srv_ports := a, srv_mutex := False\<rparr> = s\<lparr>srv_ports := a\<rparr>" using m by (cases s) simp
      from added False m assms(2) os1 hp al same show ?thesis
        by (intro that(2) [of a os']) (simp_all add: grpc_server_add_insecure_http2_port_def)
    qed
  qed
qed

lemma parse_address_host_port:
  "CHR '':'' \<notin> set host \<Longrightarrow> n < 2 ^ 31 \<Longrightarrow> parse_address (host @ '':'' @ dec n) = (host, int n)"
  by (simp add: parse_address_def atoi_dec)

lemma to_uint16_small [simp]: "n < 65536 \<Longrightarrow> to_uint16 (int n) = n"
  by (simp add: to_uint16_def)

section \<open>Closing\<close>

lemma close_ports_list:
  assumes "arr_wf a" and "\<forall>p\<in>set (arr_list a). 0 \<le> port_socket_fd p"
  shows "i \<le> length (arr_list a) \<Longrightarrow> close_ports (arr_block a) i (length (arr_list a) - i) =
    Inr (map port_socket_fd (drop i (arr_list a)))"
proof (induction "length (arr_list a) - i" arbitrary: i)
  case 0
  then show ?case by simp
next
  case (Suc n)
  then have i: "i < length (arr_list a)" by simp
  then have l: "length (arr_list a) - i = Suc (length (arr_list a) - Suc i)" by simp
  have "0 \<le> port_socket_fd (arr_list a ! i)" using assms(2) i by simp
  with Suc(1) [of "Suc i"] Suc(2) i block_load_list [OF assms(1) i] show ?case
    by (simp only: l) (simp add: Cons_nth_drop_Suc [symmetric])
qed

lemma srv_destroy_ok:
  assumes "srv_inv s"
  shows "grpc_server_destroy (Some s) = Inr (map port_socket_fd (arr_list (srv_ports s)))"
proof -
  from assms have w: "arr_wf (srv_ports s)" "arr_wf (srv_cqs s)" "\<forall>p\<in>set (arr_list (srv_ports s)). 0 \<le> port_socket_fd p"
    "\<not> srv_mutex s" by (simp_all add: srv_inv_def)
  have "block_free (arr_block (srv_ports s)) = Inr ()" "block_free (arr_block (srv_cqs s)) = Inr ()"
    using w(1,2) by (auto simp: arr_wf_def)
  with close_ports_list [OF w(1,3), of 0] length_arr_list [OF w(1)] w(4) show ?thesis
    by (simp add: grpc_server_destroy_def)
qed

section \<open>Workers\<close>

text \<open>On a well-formed array a round never faults: it blocks, or closes the clients it accepted.\<close>

fun client_fds :: "poll list \<Rightarrow> int list" where
  "client_fds [] = []"
| "client_fds (Accepts fd # polls) = (if fd \<ge> 0 then fd # client_fds polls else client_fds polls)"
| "client_fds (_ # polls) = client_fds polls"

lemma worker_round_list:
  assumes "arr_wf a"
  shows "i + n \<le> length (arr_list a) \<Longrightarrow> worker_round (arr_block a) i n polls =
    (if Accept_Blocks \<in> set (take n polls) then None else Some (Inr (client_fds (take n polls))))"
proof (induction n arbitrary: i polls)
  case 0
  then show ?case by simp
next
  case (Suc n)
  then have "i < length (arr_list a)" and IH: "worker_round (arr_block a) (Suc i) n (tl polls) =
      (if Accept_Blocks \<in> set (take n (tl polls)) then None else Some (Inr (client_fds (take n (tl polls)))))" by simp_all
  then show ?case using block_load_list [OF assms]
    by (cases polls rule: polled.cases) auto
qed

definition worker_stuck :: "grpc_server \<Rightarrow> worker \<Rightarrow> bool" where
  "worker_stuck s w \<longleftrightarrow> Accept_Blocks \<in> set (take (arr_count (srv_ports s) - wk_port w) (wk_polls w))"

lemma join_worker_eq:
  assumes "arr_wf (srv_ports s)"
  shows "join_worker s w = (if worker_stuck s w \<or> \<not> srv_shutdown_called s then Inl Deadlock else Inr ())"
proof (cases "wk_port w \<le> arr_count (srv_ports s)")
  case True
  then show ?thesis using worker_round_list [OF assms, of "wk_port w" "arr_count (srv_ports s) - wk_port w"]
    by (simp add: join_worker_def worker_stuck_def length_arr_list [OF assms])
qed (simp add: join_worker_def worker_stuck_def)

text \<open>With the flag set and all threads created, the join returns unless a worker is stuck.\<close>

lemma join_workers_eq:
  assumes "arr_wf (srv_ports s)" and "srv_shutdown_called s" and "\<forall>t\<in>set ts. t"
  shows "i + n \<le> length ts \<Longrightarrow> join_workers s workers ts i n =
    (if \<exists>k. i \<le> k \<and> k < i + n \<and> worker_stuck s (workers k) then Inl Deadlock else Inr ())"
proof (induction n arbitrary: i)
  case 0
  then show ?case by simp
next
  case (Suc n)
  then have "ts ! i" using assms(3) nth_mem [of i ts] by auto
  moreover have "(\<exists>k. i \<le> k \<and> k < i + Suc n \<and> worker_stuck s (workers k)) \<longleftrightarrow>
      worker_stuck s (workers i) \<or> (\<exists>k. Suc i \<le> k \<and> k < Suc i + n \<and> worker_stuck s (workers k))"
    by (metis Suc_leD Suc_leI add_Suc_right add_Suc le_eq_less_or_eq less_add_Suc1 not_less_eq)
  ultimately show ?case using Suc join_worker_eq [OF assms(1), of "workers i"] assms(2)
    by (auto simp del: Suc_le_eq)
qed

section \<open>Reachable servers\<close>

text \<open>
  The life of a server up to its destruction, with the listening sockets that are open: each
  operation may be given any arguments and any answers of the system, as long as it returns.
\<close>

definition sockets_opened :: "grpc_server \<Rightarrow> sys \<Rightarrow> int multiset" where
  "sockets_opened s sys = (if srv_started s \<or> sys_socket sys < 0 then {#} else {#sys_socket sys#})"

inductive srv_reach :: "grpc_server \<Rightarrow> int multiset \<Rightarrow> bool" where
  create: "grpc_server_create args os = (Some s, os') \<Longrightarrow> srv_reach s {#}"
| add_port: "srv_reach s M \<Longrightarrow>
    grpc_server_add_insecure_http2_port inet_pton sys (Some s) (Some ad) os = Inr (r, Some s', closed, os') \<Longrightarrow>
    srv_reach s' (M + sockets_opened s sys - mset closed)"
| register_queue: "srv_reach s M \<Longrightarrow> grpc_server_register_completion_queue (Some s) cq os = Inr (Some s', os') \<Longrightarrow> srv_reach s' M"
| start: "srv_reach s M \<Longrightarrow> grpc_server_start created (Some s) os = Inr (Some s', os') \<Longrightarrow> srv_reach s' M"
| shutdown: "srv_reach s M \<Longrightarrow> grpc_server_shutdown_and_notify workers (Some s) cq tag os = Inr (Some s', cq', os') \<Longrightarrow> srv_reach s' M"

inductive_cases srv_reachE: "srv_reach s M"

lemma add_port_inv:
  assumes "srv_inv s" and "grpc_server_add_insecure_http2_port inet_pton sys (Some s) (Some ad) os = Inr (r, Some s', closed, os')"
  shows "srv_inv s' \<and> mset (map port_socket_fd (arr_list (srv_ports s'))) + mset closed =
    mset (map port_socket_fd (arr_list (srv_ports s))) + sockets_opened s sys"
proof (cases "srv_started s")
  case True
  with assms srv_invD [OF assms(1)] show ?thesis
    by (auto simp: grpc_server_add_insecure_http2_port_def sockets_opened_def)
next
  case False
  have "fst (alloc_next os)"
    using assms(2) False srv_invD [OF assms(1)]
    by (cases "alloc_next os") (auto simp: grpc_server_add_insecure_http2_port_def split: if_splits)
  from assms(1) False this show ?thesis
  proof (cases rule: add_port_cases [where inet_pton = inet_pton and sys = sys and ad = ad])
    case (failed closed' os1)
    with assms False show ?thesis by (auto simp: sockets_opened_def)
  next
    case (added a os1)
    with assms(2) False show ?thesis by (auto simp: sockets_opened_def)
  qed
qed

lemma register_inv:
  assumes "srv_inv s"
  shows "\<exists>s' os'. grpc_server_register_completion_queue (Some s) (Some q) os = Inr (Some s', os') \<and> srv_inv s' \<and>
    srv_ports s' = srv_ports s \<and> srv_started s' = srv_started s \<and>
    (alloc_ok os \<longrightarrow> alloc_ok os' \<and> arr_list (srv_cqs s') = arr_list (srv_cqs s) @ [q])"
proof -
  have m: "\<not> srv_mutex s" using assms by (rule srv_invD)
  from assms have w: "arr_wf (srv_cqs s)" "arr_capacity (srv_cqs s) < arr_capacity (srv_cqs s) * 2"
    by (simp_all add: srv_inv_def)
  from arr.grow_put [OF w, of os q] show ?thesis
  proof
    assume "\<exists>os'. arr_grow (srv_cqs s) (arr_capacity (srv_cqs s) * 2) os = Inr (False, srv_cqs s, os') \<and> \<not> alloc_ok os"
    with m assms show ?thesis by (auto simp: grpc_server_register_completion_queue_def)
  next
    assume "\<exists>s1 os1 s2. arr_grow (srv_cqs s) (arr_capacity (srv_cqs s) * 2) os = Inr (True, s1, os1) \<and> arr_wf s1 \<and>
      arr_list s1 = arr_list (srv_cqs s) \<and> arr_put s1 q = Inr s2 \<and> arr_wf s2 \<and>
      arr_list s2 = arr_list (srv_cqs s) @ [q] \<and> (alloc_ok os \<longrightarrow> alloc_ok os1)"
    then obtain a1 os1 a where a: "arr_grow (srv_cqs s) (arr_capacity (srv_cqs s) * 2) os = Inr (True, a1, os1)"
      "arr_put a1 q = Inr a" "arr_wf a" "arr_list a = arr_list (srv_cqs s) @ [q]" "alloc_ok os \<longrightarrow> alloc_ok os1" by blast
    have "0 < arr_capacity a" using arr_capacity_pos [OF a(3)] a(4) by simp
    with a(3) assms m have "srv_inv (s\<lparr>srv_cqs := a, srv_mutex := False\<rparr>)"
      by (auto simp: srv_inv_def split: option.splits)
    with a m show ?thesis by (simp add: grpc_server_register_completion_queue_def)
  qed
qed

lemma register_inv_any:
  assumes "srv_inv s" and "grpc_server_register_completion_queue (Some s) cq os = Inr (Some s', os')"
  shows "srv_inv s' \<and> srv_ports s' = srv_ports s"
proof (cases cq)
  case None
  with assms show ?thesis by (auto simp: grpc_server_register_completion_queue_def)
next
  case (Some q)
  with register_inv [OF assms(1), of q os] assms(2) show ?thesis by auto
qed

lemma start_inv:
  "srv_inv s \<Longrightarrow> grpc_server_start created (Some s) os = Inr (Some s', os') \<Longrightarrow>
   srv_inv s' \<and> srv_ports s' = srv_ports s \<and> srv_started s'"
  by (auto simp: grpc_server_start_def srv_inv_def Let_def split: if_splits prod.splits option.splits)

lemma shutdown_inv:
  assumes "srv_inv s" and "grpc_server_shutdown_and_notify workers (Some s) cq tag os = Inr (Some s', cq', os')"
  shows "srv_inv s' \<and> srv_ports s' = srv_ports s \<and> srv_shutdown_called s' \<and> srv_worker_threads s' = None"
proof -
  have m: "\<not> srv_mutex s" using assms(1) by (rule srv_invD)
  with assms(2) have "s' = s\<lparr>srv_shutdown_called := True, srv_mutex := False\<rparr> \<and> srv_worker_threads s = None \<or>
      s' = s\<lparr>srv_shutdown_called := True, srv_mutex := False, srv_worker_threads := None\<rparr>"
    by (auto simp: grpc_server_shutdown_and_notify_def Let_def exec_bind_eq_Inr
        split: if_splits option.splits)
  with assms(1) show ?thesis by (auto simp: srv_inv_def)
qed

lemma shutdown_joins:
  assumes "srv_inv s" and "\<forall>ts. srv_worker_threads s = Some ts \<longrightarrow> (\<forall>t\<in>set ts. t)" and "srv_worker_threads s = Some ts"
  shows "join_workers (s\<lparr>srv_shutdown_called := True, srv_mutex := False\<rparr>) workers ts 0 (srv_worker_count s) =
    (if (\<exists>i < srv_worker_count s. worker_stuck s (workers i)) then Inl Deadlock else Inr ())"
  using assms join_workers_eq [of "s\<lparr>srv_shutdown_called := True, srv_mutex := False\<rparr>" ts 0 "srv_worker_count s" workers]
  by (auto simp: srv_inv_def worker_stuck_def)

lemma srv_reach_inv:
  "srv_reach s M \<Longrightarrow> srv_inv s \<and> M = mset (map port_socket_fd (arr_list (srv_ports s)))"
proof (induction rule: srv_reach.induct)
  case (create args os s os')
  then show ?case by (auto simp: grpc_server_create_def srv_inv_def Let_def split: prod.splits if_splits)
next
  case (add_port s M inet_pton sys ad os r s' closed os')
  then have i: "srv_inv s" and M: "M = mset (map port_socket_fd (arr_list (srv_ports s)))" by blast+
  from add_port_inv [OF i add_port.hyps(2)] M show ?case by (metis add_diff_cancel_right')
next
  case (register_queue s M cq os s' os')
  with register_inv_any show ?case by metis
next
  case (start s M created os s' os')
  with start_inv show ?case by metis
next
  case (shutdown s M workers cq tag os s' cq' os')
  with shutdown_inv show ?case by metis
qed

section \<open>Properties\<close>

definition server_demo :: grpc_server where
  "server_demo = the (fst (grpc_server_create None []))"

lemma server_demo: "srv_reach server_demo {#}" "srv_inv server_demo" "\<not> srv_started server_demo"
    "arr_list (srv_ports server_demo) = []"
proof -
  show r: "srv_reach server_demo {#}"
    by (rule srv_reach.create [of None "[]" _ "[]"]) (simp add: server_demo_def grpc_server_create_def)
  from srv_reach_inv [OF r] show "srv_inv server_demo" by blast
  show "\<not> srv_started server_demo" "arr_list (srv_ports server_demo) = []"
    by (simp_all add: server_demo_def grpc_server_create_def)
qed

text \<open>
  C29. No listening socket is leaked or closed twice: whatever operations a server went through,
  destroying it never faults and closes exactly the sockets that were opened for it and not
  closed again by the call that opened them.
\<close>

theorem grpc_server_destroy_closes_open_sockets:
  assumes "srv_reach s M"
  shows "\<exists>closed. grpc_server_destroy (Some s) = Inr closed \<and> mset closed = M"
  using srv_reach_inv [OF assms] srv_destroy_ok [of s] by auto

definition sys_ok :: sys where
  "sys_ok = \<lparr>sys_socket = 5, sys_bind = 0, sys_listen = 0\<rparr>"

lemma server_demo_add:
  "\<exists>a os'. grpc_server_add_insecure_http2_port inet_pton sys_ok (Some server_demo) (Some ad) [] =
      Inr (snd (parse_address ad), Some (server_demo\<lparr>srv_ports := a\<rparr>), [], os')"
proof -
  have "fst (alloc_next [])" by simp
  from server_demo(2,3) this show ?thesis
    by (cases rule: add_port_cases [where inet_pton = inet_pton and sys = sys_ok and ad = ad])
      (auto simp: sys_ok_def)
qed

theorem grpc_server_destroy_closes_open_sockets_witness:
  "\<exists>s closed os. grpc_server_add_insecure_http2_port (\<lambda>_. None) sys_ok (Some server_demo) (Some ''localhost'') [] =
      Inr (50051, Some s, [], os) \<and> grpc_server_destroy (Some s) = Inr closed \<and> mset closed = {#5#}"
proof -
  have pa: "snd (parse_address ''localhost'') = 50051" by (simp add: parse_address_def split_at_char_def)
  from server_demo_add [of "\<lambda>_. None" "''localhost''"] pa obtain a os where
    a: "grpc_server_add_insecure_http2_port (\<lambda>_. None) sys_ok (Some server_demo) (Some ''localhost'') [] =
      Inr (50051, Some (server_demo\<lparr>srv_ports := a\<rparr>), [], os)" by auto
  from srv_reach.add_port [OF server_demo(1) a] have "srv_reach (server_demo\<lparr>srv_ports := a\<rparr>) {#5#}"
    using server_demo(3) by (simp add: sockets_opened_def sys_ok_def)
  from grpc_server_destroy_closes_open_sockets [OF this] a show ?thesis by blast
qed

text \<open>
  Adding "host:port" to a server that is not started, with working memory: if a socket can
  be opened, bound and listened on, the port is appended with that socket and the port number is
  returned; otherwise 0 is returned, the server is as before and the socket, if there was one, is
  closed. Once the server is started nothing is added.
\<close>

theorem grpc_server_add_port_all_or_nothing:
  assumes "srv_inv s" and "alloc_ok os" and "CHR '':'' \<notin> set host" and "n < 65536"
  shows "\<exists>r s' closed os'. grpc_server_add_insecure_http2_port inet_pton sys (Some s) (Some (host @ '':'' @ dec n)) os =
      Inr (r, Some s', closed, os') \<and> srv_inv s' \<and>
    (if srv_started s then r = 0 \<and> s' = s \<and> closed = []
     else if sys_socket sys < 0 \<or> sys_bind sys < 0 \<or> sys_listen sys < 0
     then r = 0 \<and> s' = s \<and> closed = (if sys_socket sys < 0 then [] else [sys_socket sys])
     else r = int n \<and> closed = [] \<and> arr_list (srv_ports s') = arr_list (srv_ports s) @
       [\<lparr>port_socket_fd = sys_socket sys, port_addr = \<lparr>sin_addr = sin_addr (bind_address inet_pton host (int n)), sin_port = n\<rparr>,
         port_creds = None\<rparr>])"
proof (cases "srv_started s")
  case True
  with assms(1) srv_invD [OF assms(1)] show ?thesis by (simp add: grpc_server_add_insecure_http2_port_def)
next
  case False
  have ok: "fst (alloc_next os)" using assms(2) by (cases os) auto
  have pa: "parse_address (host @ '':'' @ dec n) = (host, int n)"
    using assms(3,4) by (intro parse_address_host_port) auto
  have ba: "bind_address inet_pton host (int n) = \<lparr>sin_addr = sin_addr (bind_address inet_pton host (int n)), sin_port = n\<rparr>"
    using assms(4) by (simp add: bind_address_def)
  from assms(1) False ok show ?thesis
  proof (cases rule: add_port_cases [where inet_pton = inet_pton and sys = sys and ad = "host @ '':'' @ dec n"])
    case (failed closed os')
    with False assms(1,2) show ?thesis by auto
  next
    case (added a os')
    with False pa ba show ?thesis by (intro exI [of _ "int n"] exI [of _ "s\<lparr>srv_ports := a\<rparr>"]) auto
  qed
qed

theorem grpc_server_add_port_all_or_nothing_witness:
  "\<exists>s' os'. grpc_server_add_insecure_http2_port (\<lambda>_. Some 0x7F000001) sys_ok (Some server_demo) (Some ''127.0.0.1:80'') [] =
      Inr (80, Some s', [], os') \<and>
    arr_list (srv_ports s') = [\<lparr>port_socket_fd = 5, port_addr = \<lparr>sin_addr = 0x7F000001, sin_port = 80\<rparr>, port_creds = None\<rparr>]"
proof -
  have d: "dec 80 = ''80''" by (simp add: dec.simps digit_chars)
  have "CHR '':'' \<notin> set ''127.0.0.1''" by simp
  from grpc_server_add_port_all_or_nothing [OF server_demo(2) _ this, of "[]" 80 "\<lambda>_. Some 0x7F000001" sys_ok]
  show ?thesis using server_demo(3,4) by (auto simp: d sys_ok_def bind_address_def)
qed

text \<open>
  A started server whose threads were all created is shut down: if a worker sits in an \<open>accept\<close>
  that does not return, neither does the shutdown; otherwise the flag is set, the workers
  are joined and their array released, the queue gets exactly one success event with the tag, and
  a worker that looks at the server afterwards ends without accepting anything. Shutting down
  again only queues another event.
\<close>

theorem grpc_server_shutdown_and_notify_once:
  assumes "srv_inv s" and "\<forall>ts. srv_worker_threads s = Some ts \<longrightarrow> (\<forall>t\<in>set ts. t)" and "cq_inv q" and "alloc_ok os"
  shows "if srv_worker_threads s \<noteq> None \<and> (\<exists>i < srv_worker_count s. worker_stuck s (workers i))
    then grpc_server_shutdown_and_notify workers (Some s) (Some q) (Some tag) os = Inl Deadlock
    else \<exists>s' q' os'. grpc_server_shutdown_and_notify workers (Some s) (Some q) (Some tag) os = Inr (Some s', Some q', os') \<and>
      srv_inv s' \<and> srv_shutdown_called s' \<and> srv_worker_threads s' = None \<and> srv_ports s' = srv_ports s \<and>
      cq_inv q' \<and> cq_events q' = cq_events q @ [\<lparr>ev_type = 1, ev_success = True, ev_tag = Some tag\<rparr>] \<and>
      server_worker_thread ((s', polls) # views) s'' = Some (Inr [])"
proof -
  have m: "\<not> srv_mutex s" using assms(1) by (rule srv_invD)
  note j = shutdown_joins [OF assms(1,2), of _ workers]
  from assms(4) obtain os' where os': "alloc_next os = (True, os')" by (rule alloc_next_okE)
  from cq_link_ok [OF assms(3), of "\<lparr>ev_type = 1, ev_success = True, ev_tag = Some tag\<rparr>"] obtain q' where
    q': "cq_link q \<lparr>ev_type = 1, ev_success = True, ev_tag = Some tag\<rparr> = Inr q'" "cq_inv q'"
      "cq_events q' = cq_events q @ [\<lparr>ev_type = 1, ev_success = True, ev_tag = Some tag\<rparr>]" by auto
  show ?thesis
  proof (cases "srv_worker_threads s \<noteq> None \<and> (\<exists>i < srv_worker_count s. worker_stuck s (workers i))")
    case True
    with m j show ?thesis by (auto simp: grpc_server_shutdown_and_notify_def)
  next
    case False
    with m j os' q'(1) have
      "\<exists>s'. grpc_server_shutdown_and_notify workers (Some s) (Some q) (Some tag) os = Inr (Some s', Some q', os')"
      by (cases "srv_worker_threads s") (auto simp: grpc_server_shutdown_and_notify_def completion_queue_push_event_def)
    then obtain s' where s': "grpc_server_shutdown_and_notify workers (Some s) (Some q) (Some tag) os = Inr (Some s', Some q', os')"
      by blast
    from shutdown_inv [OF assms(1) s'] s' q'(2,3) False show ?thesis by auto
  qed
qed

text \<open>One worker waits in \<open>select\<close>, or one of the four blocks in \<open>accept\<close>.\<close>

theorem grpc_server_shutdown_and_notify_once_witness:
  "\<exists>s s' q os os'. grpc_server_start (\<lambda>_. True) (Some server_demo) [] = Inr (Some s, os) \<and>
    grpc_server_shutdown_and_notify (\<lambda>_. \<lparr>wk_port = 0, wk_polls = [No_Client]\<rparr>) (Some s) (Some cq_fresh) (Some 7) [] =
      Inr (Some s', Some q, os') \<and>
    cq_events q = [\<lparr>ev_type = 1, ev_success = True, ev_tag = Some 7\<rparr>]"
proof -
  have m: "\<not> srv_mutex server_demo" using server_demo(2) by (rule srv_invD)
  then obtain s os where s: "grpc_server_start (\<lambda>_. True) (Some server_demo) [] = Inr (Some s, os)"
    "srv_worker_threads s = Some (map (\<lambda>_. True) [0..<4])"
    using server_demo(3) by (simp add: grpc_server_start_def GRPC_DEFAULT_WORKER_THREADS_def)
  from start_inv [OF server_demo(2) s(1)] have i: "srv_inv s" by blast
  have t: "\<forall>ts. srv_worker_threads s = Some ts \<longrightarrow> (\<forall>t\<in>set ts. t)" using s(2) by auto
  have "\<not> worker_stuck s \<lparr>wk_port = 0, wk_polls = [No_Client]\<rparr>"
    by (auto simp: worker_stuck_def dest: in_set_takeD)
  with grpc_server_shutdown_and_notify_once [OF i t, of cq_fresh "[]" "\<lambda>_. \<lparr>wk_port = 0, wk_polls = [No_Client]\<rparr>" 7 "[]" "[]" s] s(1)
  show ?thesis by auto
qed

text \<open>
  Two ways in which the bound address is not the one asked for: a host name that is not a
  dotted address binds every interface, and a port number from 65536 on is bound modulo 65536
  although the number asked for is returned.
\<close>

theorem grpc_server_add_port_misbinds:
  assumes "srv_inv s" and "\<not> srv_started s" and "alloc_ok os" and "CHR '':'' \<notin> set host" and "n < 2 ^ 31"
    and "inet_pton host = None" and "0 \<le> sys_socket sys" and "0 \<le> sys_bind sys" and "0 \<le> sys_listen sys"
  shows "\<exists>s' os' p. grpc_server_add_insecure_http2_port inet_pton sys (Some s) (Some (host @ '':'' @ dec n)) os =
      Inr (int n, Some s', [], os') \<and> arr_list (srv_ports s') = arr_list (srv_ports s) @ [p] \<and>
    sin_addr (port_addr p) = INADDR_ANY \<and> sin_port (port_addr p) = n mod 65536"
proof -
  have ok: "fst (alloc_next os)" using assms(3) by (cases os) auto
  have pa: "parse_address (host @ '':'' @ dec n) = (host, int n)"
    using assms(4,5) by (rule parse_address_host_port)
  from assms(1,2) ok show ?thesis
  proof (cases rule: add_port_cases [where inet_pton = inet_pton and sys = sys and ad = "host @ '':'' @ dec n"])
    case (failed closed os')
    with assms(3,7-9) show ?thesis by auto
  next
    case (added a os')
    have "nat (int n mod 65536) = n mod 65536" by (simp add: nat_mod_as_int)
    with added pa assms(6) show ?thesis by (auto simp: bind_address_def INADDR_ANY_def to_uint16_def)
  qed
qed

theorem grpc_server_add_port_misbinds_witness:
  "\<exists>s' os' p. grpc_server_add_insecure_http2_port (\<lambda>_. None) sys_ok (Some server_demo) (Some ''localhost:65616'') [] =
      Inr (65616, Some s', [], os') \<and> arr_list (srv_ports s') = [p] \<and>
    sin_addr (port_addr p) = INADDR_ANY \<and> sin_port (port_addr p) = 80"
proof -
  have d: "dec 65616 = ''65616''" by (simp add: dec.simps digit_chars)
  have "CHR '':'' \<notin> set ''localhost''" by simp
  from grpc_server_add_port_misbinds [OF server_demo(2,3) _ this, of "[]" 65616 "\<lambda>_. None" sys_ok]
  show ?thesis using server_demo(4) by (auto simp: d sys_ok_def)
qed

text \<open>The address is cut at its first colon, so "[::]:port" is read as host "[" and port 0: the
  test for the host "[::]" never succeeds, and a port that is listening is reported as a failure.\<close>

lemma grpc_server_ipv6_any_reported_as_failure:
  "parse_address (''[::]:'' @ dec n) = (''['', 0)"
proof -
  have "''[::]:'' @ dec n = ''['' @ CHR '':'' # ('':]:'' @ dec n)" by simp
  then have "split_at_char (CHR '':'') (''[::]:'' @ dec n) = Some (''['', '':]:'' @ dec n)"
    using split_at_char_append [of "CHR '':''" "''[''" "'':]:'' @ dec n"] by simp
  moreover have "atoi ('':]:'' @ dec n) = 0"
    by (simp add: atoi_def strtol10_def is_space_def digits_val_def is_digit_def)
  ultimately show ?thesis by (simp add: parse_address_def)
qed

end
