(* ===== verification/Server_Example.thy ===== *)
theory Server_Example
  imports Process Server
begin

text \<open>
  The server program \<^verbatim>\<open>examples/echo_server.c\<close>: it creates a server with one port and one queue,
  starts it, waits for a signal, and takes everything down. Its state holds the server and the
  queue its two pointers refer to, the allocator and the descriptors closed so far. The answers
  of the system (sockets, threads, what each worker meets) are arguments as in \<open>Server\<close>; the signals delivered during each
  \<open>sleep\<close> are a list, and a program that is still waiting at its end has returned nothing.
\<close>

section \<open>The program\<close>

record server_env =
  se_server :: "grpc_server option"
  se_cq :: "grpc_completion_queue option"
  se_alloc :: alloc
  se_closed :: "int list"

text \<open>The calls of the library on that state; each creation tells whether it gave an object.\<close>

definition srv_create :: "(server_env, bool) prog" where
  "srv_create = run_op (\<lambda>e.
     let (s, os) = grpc_server_create None (se_alloc e)
     in Inr (s \<noteq> None, e\<lparr>se_server := s, se_alloc := os\<rparr>))"

definition srv_add_port :: "(string \<Rightarrow> uint32 option) \<Rightarrow> sys \<Rightarrow> string \<Rightarrow> (server_env, int) prog" where
  "srv_add_port inet_pton sys addr = run_op (\<lambda>e.
     exec_bind (grpc_server_add_insecure_http2_port inet_pton sys (se_server e) (Some addr) (se_alloc e))
       (\<lambda>(port, s, closed, os).
         Inr (port, e\<lparr>se_server := s, se_alloc := os, se_closed := se_closed e @ closed\<rparr>)))"

definition srv_cq_create :: "(server_env, bool) prog" where
  "srv_cq_create = run_op (\<lambda>e.
     let (q, os) = grpc_completion_queue_create GRPC_CQ_NEXT (se_alloc e)
     in Inr (q \<noteq> None, e\<lparr>se_cq := q, se_alloc := os\<rparr>))"

text \<open>The address under which the server stores the one queue of the program.\<close>

definition cq_pointer :: "server_env \<Rightarrow> nat option" where
  "cq_pointer e = (if se_cq e = None then None else Some 0)"

definition srv_register :: "(server_env, unit) prog" where
  "srv_register = run_op (\<lambda>e.
     exec_bind (grpc_server_register_completion_queue (se_server e) (cq_pointer e) (se_alloc e))
       (\<lambda>(s, os). Inr ((), e\<lparr>se_server := s, se_alloc := os\<rparr>)))"

definition srv_start :: "(nat \<Rightarrow> bool) \<Rightarrow> (server_env, unit) prog" where
  "srv_start created = run_op (\<lambda>e.
     exec_bind (grpc_server_start created (se_server e) (se_alloc e))
       (\<lambda>(s, os). Inr ((), e\<lparr>se_server := s, se_alloc := os\<rparr>)))"

definition srv_shutdown :: "(nat \<Rightarrow> worker) \<Rightarrow> nat option \<Rightarrow> (server_env, unit) prog" where
  "srv_shutdown workers tag = run_op (\<lambda>e.
     exec_bind (grpc_server_shutdown_and_notify workers (se_server e) (se_cq e) tag (se_alloc e))
       (\<lambda>(s, q, os). Inr ((), e\<lparr>se_server := s, se_cq := q, se_alloc := os\<rparr>)))"

definition srv_cq_shutdown :: "(server_env, unit) prog" where
  "srv_cq_shutdown = run_op (\<lambda>e.
     exec_bind (grpc_completion_queue_shutdown (se_cq e)) (\<lambda>q. Inr ((), e\<lparr>se_cq := q\<rparr>)))"

definition srv_cq_destroy :: "(server_env, unit) prog" where
  "srv_cq_destroy = run_op (\<lambda>e.
     (case grpc_completion_queue_destroy (se_cq e) of
        None \<Rightarrow> Inl Deadlock
      | Some (Inl f) \<Rightarrow> Inl f
      | Some (Inr _) \<Rightarrow> Inr ((), e\<lparr>se_cq := None\<rparr>)))"

definition srv_destroy :: "(server_env, unit) prog" where
  "srv_destroy = run_op (\<lambda>e.
     exec_bind (grpc_server_destroy (se_server e)) (\<lambda>closed.
       Inr ((), e\<lparr>se_server := None, se_closed := se_closed e @ closed\<rparr>)))"

text \<open>The handler and the loop that waits for it: \<open>sigs\<close> are the signals of one \<open>sleep\<close>.\<close>

definition signal_handler :: "int \<Rightarrow> int \<Rightarrow> int" where
  "signal_handler sig keep_running = 0"

fun wait_loop :: "int \<Rightarrow> int list list \<Rightarrow> bool" where
  "wait_loop keep_running [] = (keep_running = 0)"
| "wait_loop keep_running (sigs # sleeps) =
     (if keep_running = 0 then True else wait_loop (fold signal_handler sigs keep_running) sleeps)"

text \<open>The program after the port was added: the queue, the start, the wait and the cleanup.\<close>

definition serve ::
    "(nat \<Rightarrow> bool) \<Rightarrow> (nat \<Rightarrow> worker) \<Rightarrow> int list list \<Rightarrow> (server_env, int option) prog" where
  "serve created workers sleeps =
     pbnd srv_cq_create (\<lambda>cq.
     if \<not> cq
     then steps [fprintf_stderr (''Failed to create completion queue'' @ nl),
            srv_destroy, do_shutdown] (pret (Some 1))
     else
       steps
         [srv_register,
          srv_start created,
          printf (''Server started successfully'' @ nl),
          printf (''Press Ctrl+C to stop the server'' @ nl @ nl)]
         (if \<not> wait_loop 1 sleeps then pret None
          else
            steps
              [printf (nl @ ''Shutting down server...'' @ nl),
               srv_shutdown workers None,
               srv_cq_shutdown,
               srv_cq_destroy,
               srv_destroy,
               do_shutdown,
               printf (''Server stopped'' @ nl)]
              (pret (Some 0))))"

text \<open>The program from the call that adds the port on.\<close>

definition with_port ::
    "(string \<Rightarrow> uint32 option) \<Rightarrow> sys \<Rightarrow> (nat \<Rightarrow> bool) \<Rightarrow> (nat \<Rightarrow> worker) \<Rightarrow> int list list \<Rightarrow> string \<Rightarrow>
     (server_env, int option) prog" where
  "with_port inet_pton sys created workers sleeps server_address =
     pbnd (srv_add_port inet_pton sys server_address) (\<lambda>port.
     if port = 0
     then steps [fprintf_stderr (''Failed to add port '' @ server_address @ nl),
            srv_destroy, do_shutdown] (pret (Some 1))
     else
       pbnd (printf (''Server listening on port '' @ dec_int port @ nl)) (\<lambda>_.
       serve created workers sleeps))"

definition echo_server_main ::
    "(string \<Rightarrow> uint32 option) \<Rightarrow> sys \<Rightarrow> (nat \<Rightarrow> bool) \<Rightarrow> (nat \<Rightarrow> worker) \<Rightarrow> int list list \<Rightarrow> string list \<Rightarrow>
     (server_env, int option) prog" where
  "echo_server_main inet_pton sys created workers sleeps argv =
     (let server_address = arg_or argv 1 ''0.0.0.0:50051''
      in steps [printf (''Echo Server starting on '' @ server_address @ nl), do_init]
         (pbnd srv_create (\<lambda>server.
          if \<not> server
          then steps [fprintf_stderr (''Failed to create server'' @ nl), do_shutdown] (pret (Some 1))
          else with_port inet_pton sys created workers sleeps server_address)))"

section \<open>Waiting\<close>

lemma fold_signals: "fold signal_handler sigs k = (if sigs = [] then k else 0)"
  by (induction sigs arbitrary: k) (simp_all add: signal_handler_def)

lemma wait_loop_stopped: "wait_loop 0 sleeps"
  by (cases sleeps) simp_all

lemma wait_loop_iff: "wait_loop 1 sleeps \<longleftrightarrow> (\<exists>sigs\<in>set sleeps. sigs \<noteq> [])"
  by (induction sleeps) (auto simp: fold_signals wait_loop_stopped)

section \<open>The calls on the state\<close>

text \<open>A new server, with working memory.\<close>

lemma server_create_ready:
  assumes "alloc_ok os"
  obtains s os' where "grpc_server_create None os = (Some s, os')" "srv_inv s" "\<not> srv_started s"
    "arr_list (srv_ports s) = []" "alloc_ok os'"
proof -
  from assms obtain os1 where 1: "alloc_next os = (True, os1)" "alloc_ok os1" by (rule alloc_next_okE)
  from 1(2) obtain os2 where 2: "alloc_next os1 = (True, os2)" "alloc_ok os2" by (rule alloc_next_okE)
  from 2(2) obtain os3 where 3: "alloc_next os2 = (True, os3)" "alloc_ok os3" by (rule alloc_next_okE)
  show ?thesis
    by (rule that [of server_demo os3])
      (use 1 2 3 server_demo in \<open>simp_all add: grpc_server_create_def server_demo_def\<close>)
qed

lemma srv_create_eq:
  assumes "alloc_ok (se_alloc (pr_state P))"
  obtains s os where "srv_create P = Inr (True, P\<lparr>pr_state := (pr_state P)\<lparr>se_server := Some s, se_alloc := os\<rparr>\<rparr>)"
    "srv_inv s" "\<not> srv_started s" "arr_list (srv_ports s) = []" "alloc_ok os"
proof -
  from assms obtain s os where s: "grpc_server_create None (se_alloc (pr_state P)) = (Some s, os)" "srv_inv s"
    "\<not> srv_started s" "arr_list (srv_ports s) = []" "alloc_ok os" by (rule server_create_ready)
  have "srv_create P = Inr (True, P\<lparr>pr_state := (pr_state P)\<lparr>se_server := Some s, se_alloc := os\<rparr>\<rparr>)"
    using s(1) by (simp add: srv_create_def run_op_def)
  then show ?thesis using s(2-5) by (rule that)
qed

lemma start_run:
  assumes "srv_inv s" and "\<not> srv_started s" and "alloc_ok os" and "\<forall>i<GRPC_DEFAULT_WORKER_THREADS. created i"
  obtains s' os' where "grpc_server_start created (Some s) os = Inr (Some s', os')" "srv_inv s'"
    "srv_ports s' = srv_ports s" "srv_worker_threads s' = Some (replicate GRPC_DEFAULT_WORKER_THREADS True)"
proof -
  from assms(3) obtain os' where os': "alloc_next os = (True, os')" by (rule alloc_next_okE)
  have "map created [0..<GRPC_DEFAULT_WORKER_THREADS] = replicate GRPC_DEFAULT_WORKER_THREADS True"
    using assms(4) by (intro nth_equalityI) simp_all
  then have "grpc_server_start created (Some s) os = Inr (Some (s\<lparr>srv_started := True,
      srv_worker_threads := Some (replicate GRPC_DEFAULT_WORKER_THREADS True),
      srv_worker_count := GRPC_DEFAULT_WORKER_THREADS, srv_mutex := False\<rparr>), os')"
    using assms(2) os' srv_invD [OF assms(1)] by (simp add: grpc_server_start_def)
  from that [OF this] start_inv [OF assms(1) this] show ?thesis by simp
qed

lemma shutdown_run:
  assumes "srv_inv s" and "srv_worker_threads s = Some (replicate n True)"
  obtains (hangs) i where "i < n" "worker_stuck s (workers i)"
    "grpc_server_shutdown_and_notify workers (Some s) q None os = Inl Deadlock"
  | (joins) s' where "\<forall>i<n. \<not> worker_stuck s (workers i)"
    "grpc_server_shutdown_and_notify workers (Some s) q None os = Inr (Some s', q, os)" "srv_inv s'"
    "srv_ports s' = srv_ports s"
proof -
  have n: "srv_worker_count s = n" using assms by (simp add: srv_inv_def)
  have j: "join_workers (s\<lparr>srv_shutdown_called := True, srv_mutex := False\<rparr>) workers (replicate n True) 0 n =
      (if (\<exists>i<n. worker_stuck s (workers i)) then Inl Deadlock else Inr ())"
    using shutdown_joins [OF assms(1) _ assms(2)] assms(2) n by auto
  show ?thesis
  proof (cases "\<exists>i<n. worker_stuck s (workers i)")
    case True
    with j n assms(2) srv_invD [OF assms(1)] that(1) show ?thesis
      by (auto simp: grpc_server_shutdown_and_notify_def)
  next
    case False
    with j n assms(2) srv_invD [OF assms(1)] have
      "\<exists>s'. grpc_server_shutdown_and_notify workers (Some s) q None os = Inr (Some s', q, os)"
      by (simp add: grpc_server_shutdown_and_notify_def)
    with False shutdown_inv [OF assms(1)] that(2) show ?thesis by blast
  qed
qed

text \<open>With one port a worker is stuck if it is at that port and its \<open>accept\<close> blocks.\<close>

definition in_accept :: "worker \<Rightarrow> bool" where
  "in_accept w \<longleftrightarrow> wk_port w = 0 \<and> take 1 (wk_polls w) = [Accept_Blocks]"

lemma worker_stuck_one: "arr_count (srv_ports s) = 1 \<Longrightarrow> worker_stuck s w \<longleftrightarrow> in_accept w"
  by (cases "wk_port w"; cases "wk_polls w") (auto simp: worker_stuck_def in_accept_def)

text \<open>The end of the program: it hangs in the join, or gives everything back.\<close>

definition join_hangs :: "(nat \<Rightarrow> worker) \<Rightarrow> bool" where
  "join_hangs workers \<longleftrightarrow> (\<exists>i<GRPC_DEFAULT_WORKER_THREADS. in_accept (workers i))"

lemma serve_run:
  assumes "se_server (pr_state P) = Some s" and "srv_inv s" and "\<not> srv_started s" and "alloc_ok (se_alloc (pr_state P))"
    and "\<forall>i<GRPC_DEFAULT_WORKER_THREADS. created i" and "\<not> g_init_mutex (pr_globals P)"
    and "arr_count (srv_ports s) = 1"
  shows "if wait_loop 1 sleeps \<and> join_hangs workers then serve created workers sleeps P = Inl Deadlock
    else \<exists>P'. serve created workers sleeps P = Inr (if wait_loop 1 sleeps then Some 0 else None, P') \<and>
      (wait_loop 1 sleeps \<longrightarrow> lib_down P' \<and> se_server (pr_state P') = None \<and> se_cq (pr_state P') = None \<and>
        se_closed (pr_state P') = se_closed (pr_state P) @ map port_socket_fd (arr_list (srv_ports s)))"
proof -
  from assms(4) obtain os1 where 1: "alloc_next (se_alloc (pr_state P)) = (True, os1)" "alloc_ok os1"
    by (rule alloc_next_okE)
  from register_inv [OF assms(2), of 0 os1] 1(2) assms(3) obtain s1 os2 where
    s1: "grpc_server_register_completion_queue (Some s) (Some 0) os1 = Inr (Some s1, os2)" "srv_inv s1"
      "srv_ports s1 = srv_ports s" "\<not> srv_started s1" "alloc_ok os2" by auto
  from s1(2,4,5) assms(5) obtain s2 os3 where
    s2: "grpc_server_start created (Some s1) os2 = Inr (Some s2, os3)" "srv_inv s2" "srv_ports s2 = srv_ports s1"
      "srv_worker_threads s2 = Some (replicate GRPC_DEFAULT_WORKER_THREADS True)" by (rule start_run)
  have stuck: "worker_stuck s2 w \<longleftrightarrow> in_accept w" for w
    using s2(3) s1(3) assms(7) by (intro worker_stuck_one) simp
  let ?q = "cq_fresh\<lparr>cq_shutdown := True, cq_cond := True, cq_mutex := False\<rparr>"
  have cq: "grpc_completion_queue_create GRPC_CQ_NEXT (se_alloc (pr_state P)) = (Some cq_fresh, os1)"
    "grpc_completion_queue_shutdown (Some cq_fresh) = Inr (Some ?q)"
    using 1(1) by (simp_all add: grpc_completion_queue_create_def grpc_completion_queue_shutdown_def cq_fresh_def)
  note defs = serve_def srv_cq_create_def srv_register_def cq_pointer_def srv_start_def srv_shutdown_def
    srv_cq_shutdown_def srv_cq_destroy_def srv_destroy_def lib_down_def
  from s2(2,4) show ?thesis
  proof (cases rule: shutdown_run [where workers = workers and q = "Some cq_fresh" and os = os3])
    case (hangs i)
    then have "join_hangs workers" using stuck by (auto simp: join_hangs_def)
    with assms(1) s1(1) s2(1) cq(1) hangs(3) show ?thesis by (simp add: defs run_op_fault)
  next
    case (joins s3)
    then have "\<not> join_hangs workers" using stuck by (auto simp: join_hangs_def)
    moreover have "cq_inv ?q" using cq_linked_fresh [of ?q] by (auto simp: cq_inv_def cq_fresh_def)
    then obtain st where "grpc_completion_queue_destroy (Some ?q) = Some (Inr (Some st))" using cq_destroy_ok by blast
    ultimately show ?thesis
      using assms(1,6) s1(1,3) s2(1,3) joins(2,4) cq srv_destroy_ok [OF joins(3)] by (simp add: defs)
  qed
qed

definition port_refused :: "sys \<Rightarrow> string \<Rightarrow> bool" where
  "port_refused sys addr \<longleftrightarrow>
     sys_socket sys < 0 \<or> sys_bind sys < 0 \<or> sys_listen sys < 0 \<or> snd (parse_address addr) = 0"

lemma echo_server_up:
  assumes "alloc_ok (se_alloc (pr_state P))" and "\<not> g_init_mutex (pr_globals P)"
  obtains P1 s where "echo_server_main inet_pton sys created workers sleeps argv P =
      with_port inet_pton sys created workers sleeps (arg_or argv 1 ''0.0.0.0:50051'') P1"
    "pr_state P1 = (pr_state P)\<lparr>se_server := Some s, se_alloc := se_alloc (pr_state P1)\<rparr>"
    "\<not> g_init_mutex (pr_globals P1)" "srv_inv s" "\<not> srv_started s" "arr_list (srv_ports s) = []"
    "alloc_ok (se_alloc (pr_state P1))"
proof -
  define P0 where "P0 = P\<lparr>pr_out := pr_out P @ ''Echo Server starting on '' @ arg_or argv 1 ''0.0.0.0:50051'' @ nl,
    pr_globals := (pr_globals P)\<lparr>g_grpc_initialized := True\<rparr>\<rparr>"
  have "alloc_ok (se_alloc (pr_state P0))" using assms(1) by (simp add: P0_def)
  then obtain s os where s: "srv_create P0 = Inr (True, P0\<lparr>pr_state := (pr_state P0)\<lparr>se_server := Some s, se_alloc := os\<rparr>\<rparr>)"
    "srv_inv s" "\<not> srv_started s" "arr_list (srv_ports s) = []" "alloc_ok os" by (rule srv_create_eq)
  show ?thesis
  proof (rule that [of "P0\<lparr>pr_state := (pr_state P0)\<lparr>se_server := Some s, se_alloc := os\<rparr>\<rparr>" s])
    show "echo_server_main inet_pton sys created workers sleeps argv P =
        with_port inet_pton sys created workers sleeps (arg_or argv 1 ''0.0.0.0:50051'')
          (P0\<lparr>pr_state := (pr_state P0)\<lparr>se_server := Some s, se_alloc := os\<rparr>\<rparr>)"
      using assms(2) s(1)
      by (simp add: echo_server_main_def Let_def P0_def pbnd_run del: One_nat_def)
  qed (use assms(2) s in \<open>simp_all add: P0_def\<close>)
qed

lemma with_port_run:
  assumes "se_server (pr_state P) = Some s" and "se_cq (pr_state P) = None" and "srv_inv s"
    and "\<not> srv_started s" and "arr_list (srv_ports s) = []" and "alloc_ok (se_alloc (pr_state P))"
    and "\<not> g_init_mutex (pr_globals P)" and "\<forall>i<GRPC_DEFAULT_WORKER_THREADS. created i"
  shows "if \<not> port_refused sys ad \<and> wait_loop 1 sleeps \<and> join_hangs workers
    then with_port inet_pton sys created workers sleeps ad P = Inl Deadlock
    else \<exists>r P'. with_port inet_pton sys created workers sleeps ad P = Inr (r, P') \<and>
      r = (if port_refused sys ad then Some 1 else if wait_loop 1 sleeps then Some 0 else None) \<and>
      (r \<noteq> None \<longrightarrow> lib_down P' \<and> se_server (pr_state P') = None \<and> se_cq (pr_state P') = None \<and>
        se_closed (pr_state P') = se_closed (pr_state P) @ (if sys_socket sys < 0 then [] else [sys_socket sys]))"
proof -
  let ?os = "se_alloc (pr_state P)"
  note defs = with_port_def srv_add_port_def srv_destroy_def lib_down_def
  have "fst (alloc_next ?os)" using assms(6) by (cases ?os) auto
  from assms(3,4) this show ?thesis
  proof (cases rule: add_port_cases [where inet_pton = inet_pton and sys = sys and ad = ad])
    case (failed closed os')
    then have "port_refused sys ad" using assms(6) by (auto simp: port_refused_def)
    with failed assms(1,2,5,7) srv_destroy_ok [OF assms(3)] show ?thesis by (simp add: defs)
  next
    case (added a os')
    let ?s = "s\<lparr>srv_ports := a\<rparr>"
    have fds: "map port_socket_fd (arr_list a) = [sys_socket sys]" using added(6) assms(5) by simp
    show ?thesis
    proof (cases "snd (parse_address ad) = 0")
      case True
      then have "port_refused sys ad" by (simp add: port_refused_def)
      with True added(1,2) assms(1,2,7) srv_destroy_ok [OF added(5)] fds show ?thesis by (simp add: defs)
    next
      case False
      with added(2-4) have ok: "\<not> port_refused sys ad" by (simp add: port_refused_def)
      define P2 where "P2 = P\<lparr>pr_state := (pr_state P)\<lparr>se_server := Some ?s, se_alloc := os',
          se_closed := se_closed (pr_state P)\<rparr>,
        pr_out := pr_out P @ ''Server listening on port '' @ dec_int (snd (parse_address ad)) @ nl\<rparr>"
      have run: "with_port inet_pton sys created workers sleeps ad P = serve created workers sleeps P2"
        using False added(1) assms(1) by (simp add: defs P2_def)
      have one: "arr_count (srv_ports ?s) = 1"
        using fds added(5) length_arr_list [of a] by (auto simp: srv_inv_def)
      have "if wait_loop 1 sleeps \<and> join_hangs workers then serve created workers sleeps P2 = Inl Deadlock
        else \<exists>P'. serve created workers sleeps P2 = Inr (if wait_loop 1 sleeps then Some 0 else None, P') \<and>
          (wait_loop 1 sleeps \<longrightarrow> lib_down P' \<and> se_server (pr_state P') = None \<and> se_cq (pr_state P') = None \<and>
            se_closed (pr_state P') = se_closed (pr_state P2) @ map port_socket_fd (arr_list (srv_ports ?s)))"
        using one added(5,7) assms(4,6-8) by (intro serve_run) (simp_all add: P2_def)
      then show ?thesis using ok run fds added(2) by (auto simp: P2_def split: if_splits)
    qed
  qed
qed

section \<open>Properties\<close>

text \<open>
  C30. With working memory and threads the echo server returns 1 if its port is refused (the socket
  cannot be opened, bound or listened on, or the address asks for port 0), keeps running as long
  as no signal arrives, and returns 0 once one does, provided that no worker sits in an \<open>accept\<close>
  that does not return; if one does, the program hangs in the join of its workers. Whenever it
  returns, server and queue are freed, the library is shut down, and the listening socket, if one
  was opened, was closed exactly once.
\<close>

theorem echo_server_main_closes_socket:
  assumes "alloc_ok (se_alloc (pr_state P))" and "se_cq (pr_state P) = None" and "\<not> g_init_mutex (pr_globals P)"
    and "\<forall>i<GRPC_DEFAULT_WORKER_THREADS. created i"
  shows "if \<not> port_refused sys (arg_or argv 1 ''0.0.0.0:50051'') \<and> (\<exists>sigs\<in>set sleeps. sigs \<noteq> []) \<and>
      (\<exists>i<GRPC_DEFAULT_WORKER_THREADS. in_accept (workers i))
    then echo_server_main inet_pton sys created workers sleeps argv P = Inl Deadlock
    else \<exists>r P'. echo_server_main inet_pton sys created workers sleeps argv P = Inr (r, P') \<and>
    r = (if port_refused sys (arg_or argv 1 ''0.0.0.0:50051'') then Some 1
         else if \<exists>sigs\<in>set sleeps. sigs \<noteq> [] then Some 0 else None) \<and>
    (r \<noteq> None \<longrightarrow> lib_down P' \<and> se_server (pr_state P') = None \<and> se_cq (pr_state P') = None \<and>
      se_closed (pr_state P') = se_closed (pr_state P) @ (if sys_socket sys < 0 then [] else [sys_socket sys]))"
proof -
  let ?ad = "arg_or argv 1 ''0.0.0.0:50051''"
  from assms(1,3) obtain P1 s where up: "echo_server_main inet_pton sys created workers sleeps argv P =
      with_port inet_pton sys created workers sleeps ?ad P1"
    "pr_state P1 = (pr_state P)\<lparr>se_server := Some s, se_alloc := se_alloc (pr_state P1)\<rparr>"
    "\<not> g_init_mutex (pr_globals P1)" "srv_inv s" "\<not> srv_started s" "arr_list (srv_ports s) = []"
    "alloc_ok (se_alloc (pr_state P1))" by (rule echo_server_up)
  then have st: "se_server (pr_state P1) = Some s" "se_cq (pr_state P1) = None"
    "se_closed (pr_state P1) = se_closed (pr_state P)"
    using assms(2) by (metis server_env.ext_inject server_env.surjective server_env.update_convs)+
  show ?thesis unfolding up(1) st(3) [symmetric] wait_loop_iff [symmetric] join_hangs_def [symmetric]
    using st(1,2) up(4-7) up(3) assms(4) by (rule with_port_run)
qed

definition server_env_start :: server_env where
  "server_env_start = \<lparr>se_server = None, se_cq = None, se_alloc = [], se_closed = []\<rparr>"

theorem echo_server_main_closes_socket_witness:
  "(\<exists>P'. echo_server_main (\<lambda>_. None) sys_ok (\<lambda>_. True) (\<lambda>_. \<lparr>wk_port = 0, wk_polls = [Accepts 9]\<rparr>)
       [[], [2]] [''echo_server''] (proc_start server_env_start) = Inr (Some 0, P') \<and> se_closed (pr_state P') = [5]) \<and>
   echo_server_main (\<lambda>_. None) sys_ok (\<lambda>_. True)
       (\<lambda>i. \<lparr>wk_port = 0, wk_polls = [if i = 0 then Accepts 9 else Accept_Blocks]\<rparr>)
       [[], [2]] [''echo_server''] (proc_start server_env_start) = Inl Deadlock"
proof -
  have a: "arg_or [''echo_server''] 1 ''0.0.0.0:50051'' = ''0.0.0.0:50051''" by (simp add: arg_or_def)
  have "dec 50051 = ''50051''" by (simp add: dec.simps digit_chars)
  with parse_address_host_port [of "''0.0.0.0''" 50051] have p: "\<not> port_refused sys_ok ''0.0.0.0:50051''"
    by (simp add: port_refused_def sys_ok_def)
  note run = echo_server_main_closes_socket [of "proc_start server_env_start" "\<lambda>_. True" sys_ok "[''echo_server'']" "[[], [2]]",
      unfolded a]
  have one: "(1 :: nat) < GRPC_DEFAULT_WORKER_THREADS" by (simp add: GRPC_DEFAULT_WORKER_THREADS_def)
  show ?thesis
  proof
    show "\<exists>P'. echo_server_main (\<lambda>_. None) sys_ok (\<lambda>_. True) (\<lambda>_. \<lparr>wk_port = 0, wk_polls = [Accepts 9]\<rparr>)
       [[], [2]] [''echo_server''] (proc_start server_env_start) = Inr (Some 0, P') \<and> se_closed (pr_state P') = [5]"
      using run [of "\<lambda>_. \<lparr>wk_port = 0, wk_polls = [Accepts 9]\<rparr>" "\<lambda>_. None"] p
      by (auto simp: proc_start_def server_env_start_def sys_ok_def in_accept_def)
    show "echo_server_main (\<lambda>_. None) sys_ok (\<lambda>_. True)
       (\<lambda>i. \<lparr>wk_port = 0, wk_polls = [if i = 0 then Accepts 9 else Accept_Blocks]\<rparr>)
       [[], [2]] [''echo_server''] (proc_start server_env_start) = Inl Deadlock"
      using run [of "\<lambda>i. \<lparr>wk_port = 0, wk_polls = [if i = 0 then Accepts 9 else Accept_Blocks]\<rparr>" "\<lambda>_. None"] p one
      by (auto simp: proc_start_def server_env_start_def in_accept_def split: if_splits)
  qed
qed

end
