(* ===== verification/Program_Calls.thy ===== *)
theory Program_Calls
  imports Process World
begin

text \<open>
  How a program on the shared state calls the components that keep their own: operations that
  allocate take the outcomes of the allocator from the world and put the rest back, loops that do
  not end hang the process, and callbacks write to the standard output. Printing \<open>NULL\<close> with \<open>%s\<close>
  is undefined in C and a fault here. With working memory each call is an equation. The objects that
  programs make and destroy are counted.
\<close>

section \<open>Calling the components\<close>

definition alloc_op :: "(alloc \<Rightarrow> 'a \<times> alloc) \<Rightarrow> (world, 'a) prog" where
  "alloc_op f = run_op (\<lambda>w. let (x, os) = f (w_alloc w) in Inr (x, w\<lparr>w_alloc := os\<rparr>))"

text \<open>The creation of an object, and the call that destroys one, made where the pointer to it was
  found not to be \<open>NULL\<close>.\<close>

definition make_op :: "(alloc \<Rightarrow> 'a option \<times> alloc) \<Rightarrow> (world, 'a option) prog" where
  "make_op f = pbnd (alloc_op f) (\<lambda>x P. Inr (x, if x = None then P else P\<lparr>pr_live := pr_live P + 1\<rparr>))"

definition release_op :: "(world, 'a) prog \<Rightarrow> (world, 'a) prog" where
  "release_op m = pbnd m (\<lambda>x P. Inr (x, P\<lparr>pr_live := pr_live P - 1\<rparr>))"

definition alloc_exec :: "(alloc \<Rightarrow> ('r \<times> 'a \<times> alloc) exec) \<Rightarrow> (world, 'r \<times> 'a) prog" where
  "alloc_exec f = run_op (\<lambda>w. exec_bind (f (w_alloc w)) (\<lambda>(r, x, os). Inr ((r, x), w\<lparr>w_alloc := os\<rparr>)))"

definition exec_op :: "'a exec \<Rightarrow> (world, 'a) prog" where
  "exec_op x = run_op (\<lambda>w. exec_bind x (\<lambda>v. Inr (v, w)))"

text \<open>A call that may not return; one that does not would be a process that hangs.\<close>

definition loop_op :: "'a exec option \<Rightarrow> (world, 'a) prog" where
  "loop_op x = (case x of None \<Rightarrow> (\<lambda>P. Inl Deadlock) | Some y \<Rightarrow> exec_op y)"

text \<open>A call that writes to the standard output through a callback.\<close>

definition out_op :: "(string \<Rightarrow> ('a \<times> string) exec) \<Rightarrow> (world, 'a) prog" where
  "out_op f P = exec_bind (f (pr_out P)) (\<lambda>(x, out). Inr (x, P\<lparr>pr_out := out\<rparr>))"

text \<open>\<open>printf\<close> with one \<open>%s\<close>.\<close>

definition printf_str :: "string \<Rightarrow> string option \<Rightarrow> string \<Rightarrow> (world, unit) prog" where
  "printf_str before arg after =
     (case arg of None \<Rightarrow> (\<lambda>P. Inl Null_Deref) | Some s \<Rightarrow> printf (before @ s @ after))"

section \<open>Calls when memory is available\<close>

text \<open>With an empty script every allocation succeeds and the script stays empty, so these calls
  leave the process alone.\<close>

definition mem_ready :: "world proc \<Rightarrow> bool" where
  "mem_ready P \<longleftrightarrow> w_alloc (pr_state P) = []"

lemma mem_ready_out [simp]: "mem_ready (P\<lparr>pr_out := out\<rparr>) = mem_ready P"
  "mem_ready (P\<lparr>pr_globals := g\<rparr>) = mem_ready P" "mem_ready (P\<lparr>pr_live := n\<rparr>) = mem_ready P"
  by (simp_all add: mem_ready_def)

lemma mem_ready_same: "mem_ready P \<Longrightarrow> P\<lparr>pr_state := (pr_state P)\<lparr>w_alloc := []\<rparr>\<rparr> = P"
  by (cases P, cases "pr_state P") (simp add: mem_ready_def)

lemma mem_ready_alloc: "mem_ready P \<Longrightarrow> w_alloc (pr_state P) = []"
  by (simp add: mem_ready_def)

lemma alloc_op_ready: "mem_ready P \<Longrightarrow> f [] = (x, []) \<Longrightarrow> pbnd (alloc_op f) k P = k x P"
  by (simp add: alloc_op_def pbnd_def run_op_def mem_ready_alloc mem_ready_same)

lemma alloc_exec_ready: "mem_ready P \<Longrightarrow> f [] = Inr (r, x, []) \<Longrightarrow> pbnd (alloc_exec f) k P = k (r, x) P"
  by (simp add: alloc_exec_def pbnd_def run_op_def mem_ready_alloc mem_ready_same)

lemma exec_op_ready: "x = Inr v \<Longrightarrow> pbnd (exec_op x) k P = k v P"
  by (simp add: exec_op_def pbnd_def run_op_def)

lemma loop_op_ready: "x = Some (Inr v) \<Longrightarrow> pbnd (loop_op x) k P = k v P"
  by (simp add: loop_op_def exec_op_ready)

lemma out_op_ready: "f (pr_out P) = Inr (x, out) \<Longrightarrow> pbnd (out_op f) k P = k x (P\<lparr>pr_out := out\<rparr>)"
  by (simp add: out_op_def pbnd_def)

lemma printf_str_some [simp]: "printf_str before (Some s) after = printf (before @ s @ after)"
  by (simp add: printf_str_def)

lemma make_op_ready:
  "mem_ready P \<Longrightarrow> f [] = (Some x, []) \<Longrightarrow> pbnd (make_op f) k P = k (Some x) (P\<lparr>pr_live := pr_live P + 1\<rparr>)"
  by (simp add: make_op_def alloc_op_ready) (simp add: pbnd_def)

lemma release_op_ready: "pbnd (release_op m) k P = pbnd m (\<lambda>x Q. k x (Q\<lparr>pr_live := pr_live Q - 1\<rparr>)) P"
  by (simp add: release_op_def) (simp add: pbnd_def)

lemmas call_ready = alloc_op_ready alloc_exec_ready exec_op_ready loop_op_ready out_op_ready make_op_ready release_op_ready

section \<open>The books of a program\<close>

text \<open>By how much a program changes the number of its live objects, whenever it returns and
  whatever the allocator does.\<close>

definition live_adds :: "int \<Rightarrow> ('s, 'a) prog \<Rightarrow> bool" where
  "live_adds n m \<longleftrightarrow> (\<forall>P x P'. m P = Inr (x, P') \<longrightarrow> pr_live P' = pr_live P + n)"

lemma live_addsI: "(\<And>P x P'. m P = Inr (x, P') \<Longrightarrow> pr_live P' = pr_live P + n) \<Longrightarrow> live_adds n m"
  by (simp add: live_adds_def)

lemma live_addsD: "live_adds n m \<Longrightarrow> m P = Inr (x, P') \<Longrightarrow> pr_live P' = pr_live P + n"
  by (simp add: live_adds_def)

lemma live_adds_bind: "live_adds i m \<Longrightarrow> (\<And>x. live_adds (n - i) (f x)) \<Longrightarrow> live_adds n (pbnd m f)"
  unfolding live_adds_def pbnd_def by (fastforce simp: exec_bind_eq_Inr)

named_theorems live_intros "how programs change the number of their objects"

lemma live_adds_seq: "live_adds 0 m \<Longrightarrow> (\<And>x. live_adds n (f x)) \<Longrightarrow> live_adds n (pbnd m f)"
  using live_adds_bind [of 0 m n f] by simp

lemma live_adds_calls [live_intros]:
  "live_adds 0 (pret x)" "live_adds 0 (printf t)" "live_adds 0 (run_op g)" "live_adds 0 do_init" "live_adds 0 do_shutdown"
  by (auto simp: live_adds_def printf_def run_op_def do_init_def do_shutdown_def exec_bind_eq_Inr)

lemma live_adds_ops [live_intros]:
  "live_adds 0 (alloc_op f)" "live_adds 0 (alloc_exec g)" "live_adds 0 (exec_op y)" "live_adds 0 (loop_op z)"
  "live_adds 0 (out_op h)" "live_adds 0 (printf_str before arg after)"
  by (auto simp: live_adds_def alloc_op_def alloc_exec_def exec_op_def loop_op_def out_op_def printf_str_def run_op_def
      printf_def exec_bind_eq_Inr split: option.splits)

lemma live_adds_make [live_intros]:
  assumes "live_adds n (f None)" and "\<And>x. live_adds (n - 1) (f (Some x))"
  shows "live_adds n (pbnd (make_op g) f)"
proof (rule live_addsI)
  fix P y P'
  assume "pbnd (make_op g) f P = Inr (y, P')"
  then obtain x Q where Q: "alloc_op g P = Inr (x, Q)" "f x (if x = None then Q else Q\<lparr>pr_live := pr_live Q + 1\<rparr>) = Inr (y, P')"
    by (auto simp: make_op_def pbnd_def exec_bind_eq_Inr)
  with live_addsD [OF live_adds_ops(1) Q(1)] live_addsD [OF assms(1)] live_addsD [OF assms(2)] show "pr_live P' = pr_live P + n"
    by (cases x) fastforce+
qed

lemma live_adds_release [live_intros]: "live_adds 0 m \<Longrightarrow> (\<And>x. live_adds (n + 1) (f x)) \<Longrightarrow> live_adds n (pbnd (release_op m) f)"
  by (rule live_adds_bind [of "- 1"]) (auto simp: live_adds_def release_op_def pbnd_def exec_bind_eq_Inr)

lemma live_adds_split [live_intros]:
  "(c \<Longrightarrow> live_adds n m) \<Longrightarrow> (\<not> c \<Longrightarrow> live_adds n m') \<Longrightarrow> live_adds n (if c then m else m')"
  "(\<And>a b. live_adds n (f a b)) \<Longrightarrow> live_adds n (case p of (a, b) \<Rightarrow> f a b)"
  "live_adds n m \<Longrightarrow> (\<And>y. live_adds n (g y)) \<Longrightarrow> live_adds n (case q of None \<Rightarrow> m | Some y \<Rightarrow> g y)"
  by (auto split: prod.splits option.splits)

text \<open>After a fault there is nothing to count.\<close>

lemma live_adds_fault: "live_adds n (pbnd (printf_str before None after) f)"
  by (simp add: live_adds_def pbnd_def printf_str_def)

lemma live_adds_steps [live_intros]: "live_adds n k \<Longrightarrow> live_adds n (steps [] k)"
  "live_adds 0 m \<Longrightarrow> live_adds n (steps ms k) \<Longrightarrow> live_adds n (steps (m # ms) k)"
  by (auto intro: live_adds_seq)

text \<open>The rule for other sequences, tried last.\<close>

declare live_adds_seq [live_intros]

lemma steps_result: "steps ms (pret v) P = Inr (r, P') \<Longrightarrow> r = v"
  by (induction ms arbitrary: P) (auto simp: pbnd_def exec_bind_eq_Inr)

lemma proc_start_mem_ready: "mem_ready (proc_start world_empty)"
  by (simp add: mem_ready_def proc_start_def world_empty_def)

end
