(* ===== verification/Load_Balancing.thy ===== *)
theory Load_Balancing
  imports Heap_List C_Lib "HOL-Library.Signed_Division"
begin

text \<open>
  The load balancer of \<^verbatim>\<open>src/load_balancing.c\<close>: a policy with its list of backend addresses and
  the three ways of picking one. The nodes are only ever appended and freed together, so the
  linked list is a list; the number \<open>rand\<close> returns is an argument of the weighted pick.
\<close>

section \<open>Data\<close>

datatype grpc_lb_policy_type =
    GRPC_LB_POLICY_ROUND_ROBIN | GRPC_LB_POLICY_PICK_FIRST | GRPC_LB_POLICY_WEIGHTED

record grpc_lb_address =
  lb_address :: string
  lb_weight :: int
  lb_is_available :: bool

record grpc_lb_policy =
  lb_type :: grpc_lb_policy_type
  lb_addresses :: "grpc_lb_address list"
  lb_address_count :: nat
  lb_current_index :: nat
  lb_mutex :: mutex

section \<open>Operations\<close>

definition grpc_lb_address_create :: "string \<Rightarrow> int \<Rightarrow> alloc \<Rightarrow> grpc_lb_address option \<times> alloc" where
  "grpc_lb_address_create address weight os =
     (let (ok1, os1) = alloc_next os
      in if \<not> ok1 then (None, os1)
         else
           (let (ok2, os2) = alloc_next os1
            in if \<not> ok2 then (None, os2)
               else (Some \<lparr>lb_address = address, lb_weight = (if weight > 0 then weight else 1),
                           lb_is_available = True\<rparr>, os2)))"

definition grpc_lb_address_destroy :: "grpc_lb_address option \<Rightarrow> string list" where
  "grpc_lb_address_destroy addr = (case addr of None \<Rightarrow> [] | Some a \<Rightarrow> [lb_address a])"

text \<open>The search of the round robin: \<open>addr\<close> is the rest of the list from the current node, and
  the search starts over at the front at most \<open>n\<close> times in all.\<close>

fun rr_search :: "grpc_lb_address list \<Rightarrow> grpc_lb_address list \<Rightarrow> nat \<Rightarrow> grpc_lb_address option" where
  "rr_search addresses [] n = None"
| "rr_search addresses (a # addr) 0 = None"
| "rr_search addresses (a # addr) (Suc n) =
     (if lb_is_available a then Some a
      else rr_search addresses (if addr = [] then addresses else addr) n)"

definition grpc_lb_round_robin_pick :: "grpc_lb_policy option \<Rightarrow> (string option \<times> grpc_lb_policy option) exec" where
  "grpc_lb_round_robin_pick policy =
     (case policy of
        None \<Rightarrow> Inr (None, None)
      | Some p \<Rightarrow>
          if lb_addresses p = [] \<or> lb_address_count p = 0 then Inr (None, Some p)
          else
            exec_bind (mutex_lock (lb_mutex p)) (\<lambda>m.
              (case rr_search (lb_addresses p) (drop (lb_current_index p) (lb_addresses p))
                      (lb_address_count p) of
                 Some a \<Rightarrow>
                   Inr (Some (lb_address a),
                        Some (p\<lparr>lb_current_index := (lb_current_index p + 1) mod lb_address_count p,
                                lb_mutex := mutex_unlock m\<rparr>))
               | None \<Rightarrow> Inr (None, Some (p\<lparr>lb_mutex := mutex_unlock m\<rparr>)))))"

fun first_available :: "grpc_lb_address list \<Rightarrow> grpc_lb_address option" where
  "first_available [] = None"
| "first_available (a # addr) = (if lb_is_available a then Some a else first_available addr)"

definition grpc_lb_pick_first_pick :: "grpc_lb_policy option \<Rightarrow> (string option \<times> grpc_lb_policy option) exec" where
  "grpc_lb_pick_first_pick policy =
     (case policy of
        None \<Rightarrow> Inr (None, None)
      | Some p \<Rightarrow>
          if lb_addresses p = [] then Inr (None, Some p)
          else
            exec_bind (mutex_lock (lb_mutex p)) (\<lambda>m.
              Inr (map_option lb_address (first_available (lb_addresses p)),
                   Some (p\<lparr>lb_mutex := mutex_unlock m\<rparr>))))"

fun total_weight :: "grpc_lb_address list \<Rightarrow> int \<Rightarrow> int" where
  "total_weight [] acc = acc"
| "total_weight (a # addr) acc =
     total_weight addr (if lb_is_available a then to_int32 (acc + lb_weight a) else acc)"

fun weighted_search :: "grpc_lb_address list \<Rightarrow> int \<Rightarrow> int \<Rightarrow> grpc_lb_address option" where
  "weighted_search [] current_weight random_weight = None"
| "weighted_search (a # addr) current_weight random_weight =
     (if lb_is_available a
      then (let current = to_int32 (current_weight + lb_weight a)
            in if current > random_weight then Some a else weighted_search addr current random_weight)
      else weighted_search addr current_weight random_weight)"

definition grpc_lb_weighted_pick ::
    "int \<Rightarrow> grpc_lb_policy option \<Rightarrow> (string option \<times> grpc_lb_policy option) exec" where
  "grpc_lb_weighted_pick rand policy =
     (case policy of
        None \<Rightarrow> Inr (None, None)
      | Some p \<Rightarrow>
          if lb_addresses p = [] \<or> lb_address_count p = 0 then Inr (None, Some p)
          else
            exec_bind (mutex_lock (lb_mutex p)) (\<lambda>m.
              let total = total_weight (lb_addresses p) 0
              in if total = 0 then Inr (None, Some (p\<lparr>lb_mutex := mutex_unlock m\<rparr>))
                 else Inr (map_option lb_address (weighted_search (lb_addresses p) 0 (rand smod total)),
                           Some (p\<lparr>lb_mutex := mutex_unlock m\<rparr>))))"

definition grpc_lb_policy_create :: "grpc_lb_policy_type \<Rightarrow> alloc \<Rightarrow> grpc_lb_policy option \<times> alloc" where
  "grpc_lb_policy_create type os =
     (let (ok, os1) = alloc_next os
      in if \<not> ok then (None, os1)
         else (Some \<lparr>lb_type = type, lb_addresses = [], lb_address_count = 0, lb_current_index = 0,
                     lb_mutex = False\<rparr>, os1))"

definition lb_append :: "grpc_lb_policy \<Rightarrow> grpc_lb_address \<Rightarrow> grpc_lb_policy exec" where
  "lb_append p a =
     exec_bind (mutex_lock (lb_mutex p)) (\<lambda>m.
       Inr (p\<lparr>lb_addresses := lb_addresses p @ [a], lb_address_count := lb_address_count p + 1,
              lb_mutex := mutex_unlock m\<rparr>))"

definition grpc_lb_policy_add_address ::
    "grpc_lb_policy option \<Rightarrow> string option \<Rightarrow> int \<Rightarrow> alloc \<Rightarrow> (int \<times> grpc_lb_policy option \<times> alloc) exec" where
  "grpc_lb_policy_add_address policy address weight os =
     (case (policy, address) of
        (Some p, Some s) \<Rightarrow>
          (case grpc_lb_address_create s weight os of
             (None, os1) \<Rightarrow> Inr (-1, policy, os1)
           | (Some a, os1) \<Rightarrow> exec_bind (lb_append p a) (\<lambda>p'. Inr (0, Some p', os1)))
      | _ \<Rightarrow> Inr (-1, policy, os))"

definition grpc_lb_policy_pick ::
    "int \<Rightarrow> grpc_lb_policy option \<Rightarrow> (string option \<times> grpc_lb_policy option) exec" where
  "grpc_lb_policy_pick rand policy =
     (case policy of
        None \<Rightarrow> Inr (None, None)
      | Some p \<Rightarrow>
          (case lb_type p of
             GRPC_LB_POLICY_ROUND_ROBIN \<Rightarrow> grpc_lb_round_robin_pick policy
           | GRPC_LB_POLICY_PICK_FIRST \<Rightarrow> grpc_lb_pick_first_pick policy
           | GRPC_LB_POLICY_WEIGHTED \<Rightarrow> grpc_lb_weighted_pick rand policy))"

text \<open>Setting the flag of the first address that is equal; \<open>None\<close> when there is none.\<close>

fun mark_first :: "bool \<Rightarrow> string \<Rightarrow> grpc_lb_address list \<Rightarrow> grpc_lb_address list option" where
  "mark_first b s [] = None"
| "mark_first b s (a # addr) =
     (if lb_address a = s then Some (a\<lparr>lb_is_available := b\<rparr> # addr)
      else map_option (\<lambda>addr'. a # addr') (mark_first b s addr))"

definition lb_mark :: "bool \<Rightarrow> grpc_lb_policy option \<Rightarrow> string option \<Rightarrow> (int \<times> grpc_lb_policy option) exec" where
  "lb_mark b policy address =
     (case (policy, address) of
        (Some p, Some s) \<Rightarrow>
          exec_bind (mutex_lock (lb_mutex p)) (\<lambda>m.
            (case mark_first b s (lb_addresses p) of
               Some addrs \<Rightarrow> Inr (0, Some (p\<lparr>lb_addresses := addrs, lb_mutex := mutex_unlock m\<rparr>))
             | None \<Rightarrow> Inr (-1, Some (p\<lparr>lb_mutex := mutex_unlock m\<rparr>))))
      | _ \<Rightarrow> Inr (-1, policy))"

definition grpc_lb_policy_mark_unavailable ::
    "grpc_lb_policy option \<Rightarrow> string option \<Rightarrow> (int \<times> grpc_lb_policy option) exec" where
  "grpc_lb_policy_mark_unavailable policy address = lb_mark False policy address"

definition grpc_lb_policy_mark_available ::
    "grpc_lb_policy option \<Rightarrow> string option \<Rightarrow> (int \<times> grpc_lb_policy option) exec" where
  "grpc_lb_policy_mark_available policy address = lb_mark True policy address"

text \<open>Destroying a policy: the addresses freed, in order.\<close>

fun lb_addresses_destroy :: "grpc_lb_address list \<Rightarrow> string list" where
  "lb_addresses_destroy [] = []"
| "lb_addresses_destroy (a # as) = grpc_lb_address_destroy (Some a) @ lb_addresses_destroy as"

definition grpc_lb_policy_destroy :: "grpc_lb_policy option \<Rightarrow> string list exec" where
  "grpc_lb_policy_destroy policy =
     (case policy of
        None \<Rightarrow> Inr []
      | Some p \<Rightarrow> exec_bind (mutex_lock (lb_mutex p)) (\<lambda>m. Inr (lb_addresses_destroy (lb_addresses p))))"

lemma lb_addresses_destroy_eq [simp]: "lb_addresses_destroy as = map lb_address as"
  by (induction as) (simp_all add: grpc_lb_address_destroy_def)

section \<open>Invariant\<close>

definition lb_inv :: "grpc_lb_policy \<Rightarrow> bool" where
  "lb_inv p \<longleftrightarrow> \<not> lb_mutex p \<and> lb_address_count p = length (lb_addresses p) \<and>
     (lb_addresses p = [] \<and> lb_current_index p = 0 \<or> lb_current_index p < length (lb_addresses p)) \<and>
     (\<forall>a\<in>set (lb_addresses p). lb_weight a > 0)"

lemma lb_update_same [simp]: "lb_mutex p = m \<Longrightarrow> p\<lparr>lb_mutex := m\<rparr> = p"
  by (cases p) simp

section \<open>Round robin\<close>

text \<open>Searching from a node and starting over at the front is searching the rotated list.\<close>

lemma rr_search_prefix:
  "n \<le> length ys \<Longrightarrow> rr_search xs ys n = find lb_is_available (take n ys)"
proof (induction n arbitrary: ys)
  case 0
  then show ?case by (cases ys) auto
next
  case (Suc n)
  then obtain a zs where ys: "ys = a # zs" by (cases ys) auto
  show ?case
  proof (cases zs)
    case Nil
    with Suc.prems ys have "n = 0" by simp
    with ys Nil show ?thesis by (cases xs) auto
  next
    case (Cons b bs)
    with Suc ys show ?thesis by simp
  qed
qed

lemma rr_search_wrap:
  "ys \<noteq> [] \<Longrightarrow> k \<le> length xs \<Longrightarrow> rr_search xs ys (length ys + k) = find lb_is_available (ys @ take k xs)"
proof (induction ys)
  case Nil
  then show ?case by simp
next
  case (Cons a zs)
  show ?case
  proof (cases zs)
    case Nil
    have "rr_search xs xs k = find lb_is_available (take k xs)" using Cons.prems by (simp add: rr_search_prefix)
    with Nil show ?thesis by simp
  next
    case (Cons b bs)
    with Cons.IH Cons.prems show ?thesis by simp
  qed
qed

lemma rr_search_rotate:
  "i < length xs \<Longrightarrow> rr_search xs (drop i xs) (length xs) = find lb_is_available (rotate i xs)"
proof -
  assume i: "i < length xs"
  have eq: "length (drop i xs) + i = length xs" using i by simp
  have "drop i xs \<noteq> []" "i \<le> length xs" using i by simp_all
  from rr_search_wrap [OF this, unfolded eq] i show ?thesis
    by (simp add: rotate_drop_take)
qed

lemma round_robin_pick_eq:
  assumes "lb_inv p" and "lb_addresses p \<noteq> []"
  shows "grpc_lb_round_robin_pick (Some p) =
    (case find lb_is_available (rotate (lb_current_index p) (lb_addresses p)) of
       Some a \<Rightarrow> Inr (Some (lb_address a),
         Some (p\<lparr>lb_current_index := (lb_current_index p + 1) mod length (lb_addresses p)\<rparr>))
     | None \<Rightarrow> Inr (None, Some p))"
  using assms by (auto simp: grpc_lb_round_robin_pick_def lb_inv_def rr_search_rotate split: option.splits)

text \<open>Picking \<open>n\<close> times in a row.\<close>

fun picks :: "nat \<Rightarrow> int list \<Rightarrow> grpc_lb_policy \<Rightarrow> (string option list \<times> grpc_lb_policy) exec" where
  "picks 0 rs p = Inr ([], p)"
| "picks (Suc n) rs p =
     exec_bind (grpc_lb_policy_pick (case rs of [] \<Rightarrow> 0 | r # _ \<Rightarrow> r) (Some p)) (\<lambda>(s, p').
       exec_bind (picks n (tl rs) (the p')) (\<lambda>(ss, p''). Inr (s # ss, p'')))"

text \<open>The first available address when the search starts at index \<open>i\<close>.\<close>

definition rr_choice :: "grpc_lb_address list \<Rightarrow> nat \<Rightarrow> string option" where
  "rr_choice xs i = map_option lb_address (find lb_is_available (rotate i xs))"

lemma rr_choice_all_available:
  assumes "\<forall>a\<in>set xs. lb_is_available a" and "i < length xs"
  shows "rr_choice xs i = Some (lb_address (xs ! i))"
proof -
  obtain y ys where y: "rotate i xs = y # ys" using assms(2) by (cases "rotate i xs") auto
  then have "y = xs ! i" using nth_rotate [of 0 xs i] assms(2) by (cases xs) auto
  moreover have "lb_is_available y" using y assms(1) by (metis list.set_intros(1) set_rotate)
  ultimately show ?thesis by (simp add: rr_choice_def y)
qed

lemma find_SomeI: "\<exists>a\<in>set xs. P a \<Longrightarrow> \<exists>a. find P xs = Some a"
  by (induction xs) auto

lemma round_robin_picks:
  assumes "lb_inv p" and "lb_type p = GRPC_LB_POLICY_ROUND_ROBIN"
    and "\<exists>a\<in>set (lb_addresses p). lb_is_available a"
  shows "\<exists>p'. picks n rs p = Inr (map (\<lambda>k. rr_choice (lb_addresses p)
        ((lb_current_index p + k) mod length (lb_addresses p))) [0..<n], p') \<and>
    lb_inv p' \<and> lb_addresses p' = lb_addresses p \<and>
    lb_current_index p' = (lb_current_index p + n) mod length (lb_addresses p)"
  using assms
proof (induction n arbitrary: p rs)
  case 0
  then have "lb_current_index p < length (lb_addresses p)" by (auto simp: lb_inv_def)
  with 0 show ?case by simp
next
  case (Suc n)
  let ?xs = "lb_addresses p" and ?i = "lb_current_index p"
  let ?p = "p\<lparr>lb_current_index := (?i + 1) mod length ?xs\<rparr>"
  have ne: "?xs \<noteq> []" using Suc.prems(3) by auto
  have i: "?i < length ?xs" using Suc.prems(1) ne by (auto simp: lb_inv_def)
  obtain a where a: "find lb_is_available (rotate ?i ?xs) = Some a"
    using find_SomeI [of "rotate ?i ?xs" lb_is_available] Suc.prems(3) by auto
  have inv: "lb_inv ?p" using Suc.prems(1) ne by (auto simp: lb_inv_def)
  from Suc.IH [OF inv, of "tl rs"] Suc.prems(2,3) obtain p' where
    p': "picks n (tl rs) ?p = Inr (map (\<lambda>k. rr_choice ?xs (((?i + 1) mod length ?xs + k) mod length ?xs)) [0..<n], p')"
      "lb_inv p'" "lb_addresses p' = ?xs"
      "lb_current_index p' = ((?i + 1) mod length ?xs + n) mod length ?xs" by auto
  have pk: "grpc_lb_policy_pick r (Some p) = Inr (rr_choice ?xs ?i, Some ?p)" for r
    using Suc.prems(2) round_robin_pick_eq [OF Suc.prems(1) ne] a
    by (simp add: grpc_lb_policy_pick_def rr_choice_def)
  have shift: "(Suc ?i mod length ?xs + k) mod length ?xs = Suc (?i + k) mod length ?xs" for k
    using mod_add_left_eq [of "Suc ?i" "length ?xs" k] by simp
  have "[0..<Suc n] = 0 # map Suc [0..<n]" by (simp add: upt_conv_Cons map_Suc_upt del: upt_Suc)
  with p' pk i show ?case by (simp add: shift del: upt_Suc)
qed

section \<open>Weighted picks\<close>

text \<open>The weights of the available addresses, as long as their sum fits in an \<open>int\<close>.\<close>

definition weight_sum :: "grpc_lb_address list \<Rightarrow> int" where
  "weight_sum xs = sum_list (map lb_weight (filter lb_is_available xs))"

lemma weight_sum_simps [simp]:
  "weight_sum [] = 0"
  "weight_sum (a # xs) = (if lb_is_available a then lb_weight a + weight_sum xs else weight_sum xs)"
  by (simp_all add: weight_sum_def)

lemma weight_sum_nonneg: "\<forall>a\<in>set xs. lb_weight a > 0 \<Longrightarrow> 0 \<le> weight_sum xs"
  by (induction xs) auto

lemma total_weight_eq:
  "\<forall>a\<in>set xs. lb_weight a > 0 \<Longrightarrow> 0 \<le> acc \<Longrightarrow> acc + weight_sum xs < 2 ^ 31 \<Longrightarrow>
   total_weight xs acc = acc + weight_sum xs"
proof (induction xs arbitrary: acc)
  case Nil
  then show ?case by simp
next
  case (Cons a xs)
  have "0 \<le> weight_sum xs" using Cons.prems(1) by (simp add: weight_sum_nonneg)
  with Cons show ?case by auto
qed

text \<open>The address a random number stands for: the numbers are dealt out in the order of the
  list, to each available address as many as its weight.\<close>

text \<open>The random numbers for which an address is picked, when the search starts with weight \<open>acc\<close>.\<close>

definition weight_slots :: "grpc_lb_address list \<Rightarrow> int \<Rightarrow> grpc_lb_address \<Rightarrow> int set" where
  "weight_slots xs acc a = {r. acc \<le> r \<and> r < acc + weight_sum xs \<and>
     map_option lb_address (weighted_search xs acc r) = Some (lb_address a)}"

lemma weighted_search_member: "weighted_search xs c r = Some x \<Longrightarrow> x \<in> set xs"
  by (induction xs c r rule: weighted_search.induct) (auto simp: Let_def split: if_splits)

lemma weighted_search_other:
  assumes "distinct (map lb_address (b # xs))"
  shows "map_option lb_address (weighted_search xs c r) \<noteq> Some (lb_address b)"
  using assms weighted_search_member [of xs c r] by (fastforce simp: image_iff)

lemma weight_slots_skip:
  assumes "\<not> lb_is_available b" and "distinct (map lb_address (b # xs))"
  shows "weight_slots (b # xs) acc a = (if lb_address a = lb_address b then {} else weight_slots xs acc a)"
  using assms(1) weighted_search_other [OF assms(2)] by (auto simp: weight_slots_def)

lemma weight_slots_take:
  assumes "lb_is_available b" and "distinct (map lb_address (b # xs))" and "lb_weight b > 0" and "0 \<le> weight_sum xs"
    and "to_int32 (acc + lb_weight b) = acc + lb_weight b"
  shows "weight_slots (b # xs) acc a =
    (if lb_address a = lb_address b then {acc..<acc + lb_weight b} else weight_slots xs (acc + lb_weight b) a)"
proof -
  have s: "weighted_search (b # xs) acc r =
      (if r < acc + lb_weight b then Some b else weighted_search xs (acc + lb_weight b) r)" for r
    using assms(1,5) by (simp add: Let_def)
  have "weight_sum (b # xs) = lb_weight b + weight_sum xs" using assms(1) by simp
  then show ?thesis
    using weighted_search_other [OF assms(2)] assms(3,4)
    by (auto simp: weight_slots_def s simp del: weighted_search.simps split: if_splits)
qed

lemma weighted_search_card:
  assumes "\<forall>a\<in>set xs. lb_weight a > 0" and "0 \<le> acc" and "acc + weight_sum xs < 2 ^ 31"
    and "distinct (map lb_address xs)" and "a \<in> set xs"
  shows "card (weight_slots xs acc a) = (if lb_is_available a then nat (lb_weight a) else 0)"
  using assms
proof (induction xs arbitrary: acc)
  case Nil
  then show ?case by simp
next
  case (Cons b xs)
  have pos: "lb_weight b > 0" "0 \<le> weight_sum xs" using Cons.prems(1) by (simp_all add: weight_sum_nonneg)
  have eq: "lb_address a = lb_address b \<longleftrightarrow> a = b"
    using Cons.prems(4,5) by (auto simp: image_iff)
  have rest: "a \<in> set xs" if "a \<noteq> b" using Cons.prems(5) that by simp
  show ?case
  proof (cases "lb_is_available b")
    case False
    with weight_slots_skip [OF False Cons.prems(4)] rest Cons.IH [of acc] Cons.prems eq show ?thesis by simp
  next
    case True
    have "to_int32 (acc + lb_weight b) = acc + lb_weight b" using Cons.prems(2,3) True pos by simp
    with weight_slots_take [OF True Cons.prems(4) pos] rest Cons.IH [of "acc + lb_weight b"] Cons.prems eq True pos
    show ?thesis by simp
  qed
qed

section \<open>Properties\<close>

text \<open>
  C22. Round robin is fair: over a full round of picks with all addresses available every address
  is picked exactly once, in list order starting at the current index, and the policy is back
  in its state. The number of addresses is arbitrary.
\<close>

theorem grpc_lb_round_robin_fair:
  assumes "lb_inv p" and "lb_type p = GRPC_LB_POLICY_ROUND_ROBIN" and "lb_addresses p \<noteq> []"
    and "\<forall>a\<in>set (lb_addresses p). lb_is_available a"
  shows "\<exists>p'. picks (length (lb_addresses p)) rs p =
      Inr (map (\<lambda>a. Some (lb_address a)) (rotate (lb_current_index p) (lb_addresses p)), p') \<and>
    lb_inv p' \<and> lb_addresses p' = lb_addresses p \<and> lb_current_index p' = lb_current_index p"
proof -
  let ?xs = "lb_addresses p" and ?i = "lb_current_index p"
  have av: "\<exists>a\<in>set ?xs. lb_is_available a" using assms(3,4) by (cases ?xs) auto
  have i: "?i < length ?xs" using assms(1,3) by (auto simp: lb_inv_def)
  from round_robin_picks [OF assms(1,2) av, of "length ?xs" rs] obtain p' where
    p': "picks (length ?xs) rs p = Inr (map (\<lambda>k. rr_choice ?xs ((?i + k) mod length ?xs)) [0..<length ?xs], p')"
      "lb_inv p'" "lb_addresses p' = ?xs" "lb_current_index p' = (?i + length ?xs) mod length ?xs" by blast
  have "map (\<lambda>k. rr_choice ?xs ((?i + k) mod length ?xs)) [0..<length ?xs] =
      map (\<lambda>a. Some (lb_address a)) (rotate ?i ?xs)"
  proof (rule nth_equalityI)
    fix k
    assume "k < length (map (\<lambda>k. rr_choice ?xs ((?i + k) mod length ?xs)) [0..<length ?xs])"
    then have k: "k < length ?xs" by simp
    then have "(?i + k) mod length ?xs < length ?xs" by (intro mod_less_divisor) auto
    with rr_choice_all_available [OF assms(4) this] k show
      "map (\<lambda>k. rr_choice ?xs ((?i + k) mod length ?xs)) [0..<length ?xs] ! k =
       map (\<lambda>a. Some (lb_address a)) (rotate ?i ?xs) ! k"
      by (simp add: nth_rotate)
  qed simp
  with p' i show ?thesis by simp
qed

definition lb_demo :: "grpc_lb_policy_type \<Rightarrow> grpc_lb_policy" where
  "lb_demo ty = \<lparr>lb_type = ty, lb_addresses =
     [\<lparr>lb_address = ''a'', lb_weight = 1, lb_is_available = True\<rparr>,
      \<lparr>lb_address = ''b'', lb_weight = 3, lb_is_available = True\<rparr>],
     lb_address_count = 2, lb_current_index = 1, lb_mutex = False\<rparr>"

lemma lb_inv_demo: "lb_inv (lb_demo ty)"
  by (simp add: lb_inv_def lb_demo_def)

theorem grpc_lb_round_robin_fair_witness:
  "\<exists>p'. picks 2 [] (lb_demo GRPC_LB_POLICY_ROUND_ROBIN) = Inr ([Some ''b'', Some ''a''], p') \<and>
    lb_current_index p' = 1"
  using grpc_lb_round_robin_fair [OF lb_inv_demo, of GRPC_LB_POLICY_ROUND_ROBIN "[]"]
  by (auto simp: lb_demo_def numeral_2_eq_2 simp del: picks.simps)

lemma first_available_find: "first_available xs = find lb_is_available xs"
  by (induction xs) auto

lemma found_available:
  assumes "set ys = set xs" and "s = map_option lb_address (find lb_is_available ys)"
  shows "if \<exists>a\<in>set xs. lb_is_available a
    then \<exists>a\<in>set xs. lb_is_available a \<and> s = Some (lb_address a) \<and> map_option lb_address (find lb_is_available ys) = s
    else s = None"
proof (cases "find lb_is_available ys")
  case None
  then have "\<not> (\<exists>a\<in>set xs. lb_is_available a)" using assms(1) by (auto simp: find_None_iff)
  with None assms(2) show ?thesis by simp
next
  case (Some a)
  then have "a \<in> set ys" "lb_is_available a" by (auto simp: find_Some_iff)
  with Some assms show ?thesis by auto
qed

lemma pick_finds:
  assumes "lb_inv p" and "lb_type p \<noteq> GRPC_LB_POLICY_WEIGHTED"
  shows "\<exists>p'. grpc_lb_policy_pick rand (Some p) = Inr (map_option lb_address (find lb_is_available
      (if lb_type p = GRPC_LB_POLICY_ROUND_ROBIN then rotate (lb_current_index p) (lb_addresses p) else lb_addresses p)), Some p') \<and>
    lb_inv p' \<and> lb_addresses p' = lb_addresses p"
proof (cases "lb_addresses p = []")
  case True
  with assms show ?thesis
    by (cases "lb_type p") (auto simp: grpc_lb_policy_pick_def grpc_lb_round_robin_pick_def grpc_lb_pick_first_pick_def)
next
  case False
  have m: "\<not> lb_mutex p" using assms(1) by (simp add: lb_inv_def)
  have inv: "lb_inv (p\<lparr>lb_current_index := (lb_current_index p + 1) mod length (lb_addresses p)\<rparr>)"
    using assms(1) False by (auto simp: lb_inv_def)
  show ?thesis
  proof (cases "lb_type p")
    case GRPC_LB_POLICY_ROUND_ROBIN
    then show ?thesis
      using round_robin_pick_eq [OF assms(1) False] inv assms(1)
      by (auto simp: grpc_lb_policy_pick_def split: option.splits)
  next
    case GRPC_LB_POLICY_PICK_FIRST
    then show ?thesis
      using False m assms(1)
      by (auto simp: grpc_lb_policy_pick_def grpc_lb_pick_first_pick_def first_available_find split: option.splits)
  next
    case GRPC_LB_POLICY_WEIGHTED
    with assms(2) show ?thesis by simp
  qed
qed

text \<open>
  Every policy picks an available address whenever there is one and \<open>NULL\<close> otherwise: round
  robin the first available one at or cyclically after the current index (and then advances
  the index by one), pick-first the first available one. The list of addresses is unchanged
  and the mutex free.
\<close>

theorem grpc_lb_policy_pick_available:
  assumes "lb_inv p" and "lb_type p \<noteq> GRPC_LB_POLICY_WEIGHTED"
  shows "\<exists>s p'. grpc_lb_policy_pick rand (Some p) = Inr (s, Some p') \<and> lb_inv p' \<and>
    lb_addresses p' = lb_addresses p \<and>
    (if \<exists>a\<in>set (lb_addresses p). lb_is_available a
     then \<exists>a\<in>set (lb_addresses p). lb_is_available a \<and> s = Some (lb_address a) \<and>
       map_option lb_address (find lb_is_available
         (if lb_type p = GRPC_LB_POLICY_ROUND_ROBIN then rotate (lb_current_index p) (lb_addresses p)
          else lb_addresses p)) = s
     else s = None)"
proof -
  let ?ys = "if lb_type p = GRPC_LB_POLICY_ROUND_ROBIN then rotate (lb_current_index p) (lb_addresses p) else lb_addresses p"
  from pick_finds [OF assms, of rand] obtain p' where
    "grpc_lb_policy_pick rand (Some p) = Inr (map_option lb_address (find lb_is_available ?ys), Some p')"
    "lb_inv p'" "lb_addresses p' = lb_addresses p" by blast
  moreover have "set ?ys = set (lb_addresses p)" by simp
  note found_available [OF this refl]
  ultimately show ?thesis by blast
qed

theorem grpc_lb_policy_pick_available_witness:
  "\<exists>s p'. grpc_lb_policy_pick 0 (Some (lb_demo GRPC_LB_POLICY_PICK_FIRST)) = Inr (s, Some p') \<and>
    s = Some ''a''"
  using grpc_lb_policy_pick_available [OF lb_inv_demo, of GRPC_LB_POLICY_PICK_FIRST 0]
  by (fastforce simp: lb_demo_def)

text \<open>
  C23. The weighted policy is exact: of the \<open>total\<close> equally likely remainders of the random
  number (the sum of the available weights, as long as it fits in an \<open>int\<close>) exactly as many
  lead to an available address as its weight says, and none to an unavailable one.
\<close>

theorem grpc_lb_weighted_pick_exact:
  assumes "lb_inv p" and "lb_type p = GRPC_LB_POLICY_WEIGHTED"
    and "weight_sum (lb_addresses p) < 2 ^ 31" and "distinct (map lb_address (lb_addresses p))"
    and "a \<in> set (lb_addresses p)"
  shows "card {r. 0 \<le> r \<and> r < weight_sum (lb_addresses p) \<and>
      grpc_lb_policy_pick r (Some p) = Inr (Some (lb_address a), Some p)} =
    (if lb_is_available a then nat (lb_weight a) else 0)"
proof -
  let ?xs = "lb_addresses p"
  have pos: "\<forall>a\<in>set ?xs. lb_weight a > 0" and m: "\<not> lb_mutex p" and ne: "?xs \<noteq> []"
    and n: "lb_address_count p = length ?xs"
    using assms(1,5) by (auto simp: lb_inv_def)
  have tot: "total_weight ?xs 0 = weight_sum ?xs" using total_weight_eq [OF pos, of 0] assms(3) by simp
  have "grpc_lb_policy_pick r (Some p) =
      Inr (map_option lb_address (weighted_search ?xs 0 r), Some p)"
    if "0 \<le> r" "r < weight_sum ?xs" for r
  proof -
    have "r smod weight_sum ?xs = r"
      using that by (cases "r = 0") (simp_all add: signed_modulo_int_def sgn_if)
    then show ?thesis
      using that assms(2) ne n m tot
      by (simp add: grpc_lb_policy_pick_def grpc_lb_weighted_pick_def Let_def)
  qed
  then have "{r. 0 \<le> r \<and> r < weight_sum ?xs \<and> grpc_lb_policy_pick r (Some p) = Inr (Some (lb_address a), Some p)} =
      weight_slots ?xs 0 a"
    by (auto simp: weight_slots_def simp del: weighted_search.simps)
  with weighted_search_card [OF pos, of 0 a] assms(3-5) show ?thesis by simp
qed

theorem grpc_lb_weighted_pick_exact_witness:
  "card {r. 0 \<le> r \<and> r < 4 \<and>
      grpc_lb_policy_pick r (Some (lb_demo GRPC_LB_POLICY_WEIGHTED)) =
        Inr (Some ''b'', Some (lb_demo GRPC_LB_POLICY_WEIGHTED))} = 3"
proof -
  let ?b = "\<lparr>lb_address = ''b'', lb_weight = 3, lb_is_available = True\<rparr>"
  have "?b \<in> set (lb_addresses (lb_demo GRPC_LB_POLICY_WEIGHTED))"
    "weight_sum (lb_addresses (lb_demo GRPC_LB_POLICY_WEIGHTED)) = 4"
    by (simp_all add: lb_demo_def)
  with grpc_lb_weighted_pick_exact [OF lb_inv_demo, of GRPC_LB_POLICY_WEIGHTED ?b] show ?thesis
    by (simp add: lb_demo_def)
qed

section \<open>Adding and marking\<close>

lemma lb_append_ok:
  "lb_inv p \<Longrightarrow> lb_weight a > 0 \<Longrightarrow>
   \<exists>p'. lb_append p a = Inr p' \<and> lb_inv p' \<and> lb_addresses p' = lb_addresses p @ [a] \<and>
     lb_current_index p' = lb_current_index p \<and> lb_type p' = lb_type p"
  by (auto simp: lb_append_def lb_inv_def)

lemma mark_first_spec:
  "mark_first b s xs =
     (if s \<in> set (map lb_address xs)
      then Some (takeWhile (\<lambda>a. lb_address a \<noteq> s) xs @
        (hd (dropWhile (\<lambda>a. lb_address a \<noteq> s) xs))\<lparr>lb_is_available := b\<rparr> #
        tl (dropWhile (\<lambda>a. lb_address a \<noteq> s) xs))
      else None)"
  by (induction xs) auto

text \<open>
  Adding an address to a well-formed policy appends it, available, with its weight raised to
  at least one, or returns -1 with the policy unchanged when an allocation fails. Marking an
  address that is present changes the flag of its first occurrence and nothing else; marking
  an unknown one returns -1 and changes nothing.
\<close>

theorem grpc_lb_policy_add_and_mark:
  assumes "lb_inv p"
  shows "(\<exists>r p' os'. grpc_lb_policy_add_address (Some p) (Some s) w os = Inr (r, Some p', os') \<and> lb_inv p' \<and>
      (if r = 0 then lb_addresses p' = lb_addresses p @
           [\<lparr>lb_address = s, lb_weight = max w 1, lb_is_available = True\<rparr>]
       else r = - 1 \<and> p' = p \<and> \<not> alloc_ok os)) \<and>
    (\<exists>r p'. grpc_lb_policy_mark_unavailable (Some p) (Some s) = Inr (r, Some p') \<and> lb_inv p' \<and>
      map lb_address (lb_addresses p') = map lb_address (lb_addresses p) \<and>
      (if s \<in> set (map lb_address (lb_addresses p))
       then r = 0 \<and> (\<exists>us a vs. lb_addresses p = us @ a # vs \<and> lb_address a = s \<and>
         s \<notin> set (map lb_address us) \<and> lb_addresses p' = us @ a\<lparr>lb_is_available := False\<rparr> # vs)
       else r = - 1 \<and> p' = p))"
    (is "?add \<and> ?mark")
proof
  obtain ok1 os1 where o1: "alloc_next os = (ok1, os1)" by force
  obtain ok2 os2 where o2: "alloc_next os1 = (ok2, os2)" by force
  have al: "alloc_ok os \<longrightarrow> ok1 \<and> ok2" using o1 o2 by (cases os; cases os1) auto
  let ?a = "\<lparr>lb_address = s, lb_weight = (if w > 0 then w else 1), lb_is_available = True\<rparr>"
  have "lb_weight ?a > 0" by simp
  from lb_append_ok [OF assms this] obtain p' where "lb_append p ?a = Inr p'" "lb_inv p'"
    "lb_addresses p' = lb_addresses p @ [?a]" by blast
  then show ?add using assms o1 o2 al
    by (cases ok1; cases ok2)
      (simp_all add: grpc_lb_policy_add_address_def grpc_lb_address_create_def max_def)
next
  let ?xs = "lb_addresses p"
  have m: "\<not> lb_mutex p" using assms by (simp add: lb_inv_def)
  show ?mark
  proof (cases "s \<in> set (map lb_address ?xs)")
    case False
    then have "mark_first False s ?xs = None" by (simp add: mark_first_spec)
    with assms m False show ?thesis by (auto simp: grpc_lb_policy_mark_unavailable_def lb_mark_def)
  next
    case True
    then obtain us a vs where d: "?xs = us @ a # vs" "lb_address a = s" "\<forall>x\<in>set us. lb_address x \<noteq> s"
      using split_list_first_prop [of ?xs "\<lambda>a. lb_address a = s"] by auto
    then have tw: "takeWhile (\<lambda>a. lb_address a \<noteq> s) ?xs = us" "dropWhile (\<lambda>a. lb_address a \<noteq> s) ?xs = a # vs"
      by (simp_all add: takeWhile_append2 dropWhile_append2)
    let ?ys = "us @ a\<lparr>lb_is_available := False\<rparr> # vs"
    have "mark_first False s ?xs = Some ?ys" using True by (simp add: mark_first_spec tw)
    then have run: "grpc_lb_policy_mark_unavailable (Some p) (Some s) = Inr (0, Some (p\<lparr>lb_addresses := ?ys\<rparr>))"
      using m by (simp add: grpc_lb_policy_mark_unavailable_def lb_mark_def)
    have "lb_inv (p\<lparr>lb_addresses := ?ys\<rparr>)" using assms d(1) by (auto simp: lb_inv_def)
    moreover have "\<exists>us a vs. ?xs = us @ a # vs \<and> lb_address a = s \<and> s \<notin> set (map lb_address us) \<and>
        ?ys = us @ a\<lparr>lb_is_available := False\<rparr> # vs"
      using d by (intro exI [of _ us] exI [of _ a] exI [of _ vs]) auto
    ultimately show ?thesis using run True d(1) by (intro exI conjI) (assumption | simp)+
  qed
qed

theorem grpc_lb_policy_add_and_mark_witness:
  "\<exists>p'. grpc_lb_policy_mark_unavailable (Some (lb_demo GRPC_LB_POLICY_WEIGHTED)) (Some ''z'') =
     Inr (- 1, Some p') \<and> p' = lb_demo GRPC_LB_POLICY_WEIGHTED"
  using grpc_lb_policy_add_and_mark [OF lb_inv_demo, of GRPC_LB_POLICY_WEIGHTED "''z''" 0 "[]"]
  by (auto simp: lb_demo_def)

end
