(* ===== verification/Name_Resolver.thy ===== *)
theory Name_Resolver
  imports C_Lib
begin

text \<open>
  The name resolver of \<^verbatim>\<open>src/name_resolver.c\<close>: splitting a target into host and port, the DNS,
  static and custom resolvers, and the list of addresses a resolver keeps. \<open>getaddrinfo\<close> and
  \<open>inet_ntop\<close> are arguments, and so is the custom resolver, a function that may change a state
  \<open>'s\<close>. An empty list of addresses is the \<open>NULL\<close> pointer; the lists are built and freed as a
  whole. A resolver type outside its enumeration is not represented.
\<close>

section \<open>Data\<close>

datatype grpc_resolver_type = GRPC_RESOLVER_DNS | GRPC_RESOLVER_STATIC | GRPC_RESOLVER_CUSTOM

record grpc_resolved_address =
  ra_address :: string
  ra_port :: int

type_synonym 's custom_resolver = "string \<Rightarrow> nat option \<Rightarrow> 's \<Rightarrow> grpc_resolved_address list \<times> 's"

record 's grpc_name_resolver =
  nr_type :: grpc_resolver_type
  nr_target :: string
  nr_addresses :: "grpc_resolved_address list"
  nr_address_count :: nat
  nr_mutex :: mutex
  nr_custom_resolve :: "'s custom_resolver option"
  nr_user_data :: "nat option"

text \<open>An entry of the list \<open>getaddrinfo\<close> gives: the family and the raw address.\<close>

datatype ai_family = AF_INET | AF_INET6 | AF_OTHER

record addrinfo =
  ai_fam :: ai_family
  ai_raw :: nat

section \<open>Addresses\<close>

definition grpc_resolved_address_create :: "string \<Rightarrow> int \<Rightarrow> alloc \<Rightarrow> grpc_resolved_address option \<times> alloc" where
  "grpc_resolved_address_create address port os =
     (let (ok1, os1) = alloc_next os
      in if \<not> ok1 then (None, os1)
         else
           (let (ok2, os2) = alloc_next os1
            in if \<not> ok2 then (None, os2) else (Some \<lparr>ra_address = address, ra_port = port\<rparr>, os2)))"

text \<open>What destroying an address and a list of them frees.\<close>

definition grpc_resolved_address_destroy :: "grpc_resolved_address option \<Rightarrow> string list" where
  "grpc_resolved_address_destroy addr = (case addr of None \<Rightarrow> [] | Some a \<Rightarrow> [ra_address a])"

fun grpc_resolved_address_list_destroy :: "grpc_resolved_address list \<Rightarrow> string list" where
  "grpc_resolved_address_list_destroy [] = []"
| "grpc_resolved_address_list_destroy (a # as) =
     grpc_resolved_address_destroy (Some a) @ grpc_resolved_address_list_destroy as"

section \<open>Resolvers\<close>

text \<open>Host and port of a target, in a buffer of 256 characters: a host in front of a colon that
  does not fit is refused, a target without colon is cut.\<close>

definition parse_target :: "string \<Rightarrow> (string \<times> int) option" where
  "parse_target target =
     (case split_at_char (CHR '':'') target of
        Some (host, rest) \<Rightarrow> if length host \<ge> 256 then None else Some (host, atoi rest)
      | None \<Rightarrow> Some (take 255 target, 50051))"

text \<open>The loop over the results: entries of another family, that cannot be printed or for which
  there is no memory are left out.\<close>

fun dns_convert ::
    "(ai_family \<Rightarrow> nat \<Rightarrow> string option) \<Rightarrow> int \<Rightarrow> addrinfo list \<Rightarrow> alloc \<Rightarrow> grpc_resolved_address list \<times> alloc" where
  "dns_convert inet_ntop port [] os = ([], os)"
| "dns_convert inet_ntop port (rp # rps) os =
     (if ai_fam rp = AF_OTHER then dns_convert inet_ntop port rps os
      else
        (case inet_ntop (ai_fam rp) (ai_raw rp) of
           None \<Rightarrow> dns_convert inet_ntop port rps os
         | Some addr_str \<Rightarrow>
             (case grpc_resolved_address_create addr_str port os of
                (None, os1) \<Rightarrow> dns_convert inet_ntop port rps os1
              | (Some a, os1) \<Rightarrow> (let (as, os2) = dns_convert inet_ntop port rps os1 in (a # as, os2)))))"

definition grpc_dns_resolve ::
    "(string \<Rightarrow> addrinfo list option) \<Rightarrow> (ai_family \<Rightarrow> nat \<Rightarrow> string option) \<Rightarrow> string option \<Rightarrow> alloc \<Rightarrow>
     grpc_resolved_address list \<times> alloc" where
  "grpc_dns_resolve getaddrinfo inet_ntop target os =
     (case target of
        None \<Rightarrow> ([], os)
      | Some t \<Rightarrow>
          (case parse_target t of
             None \<Rightarrow> ([], os)
           | Some (hostname, port) \<Rightarrow>
               (case getaddrinfo hostname of
                  None \<Rightarrow> ([], os)
                | Some result \<Rightarrow> dns_convert inet_ntop port result os)))"

definition grpc_static_resolve :: "string option \<Rightarrow> alloc \<Rightarrow> grpc_resolved_address list \<times> alloc" where
  "grpc_static_resolve target os =
     (case target of
        None \<Rightarrow> ([], os)
      | Some t \<Rightarrow>
          (case parse_target t of
             None \<Rightarrow> ([], os)
           | Some (address, port) \<Rightarrow>
               (case grpc_resolved_address_create address port os of
                  (None, os1) \<Rightarrow> ([], os1)
                | (Some a, os1) \<Rightarrow> ([a], os1))))"

section \<open>Operations\<close>

definition grpc_name_resolver_create ::
    "grpc_resolver_type \<Rightarrow> string option \<Rightarrow> alloc \<Rightarrow> 's grpc_name_resolver option \<times> alloc" where
  "grpc_name_resolver_create type target os =
     (case target of
        None \<Rightarrow> (None, os)
      | Some t \<Rightarrow>
          (let (ok1, os1) = alloc_next os
           in if \<not> ok1 then (None, os1)
              else
                (let (ok2, os2) = alloc_next os1
                 in if \<not> ok2 then (None, os2)
                    else (Some \<lparr>nr_type = type, nr_target = t, nr_addresses = [], nr_address_count = 0,
                            nr_mutex = False, nr_custom_resolve = None, nr_user_data = None\<rparr>, os2))))"

text \<open>The counting loop.\<close>

fun count_addresses :: "grpc_resolved_address list \<Rightarrow> nat \<Rightarrow> nat" where
  "count_addresses [] n = n"
| "count_addresses (a # as) n = count_addresses as (n + 1)"

definition grpc_name_resolver_resolve ::
    "(string \<Rightarrow> addrinfo list option) \<Rightarrow> (ai_family \<Rightarrow> nat \<Rightarrow> string option) \<Rightarrow> 's grpc_name_resolver option \<Rightarrow> 's \<Rightarrow> alloc \<Rightarrow>
     (int \<times> 's grpc_name_resolver option \<times> 's \<times> alloc) exec" where
  "grpc_name_resolver_resolve getaddrinfo inet_ntop resolver s os =
     (case resolver of
        None \<Rightarrow> Inr (-1, None, s, os)
      | Some r \<Rightarrow>
          exec_bind (mutex_lock (nr_mutex r)) (\<lambda>m.
            let r0 = r\<lparr>nr_addresses := [], nr_address_count := 0\<rparr>;
                (resolved, s', os') =
                  (case nr_type r of
                     GRPC_RESOLVER_DNS \<Rightarrow>
                       (let (as, os1) = grpc_dns_resolve getaddrinfo inet_ntop (Some (nr_target r)) os in (as, s, os1))
                   | GRPC_RESOLVER_STATIC \<Rightarrow>
                       (let (as, os1) = grpc_static_resolve (Some (nr_target r)) os in (as, s, os1))
                   | GRPC_RESOLVER_CUSTOM \<Rightarrow>
                       (case nr_custom_resolve r of
                          None \<Rightarrow> ([], s, os)
                        | Some f \<Rightarrow> (let (as, s1) = f (nr_target r) (nr_user_data r) s in (as, s1, os))))
            in if resolved = [] then Inr (-1, Some (r0\<lparr>nr_mutex := mutex_unlock m\<rparr>), s', os')
               else Inr (0, Some (r0\<lparr>nr_addresses := resolved,
                           nr_address_count := count_addresses resolved (nr_address_count r0),
                           nr_mutex := mutex_unlock m\<rparr>), s', os')))"

definition grpc_name_resolver_get_addresses ::
    "'s grpc_name_resolver option \<Rightarrow> (grpc_resolved_address list \<times> 's grpc_name_resolver option) exec" where
  "grpc_name_resolver_get_addresses resolver =
     (case resolver of
        None \<Rightarrow> Inr ([], None)
      | Some r \<Rightarrow>
          exec_bind (mutex_lock (nr_mutex r)) (\<lambda>m. Inr (nr_addresses r, Some (r\<lparr>nr_mutex := mutex_unlock m\<rparr>))))"

definition grpc_name_resolver_get_address_count ::
    "'s grpc_name_resolver option \<Rightarrow> (nat \<times> 's grpc_name_resolver option) exec" where
  "grpc_name_resolver_get_address_count resolver =
     (case resolver of
        None \<Rightarrow> Inr (0, None)
      | Some r \<Rightarrow>
          exec_bind (mutex_lock (nr_mutex r)) (\<lambda>m. Inr (nr_address_count r, Some (r\<lparr>nr_mutex := mutex_unlock m\<rparr>))))"

definition grpc_name_resolver_set_custom_resolver ::
    "'s grpc_name_resolver option \<Rightarrow> 's custom_resolver option \<Rightarrow> nat option \<Rightarrow> (int \<times> 's grpc_name_resolver option) exec" where
  "grpc_name_resolver_set_custom_resolver resolver custom_resolve user_data =
     (case (resolver, custom_resolve) of
        (Some r, Some f) \<Rightarrow>
          exec_bind (mutex_lock (nr_mutex r)) (\<lambda>m.
            Inr (0, Some (r\<lparr>nr_custom_resolve := Some f, nr_user_data := user_data, nr_mutex := mutex_unlock m\<rparr>)))
      | _ \<Rightarrow> Inr (-1, resolver))"

definition grpc_name_resolver_destroy :: "'s grpc_name_resolver option \<Rightarrow> string list exec" where
  "grpc_name_resolver_destroy resolver =
     (case resolver of
        None \<Rightarrow> Inr []
      | Some r \<Rightarrow>
          exec_bind (mutex_lock (nr_mutex r)) (\<lambda>m.
            Inr (grpc_resolved_address_list_destroy (nr_addresses r) @ [nr_target r])))"

section \<open>Lemmas\<close>

definition resolver_inv :: "'s grpc_name_resolver \<Rightarrow> bool" where
  "resolver_inv r \<longleftrightarrow> \<not> nr_mutex r \<and> nr_address_count r = length (nr_addresses r)"

lemma count_addresses_length [simp]: "count_addresses as n = n + length as"
  by (induction as arbitrary: n) auto

lemma resolved_address_create_ok:
  "alloc_ok os \<Longrightarrow> \<exists>os'. grpc_resolved_address_create a p os = (Some \<lparr>ra_address = a, ra_port = p\<rparr>, os') \<and> alloc_ok os'"
proof -
  assume "alloc_ok os"
  then obtain os1 where os1: "alloc_next os = (True, os1)" "alloc_ok os1" by (rule alloc_next_okE)
  from os1(2) obtain os2 where "alloc_next os1 = (True, os2)" "alloc_ok os2" by (rule alloc_next_okE)
  with os1(1) show ?thesis by (simp add: grpc_resolved_address_create_def)
qed

lemma parse_target_host_port:
  "CHR '':'' \<notin> set host \<Longrightarrow> length host < 256 \<Longrightarrow> n < 2 ^ 31 \<Longrightarrow> parse_target (host @ '':'' @ dec n) = Some (host, int n)"
  by (simp add: parse_target_def atoi_dec)

text \<open>The addresses a list of results stands for.\<close>

definition dns_addresses :: "(ai_family \<Rightarrow> nat \<Rightarrow> string option) \<Rightarrow> int \<Rightarrow> addrinfo list \<Rightarrow> grpc_resolved_address list" where
  "dns_addresses inet_ntop port rps =
     map (\<lambda>rp. \<lparr>ra_address = the (inet_ntop (ai_fam rp) (ai_raw rp)), ra_port = port\<rparr>)
       (filter (\<lambda>rp. ai_fam rp \<noteq> AF_OTHER \<and> inet_ntop (ai_fam rp) (ai_raw rp) \<noteq> None) rps)"

lemma dns_convert_eq:
  "alloc_ok os \<Longrightarrow> \<exists>os'. dns_convert inet_ntop port rps os = (dns_addresses inet_ntop port rps, os') \<and> alloc_ok os'"
proof (induction rps arbitrary: os)
  case Nil
  then show ?case by (simp add: dns_addresses_def)
next
  case (Cons rp rps)
  show ?case
  proof (cases "ai_fam rp \<noteq> AF_OTHER \<and> inet_ntop (ai_fam rp) (ai_raw rp) \<noteq> None")
    case True
    then obtain a where a: "ai_fam rp \<noteq> AF_OTHER" "inet_ntop (ai_fam rp) (ai_raw rp) = Some a" by auto
    from resolved_address_create_ok [OF Cons.prems, of a port] obtain os1 where
      os1: "grpc_resolved_address_create a port os = (Some \<lparr>ra_address = a, ra_port = port\<rparr>, os1)" "alloc_ok os1" by blast
    from Cons.IH [OF os1(2)] a os1(1) show ?thesis by (auto simp: dns_addresses_def)
  next
    case False
    with Cons.IH [OF Cons.prems] show ?thesis by (auto simp: dns_addresses_def split: option.splits)
  qed
qed

lemma resolve_cases:
  assumes "resolver_inv r"
  obtains as s' os' where "grpc_name_resolver_resolve gai ntop (Some r) s os =
      Inr (if as = [] then -1 else 0, Some (r\<lparr>nr_addresses := as, nr_address_count := length as\<rparr>), s', os')"
    "nr_type r = GRPC_RESOLVER_STATIC \<Longrightarrow> as = fst (grpc_static_resolve (Some (nr_target r)) os)"
    "nr_type r = GRPC_RESOLVER_DNS \<Longrightarrow> as = fst (grpc_dns_resolve gai ntop (Some (nr_target r)) os)"
    "nr_type r = GRPC_RESOLVER_CUSTOM \<Longrightarrow> as = (case nr_custom_resolve r of None \<Rightarrow> []
       | Some f \<Rightarrow> fst (f (nr_target r) (nr_user_data r) s))"
proof -
  have m: "\<not> nr_mutex r" using assms by (simp add: resolver_inv_def)
  have same: "r\<lparr>nr_addresses := as, nr_address_count := n, nr_mutex := False\<rparr> = r\<lparr>nr_addresses := as, nr_address_count := n\<rparr>"
    for as n using m by (cases r) simp
  show ?thesis
  proof (cases "nr_type r")
    case GRPC_RESOLVER_DNS
    obtain as os' where r: "grpc_dns_resolve gai ntop (Some (nr_target r)) os = (as, os')" by force
    show ?thesis
      by (rule that [of as s os']) (use GRPC_RESOLVER_DNS r m same in \<open>simp_all add: grpc_name_resolver_resolve_def\<close>)
  next
    case GRPC_RESOLVER_STATIC
    obtain as os' where r: "grpc_static_resolve (Some (nr_target r)) os = (as, os')" by force
    show ?thesis
      by (rule that [of as s os']) (use GRPC_RESOLVER_STATIC r m same in \<open>simp_all add: grpc_name_resolver_resolve_def\<close>)
  next
    case GRPC_RESOLVER_CUSTOM
    obtain as s' where r: "(case nr_custom_resolve r of None \<Rightarrow> ([], s) | Some f \<Rightarrow> f (nr_target r) (nr_user_data r) s) = (as, s')"
      by force
    show ?thesis
      by (rule that [of as s' os]) (use GRPC_RESOLVER_CUSTOM r m same in
        \<open>simp_all add: grpc_name_resolver_resolve_def split: option.splits\<close>)
  qed
qed

section \<open>Properties\<close>

text \<open>
  A resolution replaces what the resolver held: it returns 0 exactly if it found addresses,
  then holds these and counts them; otherwise it returns -1 and holds none, also when an earlier
  resolution had succeeded. It never faults and its mutex is free afterwards.
\<close>

theorem grpc_name_resolver_resolve_replaces:
  assumes "resolver_inv r"
  shows "\<exists>ret r' s' os' as. grpc_name_resolver_resolve gai ntop (Some r) s os = Inr (ret, Some r', s', os') \<and>
    resolver_inv r' \<and> grpc_name_resolver_get_addresses (Some r') = Inr (as, Some r') \<and>
    grpc_name_resolver_get_address_count (Some r') = Inr (length as, Some r') \<and>
    (ret = 0 \<and> as \<noteq> [] \<or> ret = -1 \<and> as = []) \<and>
    nr_target r' = nr_target r \<and> nr_type r' = nr_type r \<and> nr_custom_resolve r' = nr_custom_resolve r"
proof -
  from assms obtain as s' os' where r: "grpc_name_resolver_resolve gai ntop (Some r) s os =
      Inr (if as = [] then -1 else 0, Some (r\<lparr>nr_addresses := as, nr_address_count := length as\<rparr>), s', os')"
    by (rule resolve_cases [where gai = gai and ntop = ntop and s = s and os = os])
  let ?r = "r\<lparr>nr_addresses := as, nr_address_count := length as\<rparr>"
  have m: "\<not> nr_mutex ?r" "?r\<lparr>nr_mutex := False\<rparr> = ?r" using assms by (cases r; simp add: resolver_inv_def)+
  have "resolver_inv ?r" "grpc_name_resolver_get_addresses (Some ?r) = Inr (as, Some ?r)"
    "grpc_name_resolver_get_address_count (Some ?r) = Inr (length as, Some ?r)"
    using m by (simp_all add: resolver_inv_def grpc_name_resolver_get_addresses_def grpc_name_resolver_get_address_count_def)
  with r show ?thesis by (intro exI [of _ "if as = [] then -1 else 0"] exI [of _ ?r]) auto
qed

text \<open>
  C34. With working memory a static resolver for "host:port" holds exactly that host and port; a DNS
  resolver holds, in order, the printed form of every IPv4 and IPv6 result for the host that can
  be printed, each with that port.
\<close>

theorem grpc_name_resolver_resolve_exact:
  assumes "resolver_inv r" and "alloc_ok os" and "nr_target r = host @ '':'' @ dec n"
    and "CHR '':'' \<notin> set host" and "length host < 256" and "n < 2 ^ 31"
  shows "\<exists>ret r' s' os'. grpc_name_resolver_resolve gai ntop (Some r) s os = Inr (ret, Some r', s', os') \<and>
    (nr_type r = GRPC_RESOLVER_STATIC \<longrightarrow> nr_addresses r' = [\<lparr>ra_address = host, ra_port = int n\<rparr>]) \<and>
    (nr_type r = GRPC_RESOLVER_DNS \<longrightarrow> nr_addresses r' =
      (case gai host of None \<Rightarrow> [] | Some rps \<Rightarrow> dns_addresses ntop (int n) rps))"
proof -
  have pt: "parse_target (nr_target r) = Some (host, int n)" unfolding assms(3) by (rule parse_target_host_port [OF assms(4-6)])
  from resolved_address_create_ok [OF assms(2), of host "int n"] pt
  have st: "fst (grpc_static_resolve (Some (nr_target r)) os) = [\<lparr>ra_address = host, ra_port = int n\<rparr>]"
    by (auto simp: grpc_static_resolve_def)
  have dns: "fst (grpc_dns_resolve gai ntop (Some (nr_target r)) os) =
      (case gai host of None \<Rightarrow> [] | Some rps \<Rightarrow> dns_addresses ntop (int n) rps)"
  proof (cases "gai host")
    case None
    with pt show ?thesis by (simp add: grpc_dns_resolve_def)
  next
    case (Some rps)
    with dns_convert_eq [OF assms(2), of ntop "int n" rps] pt show ?thesis by (auto simp: grpc_dns_resolve_def)
  qed
  from assms(1) show ?thesis
  proof (rule resolve_cases [where gai = gai and ntop = ntop and s = s and os = os])
    fix as s' os'
    assume r: "grpc_name_resolver_resolve gai ntop (Some r) s os =
        Inr (if as = [] then -1 else 0, Some (r\<lparr>nr_addresses := as, nr_address_count := length as\<rparr>), s', os')"
      and "nr_type r = GRPC_RESOLVER_STATIC \<Longrightarrow> as = fst (grpc_static_resolve (Some (nr_target r)) os)"
      and "nr_type r = GRPC_RESOLVER_DNS \<Longrightarrow> as = fst (grpc_dns_resolve gai ntop (Some (nr_target r)) os)"
    with st dns show ?thesis by (intro exI [of _ "if as = [] then -1 else 0"] exI) (rule conjI, rule r, simp)
  qed
qed

definition resolver_demo :: "grpc_resolver_type \<Rightarrow> unit grpc_name_resolver" where
  "resolver_demo ty = \<lparr>nr_type = ty, nr_target = ''db:80'', nr_addresses = [\<lparr>ra_address = ''old'', ra_port = 1\<rparr>],
     nr_address_count = 1, nr_mutex = False, nr_custom_resolve = None, nr_user_data = None\<rparr>"

lemma resolver_demo_inv: "resolver_inv (resolver_demo ty)" "nr_type (resolver_demo ty) = ty"
    "nr_target (resolver_demo ty) = ''db'' @ '':'' @ dec 80"
  by (simp_all add: resolver_demo_def resolver_inv_def dec.simps digit_chars)

theorem grpc_name_resolver_resolve_replaces_witness:
  "\<exists>r' os'. grpc_name_resolver_resolve (\<lambda>_. None) (\<lambda>_ _. None) (Some (resolver_demo GRPC_RESOLVER_CUSTOM)) () [] =
      Inr (-1, Some r', (), os') \<and> grpc_name_resolver_get_addresses (Some r') = Inr ([], Some r')"
  using grpc_name_resolver_resolve_replaces [OF resolver_demo_inv(1) [of GRPC_RESOLVER_CUSTOM],
      of "\<lambda>_. None" "\<lambda>_ _. None" "()" "[]"]
  by (auto simp: grpc_name_resolver_resolve_def resolver_demo_def)

theorem grpc_name_resolver_resolve_exact_witness:
  "\<exists>ret r' s' os'. grpc_name_resolver_resolve (\<lambda>_. Some [\<lparr>ai_fam = AF_OTHER, ai_raw = 1\<rparr>, \<lparr>ai_fam = AF_INET, ai_raw = 2\<rparr>])
      (\<lambda>_ _. Some ''10.0.0.2'') (Some (resolver_demo GRPC_RESOLVER_DNS)) () [] = Inr (ret, Some r', s', os') \<and>
    nr_addresses r' = [\<lparr>ra_address = ''10.0.0.2'', ra_port = 80\<rparr>]"
  using grpc_name_resolver_resolve_exact [OF resolver_demo_inv(1) [of GRPC_RESOLVER_DNS] alloc_ok_Nil resolver_demo_inv(3),
      of "\<lambda>_. Some [\<lparr>ai_fam = AF_OTHER, ai_raw = 1\<rparr>, \<lparr>ai_fam = AF_INET, ai_raw = 2\<rparr>]" "\<lambda>_ _. Some ''10.0.0.2''" "()"]
  by (simp add: resolver_demo_inv(2) dns_addresses_def)

text \<open>An IPv6 literal is cut at its first colon: "[::1]:port" is read as host "[" and port 0. A
  long target without a colon is not refused but cut to 255 characters.\<close>

lemma parse_target_ipv6: "parse_target (''[::1]:'' @ dec n) = Some (''['', 0)"
proof -
  have "split_at_char (CHR '':'') (''[::1]:'' @ dec n) = Some (''['', '':1]:'' @ dec n)"
    using split_at_char_append [of "CHR '':''" "''[''" "'':1]:'' @ dec n"] by simp
  moreover have "atoi ('':1]:'' @ dec n) = 0"
    by (simp add: atoi_def strtol10_def is_space_def digits_val_def is_digit_def)
  ultimately show ?thesis by (simp add: parse_target_def)
qed

lemma parse_target_cuts: "CHR '':'' \<notin> set t \<Longrightarrow> 255 < length t \<Longrightarrow> \<exists>h. parse_target t = Some (h, 50051) \<and> h \<noteq> t"
proof -
  assume c: "CHR '':'' \<notin> set t" and l: "255 < length t"
  then have "take 255 t \<noteq> t" by (metis length_take less_irrefl min.absorb4)
  with c show ?thesis by (simp add: parse_target_def split_at_char_def)
qed

end
