(* ===== verification/Interceptors.thy ===== *)
theory Interceptors
  imports Heap_List
begin

text \<open>
  Interceptor chains, \<^verbatim>\<open>src/interceptors.c\<close>: a linked list with head and tail pointers, a count
  and a mutex, once for client and once for server interceptors. An interceptor is a function
  of its context that returns an \<open>int\<close>; it may change the context, which the next interceptor
  sees, and a state the chain knows nothing about (\<open>'s\<close>). The two kinds of chains have the same fields and the same code, so the list
  operations are shared and each public function is an instance of them.
\<close>

section \<open>Data\<close>

record grpc_client_interceptor_context =
  cctx_call :: "addr option"
  cctx_method :: "string option"
  cctx_host :: "string option"
  cctx_initial_metadata :: "addr option"
  cctx_send_message :: "addr option"
  cctx_user_data :: "nat option"

record grpc_server_interceptor_context =
  sctx_call :: "addr option"
  sctx_method :: "string option"
  sctx_initial_metadata :: "addr option"
  sctx_recv_message :: "addr option"
  sctx_user_data :: "nat option"

type_synonym 's grpc_client_interceptor_func = "grpc_client_interceptor_context \<Rightarrow> 's \<Rightarrow> int \<times> grpc_client_interceptor_context \<times> 's"
type_synonym 's grpc_server_interceptor_func = "grpc_server_interceptor_context \<Rightarrow> 's \<Rightarrow> int \<times> grpc_server_interceptor_context \<times> 's"

text \<open>A node holds the function and the user data.\<close>

record 'f interceptor_chain =
  ic_head :: "addr option"
  ic_tail :: "addr option"
  ic_count :: nat
  ic_mutex :: mutex
  ic_nodes :: "('f \<times> nat option) store"

type_synonym 's grpc_client_interceptor_chain = "'s grpc_client_interceptor_func interceptor_chain"
type_synonym 's grpc_server_interceptor_chain = "'s grpc_server_interceptor_func interceptor_chain"

section \<open>List operations\<close>

definition chain_create :: "alloc \<Rightarrow> 'f interceptor_chain option \<times> alloc" where
  "chain_create os =
     (let (ok, os1) = alloc_next os
      in if \<not> ok then (None, os1)
         else (Some \<lparr>ic_head = None, ic_tail = None, ic_count = 0, ic_mutex = False,
                     ic_nodes = store_empty\<rparr>, os1))"

text \<open>The new node, and the critical section that links it.\<close>

definition chain_link :: "'f interceptor_chain \<Rightarrow> 'f \<times> nat option \<Rightarrow> 'f interceptor_chain exec" where
  "chain_link c fu =
     (case store_new (ic_nodes c) fu None of
        (node, nodes) \<Rightarrow>
          exec_bind (mutex_lock (ic_mutex c)) (\<lambda>m.
            exec_bind
              (if ic_head c = None
               then Inr (c\<lparr>ic_nodes := nodes, ic_head := Some node, ic_tail := Some node\<rparr>)
               else exec_bind (store_set_next nodes (ic_tail c) (Some node)) (\<lambda>nodes'.
                      Inr (c\<lparr>ic_nodes := nodes', ic_tail := Some node\<rparr>)))
              (\<lambda>c1. Inr (c1\<lparr>ic_count := ic_count c1 + 1, ic_mutex := mutex_unlock m\<rparr>))))"

text \<open>A new node, which holds the function and its user data; freeing \<open>NULL\<close> does nothing.\<close>

definition grpc_interceptor_node_create :: "'f \<Rightarrow> nat option \<Rightarrow> alloc \<Rightarrow> ('f \<times> nat option) option \<times> alloc" where
  "grpc_interceptor_node_create func user_data os =
     (let (ok, os1) = alloc_next os in if \<not> ok then (None, os1) else (Some (func, user_data), os1))"

definition grpc_interceptor_node_destroy ::
    "('f \<times> nat option) store \<Rightarrow> addr option \<Rightarrow> ('f \<times> nat option) store exec" where
  "grpc_interceptor_node_destroy st node = (case node of None \<Rightarrow> Inr st | Some _ \<Rightarrow> store_free st node)"

definition chain_add ::
    "'f interceptor_chain option \<Rightarrow> 'f option \<Rightarrow> nat option \<Rightarrow> alloc \<Rightarrow>
     (int \<times> 'f interceptor_chain option \<times> alloc) exec" where
  "chain_add ch interceptor user_data os =
     (case (ch, interceptor) of
        (Some c, Some f) \<Rightarrow>
          (case grpc_interceptor_node_create f user_data os of
             (None, os1) \<Rightarrow> Inr (-1, ch, os1)
           | (Some node, os1) \<Rightarrow> exec_bind (chain_link c node) (\<lambda>c'. Inr (0, Some c', os1)))
      | _ \<Rightarrow> Inr (-1, ch, os))"

text \<open>The loop of the execution: while there is a node and the last result was 0. Before each
  call the user data of the node is stored in the context.\<close>

type_synonym ('c, 's) interceptor = "'c \<Rightarrow> 's \<Rightarrow> int \<times> 'c \<times> 's"

partial_function (option) chain_loop ::
    "(nat option \<Rightarrow> 'c \<Rightarrow> 'c) \<Rightarrow> (('c, 's) interceptor \<times> nat option) store \<Rightarrow> addr option \<Rightarrow> int \<Rightarrow> 'c \<Rightarrow> 's \<Rightarrow>
     (int \<times> 's) exec option" where
  "chain_loop set_ud nodes node result ctx s =
     (if node = None \<or> result \<noteq> 0 then Some (Inr (result, s))
      else
        (case store_get nodes node of
           Inl e \<Rightarrow> Some (Inl e)
         | Inr n \<Rightarrow>
             (case fst (node_val n) (set_ud (snd (node_val n)) ctx) s of
                (result', ctx', s') \<Rightarrow> chain_loop set_ud nodes (node_next n) result' ctx' s')))"

text \<open>The whole execution; the outer \<open>None\<close> is a run that does not end. The mutex is held while
  the interceptors run.\<close>

definition chain_execute ::
    "('c, 's) interceptor interceptor_chain option \<Rightarrow> bool \<Rightarrow> (nat option \<Rightarrow> 'c \<Rightarrow> 'c) \<Rightarrow> 'c \<Rightarrow> 's \<Rightarrow>
     (int \<times> ('c, 's) interceptor interceptor_chain option \<times> 's) exec option" where
  "chain_execute ch has_call set_ud ctx s =
     (case ch of
        None \<Rightarrow> Some (Inr (0, ch, s))
      | Some c \<Rightarrow>
          if \<not> has_call then Some (Inr (0, ch, s))
          else
            (case mutex_lock (ic_mutex c) of
               Inl e \<Rightarrow> Some (Inl e)
             | Inr m \<Rightarrow>
                 map_option (map_sum id (\<lambda>(result, s'). (result, Some (c\<lparr>ic_mutex := mutex_unlock m\<rparr>), s')))
                   (chain_loop set_ud (ic_nodes c) (ic_head c) 0 ctx s)))"

partial_function (option) chain_free_nodes ::
    "('f \<times> nat option) store \<Rightarrow> addr option \<Rightarrow> ('f \<times> nat option) store exec option" where
  "chain_free_nodes st node =
     (case node of
        None \<Rightarrow> Some (Inr st)
      | Some a \<Rightarrow>
          (case store_get st node of
             Inl e \<Rightarrow> Some (Inl e)
           | Inr n \<Rightarrow>
               (case grpc_interceptor_node_destroy st node of
                  Inl e \<Rightarrow> Some (Inl e)
                | Inr st' \<Rightarrow> chain_free_nodes st' (node_next n))))"

definition chain_destroy ::
    "'f interceptor_chain option \<Rightarrow> ('f \<times> nat option) store option exec option" where
  "chain_destroy ch =
     (case ch of
        None \<Rightarrow> Some (Inr None)
      | Some c \<Rightarrow>
          (case mutex_lock (ic_mutex c) of
             Inl e \<Rightarrow> Some (Inl e)
           | Inr m \<Rightarrow> map_option (map_sum id Some) (chain_free_nodes (ic_nodes c) (ic_head c))))"

lemma interceptor_node_create [simp]:
  "grpc_interceptor_node_create f u os = (if fst (alloc_next os) then Some (f, u) else None, snd (alloc_next os))"
  by (simp add: grpc_interceptor_node_create_def split_beta)

section \<open>The public functions\<close>

definition grpc_client_interceptor_chain_create :: "alloc \<Rightarrow> 's grpc_client_interceptor_chain option \<times> alloc" where
  "grpc_client_interceptor_chain_create os = chain_create os"

definition grpc_client_interceptor_chain_add ::
    "'s grpc_client_interceptor_chain option \<Rightarrow> 's grpc_client_interceptor_func option \<Rightarrow> nat option \<Rightarrow> alloc \<Rightarrow>
     (int \<times> 's grpc_client_interceptor_chain option \<times> alloc) exec" where
  "grpc_client_interceptor_chain_add ch interceptor user_data os = chain_add ch interceptor user_data os"

definition grpc_client_interceptor_chain_execute ::
    "'s grpc_client_interceptor_chain option \<Rightarrow> addr option \<Rightarrow> string option \<Rightarrow> string option \<Rightarrow>
     addr option \<Rightarrow> addr option \<Rightarrow> 's \<Rightarrow> (int \<times> 's grpc_client_interceptor_chain option \<times> 's) exec option" where
  "grpc_client_interceptor_chain_execute ch call method host initial_metadata send_message s =
     chain_execute ch (call \<noteq> None)
       (\<lambda>user_data ctx. ctx\<lparr>cctx_user_data := user_data\<rparr>)
       \<lparr>cctx_call = call, cctx_method = method, cctx_host = host,
        cctx_initial_metadata = initial_metadata, cctx_send_message = send_message,
        cctx_user_data = None\<rparr> s"

definition grpc_client_interceptor_chain_destroy where
  "grpc_client_interceptor_chain_destroy (ch :: 's grpc_client_interceptor_chain option) = chain_destroy ch"

definition grpc_server_interceptor_chain_create :: "alloc \<Rightarrow> 's grpc_server_interceptor_chain option \<times> alloc" where
  "grpc_server_interceptor_chain_create os = chain_create os"

definition grpc_server_interceptor_chain_add ::
    "'s grpc_server_interceptor_chain option \<Rightarrow> 's grpc_server_interceptor_func option \<Rightarrow> nat option \<Rightarrow> alloc \<Rightarrow>
     (int \<times> 's grpc_server_interceptor_chain option \<times> alloc) exec" where
  "grpc_server_interceptor_chain_add ch interceptor user_data os = chain_add ch interceptor user_data os"

definition grpc_server_interceptor_chain_execute ::
    "'s grpc_server_interceptor_chain option \<Rightarrow> addr option \<Rightarrow> string option \<Rightarrow>
     addr option \<Rightarrow> addr option \<Rightarrow> 's \<Rightarrow> (int \<times> 's grpc_server_interceptor_chain option \<times> 's) exec option" where
  "grpc_server_interceptor_chain_execute ch call method initial_metadata recv_message s =
     chain_execute ch (call \<noteq> None)
       (\<lambda>user_data ctx. ctx\<lparr>sctx_user_data := user_data\<rparr>)
       \<lparr>sctx_call = call, sctx_method = method,
        sctx_initial_metadata = initial_metadata, sctx_recv_message = recv_message,
        sctx_user_data = None\<rparr> s"

definition grpc_server_interceptor_chain_destroy where
  "grpc_server_interceptor_chain_destroy (ch :: 's grpc_server_interceptor_chain option) = chain_destroy ch"

text \<open>The example interceptors only look at whether they got a context.\<close>

definition grpc_logging_client_interceptor :: "grpc_client_interceptor_context option \<Rightarrow> int" where
  "grpc_logging_client_interceptor ctx = (if ctx = None then - 1 else 0)"

definition grpc_logging_server_interceptor :: "grpc_server_interceptor_context option \<Rightarrow> int" where
  "grpc_logging_server_interceptor ctx = (if ctx = None then - 1 else 0)"

definition grpc_auth_client_interceptor :: "grpc_client_interceptor_context option \<Rightarrow> int" where
  "grpc_auth_client_interceptor ctx = (if ctx = None then - 1 else 0)"

definition grpc_auth_server_interceptor :: "grpc_server_interceptor_context option \<Rightarrow> int" where
  "grpc_auth_server_interceptor ctx = (if ctx = None then - 1 else 0)"

section \<open>Contents and invariant\<close>

definition chain_list :: "'f interceptor_chain \<Rightarrow> ('f \<times> nat option) list" where
  "chain_list c = walk (brk (ic_nodes c)) (ic_nodes c) (ic_head c)"

definition chain_inv :: "'f interceptor_chain \<Rightarrow> bool" where
  "chain_inv c \<longleftrightarrow> \<not> ic_mutex c \<and> (\<exists>cs. list_in (ic_nodes c) (ic_head c) cs \<and> ic_tail c = tail_of cs \<and>
     ic_count c = length cs)"

lemma chain_invE:
  assumes "chain_inv c"
  obtains cs where "\<not> ic_mutex c" "list_in (ic_nodes c) (ic_head c) cs" "ic_tail c = tail_of cs"
    "ic_count c = length cs" "chain_list c = map snd cs"
  using assms unfolding chain_inv_def chain_list_def by (metis walk_list_in)

lemma chain_link_ok:
  assumes "chain_inv c"
  shows "\<exists>c'. chain_link c fu = Inr c' \<and> chain_inv c' \<and> chain_list c' = chain_list c @ [fu]"
proof -
  from assms obtain cs where cs: "\<not> ic_mutex c" "list_in (ic_nodes c) (ic_head c) cs" "ic_tail c = tail_of cs"
    "ic_count c = length cs" "chain_list c = map snd cs" by (rule chain_invE)
  obtain a st1 where new: "store_new (ic_nodes c) fu None = (a, st1)" by force
  have "\<exists>c' ds. chain_link c fu = Inr c' \<and> \<not> ic_mutex c' \<and> list_in (ic_nodes c') (ic_head c') ds \<and>
      ic_tail c' = tail_of ds \<and> ic_count c' = length ds \<and> map snd ds = map snd cs @ [fu]"
  proof (cases cs rule: rev_cases)
    case Nil
    with cs have h: "ic_head c = None" "list_in (ic_nodes c) None []" by (auto simp: list_in_def)
    from list_in_new_front [OF h(2), of fu] new have "list_in st1 (Some a) [(a, fu)]"
      by (auto simp: store_new_def)
    with cs(1,4) h(1) new Nil show ?thesis
      by (intro exI [of _ "c\<lparr>ic_nodes := st1, ic_head := Some a, ic_tail := Some a, ic_count := ic_count c + 1,
            ic_mutex := False\<rparr>"] exI [of _ "[(a, fu)]"])
        (simp add: chain_link_def tail_of_def)
  next
    case (snoc ds d)
    obtain t w where d: "d = (t, w)" by (rule prod.exhaust)
    from cs(2) snoc d have l: "list_in (ic_nodes c) (ic_head c) (ds @ [(t, w)])" by simp
    have t: "ic_tail c = Some t" using cs(3) snoc d by (simp add: tail_of_def)
    obtain hd0 where h: "ic_head c = Some hd0" using l by (cases ds) (auto simp: list_in_def)
    from list_in_snoc [OF l new] obtain st2 where
      st2: "store_set_next st1 (Some t) (Some a) = Inr st2"
        "list_in st2 (ic_head c) ((ds @ [(t, w)]) @ [(a, fu)])" by blast
    let ?c = "c\<lparr>ic_nodes := st2, ic_tail := Some a, ic_count := ic_count c + 1, ic_mutex := False\<rparr>"
    have "chain_link c fu = Inr ?c" using new t h st2(1) cs(1) by (simp add: chain_link_def)
    with st2(2) cs(4) snoc d show ?thesis
      by (intro exI [of _ ?c] exI [of _ "(ds @ [(t, w)]) @ [(a, fu)]"]) (simp add: tail_of_def)
  qed
  then obtain c' ds where c': "chain_link c fu = Inr c'" "\<not> ic_mutex c'"
    "list_in (ic_nodes c') (ic_head c') ds" "ic_tail c' = tail_of ds" "ic_count c' = length ds"
    "map snd ds = map snd cs @ [fu]" by blast
  then have "chain_list c' = chain_list c @ [fu]"
    using walk_list_in [OF c'(3)] cs(5) by (simp add: chain_list_def)
  moreover have "chain_inv c'" using c' by (auto simp: chain_inv_def)
  ultimately show ?thesis using c'(1) by blast
qed

text \<open>Adding to a chain with a working allocation.\<close>

definition chain_add1 :: "'f interceptor_chain \<Rightarrow> 'f \<times> nat option \<Rightarrow> 'f interceptor_chain exec" where
  "chain_add1 c fu = exec_bind (chain_add (Some c) (Some (fst fu)) (snd fu) []) (\<lambda>(r, c', os). Inr (the c'))"

interpretation ic: append_list chain_add1 chain_list chain_inv
proof unfold_locales
  fix c :: "'f interceptor_chain" and e
  assume "chain_inv c"
  from chain_link_ok [OF this, of e]
  show "\<exists>c'. chain_add1 c e = Inr c' \<and> chain_inv c' \<and> chain_list c' = chain_list c @ [e]"
    by (auto simp: chain_add1_def chain_add_def)
qed

section \<open>Execution\<close>

text \<open>What running a list of interceptors means: in order, until one returns non-zero, each with
  its own user data in the context the one before it left.\<close>

fun run_interceptors ::
    "(nat option \<Rightarrow> 'c \<Rightarrow> 'c) \<Rightarrow> (('c, 's) interceptor \<times> nat option) list \<Rightarrow> 'c \<Rightarrow> 's \<Rightarrow> int \<times> 's" where
  "run_interceptors set_ud [] ctx s = (0, s)"
| "run_interceptors set_ud ((f, u) # fus) ctx s =
     (let (r, ctx', s') = f (set_ud u ctx) s in if r \<noteq> 0 then (r, s') else run_interceptors set_ud fus ctx' s')"

lemma chain_loop_chain:
  "chain st p cs None \<Longrightarrow>
   chain_loop set_ud st p 0 ctx s = Some (Inr (run_interceptors set_ud (map snd cs) ctx s))"
proof (induction cs arbitrary: p ctx s)
  case Nil
  then show ?case by (subst chain_loop.simps) simp
next
  case (Cons c cs)
  obtain a f u where c: "c = (a, (f, u))" by (metis prod.collapse)
  from Cons.prems c obtain n where n: "p = Some a" "cells st a = Some n" "node_val n = (f, u)"
    "chain st (node_next n) cs None" by (auto split: option.splits)
  obtain r ctx' s' where r: "f (set_ud u ctx) s = (r, ctx', s')" by (metis prod.collapse)
  have step: "chain_loop set_ud st p 0 ctx s = chain_loop set_ud st (node_next n) r ctx' s'"
    using n(1-3) r by (subst chain_loop.simps) (simp add: store_get_def)
  show ?case
  proof (cases "r = 0")
    case True
    with step Cons.IH [OF n(4)] r c show ?thesis by simp
  next
    case False
    then have "chain_loop set_ud st (node_next n) r ctx' s' = Some (Inr (r, s'))"
      by (subst chain_loop.simps) simp
    with step False r c show ?thesis by simp
  qed
qed

lemma chain_execute_ok:
  assumes "chain_inv c"
  shows "chain_execute (Some c) True set_ud ctx s =
    Some (Inr (case run_interceptors set_ud (chain_list c) ctx s of (r, s') \<Rightarrow> (r, Some c, s')))"
proof -
  from assms obtain cs where cs: "\<not> ic_mutex c" "list_in (ic_nodes c) (ic_head c) cs"
    "chain_list c = map snd cs" by (rule chain_invE)
  then have "chain (ic_nodes c) (ic_head c) cs None" by (simp add: list_in_def)
  moreover have same: "c\<lparr>ic_mutex := False\<rparr> = c" using cs(1) by (cases c) simp
  ultimately show ?thesis using cs(1,3) by (simp add: chain_execute_def chain_loop_chain same)
qed

lemma chain_free_nodes_list:
  "list_in st p cs \<Longrightarrow> \<exists>st'. chain_free_nodes st p = Some (Inr st') \<and> cells st' = (\<lambda>_. None)"
proof (induction cs arbitrary: st p)
  case Nil
  then show ?case by (subst chain_free_nodes.simps) simp
next
  case (Cons c cs)
  obtain a v where c: "c = (a, v)" by (rule prod.exhaust)
  from Cons.prems [unfolded c] obtain n where n: "p = Some a" "cells st a = Some n"
    "list_in (st\<lparr>cells := (cells st)(a := None)\<rparr>) (node_next n) cs"
    by (rule list_in_head)
  from Cons.IH [OF n(3)] n(1,2) show ?case
    by (subst chain_free_nodes.simps) (simp add: grpc_interceptor_node_destroy_def store_get_def store_free_def)
qed

definition chain_fresh :: "'f interceptor_chain" where
  "chain_fresh = \<lparr>ic_head = None, ic_tail = None, ic_count = 0, ic_mutex = False, ic_nodes = store_empty\<rparr>"

lemma chain_inv_fresh [simp]: "chain_inv chain_fresh" "chain_list chain_fresh = []"
  by (simp_all add: chain_inv_def chain_list_def chain_fresh_def list_in_def store_empty_def tail_of_def)

section \<open>Properties\<close>

text \<open>
  C24. A client chain to which any interceptors were added one after the other and which is then
  executed for a call always comes back; it has run exactly the interceptors up to and
  including the first one that returned non-zero, in the order of addition, each with its own
  user data in the context of the call as the one before it left it; it returns that result, or
  0 if there was none, and leaves the chain as it was with its mutex free.
\<close>

theorem grpc_client_interceptor_chain_runs_in_order:
  "\<exists>c. append_run chain_add1 chain_fresh fus = Inr c \<and> chain_list c = fus \<and> ic_count c = length fus \<and>
    grpc_client_interceptor_chain_execute (Some c) (Some call) method host md msg s =
      Some (Inr (case run_interceptors (\<lambda>u ctx. ctx\<lparr>cctx_user_data := u\<rparr>) fus
         \<lparr>cctx_call = Some call, cctx_method = method, cctx_host = host,
          cctx_initial_metadata = md, cctx_send_message = msg, cctx_user_data = None\<rparr> s of
         (r, s') \<Rightarrow> (r, Some c, s')))"
proof -
  from ic.run_appends [OF chain_inv_fresh(1), of fus] obtain c where
    c: "append_run chain_add1 chain_fresh fus = Inr c" "chain_inv c" "chain_list c = fus" by auto
  from c(2) obtain cs where "\<not> ic_mutex c" "list_in (ic_nodes c) (ic_head c) cs" "ic_tail c = tail_of cs"
    "ic_count c = length cs" "chain_list c = map snd cs" by (rule chain_invE)
  with c(3) have "ic_count c = length fus" by auto
  with c chain_execute_ok [OF c(2)] show ?thesis
    by (simp add: grpc_client_interceptor_chain_execute_def)
qed

text \<open>
  Without a chain or without a call the execution reports success without running
  anything. When the interceptors before it pass the call on and one returns non-zero, the
  result and the effects are those of the interceptors up to and including it: the ones behind
  it do not run, whatever they are, and the mutex of the chain is free again.
\<close>

theorem grpc_server_interceptor_chain_stops:
  assumes "chain_inv c" and "chain_list c = us @ (f, u) # vs"
    and "\<forall>(g, v)\<in>set us. \<forall>ctx s. \<exists>s'. g ctx s = (0, ctx, s')"
    and "\<forall>ctx s. \<exists>ctx' s'. f ctx s = (r, ctx', s')" and "r \<noteq> 0"
  shows "(\<exists>s'. grpc_server_interceptor_chain_execute (Some c) (Some call) method md msg s = Some (Inr (r, Some c, s')) \<and>
      run_interceptors (\<lambda>u ctx. ctx\<lparr>sctx_user_data := u\<rparr>) (us @ [(f, u)])
        \<lparr>sctx_call = Some call, sctx_method = method, sctx_initial_metadata = md, sctx_recv_message = msg,
         sctx_user_data = None\<rparr> s = (r, s')) \<and>
    grpc_server_interceptor_chain_execute (Some c) None method md msg s = Some (Inr (0, Some c, s)) \<and>
    grpc_server_interceptor_chain_execute None (Some call) method md msg s = Some (Inr (0, None, s))"
proof -
  let ?ud = "\<lambda>u ctx. ctx\<lparr>sctx_user_data := u\<rparr>"
  have run: "\<exists>s'. run_interceptors ?ud (us @ (f, u) # ws) ctx s = (r, s') \<and>
      run_interceptors ?ud (us @ [(f, u)]) ctx s = (r, s')" for ws ctx s
    using assms(3)
  proof (induction us arbitrary: ctx s)
    case Nil
    from assms(4) obtain ctx' s' where "f (?ud u ctx) s = (r, ctx', s')" by blast
    with assms(5) show ?case by simp
  next
    case (Cons gv us)
    obtain g v where gv: "gv = (g, v)" by (rule prod.exhaust)
    with Cons.prems obtain s' where g: "g (?ud v ctx) s = (0, ?ud v ctx, s')" by fastforce
    from Cons.prems have us: "\<forall>(g, v)\<in>set us. \<forall>ctx s. \<exists>s'. g ctx s = (0, ctx, s')" by simp
    from Cons.IH [OF us, of "?ud v ctx" s'] g gv show ?case by simp
  qed
  let ?ctx = "\<lparr>sctx_call = Some call, sctx_method = method, sctx_initial_metadata = md,
    sctx_recv_message = msg, sctx_user_data = None\<rparr>"
  from run [of vs ?ctx s] obtain s' where
    s': "run_interceptors ?ud (us @ (f, u) # vs) ?ctx s = (r, s')"
      "run_interceptors ?ud (us @ [(f, u)]) ?ctx s = (r, s')" by blast
  have "grpc_server_interceptor_chain_execute (Some c) (Some call) method md msg s = Some (Inr (r, Some c, s'))"
    using chain_execute_ok [OF assms(1), of ?ud ?ctx s] assms(2) s'(1)
    by (simp add: grpc_server_interceptor_chain_execute_def)
  with s'(2) show ?thesis
    by (simp add: grpc_server_interceptor_chain_execute_def chain_execute_def)
qed

theorem grpc_server_interceptor_chain_stops_witness:
  "\<exists>c :: nat grpc_server_interceptor_chain.
    append_run chain_add1 chain_fresh
      [(\<lambda>x s. (0, x, s + 1), None), (\<lambda>x s. (7, x, s + 10), None), (\<lambda>x s. (0, x, s + 100), None)] = Inr c \<and>
    grpc_server_interceptor_chain_execute (Some c) (Some 1) None None None 0 = Some (Inr (7, Some c, 11))"
proof -
  let ?fus = "[(\<lambda>x s. (0, x, s + 1), None), (\<lambda>x s. (7, x, s + 10), None), (\<lambda>x s. (0, x, s + 100), None)]
    :: (nat grpc_server_interceptor_func \<times> nat option) list"
  from ic.run_appends [OF chain_inv_fresh(1), of ?fus] obtain c where
    c: "append_run chain_add1 chain_fresh ?fus = Inr c" "chain_inv c" "chain_list c = ?fus" by auto
  have "grpc_server_interceptor_chain_execute (Some c) (Some 1) None None None 0 = Some (Inr (7, Some c, 11))"
    using grpc_server_interceptor_chain_stops [OF c(2), of "[(\<lambda>x s. (0, x, s + 1), None)]"
        "\<lambda>x s. (7, x, s + 10)" None "[(\<lambda>x s. (0, x, s + 100), None)]" 7 1 None None None 0] c(3)
    by auto
  with c(1) show ?thesis by blast
qed

text \<open>Destroying a chain ends and frees every node once.\<close>

lemma grpc_client_interceptor_chain_destroy_frees:
  assumes "chain_inv c"
  shows "\<exists>st. grpc_client_interceptor_chain_destroy (Some c) = Some (Inr (Some st)) \<and> cells st = (\<lambda>_. None)"
proof -
  from assms obtain cs where "\<not> ic_mutex c" "list_in (ic_nodes c) (ic_head c) cs" by (rule chain_invE)
  with chain_free_nodes_list [of "ic_nodes c" "ic_head c" cs] show ?thesis
    by (auto simp: grpc_client_interceptor_chain_destroy_def chain_destroy_def)
qed

end
