(* ===== verification/Reflection.thy ===== *)
theory Reflection
  imports C_Lib
begin

text \<open>
  The reflection registry of \<^verbatim>\<open>src/reflection.c\<close>: services with their methods, and the full
  names. Descriptors are pushed in front of their list and freed with the whole registry, so the
  linked lists are lists. The functions that hand out a pointer into the registry return the
  descriptor it points at.
\<close>

section \<open>Data\<close>

record grpc_method_descriptor =
  rm_method_name :: string
  rm_input_type :: string
  rm_output_type :: string
  rm_client_streaming :: bool
  rm_server_streaming :: bool

record grpc_service_descriptor =
  rs_service_name :: string
  rs_package_name :: "string option"
  rs_methods :: "grpc_method_descriptor list"
  rs_method_count :: nat

record grpc_reflection_registry =
  rr_services :: "grpc_service_descriptor list"
  rr_service_count :: nat
  rr_mutex :: mutex

section \<open>Descriptors\<close>

definition grpc_method_descriptor_create ::
    "string \<Rightarrow> string option \<Rightarrow> string option \<Rightarrow> bool \<Rightarrow> bool \<Rightarrow> alloc \<Rightarrow>
     (grpc_method_descriptor option \<times> alloc) exec" where
  "grpc_method_descriptor_create method_name input_type output_type client_streaming server_streaming os =
     (let (ok, os1) = alloc_next os
      in if \<not> ok then Inr (None, os1)
         else exec_bind (strdup_ptr (Some method_name) os1) (\<lambda>(mn, os2).
           case mn of None \<Rightarrow> Inr (None, os2)
           | Some mn' \<Rightarrow> exec_bind (strdup_ptr input_type os2) (\<lambda>(it, os3).
             case it of None \<Rightarrow> Inr (None, os3)
             | Some it' \<Rightarrow> exec_bind (strdup_ptr output_type os3) (\<lambda>(ot, os4).
               case ot of None \<Rightarrow> Inr (None, os4)
               | Some ot' \<Rightarrow>
                   Inr (Some \<lparr>rm_method_name = mn', rm_input_type = it', rm_output_type = ot',
                     rm_client_streaming = client_streaming, rm_server_streaming = server_streaming\<rparr>, os4)))))"

definition grpc_service_descriptor_create ::
    "string \<Rightarrow> string option \<Rightarrow> alloc \<Rightarrow> (grpc_service_descriptor option \<times> alloc) exec" where
  "grpc_service_descriptor_create service_name package_name os =
     (let (ok, os1) = alloc_next os
      in if \<not> ok then Inr (None, os1)
         else exec_bind (strdup_ptr (Some service_name) os1) (\<lambda>(sn, os2).
           case sn of None \<Rightarrow> Inr (None, os2)
           | Some sn' \<Rightarrow>
               (if package_name \<noteq> None then
                  exec_bind (strdup_ptr package_name os2) (\<lambda>(pn, os3).
                    case pn of None \<Rightarrow> Inr (None, os3)
                    | Some pn' \<Rightarrow> Inr (Some \<lparr>rs_service_name = sn', rs_package_name = Some pn',
                        rs_methods = [], rs_method_count = 0\<rparr>, os3))
                else Inr (Some \<lparr>rs_service_name = sn', rs_package_name = None, rs_methods = [],
                       rs_method_count = 0\<rparr>, os2))))"

text \<open>What destroying frees, in order: the strings of a method; those of a service and of its
  methods (freeing \<open>NULL\<close> does nothing).\<close>

definition grpc_method_descriptor_destroy :: "grpc_method_descriptor \<Rightarrow> string list" where
  "grpc_method_descriptor_destroy m = [rm_method_name m, rm_input_type m, rm_output_type m]"

fun grpc_method_descriptor_list_destroy :: "grpc_method_descriptor list \<Rightarrow> string list" where
  "grpc_method_descriptor_list_destroy [] = []"
| "grpc_method_descriptor_list_destroy (m # ms) =
     grpc_method_descriptor_destroy m @ grpc_method_descriptor_list_destroy ms"

definition grpc_service_descriptor_destroy :: "grpc_service_descriptor \<Rightarrow> string list" where
  "grpc_service_descriptor_destroy s =
     rs_service_name s # (case rs_package_name s of None \<Rightarrow> [] | Some p \<Rightarrow> [p]) @
     grpc_method_descriptor_list_destroy (rs_methods s)"

fun grpc_service_descriptor_list_destroy :: "grpc_service_descriptor list \<Rightarrow> string list" where
  "grpc_service_descriptor_list_destroy [] = []"
| "grpc_service_descriptor_list_destroy (s # ss) =
     grpc_service_descriptor_destroy s @ grpc_service_descriptor_list_destroy ss"

section \<open>The registry\<close>

definition grpc_reflection_registry_create :: "alloc \<Rightarrow> grpc_reflection_registry option \<times> alloc" where
  "grpc_reflection_registry_create os =
     (let (ok, os1) = alloc_next os
      in if \<not> ok then (None, os1)
         else (Some \<lparr>rr_services = [], rr_service_count = 0, rr_mutex = False\<rparr>, os1))"

definition grpc_reflection_registry_add_service ::
    "grpc_reflection_registry option \<Rightarrow> string option \<Rightarrow> string option \<Rightarrow> alloc \<Rightarrow>
     (int \<times> grpc_reflection_registry option \<times> alloc) exec" where
  "grpc_reflection_registry_add_service registry service_name package_name os =
     (case (registry, service_name) of
        (Some r, Some sn) \<Rightarrow>
          exec_bind (grpc_service_descriptor_create sn package_name os) (\<lambda>(service, os1).
            case service of
              None \<Rightarrow> Inr (-1, registry, os1)
            | Some s \<Rightarrow>
                exec_bind (mutex_lock (rr_mutex r)) (\<lambda>m.
                  Inr (0, Some (r\<lparr>rr_services := s # rr_services r,
                                 rr_service_count := rr_service_count r + 1,
                                 rr_mutex := mutex_unlock m\<rparr>), os1)))
      | _ \<Rightarrow> Inr (-1, registry, os))"

text \<open>The search loop of adding a method and of the lookup.\<close>

fun find_service :: "string \<Rightarrow> grpc_service_descriptor list \<Rightarrow> nat \<Rightarrow> nat option" where
  "find_service sn [] i = None"
| "find_service sn (s # ss) i = (if rs_service_name s = sn then Some i else find_service sn ss (i + 1))"

definition service_push_method :: "grpc_method_descriptor \<Rightarrow> grpc_service_descriptor \<Rightarrow> grpc_service_descriptor" where
  "service_push_method m s = s\<lparr>rs_methods := m # rs_methods s, rs_method_count := rs_method_count s + 1\<rparr>"

definition grpc_reflection_registry_add_method ::
    "grpc_reflection_registry option \<Rightarrow> string option \<Rightarrow> string option \<Rightarrow> string option \<Rightarrow> string option \<Rightarrow>
     bool \<Rightarrow> bool \<Rightarrow> alloc \<Rightarrow> (int \<times> grpc_reflection_registry option \<times> alloc) exec" where
  "grpc_reflection_registry_add_method registry service_name method_name input_type output_type
       client_streaming server_streaming os =
     (case (registry, service_name, method_name) of
        (Some r, Some sn, Some mn) \<Rightarrow>
          exec_bind (mutex_lock (rr_mutex r)) (\<lambda>m.
            case find_service sn (rr_services r) 0 of
              None \<Rightarrow> Inr (-1, Some (r\<lparr>rr_mutex := mutex_unlock m\<rparr>), os)
            | Some i \<Rightarrow>
                exec_bind (grpc_method_descriptor_create mn input_type output_type
                             client_streaming server_streaming os) (\<lambda>(method, os1).
                  case method of
                    None \<Rightarrow> Inr (-1, Some (r\<lparr>rr_mutex := mutex_unlock m\<rparr>), os1)
                  | Some md \<Rightarrow>
                      Inr (0, Some (r\<lparr>rr_services := (rr_services r)[i := service_push_method md (rr_services r ! i)],
                                     rr_mutex := mutex_unlock m\<rparr>), os1)))
      | _ \<Rightarrow> Inr (-1, registry, os))"

definition grpc_reflection_registry_list_services ::
    "grpc_reflection_registry option \<Rightarrow> (grpc_service_descriptor list \<times> grpc_reflection_registry option) exec" where
  "grpc_reflection_registry_list_services registry =
     (case registry of
        None \<Rightarrow> Inr ([], None)
      | Some r \<Rightarrow>
          exec_bind (mutex_lock (rr_mutex r)) (\<lambda>m.
            Inr (rr_services r, Some (r\<lparr>rr_mutex := mutex_unlock m\<rparr>))))"

definition grpc_reflection_registry_get_service ::
    "grpc_reflection_registry option \<Rightarrow> string option \<Rightarrow>
     (grpc_service_descriptor option \<times> grpc_reflection_registry option) exec" where
  "grpc_reflection_registry_get_service registry service_name =
     (case (registry, service_name) of
        (Some r, Some sn) \<Rightarrow>
          exec_bind (mutex_lock (rr_mutex r)) (\<lambda>m.
            Inr (map_option (\<lambda>i. rr_services r ! i) (find_service sn (rr_services r) 0),
                 Some (r\<lparr>rr_mutex := mutex_unlock m\<rparr>)))
      | _ \<Rightarrow> Inr (None, registry))"

definition grpc_reflection_registry_get_service_count ::
    "grpc_reflection_registry option \<Rightarrow> (nat \<times> grpc_reflection_registry option) exec" where
  "grpc_reflection_registry_get_service_count registry =
     (case registry of
        None \<Rightarrow> Inr (0, None)
      | Some r \<Rightarrow>
          exec_bind (mutex_lock (rr_mutex r)) (\<lambda>m.
            Inr (rr_service_count r, Some (r\<lparr>rr_mutex := mutex_unlock m\<rparr>))))"

definition grpc_reflection_registry_destroy :: "grpc_reflection_registry option \<Rightarrow> string list exec" where
  "grpc_reflection_registry_destroy registry =
     (case registry of
        None \<Rightarrow> Inr []
      | Some r \<Rightarrow>
          exec_bind (mutex_lock (rr_mutex r)) (\<lambda>m. Inr (grpc_service_descriptor_list_destroy (rr_services r))))"

section \<open>Full names\<close>

definition grpc_reflection_get_full_service_name ::
    "grpc_service_descriptor option \<Rightarrow> alloc \<Rightarrow> string option \<times> alloc" where
  "grpc_reflection_get_full_service_name service os =
     (case service of
        None \<Rightarrow> (None, os)
      | Some s \<Rightarrow>
          (let len = length (rs_service_name s) + 1 +
                 (case rs_package_name s of None \<Rightarrow> 0 | Some p \<Rightarrow> length p + 1);
               (ok, os1) = alloc_next os
           in if \<not> ok then (None, os1)
              else (Some (snprintf_cut len
                      (case rs_package_name s of
                         Some p \<Rightarrow> p @ ''.'' @ rs_service_name s
                       | None \<Rightarrow> rs_service_name s)), os1)))"

definition grpc_reflection_get_full_method_name ::
    "grpc_service_descriptor option \<Rightarrow> grpc_method_descriptor option \<Rightarrow> alloc \<Rightarrow> string option \<times> alloc" where
  "grpc_reflection_get_full_method_name service method os =
     (case (service, method) of
        (Some s, Some m) \<Rightarrow>
          (case grpc_reflection_get_full_service_name service os of
             (None, os1) \<Rightarrow> (None, os1)
           | (Some service_name, os1) \<Rightarrow>
               (let len = length service_name + length (rm_method_name m) + 2;
                    (ok, os2) = alloc_next os1
                in if \<not> ok then (None, os2)
                   else (Some (snprintf_cut len (''/'' @ service_name @ ''/'' @ rm_method_name m)), os2)))
      | _ \<Rightarrow> (None, os))"

section \<open>Invariant\<close>

definition service_inv :: "grpc_service_descriptor \<Rightarrow> bool" where
  "service_inv s \<longleftrightarrow> rs_method_count s = length (rs_methods s)"

definition registry_inv :: "grpc_reflection_registry \<Rightarrow> bool" where
  "registry_inv r \<longleftrightarrow> \<not> rr_mutex r \<and> rr_service_count r = length (rr_services r) \<and>
     list_all service_inv (rr_services r)"

lemma registry_same [simp]: "\<not> rr_mutex r \<Longrightarrow> r\<lparr>rr_mutex := False\<rparr> = r"
  by (cases r) simp

lemma find_service_Some:
  "find_service sn ss k = Some i \<Longrightarrow> k \<le> i \<and> i - k < length ss \<and> rs_service_name (ss ! (i - k)) = sn \<and>
     (\<forall>j<i - k. rs_service_name (ss ! j) \<noteq> sn)"
proof (induction ss arbitrary: k)
  case Nil
  then show ?case by simp
next
  case (Cons s ss)
  show ?case
  proof (cases "rs_service_name s = sn")
    case True
    with Cons.prems show ?thesis by simp
  next
    case False
    with Cons have r: "Suc k \<le> i \<and> i - Suc k < length ss \<and> rs_service_name (ss ! (i - Suc k)) = sn \<and>
      (\<forall>j<i - Suc k. rs_service_name (ss ! j) \<noteq> sn)" by simp
    then have "Suc k \<le> i" by blast
    then have "i - k = Suc (i - Suc k)" by arith
    with r False show ?thesis by (auto simp: less_Suc_eq_0_disj)
  qed
qed

lemma find_service_find:
  "map_option (\<lambda>i. ss ! (i - k)) (find_service sn ss k) = find (\<lambda>s. rs_service_name s = sn) ss"
proof (induction ss arbitrary: k)
  case Nil
  then show ?case by simp
next
  case (Cons s ss)
  show ?case
  proof (cases "rs_service_name s = sn")
    case True
    then show ?thesis by simp
  next
    case False
    have "map_option (\<lambda>i. (s # ss) ! (i - k)) (find_service sn ss (Suc k)) =
        map_option (\<lambda>i. ss ! (i - Suc k)) (find_service sn ss (Suc k))"
    proof (cases "find_service sn ss (Suc k)")
      case (Some i)
      from find_service_Some [OF this] have "Suc k \<le> i" by blast
      then have "i - k = Suc (i - Suc k)" by arith
      with Some show ?thesis by simp
    qed simp
    with False Cons.IH [of "Suc k"] show ?thesis by simp
  qed
qed

text \<open>Changing the first service of a name, as a lookup sees it.\<close>

lemma find_update_first:
  assumes "find_service sn ss 0 = Some i" and "\<And>s. rs_service_name (f s) = rs_service_name s"
  shows "find (\<lambda>s. rs_service_name s = x) (ss[i := f (ss ! i)]) =
    (if x = sn then map_option f (find (\<lambda>s. rs_service_name s = sn) ss) else find (\<lambda>s. rs_service_name s = x) ss)"
proof -
  from find_service_Some [OF assms(1)] have i: "i < length ss" "rs_service_name (ss ! i) = sn"
    "\<forall>j<i. rs_service_name (ss ! j) \<noteq> sn" by auto
  have split: "ss = take i ss @ ss ! i # drop (Suc i) ss" using i(1) by (rule id_take_nth_drop)
  have upd: "ss[i := f (ss ! i)] = take i ss @ f (ss ! i) # drop (Suc i) ss"
    using i(1) by (rule upd_conv_take_nth_drop)
  have pre: "find (\<lambda>s. rs_service_name s = sn) (take i ss) = None"
    using i by (auto simp: find_None_iff in_set_conv_nth)
  have app: "find P (us @ vs) = (case find P us of None \<Rightarrow> find P vs | Some s \<Rightarrow> Some s)"
    for P and us vs :: "grpc_service_descriptor list" by (induction us) auto
  show ?thesis
    unfolding upd by (subst (4 5) split) (simp add: app pre i(2) assms(2) split: option.split)
qed

section \<open>Specification\<close>

text \<open>
  The registry as clients see it: a partial function from service names to descriptors. Adding a
  service binds its name afresh and hides an older service of the same name; adding a method
  puts it in front of the methods of the service its name is bound to.
\<close>

datatype reg_op =
    Add_Service string "string option"
  | Add_Method string string string string bool bool

fun reg_spec_step :: "(string \<rightharpoonup> grpc_service_descriptor) \<Rightarrow> reg_op \<Rightarrow> (string \<rightharpoonup> grpc_service_descriptor)" where
  "reg_spec_step f (Add_Service sn pn) =
     f(sn \<mapsto> \<lparr>rs_service_name = sn, rs_package_name = pn, rs_methods = [], rs_method_count = 0\<rparr>)"
| "reg_spec_step f (Add_Method sn mn it ot cs ss) =
     f(sn := map_option (service_push_method \<lparr>rm_method_name = mn, rm_input_type = it,
       rm_output_type = ot, rm_client_streaming = cs, rm_server_streaming = ss\<rparr>) (f sn))"

fun reg_spec_enabled :: "(string \<rightharpoonup> grpc_service_descriptor) \<Rightarrow> reg_op \<Rightarrow> bool" where
  "reg_spec_enabled f (Add_Service sn pn) = True"
| "reg_spec_enabled f (Add_Method sn mn it ot cs ss) = (f sn \<noteq> None)"

definition reg_lookup :: "grpc_reflection_registry \<Rightarrow> string \<rightharpoonup> grpc_service_descriptor" where
  "reg_lookup r sn = find (\<lambda>s. rs_service_name s = sn) (rr_services r)"

fun reg_step :: "grpc_reflection_registry \<Rightarrow> reg_op \<Rightarrow> alloc \<Rightarrow> (int \<times> grpc_reflection_registry option \<times> alloc) exec" where
  "reg_step r (Add_Service sn pn) os = grpc_reflection_registry_add_service (Some r) (Some sn) pn os"
| "reg_step r (Add_Method sn mn it ot cs ss) os =
     grpc_reflection_registry_add_method (Some r) (Some sn) (Some mn) (Some it) (Some ot) cs ss os"

text \<open>A run, with the result of every operation.\<close>

fun reg_run :: "grpc_reflection_registry \<Rightarrow> reg_op list \<Rightarrow> alloc \<Rightarrow> (int list \<times> grpc_reflection_registry) exec" where
  "reg_run r [] os = Inr ([], r)"
| "reg_run r (op # ops) os =
     exec_bind (reg_step r op os) (\<lambda>(ret, r', os').
       exec_bind (reg_run (the r') ops os') (\<lambda>(rets, r''). Inr (ret # rets, r'')))"

definition succeeded :: "reg_op list \<Rightarrow> int list \<Rightarrow> reg_op list" where
  "succeeded ops rets = map fst (filter (\<lambda>(op, ret). ret = 0) (zip ops rets))"

definition is_add_service :: "reg_op \<Rightarrow> bool" where
  "is_add_service op = (case op of Add_Service _ _ \<Rightarrow> True | _ \<Rightarrow> False)"

section \<open>Refinement\<close>

lemma service_create_cases:
  "\<exists>os'. grpc_service_descriptor_create sn pn os = Inr (None, os') \<and> \<not> alloc_ok os \<or>
    grpc_service_descriptor_create sn pn os = Inr (Some \<lparr>rs_service_name = sn, rs_package_name = pn,
      rs_methods = [], rs_method_count = 0\<rparr>, os') \<and> (alloc_ok os \<longrightarrow> alloc_ok os')"
proof -
  obtain b1 os1 b2 os2 b3 os3 where n: "alloc_next os = (b1, os1)" "alloc_next os1 = (b2, os2)"
    "alloc_next os2 = (b3, os3)" by (metis prod.collapse)
  have ok: "alloc_ok os \<Longrightarrow> b1 \<and> b2 \<and> b3 \<and> alloc_ok os2 \<and> alloc_ok os3"
    using n alloc_next_ok by (metis Pair_inject)
  show ?thesis using n ok by (cases b1; cases b2; cases b3; cases pn) (auto simp: grpc_service_descriptor_create_def)
qed

lemma method_create_cases:
  "\<exists>os'. grpc_method_descriptor_create mn (Some it) (Some ot) cs ss os = Inr (None, os') \<and> \<not> alloc_ok os \<or>
    grpc_method_descriptor_create mn (Some it) (Some ot) cs ss os =
      Inr (Some \<lparr>rm_method_name = mn, rm_input_type = it, rm_output_type = ot,
        rm_client_streaming = cs, rm_server_streaming = ss\<rparr>, os') \<and> (alloc_ok os \<longrightarrow> alloc_ok os')"
proof -
  obtain b1 os1 b2 os2 b3 os3 b4 os4 where n: "alloc_next os = (b1, os1)" "alloc_next os1 = (b2, os2)"
    "alloc_next os2 = (b3, os3)" "alloc_next os3 = (b4, os4)" by (metis prod.collapse)
  have ok: "alloc_ok os \<Longrightarrow> b1 \<and> b2 \<and> b3 \<and> b4 \<and> alloc_ok os4"
    using n alloc_next_ok by (metis Pair_inject)
  show ?thesis using n ok by (cases b1; cases b2; cases b3; cases b4) (auto simp: grpc_method_descriptor_create_def)
qed

text \<open>One operation: it succeeds and the registry follows the specification, or it returns -1
  and nothing has changed; the latter only without memory or when the service is unknown.\<close>

text \<open>One step refines the specification: it succeeds as the specification says, or fails, which
  with working memory it does only when the specification does not allow the step.\<close>

definition reg_refined :: "grpc_reflection_registry \<Rightarrow> reg_op \<Rightarrow> alloc \<Rightarrow> bool" where
  "reg_refined r op os \<longleftrightarrow> (\<exists>ret r' os'. reg_step r op os = Inr (ret, Some r', os') \<and> registry_inv r' \<and>
    (ret = 0 \<and> reg_lookup r' = reg_spec_step (reg_lookup r) op \<and> reg_spec_enabled (reg_lookup r) op \<and>
        rr_service_count r' = rr_service_count r + (if is_add_service op then 1 else 0) \<or>
     ret = -1 \<and> r' = r \<and> (alloc_ok os \<longrightarrow> \<not> reg_spec_enabled (reg_lookup r) op)) \<and>
    (alloc_ok os \<longrightarrow> alloc_ok os'))"

lemma add_service_refines:
  assumes "registry_inv r"
  shows "reg_refined r (Add_Service sn pn) os"
proof -
  let ?s = "\<lparr>rs_service_name = sn, rs_package_name = pn, rs_methods = [], rs_method_count = 0\<rparr>"
  let ?r = "r\<lparr>rr_services := ?s # rr_services r, rr_service_count := rr_service_count r + 1, rr_mutex := False\<rparr>"
  have inv: "registry_inv ?r" using assms by (simp add: registry_inv_def service_inv_def)
  have look: "reg_lookup ?r = reg_spec_step (reg_lookup r) (Add_Service sn pn)"
    by (auto simp: reg_lookup_def fun_eq_iff)
  from service_create_cases [of sn pn os] obtain os' where
    "grpc_service_descriptor_create sn pn os = Inr (None, os') \<and> \<not> alloc_ok os \<or>
     grpc_service_descriptor_create sn pn os = Inr (Some ?s, os') \<and> (alloc_ok os \<longrightarrow> alloc_ok os')" by blast
  then show ?thesis
  proof
    assume "grpc_service_descriptor_create sn pn os = Inr (None, os') \<and> \<not> alloc_ok os"
    with assms show ?thesis by (simp add: reg_refined_def grpc_reflection_registry_add_service_def)
  next
    assume c: "grpc_service_descriptor_create sn pn os = Inr (Some ?s, os') \<and> (alloc_ok os \<longrightarrow> alloc_ok os')"
    then have "reg_step r (Add_Service sn pn) os = Inr (0, Some ?r, os')"
      using assms by (simp add: grpc_reflection_registry_add_service_def registry_inv_def)
    with inv look c show ?thesis by (simp add: reg_refined_def is_add_service_def)
  qed
qed

lemma add_method_refines:
  assumes "registry_inv r"
  shows "reg_refined r (Add_Method sn mn it ot cs ss) os"
proof -
  have lk: "reg_lookup r sn = map_option (\<lambda>i. rr_services r ! i) (find_service sn (rr_services r) 0)"
    using find_service_find [of "rr_services r" 0 sn] by (simp add: reg_lookup_def)
  have mx: "\<not> rr_mutex r" using assms by (simp add: registry_inv_def)
  show ?thesis
  proof (cases "find_service sn (rr_services r) 0")
    case None
    with assms lk mx show ?thesis by (simp add: reg_refined_def grpc_reflection_registry_add_method_def)
  next
    case (Some i)
    let ?m = "\<lparr>rm_method_name = mn, rm_input_type = it, rm_output_type = ot,
        rm_client_streaming = cs, rm_server_streaming = ss\<rparr>"
    let ?r = "r\<lparr>rr_services := (rr_services r)[i := service_push_method ?m (rr_services r ! i)], rr_mutex := False\<rparr>"
    have i: "i < length (rr_services r)" using find_service_Some [OF Some] by simp
    have inv: "registry_inv ?r" using assms i
      by (auto simp: registry_inv_def service_inv_def service_push_method_def list_all_length nth_list_update)
    have look: "reg_lookup ?r = reg_spec_step (reg_lookup r) (Add_Method sn mn it ot cs ss)"
      using find_update_first [OF Some, of "service_push_method ?m"]
      by (auto simp: reg_lookup_def fun_eq_iff service_push_method_def)
    from method_create_cases [of mn it ot cs ss os] obtain os' where
      "grpc_method_descriptor_create mn (Some it) (Some ot) cs ss os = Inr (None, os') \<and> \<not> alloc_ok os \<or>
       grpc_method_descriptor_create mn (Some it) (Some ot) cs ss os = Inr (Some ?m, os') \<and>
         (alloc_ok os \<longrightarrow> alloc_ok os')" by blast
    then show ?thesis
    proof
      assume "grpc_method_descriptor_create mn (Some it) (Some ot) cs ss os = Inr (None, os') \<and> \<not> alloc_ok os"
      with assms mx Some show ?thesis by (simp add: reg_refined_def grpc_reflection_registry_add_method_def)
    next
      assume c: "grpc_method_descriptor_create mn (Some it) (Some ot) cs ss os = Inr (Some ?m, os') \<and>
         (alloc_ok os \<longrightarrow> alloc_ok os')"
      then have "reg_step r (Add_Method sn mn it ot cs ss) os = Inr (0, Some ?r, os')"
        using mx Some by (simp add: grpc_reflection_registry_add_method_def)
      with inv look c lk Some show ?thesis by (simp add: reg_refined_def is_add_service_def)
    qed
  qed
qed

lemma reg_step_refines:
  assumes "registry_inv r"
  shows "\<exists>ret r' os'. reg_step r op os = Inr (ret, Some r', os') \<and> registry_inv r' \<and>
    (ret = 0 \<and> reg_lookup r' = reg_spec_step (reg_lookup r) op \<and> reg_spec_enabled (reg_lookup r) op \<and>
        rr_service_count r' = rr_service_count r + (if is_add_service op then 1 else 0) \<or>
     ret = -1 \<and> r' = r \<and> (alloc_ok os \<longrightarrow> \<not> reg_spec_enabled (reg_lookup r) op)) \<and>
    (alloc_ok os \<longrightarrow> alloc_ok os')"
  unfolding reg_refined_def [symmetric]
  by (cases op) (simp_all only: add_service_refines [OF assms] add_method_refines [OF assms])

lemma reg_run_refines:
  "registry_inv r \<Longrightarrow> \<exists>rets r'. reg_run r ops os = Inr (rets, r') \<and> registry_inv r' \<and> length rets = length ops \<and>
    reg_lookup r' = foldl reg_spec_step (reg_lookup r) (succeeded ops rets) \<and>
    rr_service_count r' = rr_service_count r + length (filter is_add_service (succeeded ops rets))"
proof (induction ops arbitrary: r os)
  case Nil
  then show ?case by (simp add: succeeded_def)
next
  case (Cons op ops)
  from reg_step_refines [OF Cons.prems, of op os] obtain ret r1 os1 where
    s: "reg_step r op os = Inr (ret, Some r1, os1)" "registry_inv r1"
      "ret = 0 \<and> reg_lookup r1 = reg_spec_step (reg_lookup r) op \<and>
        rr_service_count r1 = rr_service_count r + (if is_add_service op then 1 else 0) \<or> ret = -1 \<and> r1 = r"
    by blast
  from Cons.IH [OF s(2), of os1] obtain rets r2 where
    t: "reg_run r1 ops os1 = Inr (rets, r2)" "registry_inv r2" "length rets = length ops"
      "reg_lookup r2 = foldl reg_spec_step (reg_lookup r1) (succeeded ops rets)"
      "rr_service_count r2 = rr_service_count r1 + length (filter is_add_service (succeeded ops rets))" by blast
  have run: "reg_run r (op # ops) os = Inr (ret # rets, r2)" using s(1) t(1) by simp
  from s(3) t(2-5) show ?case unfolding run by (auto simp: succeeded_def)
qed

definition registry_fresh :: grpc_reflection_registry where
  "registry_fresh = \<lparr>rr_services = [], rr_service_count = 0, rr_mutex = False\<rparr>"

lemma registry_fresh_inv [simp]: "registry_inv registry_fresh" "reg_lookup registry_fresh = Map.empty"
    "rr_service_count registry_fresh = 0"
  by (auto simp: registry_fresh_def registry_inv_def reg_lookup_def)

section \<open>Properties\<close>

text \<open>
  C25. Whatever services and methods are registered in whatever order, and whichever allocations
  fail, no operation faults; afterwards a lookup by name, the list of services and the count are
  those of the abstract registry to which exactly the operations that returned 0 were applied,
  and every service counts its methods correctly.
\<close>

theorem grpc_reflection_registry_refines_map:
  "\<exists>rets r. reg_run registry_fresh ops os = Inr (rets, r) \<and> length rets = length ops \<and>
    (\<forall>sn. grpc_reflection_registry_get_service (Some r) (Some sn) =
      Inr (foldl reg_spec_step Map.empty (succeeded ops rets) sn, Some r)) \<and>
    grpc_reflection_registry_get_service_count (Some r) =
      Inr (length (filter is_add_service (succeeded ops rets)), Some r) \<and>
    (\<exists>ss. grpc_reflection_registry_list_services (Some r) = Inr (ss, Some r) \<and>
      length ss = length (filter is_add_service (succeeded ops rets)) \<and> list_all service_inv ss)"
proof -
  from reg_run_refines [OF registry_fresh_inv(1), of ops os] obtain rets r where
    r: "reg_run registry_fresh ops os = Inr (rets, r)" "registry_inv r" "length rets = length ops"
      "reg_lookup r = foldl reg_spec_step Map.empty (succeeded ops rets)"
      "rr_service_count r = length (filter is_add_service (succeeded ops rets))" by auto
  have get: "grpc_reflection_registry_get_service (Some r) (Some sn) = Inr (reg_lookup r sn, Some r)" for sn
    using r(2) find_service_find [of "rr_services r" 0 sn]
    by (simp add: grpc_reflection_registry_get_service_def registry_inv_def reg_lookup_def)
  from r get show ?thesis
    by (auto simp: registry_inv_def grpc_reflection_registry_get_service_count_def
        grpc_reflection_registry_list_services_def)
qed

text \<open>
  The full name of a service is its package, a dot and its name (or just its name); the full
  name of a method, meant to be "/service/method", lacks its last character: the buffer is one
  character too short.
\<close>

theorem grpc_reflection_full_method_name_cut:
  assumes "alloc_ok os"
  shows "fst (grpc_reflection_get_full_service_name (Some s) os) =
      Some ((case rs_package_name s of None \<Rightarrow> [] | Some p \<Rightarrow> p @ ''.'') @ rs_service_name s) \<and>
    fst (grpc_reflection_get_full_method_name (Some s) (Some m) os) =
      Some (butlast (''/'' @ (case rs_package_name s of None \<Rightarrow> [] | Some p \<Rightarrow> p @ ''.'') @
        rs_service_name s @ ''/'' @ rm_method_name m))"
proof -
  from assms obtain os1 where os1: "alloc_next os = (True, os1)" "alloc_ok os1" by (rule alloc_next_okE)
  from os1(2) obtain os2 where os2: "alloc_next os1 = (True, os2)" by (rule alloc_next_okE)
  let ?n = "(case rs_package_name s of None \<Rightarrow> [] | Some p \<Rightarrow> p @ ''.'') @ rs_service_name s"
  have svc: "grpc_reflection_get_full_service_name (Some s) os = (Some ?n, os1)"
    using os1(1) by (simp add: grpc_reflection_get_full_service_name_def snprintf_cut_def split: option.splits)
  have "snprintf_cut (length ?n + length (rm_method_name m) + 2) (''/'' @ ?n @ ''/'' @ rm_method_name m) =
      butlast (''/'' @ ?n @ ''/'' @ rm_method_name m)"
    by (simp add: snprintf_cut_def butlast_conv_take del: append_assoc)
  with svc os2 show ?thesis by (simp add: grpc_reflection_get_full_method_name_def)
qed

theorem grpc_reflection_full_method_name_cut_witness:
  "fst (grpc_reflection_get_full_method_name
      (Some \<lparr>rs_service_name = ''Greeter'', rs_package_name = Some ''demo'', rs_methods = [], rs_method_count = 0\<rparr>)
      (Some \<lparr>rm_method_name = ''SayHello'', rm_input_type = ''Req'', rm_output_type = ''Rep'',
         rm_client_streaming = False, rm_server_streaming = False\<rparr>) []) = Some ''/demo.Greeter/SayHell''"
  using grpc_reflection_full_method_name_cut [of "[]"
      "\<lparr>rs_service_name = ''Greeter'', rs_package_name = Some ''demo'', rs_methods = [], rs_method_count = 0\<rparr>"
      "\<lparr>rm_method_name = ''SayHello'', rm_input_type = ''Req'', rm_output_type = ''Rep'',
         rm_client_streaming = False, rm_server_streaming = False\<rparr>"] by simp

text \<open>A method without an input or output type crashes the registration, once its service is found.\<close>

lemma grpc_reflection_registry_add_method_null_type:
  assumes "registry_inv r" and "reg_lookup r sn \<noteq> None" and "alloc_ok os"
  shows "grpc_reflection_registry_add_method (Some r) (Some sn) (Some mn) None ot cs ss os = Inl Null_Deref"
proof -
  from assms(3) obtain os1 where os1: "alloc_next os = (True, os1)" "alloc_ok os1" by (rule alloc_next_okE)
  from os1(2) obtain os2 where os2: "alloc_next os1 = (True, os2)" by (rule alloc_next_okE)
  have "map_option (\<lambda>i. rr_services r ! i) (find_service sn (rr_services r) 0) \<noteq> None"
    using assms(2) find_service_find [of "rr_services r" 0 sn] by (simp add: reg_lookup_def)
  then obtain i where "find_service sn (rr_services r) 0 = Some i" by auto
  with assms(1) os1(1) os2 show ?thesis
    by (simp add: grpc_reflection_registry_add_method_def grpc_method_descriptor_create_def
        registry_inv_def strdup_ptr_def [of None])
qed

end
