(* ===== verification/Observability.thy ===== *)
theory Observability
  imports Heap_List Arrays C_Lib
begin

text \<open>
  Tracing, metrics and logging, \<^verbatim>\<open>src/observability.c\<close>. Spans live in a store of nodes because
  clients keep pointers to them; metrics are only pushed in front and freed together, so their
  linked list is a list. The exporter and the log handler are functions that may change a state
  \<open>'s\<close> the component knows nothing about. A \<open>double\<close> is a value of a type \<open>'v\<close> whose zero,
  addition and comparison are arguments; the clock readings are arguments, and so is the
  sequence of numbers \<open>rand\<close> gives after \<open>srand\<close>.
\<close>

section \<open>Data\<close>

type_synonym timeval = "int \<times> int"

text \<open>A tag: key and value, \<open>None\<close> when the copy could not be allocated, and the length.\<close>

type_synonym trace_tag = "string option \<times> string option \<times> nat"

record grpc_trace_span =
  ts_trace_id :: "char block"
  ts_span_id :: "char block"
  ts_parent_span_id :: "string option"
  ts_operation_name :: string
  ts_start_time :: timeval
  ts_end_time :: timeval
  ts_finished :: bool
  ts_tags :: "trace_tag arr"
  ts_logs :: "trace_tag arr"

type_synonym 's span_exporter = "grpc_trace_span \<Rightarrow> nat option \<Rightarrow> 's \<Rightarrow> grpc_trace_span \<times> 's"

record 's grpc_trace_context =
  tc_active_spans :: "addr option"
  tc_span_count :: nat
  tc_mutex :: mutex
  tc_export_span :: "'s span_exporter option"
  tc_exporter_user_data :: "nat option"
  tc_nodes :: "grpc_trace_span store"

datatype grpc_metric_type = GRPC_METRIC_COUNTER | GRPC_METRIC_GAUGE | GRPC_METRIC_HISTOGRAM

record 'v grpc_metric =
  gm_name :: "string option"
  gm_description :: "string option"
  gm_type :: grpc_metric_type
  gm_value :: 'v
  gm_count :: nat
  gm_sum :: 'v
  gm_min :: 'v
  gm_max :: 'v

record 'v grpc_metrics_registry =
  mr_metrics :: "'v grpc_metric list"
  mr_metric_count :: nat
  mr_mutex :: mutex

text \<open>The arithmetic of \<open>double\<close>.\<close>

record 'v arith =
  ar_zero :: 'v
  ar_add :: "'v \<Rightarrow> 'v \<Rightarrow> 'v"
  ar_less :: "'v \<Rightarrow> 'v \<Rightarrow> bool"

datatype grpc_log_level =
    GRPC_LOG_LEVEL_DEBUG | GRPC_LOG_LEVEL_INFO | GRPC_LOG_LEVEL_WARNING | GRPC_LOG_LEVEL_ERROR

text \<open>The levels are compared as the numbers of the enumeration.\<close>

fun log_level_code :: "grpc_log_level \<Rightarrow> nat" where
  "log_level_code GRPC_LOG_LEVEL_DEBUG = 0"
| "log_level_code GRPC_LOG_LEVEL_INFO = 1"
| "log_level_code GRPC_LOG_LEVEL_WARNING = 2"
| "log_level_code GRPC_LOG_LEVEL_ERROR = 3"

lemma log_level_code_inj [simp]: "log_level_code a = log_level_code b \<longleftrightarrow> a = b"
  by (cases a; cases b) simp_all

instantiation grpc_log_level :: linorder
begin

definition less_eq_grpc_log_level :: "grpc_log_level \<Rightarrow> grpc_log_level \<Rightarrow> bool" where
  "less_eq_grpc_log_level a b = (log_level_code a \<le> log_level_code b)"

definition less_grpc_log_level :: "grpc_log_level \<Rightarrow> grpc_log_level \<Rightarrow> bool" where
  "less_grpc_log_level a b = (log_level_code a < log_level_code b)"

instance
  by intro_classes (auto simp: less_eq_grpc_log_level_def less_grpc_log_level_def)

end

type_synonym 's log_handler = "grpc_log_level \<Rightarrow> string \<Rightarrow> nat option \<Rightarrow> 's \<Rightarrow> 's"

record 's grpc_logger =
  lg_min_level :: grpc_log_level
  lg_log_func :: "'s log_handler option"
  lg_user_data :: "nat option"
  lg_mutex :: mutex

section \<open>Tracing\<close>

text \<open>An identifier: a block of seventeen bytes with sixteen hexadecimal digits, from the numbers
  that follow seeding with the time in microseconds cut to 32 bits, and a terminator.\<close>

definition charset :: string where "charset = ''0123456789abcdef''"

definition id_seed :: "timeval \<Rightarrow> nat" where
  "id_seed tv = nat ((fst tv * 1000000 + snd tv) mod 2 ^ 32)"

text \<open>The loop over the digits, from index \<open>i\<close> with \<open>n\<close> to go.\<close>

fun id_fill :: "(nat \<Rightarrow> nat) \<Rightarrow> nat \<Rightarrow> nat \<Rightarrow> char block \<Rightarrow> char block exec" where
  "id_fill draws i 0 buf = Inr buf"
| "id_fill draws i (Suc n) buf =
     exec_bind (block_store buf i (charset ! (draws i mod 16))) (id_fill draws (i + 1) n)"

definition grpc_generate_id :: "(nat \<Rightarrow> nat \<Rightarrow> nat) \<Rightarrow> timeval \<Rightarrow> alloc \<Rightarrow> (char block \<times> alloc) exec" where
  "grpc_generate_id rand tv os =
     (let (ok, os1) = alloc_next os
      in if \<not> ok then Inr (Null_Block, os1)
         else
           exec_bind (id_fill (rand (id_seed tv)) 0 16 (block_calloc 17)) (\<lambda>id.
           exec_bind (block_store id 16 (CHR 0x00)) (\<lambda>id. Inr (id, os1))))"

text \<open>\<open>now k\<close> is the \<open>k\<close>-th reading of the clock; both identifiers are made before they are checked.\<close>

definition grpc_trace_span_create ::
    "(nat \<Rightarrow> nat \<Rightarrow> nat) \<Rightarrow> (nat \<Rightarrow> timeval) \<Rightarrow> string \<Rightarrow> string option \<Rightarrow> alloc \<Rightarrow>
     (grpc_trace_span option \<times> alloc) exec" where
  "grpc_trace_span_create rand now operation_name parent_span_id os =
     (let (ok, os1) = alloc_next os
      in if \<not> ok then Inr (None, os1)
         else
           exec_bind (grpc_generate_id rand (now 0) os1) (\<lambda>(trace_id, os2).
           exec_bind (grpc_generate_id rand (now 1) os2) (\<lambda>(span_id, os3).
             if trace_id = Null_Block \<or> span_id = Null_Block
             then exec_bind (block_free trace_id) (\<lambda>_. exec_bind (block_free span_id) (\<lambda>_. Inr (None, os3)))
             else
               (let (parent, os4) =
                      (case parent_span_id of
                         None \<Rightarrow> (None, os3)
                       | Some p \<Rightarrow> (let (ok', os') = alloc_next os3 in (if ok' then Some p else None, os')));
                    (ok5, os5) = alloc_next os4
                in if \<not> ok5
                   then exec_bind (block_free trace_id) (\<lambda>_. exec_bind (block_free span_id) (\<lambda>_. Inr (None, os5)))
                   else
                     Inr (Some \<lparr>ts_trace_id = trace_id, ts_span_id = span_id, ts_parent_span_id = parent,
                        ts_operation_name = operation_name, ts_start_time = now 2, ts_end_time = (0, 0),
                        ts_finished = False,
                        ts_tags = \<lparr>arr_block = Null_Block, arr_count = 0, arr_capacity = 0\<rparr>,
                        ts_logs = \<lparr>arr_block = Null_Block, arr_count = 0, arr_capacity = 0\<rparr>\<rparr>, os5)))))"

text \<open>Releasing the identifiers and the arrays of a span; the other strings are values here.\<close>

definition grpc_trace_span_destroy :: "grpc_trace_span \<Rightarrow> unit exec" where
  "grpc_trace_span_destroy span =
     exec_bind (block_free (ts_trace_id span)) (\<lambda>_.
     exec_bind (block_free (ts_span_id span)) (\<lambda>_.
     exec_bind (if arr_block (ts_tags span) \<noteq> Null_Block then block_free (arr_block (ts_tags span)) else Inr ()) (\<lambda>_.
       if arr_block (ts_logs span) \<noteq> Null_Block then block_free (arr_block (ts_logs span)) else Inr ())))"

definition grpc_trace_context_create :: "alloc \<Rightarrow> 's grpc_trace_context option \<times> alloc" where
  "grpc_trace_context_create os =
     (let (ok, os1) = alloc_next os
      in if \<not> ok then (None, os1)
         else (Some \<lparr>tc_active_spans = None, tc_span_count = 0, tc_mutex = False, tc_export_span = None,
                 tc_exporter_user_data = None, tc_nodes = store_empty\<rparr>, os1))"

definition grpc_trace_start_span ::
    "(nat \<Rightarrow> nat \<Rightarrow> nat) \<Rightarrow> (nat \<Rightarrow> timeval) \<Rightarrow> 's grpc_trace_context option \<Rightarrow> string option \<Rightarrow> string option \<Rightarrow> alloc \<Rightarrow>
     (addr option \<times> 's grpc_trace_context option \<times> alloc) exec" where
  "grpc_trace_start_span rand now ctx operation_name parent_span_id os =
     (case (ctx, operation_name) of
        (Some c, Some op) \<Rightarrow>
          exec_bind (grpc_trace_span_create rand now op parent_span_id os) (\<lambda>(new, os1).
            (case new of
               None \<Rightarrow> Inr (None, ctx, os1)
             | Some span \<Rightarrow>
                 exec_bind (mutex_lock (tc_mutex c)) (\<lambda>m.
                   (case store_new (tc_nodes c) span (tc_active_spans c) of
                      (a, nodes) \<Rightarrow>
                        Inr (Some a, Some (c\<lparr>tc_nodes := nodes, tc_active_spans := Some a,
                               tc_span_count := tc_span_count c + 1, tc_mutex := mutex_unlock m\<rparr>), os1)))))
      | _ \<Rightarrow> Inr (None, ctx, os))"

text \<open>Finishing a span; the exporter runs with the mutex held.\<close>

definition grpc_trace_finish_span ::
    "timeval \<Rightarrow> 's grpc_trace_context option \<Rightarrow> addr option \<Rightarrow> 's \<Rightarrow> (int \<times> 's grpc_trace_context option \<times> 's) exec" where
  "grpc_trace_finish_span now ctx span s =
     (case (ctx, span) of
        (Some c, Some _) \<Rightarrow>
          exec_bind (mutex_lock (tc_mutex c)) (\<lambda>m.
          exec_bind (store_upd (tc_nodes c) span (\<lambda>t. t\<lparr>ts_end_time := now, ts_finished := True\<rparr>)) (\<lambda>nodes.
            (case tc_export_span c of
               None \<Rightarrow> Inr (0, Some (c\<lparr>tc_nodes := nodes, tc_mutex := mutex_unlock m\<rparr>), s)
             | Some f \<Rightarrow>
                 exec_bind (store_get nodes span) (\<lambda>n.
                   (case f (node_val n) (tc_exporter_user_data c) s of
                      (t, s') \<Rightarrow>
                        exec_bind (store_upd nodes span (\<lambda>_. t)) (\<lambda>nodes'.
                          Inr (0, Some (c\<lparr>tc_nodes := nodes', tc_mutex := mutex_unlock m\<rparr>), s')))))))
      | _ \<Rightarrow> Inr (-1, ctx, s))"

text \<open>Adding a tag. The two copies are not checked.\<close>

definition span_add_tag :: "grpc_trace_span \<Rightarrow> string \<Rightarrow> string \<Rightarrow> alloc \<Rightarrow> (int \<times> grpc_trace_span \<times> alloc) exec" where
  "span_add_tag span key val os =
     (let tags = ts_tags span;
          new_capacity = (if arr_capacity tags = 0 then 4 else arr_capacity tags * 2)
      in exec_bind (arr_grow tags new_capacity os) (\<lambda>(grown, tags1, os1).
           if \<not> grown then Inr (-1, span, os1)
           else
             (let (ok1, os2) = alloc_next os1;
                  (ok2, os3) = alloc_next os2
              in exec_bind (arr_put tags1 (if ok1 then Some key else None, if ok2 then Some val else None, length val)) (\<lambda>tags2.
                   Inr (0, span\<lparr>ts_tags := tags2\<rparr>, os3)))))"

definition grpc_trace_span_add_tag ::
    "'s grpc_trace_context \<Rightarrow> addr option \<Rightarrow> string option \<Rightarrow> string option \<Rightarrow> alloc \<Rightarrow>
     (int \<times> 's grpc_trace_context \<times> alloc) exec" where
  "grpc_trace_span_add_tag c span key val os =
     (case (span, key, val) of
        (Some _, Some k, Some v) \<Rightarrow>
          exec_bind (store_get (tc_nodes c) span) (\<lambda>n.
          exec_bind (span_add_tag (node_val n) k v os) (\<lambda>(r, t, os1).
          exec_bind (store_upd (tc_nodes c) span (\<lambda>_. t)) (\<lambda>nodes. Inr (r, c\<lparr>tc_nodes := nodes\<rparr>, os1))))
      | _ \<Rightarrow> Inr (-1, c, os))"

definition grpc_trace_context_set_exporter ::
    "'s grpc_trace_context option \<Rightarrow> 's span_exporter option \<Rightarrow> nat option \<Rightarrow> 's grpc_trace_context option exec" where
  "grpc_trace_context_set_exporter ctx export_func user_data =
     (case ctx of
        None \<Rightarrow> Inr None
      | Some c \<Rightarrow>
          exec_bind (mutex_lock (tc_mutex c)) (\<lambda>m.
            Inr (Some (c\<lparr>tc_export_span := export_func, tc_exporter_user_data := user_data,
                        tc_mutex := mutex_unlock m\<rparr>))))"

partial_function (option) trace_destroy_loop ::
    "grpc_trace_span store \<Rightarrow> addr option \<Rightarrow> grpc_trace_span store exec option" where
  "trace_destroy_loop st span =
     (case span of
        None \<Rightarrow> Some (Inr st)
      | Some a \<Rightarrow>
          (case store_get st span of
             Inl e \<Rightarrow> Some (Inl e)
           | Inr n \<Rightarrow>
               (case exec_bind (grpc_trace_span_destroy (node_val n)) (\<lambda>_. store_free st span) of
                  Inl e \<Rightarrow> Some (Inl e)
                | Inr st' \<Rightarrow> trace_destroy_loop st' (node_next n))))"

definition grpc_trace_context_destroy ::
    "'s grpc_trace_context option \<Rightarrow> grpc_trace_span store option exec option" where
  "grpc_trace_context_destroy ctx =
     (case ctx of
        None \<Rightarrow> Some (Inr None)
      | Some c \<Rightarrow>
          (case mutex_lock (tc_mutex c) of
             Inl e \<Rightarrow> Some (Inl e)
           | Inr m \<Rightarrow> map_option (map_sum id Some) (trace_destroy_loop (tc_nodes c) (tc_active_spans c))))"

section \<open>Metrics\<close>

definition grpc_metrics_registry_create :: "alloc \<Rightarrow> 'v grpc_metrics_registry option \<times> alloc" where
  "grpc_metrics_registry_create os =
     (let (ok, os1) = alloc_next os
      in if \<not> ok then (None, os1)
         else (Some \<lparr>mr_metrics = [], mr_metric_count = 0, mr_mutex = False\<rparr>, os1))"

text \<open>Neither copy is checked, so a metric may have no name.\<close>

definition grpc_metrics_register ::
    "'v arith \<Rightarrow> 'v grpc_metrics_registry option \<Rightarrow> string option \<Rightarrow> string option \<Rightarrow> grpc_metric_type \<Rightarrow> alloc \<Rightarrow>
     (int \<times> 'v grpc_metrics_registry option \<times> alloc) exec" where
  "grpc_metrics_register ar registry name description type os =
     (case (registry, name) of
        (Some r, Some nm) \<Rightarrow>
          (let (ok, os1) = alloc_next os
           in if \<not> ok then Inr (-1, registry, os1)
              else
                (let (ok2, os2) = alloc_next os1;
                     (desc, os3) =
                       (case description of
                          None \<Rightarrow> (None, os2)
                        | Some d \<Rightarrow> (let (ok3, os') = alloc_next os2 in (if ok3 then Some d else None, os')))
                 in exec_bind (mutex_lock (mr_mutex r)) (\<lambda>m.
                      Inr (0, Some (r\<lparr>mr_metrics := \<lparr>gm_name = (if ok2 then Some nm else None), gm_description = desc,
                               gm_type = type, gm_value = ar_zero ar, gm_count = 0, gm_sum = ar_zero ar,
                               gm_min = ar_zero ar, gm_max = ar_zero ar\<rparr> # mr_metrics r,
                             mr_metric_count := mr_metric_count r + 1, mr_mutex := mutex_unlock m\<rparr>), os3))))
      | _ \<Rightarrow> Inr (-1, registry, os))"

text \<open>The search by name: comparing a name that was not copied goes through \<open>NULL\<close>. The loop of
  the updates changes the metric it finds.\<close>

fun metric_update ::
    "string \<Rightarrow> ('v grpc_metric \<Rightarrow> 'v grpc_metric) \<Rightarrow> 'v grpc_metric list \<Rightarrow> 'v grpc_metric list option exec" where
  "metric_update nm f [] = Inr None"
| "metric_update nm f (x # xs) =
     (case gm_name x of
        None \<Rightarrow> Inl Null_Deref
      | Some n \<Rightarrow>
          if n = nm then Inr (Some (f x # xs))
          else exec_bind (metric_update nm f xs) (\<lambda>r. Inr (map_option (\<lambda>xs'. x # xs') r)))"

fun metric_find :: "string \<Rightarrow> 'v grpc_metric list \<Rightarrow> 'v grpc_metric option exec" where
  "metric_find nm [] = Inr None"
| "metric_find nm (x # xs) =
     (case gm_name x of
        None \<Rightarrow> Inl Null_Deref
      | Some n \<Rightarrow> if n = nm then Inr (Some x) else metric_find nm xs)"

definition metric_increment :: "'v arith \<Rightarrow> 'v \<Rightarrow> 'v grpc_metric \<Rightarrow> 'v grpc_metric" where
  "metric_increment ar v x =
     (let x1 = x\<lparr>gm_value := ar_add ar (gm_value x) v, gm_count := gm_count x + 1, gm_sum := ar_add ar (gm_sum x) v\<rparr>;
          x2 = (if gm_count x1 = 1 \<or> ar_less ar v (gm_min x1) then x1\<lparr>gm_min := v\<rparr> else x1)
      in if gm_count x2 = 1 \<or> ar_less ar (gm_max x2) v then x2\<lparr>gm_max := v\<rparr> else x2)"

definition metrics_apply ::
    "('v grpc_metric \<Rightarrow> 'v grpc_metric) \<Rightarrow> 'v grpc_metrics_registry option \<Rightarrow> string option \<Rightarrow>
     (int \<times> 'v grpc_metrics_registry option) exec" where
  "metrics_apply f registry name =
     (case (registry, name) of
        (Some r, Some nm) \<Rightarrow>
          exec_bind (mutex_lock (mr_mutex r)) (\<lambda>m.
          exec_bind (metric_update nm f (mr_metrics r)) (\<lambda>found.
            (case found of
               Some xs \<Rightarrow> Inr (0, Some (r\<lparr>mr_metrics := xs, mr_mutex := mutex_unlock m\<rparr>))
             | None \<Rightarrow> Inr (-1, Some (r\<lparr>mr_mutex := mutex_unlock m\<rparr>)))))
      | _ \<Rightarrow> Inr (-1, registry))"

definition grpc_metrics_increment ::
    "'v arith \<Rightarrow> 'v grpc_metrics_registry option \<Rightarrow> string option \<Rightarrow> 'v \<Rightarrow> (int \<times> 'v grpc_metrics_registry option) exec" where
  "grpc_metrics_increment ar registry name v = metrics_apply (metric_increment ar v) registry name"

definition grpc_metrics_set ::
    "'v grpc_metrics_registry option \<Rightarrow> string option \<Rightarrow> 'v \<Rightarrow> (int \<times> 'v grpc_metrics_registry option) exec" where
  "grpc_metrics_set registry name v = metrics_apply (\<lambda>x. x\<lparr>gm_value := v\<rparr>) registry name"

definition grpc_metrics_get ::
    "'v grpc_metrics_registry option \<Rightarrow> string option \<Rightarrow> ('v grpc_metric option \<times> 'v grpc_metrics_registry option) exec" where
  "grpc_metrics_get registry name =
     (case (registry, name) of
        (Some r, Some nm) \<Rightarrow>
          exec_bind (mutex_lock (mr_mutex r)) (\<lambda>m.
          exec_bind (metric_find nm (mr_metrics r)) (\<lambda>found.
            Inr (found, Some (r\<lparr>mr_mutex := mutex_unlock m\<rparr>))))
      | _ \<Rightarrow> Inr (None, registry))"

text \<open>Destroying a registry: how many metrics were freed.\<close>

definition grpc_metrics_registry_destroy :: "'v grpc_metrics_registry option \<Rightarrow> nat exec" where
  "grpc_metrics_registry_destroy registry =
     (case registry of
        None \<Rightarrow> Inr 0
      | Some r \<Rightarrow> exec_bind (mutex_lock (mr_mutex r)) (\<lambda>m. Inr (length (mr_metrics r))))"

section \<open>Logging\<close>

definition grpc_logger_create :: "grpc_log_level \<Rightarrow> alloc \<Rightarrow> 's grpc_logger option \<times> alloc" where
  "grpc_logger_create min_level os =
     (let (ok, os1) = alloc_next os
      in if \<not> ok then (None, os1)
         else (Some \<lparr>lg_min_level = min_level, lg_log_func = None, lg_user_data = None, lg_mutex = False\<rparr>, os1))"

definition grpc_logger_set_handler ::
    "'s grpc_logger option \<Rightarrow> 's log_handler option \<Rightarrow> nat option \<Rightarrow> 's grpc_logger option exec" where
  "grpc_logger_set_handler logger log_func user_data =
     (case logger of
        None \<Rightarrow> Inr None
      | Some l \<Rightarrow>
          exec_bind (mutex_lock (lg_mutex l)) (\<lambda>m.
            Inr (Some (l\<lparr>lg_log_func := log_func, lg_user_data := user_data, lg_mutex := mutex_unlock m\<rparr>))))"

definition grpc_logger_log ::
    "'s grpc_logger option \<Rightarrow> grpc_log_level \<Rightarrow> string option \<Rightarrow> 's \<Rightarrow> ('s grpc_logger option \<times> 's) exec" where
  "grpc_logger_log logger level message s =
     (case (logger, message) of
        (Some l, Some msg) \<Rightarrow>
          if level < lg_min_level l then Inr (logger, s)
          else
            exec_bind (mutex_lock (lg_mutex l)) (\<lambda>m.
              Inr (Some (l\<lparr>lg_mutex := mutex_unlock m\<rparr>),
                   (case lg_log_func l of None \<Rightarrow> s | Some f \<Rightarrow> f level msg (lg_user_data l) s)))
      | _ \<Rightarrow> Inr (logger, s))"

definition grpc_logger_destroy :: "'s grpc_logger option \<Rightarrow> bool" where
  "grpc_logger_destroy logger = (logger \<noteq> None)"

section \<open>Lemmas on metrics\<close>

definition metrics_inv :: "'v grpc_metrics_registry \<Rightarrow> bool" where
  "metrics_inv r \<longleftrightarrow> \<not> mr_mutex r \<and> mr_metric_count r = length (mr_metrics r) \<and>
     (\<forall>x\<in>set (mr_metrics r). gm_name x \<noteq> None)"

definition metric_lookup :: "'v grpc_metrics_registry \<Rightarrow> string \<rightharpoonup> 'v grpc_metric" where
  "metric_lookup r nm = find (\<lambda>x. gm_name x = Some nm) (mr_metrics r)"

lemma metrics_same [simp]: "\<not> mr_mutex r \<Longrightarrow> r\<lparr>mr_mutex := False\<rparr> = r"
  by (cases r) simp

lemma metric_find_eq:
  "\<forall>x\<in>set xs. gm_name x \<noteq> None \<Longrightarrow> metric_find nm xs = Inr (find (\<lambda>x. gm_name x = Some nm) xs)"
  by (induction xs) (auto split: option.splits)

lemma metric_update_eq:
  "\<forall>x\<in>set xs. gm_name x \<noteq> None \<Longrightarrow> metric_update nm f xs = Inr (update_first (\<lambda>x. gm_name x = Some nm) f xs)"
  by (induction xs) (auto split: option.splits)

lemma metrics_get_eq:
  "metrics_inv r \<Longrightarrow> grpc_metrics_get (Some r) (Some nm) = Inr (metric_lookup r nm, Some r)"
  by (simp add: grpc_metrics_get_def metrics_inv_def metric_find_eq metric_lookup_def)

text \<open>An update changes what its name is bound to and nothing else.\<close>

lemma metrics_apply_ok:
  assumes "metrics_inv r" and "\<And>x. gm_name (f x) = gm_name x"
  shows "case metric_lookup r nm of
      None \<Rightarrow> metrics_apply f (Some r) (Some nm) = Inr (-1, Some r)
    | Some x \<Rightarrow> \<exists>r'. metrics_apply f (Some r) (Some nm) = Inr (0, Some r') \<and> metrics_inv r' \<and>
        metric_lookup r' = (metric_lookup r)(nm \<mapsto> f x)"
proof (cases "metric_lookup r nm")
  case None
  with assms(1) show ?thesis
    by (simp add: metrics_apply_def metrics_inv_def metric_update_eq metric_lookup_def
        update_first_None_iff [THEN iffD2])
next
  case (Some x)
  let ?P = "\<lambda>x. gm_name x = Some nm"
  from Some obtain ys where ys: "update_first ?P f (mr_metrics r) = Some ys"
    using update_first_None_iff [of ?P f "mr_metrics r"] by (cases "update_first ?P f (mr_metrics r)") (auto simp: metric_lookup_def)
  let ?r = "r\<lparr>mr_metrics := ys, mr_mutex := False\<rparr>"
  have "metrics_apply f (Some r) (Some nm) = Inr (0, Some ?r)"
    using assms(1) ys by (simp add: metrics_apply_def metrics_inv_def metric_update_eq)
  moreover have "metrics_inv ?r"
    using assms update_first_length [OF ys] update_first_set [OF ys] by (fastforce simp: metrics_inv_def)
  moreover have "metric_lookup ?r = (metric_lookup r)(nm \<mapsto> f x)"
    using find_update_first_key [of gm_name f "Some nm", OF assms(2) ys] Some
    by (auto simp: metric_lookup_def fun_eq_iff)
  ultimately show ?thesis using Some by simp
qed

lemma metrics_register_ok:
  assumes "metrics_inv r" and "alloc_ok os"
  shows "\<exists>r' x os'. grpc_metrics_register ar (Some r) (Some nm) desc ty os = Inr (0, Some r', os') \<and> metrics_inv r' \<and>
    metric_lookup r' = (metric_lookup r)(nm \<mapsto> x) \<and> gm_type x = ty \<and> gm_description x = desc \<and>
    gm_value x = ar_zero ar \<and> gm_count x = 0 \<and> gm_sum x = ar_zero ar \<and> gm_min x = ar_zero ar \<and> gm_max x = ar_zero ar"
proof -
  from assms(2) obtain os1 where os1: "alloc_next os = (True, os1)" "alloc_ok os1" by (rule alloc_next_okE)
  from os1(2) obtain os2 where os2: "alloc_next os1 = (True, os2)" "alloc_ok os2" by (rule alloc_next_okE)
  from os2(2) obtain os3 where os3: "alloc_next os2 = (True, os3)" by (rule alloc_next_okE)
  let ?x = "\<lparr>gm_name = Some nm, gm_description = desc, gm_type = ty, gm_value = ar_zero ar, gm_count = 0,
    gm_sum = ar_zero ar, gm_min = ar_zero ar, gm_max = ar_zero ar\<rparr>"
  let ?r = "r\<lparr>mr_metrics := ?x # mr_metrics r, mr_metric_count := mr_metric_count r + 1, mr_mutex := False\<rparr>"
  have "grpc_metrics_register ar (Some r) (Some nm) desc ty os =
      Inr (0, Some ?r, case desc of None \<Rightarrow> os2 | Some _ \<Rightarrow> os3)"
    using assms(1) os1(1) os2(1) os3 by (cases desc) (simp_all add: grpc_metrics_register_def metrics_inv_def)
  moreover have "metrics_inv ?r" using assms(1) by (simp add: metrics_inv_def)
  moreover have "metric_lookup ?r = (metric_lookup r)(nm \<mapsto> ?x)" by (auto simp: metric_lookup_def fun_eq_iff)
  ultimately show ?thesis by (intro exI [of _ ?r] exI [of _ ?x]) simp
qed

lemma metric_increment_name [simp]: "gm_name (metric_increment ar v x) = gm_name x"
  by (simp add: metric_increment_def Let_def)

text \<open>What a sequence of increments makes of a metric.\<close>

definition metric_summary :: "'v arith \<Rightarrow> 'v list \<Rightarrow> 'v grpc_metric \<Rightarrow> bool" where
  "metric_summary ar vs x \<longleftrightarrow> gm_count x = length vs \<and> gm_value x = foldl (ar_add ar) (ar_zero ar) vs \<and>
     gm_sum x = foldl (ar_add ar) (ar_zero ar) vs \<and>
     (vs \<noteq> [] \<longrightarrow> gm_min x \<in> set vs \<and> gm_max x \<in> set vs \<and>
       (\<forall>v\<in>set vs. \<not> ar_less ar v (gm_min x) \<and> \<not> ar_less ar (gm_max x) v))"

lemma metric_summary_snoc:
  assumes "transp (ar_less ar)" and "irreflp (ar_less ar)" and "metric_summary ar vs x"
  shows "metric_summary ar (vs @ [v]) (metric_increment ar v x)"
proof -
  have t: "ar_less ar a b \<Longrightarrow> ar_less ar b c \<Longrightarrow> ar_less ar a c" for a b c using assms(1) by (rule transpD)
  have i: "\<not> ar_less ar a a" for a using assms(2) by (rule irreflpD)
  show ?thesis
  proof (cases "vs = []")
    case True
    with assms(3) i show ?thesis by (simp add: metric_summary_def metric_increment_def)
  next
    case False
    with assms(3) have x: "gm_count x = length vs" "0 < length vs" "gm_value x = foldl (ar_add ar) (ar_zero ar) vs"
      "gm_sum x = foldl (ar_add ar) (ar_zero ar) vs" "gm_min x \<in> set vs" "gm_max x \<in> set vs"
      "\<forall>u\<in>set vs. \<not> ar_less ar u (gm_min x) \<and> \<not> ar_less ar (gm_max x) u" by (simp_all add: metric_summary_def)
    let ?y = "metric_increment ar v x"
    have y: "gm_count ?y = Suc (gm_count x)" "gm_value ?y = ar_add ar (gm_value x) v" "gm_sum ?y = ar_add ar (gm_sum x) v"
      "gm_min ?y = (if ar_less ar v (gm_min x) then v else gm_min x)"
      "gm_max ?y = (if ar_less ar (gm_max x) v then v else gm_max x)"
      using x(1,2) by (simp_all add: metric_increment_def Let_def)
    have lo: "\<not> ar_less ar u (gm_min ?y)" if "u \<in> set (vs @ [v])" for u
      using that x(7) i t [of u v "gm_min x"] y(4) by auto
    have hi: "\<not> ar_less ar (gm_max ?y) u" if "u \<in> set (vs @ [v])" for u
      using that x(7) i t [of "gm_max x" v u] y(5) by auto
    have mem: "gm_min ?y \<in> set (vs @ [v])" "gm_max ?y \<in> set (vs @ [v])" using x(5,6) y(4,5) by auto
    from lo hi mem x(1,3,4) y(1-3) show ?thesis by (simp add: metric_summary_def)
  qed
qed

fun increment_run :: "'v arith \<Rightarrow> 'v grpc_metrics_registry \<Rightarrow> string \<Rightarrow> 'v list \<Rightarrow> 'v grpc_metrics_registry exec" where
  "increment_run ar r nm [] = Inr r"
| "increment_run ar r nm (v # vs) =
     exec_bind (grpc_metrics_increment ar (Some r) (Some nm) v) (\<lambda>(ret, r'). increment_run ar (the r') nm vs)"

lemma increment_run_ok:
  assumes "transp (ar_less ar)" and "irreflp (ar_less ar)"
  shows "metrics_inv r \<Longrightarrow> metric_lookup r nm = Some x \<Longrightarrow> metric_summary ar us x \<Longrightarrow>
    \<exists>r' x'. increment_run ar r nm vs = Inr r' \<and> metrics_inv r' \<and> metric_lookup r' = (metric_lookup r)(nm \<mapsto> x') \<and>
      metric_summary ar (us @ vs) x'"
proof (induction vs arbitrary: r x us)
  case Nil
  then show ?case by (intro exI [of _ r] exI [of _ x]) (auto simp: fun_eq_iff)
next
  case (Cons v vs)
  from metrics_apply_ok [OF Cons.prems(1), of "metric_increment ar v" nm] Cons.prems(2) obtain r1 where
    r1: "grpc_metrics_increment ar (Some r) (Some nm) v = Inr (0, Some r1)" "metrics_inv r1"
      "metric_lookup r1 = (metric_lookup r)(nm \<mapsto> metric_increment ar v x)" by (auto simp: grpc_metrics_increment_def)
  have "metric_lookup r1 nm = Some (metric_increment ar v x)" using r1(3) by simp
  from Cons.IH [OF r1(2) this metric_summary_snoc [OF assms Cons.prems(3)]] obtain r2 x2 where
    r2: "increment_run ar r1 nm vs = Inr r2" "metrics_inv r2" "metric_lookup r2 = (metric_lookup r1)(nm \<mapsto> x2)"
      "metric_summary ar ((us @ [v]) @ vs) x2" by blast
  have "metric_lookup r2 = (metric_lookup r)(nm \<mapsto> x2)" unfolding r2(3) r1(3) by (rule fun_upd_upd)
  with r1(1) r2 show ?case by (intro exI [of _ r2] exI [of _ x2]) simp
qed

section \<open>Lemmas on tracing\<close>

definition span_ok :: "grpc_trace_span \<Rightarrow> bool" where
  "span_ok t \<longleftrightarrow> arr_wf (ts_tags t) \<and> arr_wf (ts_logs t) \<and> ts_trace_id t \<noteq> Freed_Block \<and> ts_span_id t \<noteq> Freed_Block"

definition trace_inv :: "'s grpc_trace_context \<Rightarrow> (addr \<times> grpc_trace_span) list \<Rightarrow> bool" where
  "trace_inv c cs \<longleftrightarrow> \<not> tc_mutex c \<and> list_in (tc_nodes c) (tc_active_spans c) cs \<and> tc_span_count c = length cs \<and>
     list_all (\<lambda>(a, t). span_ok t) cs"

text \<open>The identifier that a sequence of numbers gives, as it lies in memory.\<close>

definition hex_id :: "(nat \<Rightarrow> nat) \<Rightarrow> string" where
  "hex_id draws = map (\<lambda>i. charset ! (draws i mod 16)) [0..<16]"

definition id_block :: "(nat \<Rightarrow> nat) \<Rightarrow> char block" where
  "id_block draws = Live_Block (map Some (hex_id draws @ [CHR 0x00]))"

lemma id_fill_eq:
  "length written + n \<le> 17 \<Longrightarrow> id_fill draws (length written) n (Live_Block (written @ replicate (17 - length written) None)) =
   Inr (Live_Block (written @ map (\<lambda>i. Some (charset ! (draws i mod 16))) [length written..<length written + n] @
     replicate (17 - (length written + n)) None))"
proof (induction n arbitrary: written)
  case (Suc n)
  then have r: "17 - length written = Suc (16 - length written)" by simp
  have "id_fill draws (length (written @ [Some (charset ! (draws (length written) mod 16))])) n
      (Live_Block ((written @ [Some (charset ! (draws (length written) mod 16))]) @ replicate (16 - length written) None)) =
    Inr (Live_Block ((written @ [Some (charset ! (draws (length written) mod 16))]) @
      map (\<lambda>i. Some (charset ! (draws i mod 16))) [Suc (length written)..<Suc (length written) + n] @
      replicate (17 - (Suc (length written) + n)) None))"
    using Suc.IH [of "written @ [Some (charset ! (draws (length written) mod 16))]"] Suc.prems by simp
  moreover have "[length written..<length written + Suc n] = length written # [Suc (length written)..<Suc (length written) + n]"
    by (simp add: upt_conv_Cons del: upt_Suc)
  ultimately show ?case using Suc.prems by (simp add: r del: upt_Suc)
qed simp

lemma generate_id_eq:
  "grpc_generate_id rand tv os =
   Inr (if fst (alloc_next os) then id_block (rand (id_seed tv)) else Null_Block, snd (alloc_next os))"
proof -
  have "id_fill draws 0 16 (block_calloc 17) =
      Inr (Live_Block (map (\<lambda>i. Some (charset ! (draws i mod 16))) [0..<16] @ [None]))" for draws
    using id_fill_eq [of "[]" 16 draws] by (simp add: block_calloc_def)
  then show ?thesis
    by (simp add: grpc_generate_id_def split_beta id_block_def hex_id_def list_update_append comp_def)
qed

definition span_new ::
    "(nat \<Rightarrow> nat \<Rightarrow> nat) \<Rightarrow> (nat \<Rightarrow> timeval) \<Rightarrow> string \<Rightarrow> string option \<Rightarrow> grpc_trace_span" where
  "span_new rand now op par =
     \<lparr>ts_trace_id = id_block (rand (id_seed (now 0))), ts_span_id = id_block (rand (id_seed (now 1))),
      ts_parent_span_id = par, ts_operation_name = op, ts_start_time = now 2, ts_end_time = (0, 0),
      ts_finished = False, ts_tags = \<lparr>arr_block = Null_Block, arr_count = 0, arr_capacity = 0\<rparr>,
      ts_logs = \<lparr>arr_block = Null_Block, arr_count = 0, arr_capacity = 0\<rparr>\<rparr>"

lemma id_block_live [simp]: "id_block d \<noteq> Null_Block" "id_block d \<noteq> Freed_Block" "block_free (id_block d) = Inr ()"
  by (simp_all add: id_block_def)

lemma span_new_ok [simp]: "span_ok (span_new rand now op par)" "ts_operation_name (span_new rand now op par) = op"
    "ts_parent_span_id (span_new rand now op par) = par" "\<not> ts_finished (span_new rand now op par)"
  by (simp_all add: span_new_def span_ok_def arr_wf_def)

lemma span_create_cases:
  obtains (failed) os' where "grpc_trace_span_create rand now op par os = Inr (None, os')" "\<not> alloc_ok os"
  | (created) par' os' where "grpc_trace_span_create rand now op par os = Inr (Some (span_new rand now op par'), os')"
      "alloc_ok os \<Longrightarrow> alloc_ok os' \<and> par' = par"
proof -
  obtain b1 os1 b2 os2 b3 os3 b4 os4 b5 os5 where n: "alloc_next os = (b1, os1)" "alloc_next os1 = (b2, os2)"
    "alloc_next os2 = (b3, os3)" "alloc_next os3 = (b4, os4)" "alloc_next os4 = (b5, os5)" by (metis prod.collapse)
  have ok: "alloc_ok os \<Longrightarrow> b1 \<and> b2 \<and> b3 \<and> b4 \<and> b5 \<and> alloc_ok os4 \<and> alloc_ok os5"
    using n alloc_next_ok by (metis Pair_inject)
  note defs = grpc_trace_span_create_def generate_id_eq span_new_def
  show ?thesis
  proof (cases "b1 \<and> b2 \<and> b3 \<and> (if par = None then b4 else b5)")
    case True
    let ?par = "case par of None \<Rightarrow> None | Some p \<Rightarrow> if b4 then Some p else None"
    let ?os = "if par = None then os4 else os5"
    have "grpc_trace_span_create rand now op par os = Inr (Some (span_new rand now op ?par), ?os)"
      using True n by (cases par) (simp_all add: defs)
    moreover have "alloc_ok os \<Longrightarrow> alloc_ok ?os \<and> ?par = par" using ok by (auto split: option.splits)
    ultimately show ?thesis by (rule that(2))
  next
    case False
    then have "\<exists>os'. grpc_trace_span_create rand now op par os = Inr (None, os')"
      using n by (cases b1; cases b2; cases b3; cases par) (simp_all add: defs)
    moreover have "\<not> alloc_ok os" using False ok by (auto split: if_splits)
    ultimately show ?thesis using that(1) by blast
  qed
qed

lemma start_span_created:
  assumes "trace_inv c cs" and "grpc_trace_span_create rand now op par os = Inr (Some t, os')" and "span_ok t"
  obtains a c' where "grpc_trace_start_span rand now (Some c) (Some op) par os = Inr (Some a, Some c', os')"
    "trace_inv c' ((a, t) # cs)" "tc_export_span c' = tc_export_span c"
    "tc_exporter_user_data c' = tc_exporter_user_data c"
proof -
  let ?a = "brk (tc_nodes c)"
  let ?c = "c\<lparr>tc_nodes := snd (store_new (tc_nodes c) t (tc_active_spans c)), tc_active_spans := Some ?a,
    tc_span_count := tc_span_count c + 1, tc_mutex := False\<rparr>"
  have "grpc_trace_start_span rand now (Some c) (Some op) par os = Inr (Some ?a, Some ?c, os')"
    using assms by (simp add: grpc_trace_start_span_def trace_inv_def store_new_def)
  moreover have "trace_inv ?c ((?a, t) # cs)"
    using assms(1,3) list_in_new_front [of "tc_nodes c" "tc_active_spans c" cs t] by (simp add: trace_inv_def)
  ultimately show ?thesis using that [of ?a ?c] by simp
qed

lemma start_span_ok:
  assumes "trace_inv c cs" and "alloc_ok os"
  shows "\<exists>a c' t os'. grpc_trace_start_span rand now (Some c) (Some op) par os = Inr (Some a, Some c', os') \<and>
    trace_inv c' ((a, t) # cs) \<and> ts_operation_name t = op \<and> ts_parent_span_id t = par \<and> \<not> ts_finished t \<and>
    tc_export_span c' = tc_export_span c \<and> tc_exporter_user_data c' = tc_exporter_user_data c"
proof (cases rule: span_create_cases [of rand now op par os])
  case (failed os')
  with assms(2) show ?thesis by simp
next
  case (created par' os')
  with assms(2) have "grpc_trace_span_create rand now op par os = Inr (Some (span_new rand now op par), os')" by simp
  from start_span_created [OF assms(1) this] obtain a c' where
    "grpc_trace_start_span rand now (Some c) (Some op) par os = Inr (Some a, Some c', os')"
    "trace_inv c' ((a, span_new rand now op par) # cs)" "tc_export_span c' = tc_export_span c"
    "tc_exporter_user_data c' = tc_exporter_user_data c" by auto
  then show ?thesis by (intro exI [of _ a] exI [of _ c'] exI [of _ "span_new rand now op par"] exI [of _ os']) simp
qed

lemma finish_span_ok:
  assumes "trace_inv c (us @ (a, t) # vs)"
  shows "\<exists>c'. grpc_trace_finish_span now (Some c) (Some a) s =
      Inr (0, Some c', case tc_export_span c of None \<Rightarrow> s
        | Some f \<Rightarrow> snd (f (t\<lparr>ts_end_time := now, ts_finished := True\<rparr>) (tc_exporter_user_data c) s)) \<and>
    list_in (tc_nodes c') (tc_active_spans c') (us @ (a, case tc_export_span c of None \<Rightarrow> t\<lparr>ts_end_time := now, ts_finished := True\<rparr>
        | Some f \<Rightarrow> fst (f (t\<lparr>ts_end_time := now, ts_finished := True\<rparr>) (tc_exporter_user_data c) s)) # vs) \<and>
    \<not> tc_mutex c' \<and> tc_span_count c' = tc_span_count c \<and> tc_export_span c' = tc_export_span c \<and>
    tc_exporter_user_data c' = tc_exporter_user_data c"
proof -
  let ?t = "t\<lparr>ts_end_time := now, ts_finished := True\<rparr>"
  from assms have m: "\<not> tc_mutex c" and l: "list_in (tc_nodes c) (tc_active_spans c) (us @ (a, t) # vs)"
    by (simp_all add: trace_inv_def)
  from list_in_update [OF l, of "\<lambda>t. t\<lparr>ts_end_time := now, ts_finished := True\<rparr>"] obtain st where
    st: "store_upd (tc_nodes c) (Some a) (\<lambda>t. t\<lparr>ts_end_time := now, ts_finished := True\<rparr>) = Inr st"
      "list_in st (tc_active_spans c) (us @ (a, ?t) # vs)" by blast
  show ?thesis
  proof (cases "tc_export_span c")
    case None
    with m st show ?thesis by (simp add: grpc_trace_finish_span_def)
  next
    case (Some f)
    obtain t' s' where f: "f ?t (tc_exporter_user_data c) s = (t', s')" by force
    from st(2) obtain n where n: "cells st a = Some n" "node_val n = ?t" by (rule list_in_node)
    from list_in_update [OF st(2), of "\<lambda>_. t'"] obtain st' where
      st': "store_upd st (Some a) (\<lambda>_. t') = Inr st'" "list_in st' (tc_active_spans c) (us @ (a, t') # vs)" by blast
    have "grpc_trace_finish_span now (Some c) (Some a) s = Inr (0, Some (c\<lparr>tc_nodes := st', tc_mutex := False\<rparr>), s')"
      using Some m st(1) n f st'(1) by (simp add: grpc_trace_finish_span_def store_get_def)
    with Some f st'(2) show ?thesis by simp
  qed
qed

text \<open>Tags are appended; a failed growth changes nothing.\<close>

lemma span_add_tag_ok:
  assumes "span_ok t"
  shows "\<exists>r t' os'. span_add_tag t k v os = Inr (r, t', os') \<and> span_ok t' \<and>
    (if r = 0 then \<exists>tag. arr_list (ts_tags t') = arr_list (ts_tags t) @ [tag] \<and>
         (alloc_ok os \<longrightarrow> tag = (Some k, Some v, length v))
     else r = -1 \<and> t' = t \<and> \<not> alloc_ok os)"
proof -
  let ?n = "if arr_capacity (ts_tags t) = 0 then 4 else arr_capacity (ts_tags t) * 2"
  have w: "arr_wf (ts_tags t)" "arr_capacity (ts_tags t) < ?n" using assms by (simp_all add: span_ok_def)
  from arr_grow_ok [OF w, of os] show ?thesis
  proof
    assume "\<exists>os'. arr_grow (ts_tags t) ?n os = Inr (False, ts_tags t, os') \<and> \<not> alloc_ok os"
    then obtain os' where "arr_grow (ts_tags t) ?n os = Inr (False, ts_tags t, os')" "\<not> alloc_ok os" by blast
    with assms show ?thesis by (intro exI [of _ "- 1"] exI [of _ t] exI [of _ os']) (simp add: span_add_tag_def)
  next
    assume "\<exists>a' os'. arr_grow (ts_tags t) ?n os = Inr (True, a', os') \<and> arr_wf a' \<and> arr_list a' = arr_list (ts_tags t) \<and>
      arr_count a' < arr_capacity a' \<and> (alloc_ok os \<longrightarrow> alloc_ok os')"
    then obtain a1 os1 where a1: "arr_grow (ts_tags t) ?n os = Inr (True, a1, os1)" "arr_wf a1"
      "arr_list a1 = arr_list (ts_tags t)" "arr_count a1 < arr_capacity a1" "alloc_ok os \<longrightarrow> alloc_ok os1" by blast
    obtain b1 os2 b2 os3 where n: "alloc_next os1 = (b1, os2)" "alloc_next os2 = (b2, os3)" by (metis prod.collapse)
    have ok: "alloc_ok os1 \<Longrightarrow> b1 \<and> b2" using n alloc_next_ok by (metis Pair_inject)
    let ?tag = "(if b1 then Some k else None, if b2 then Some v else None, length v)"
    from arr_put_ok [OF a1(2,4), of ?tag] obtain a2 where
      a2: "arr_put a1 ?tag = Inr a2" "arr_wf a2" "arr_list a2 = arr_list a1 @ [?tag]" by blast
    have "span_add_tag t k v os = Inr (0, t\<lparr>ts_tags := a2\<rparr>, os3)"
      using a1(1) n a2(1) by (simp add: span_add_tag_def Let_def)
    with a2(2,3) a1(3,5) ok assms show ?thesis by (auto simp: span_ok_def)
  qed
qed

lemma block_free_eq: "b \<noteq> Freed_Block \<Longrightarrow> block_free b = Inr ()"
  by (cases b) simp_all

lemma span_destroy_ok: "span_ok t \<Longrightarrow> grpc_trace_span_destroy t = Inr ()"
  by (auto simp: grpc_trace_span_destroy_def span_ok_def arr_wf_def block_free_eq)

lemma trace_destroy_loop_ok:
  "list_in st p cs \<Longrightarrow> list_all (\<lambda>(a, t). span_ok t) cs \<Longrightarrow>
   \<exists>st'. trace_destroy_loop st p = Some (Inr st') \<and> cells st' = (\<lambda>_. None)"
proof (induction cs arbitrary: st p)
  case Nil
  then show ?case by (subst trace_destroy_loop.simps) simp
next
  case (Cons c cs)
  obtain a t where c: "c = (a, t)" by (rule prod.exhaust)
  from Cons.prems(1) [unfolded c] obtain n where n: "p = Some a" "cells st a = Some n" "node_val n = t"
    "list_in (st\<lparr>cells := (cells st)(a := None)\<rparr>) (node_next n) cs" by (rule list_in_head)
  have "grpc_trace_span_destroy t = Inr ()" using Cons.prems(2) c by (simp add: span_destroy_ok)
  with Cons.IH [OF n(4)] Cons.prems(2) c n(1-3) show ?case
    by (subst trace_destroy_loop.simps) (simp add: store_get_def store_free_def)
qed

lemma grpc_trace_context_destroy_frees:
  assumes "trace_inv c cs"
  shows "\<exists>st. grpc_trace_context_destroy (Some c) = Some (Inr (Some st)) \<and> cells st = (\<lambda>_. None)"
  using assms trace_destroy_loop_ok [of "tc_nodes c" "tc_active_spans c" cs]
  by (auto simp: grpc_trace_context_destroy_def trace_inv_def)

section \<open>Properties\<close>

text \<open>
  C35. A metric that is registered and then incremented by any values reports their number, their
  sum, and a smallest and a largest one; every other metric is what it was. Of the arithmetic of
  \<open>double\<close> this only needs that the comparison is transitive and irreflexive.
\<close>

theorem grpc_metrics_increments_summarised:
  assumes "metrics_inv r" and "alloc_ok os" and "transp (ar_less ar)" and "irreflp (ar_less ar)"
  shows "\<exists>r1 os1 r2 x. grpc_metrics_register ar (Some r) (Some nm) desc ty os = Inr (0, Some r1, os1) \<and>
    increment_run ar r1 nm vs = Inr r2 \<and> metrics_inv r2 \<and>
    grpc_metrics_get (Some r2) (Some nm) = Inr (Some x, Some r2) \<and>
    gm_count x = length vs \<and> gm_value x = foldl (ar_add ar) (ar_zero ar) vs \<and> gm_sum x = gm_value x \<and>
    (vs \<noteq> [] \<longrightarrow> gm_min x \<in> set vs \<and> gm_max x \<in> set vs \<and>
       (\<forall>v\<in>set vs. \<not> ar_less ar v (gm_min x) \<and> \<not> ar_less ar (gm_max x) v)) \<and>
    (\<forall>n. n \<noteq> nm \<longrightarrow> grpc_metrics_get (Some r2) (Some n) = Inr (metric_lookup r n, Some r2))"
proof -
  from metrics_register_ok [OF assms(1,2), of ar nm desc ty] obtain r1 x1 os1 where
    r1: "grpc_metrics_register ar (Some r) (Some nm) desc ty os = Inr (0, Some r1, os1)" "metrics_inv r1"
      "metric_lookup r1 = (metric_lookup r)(nm \<mapsto> x1)" "gm_value x1 = ar_zero ar" "gm_count x1 = 0" "gm_sum x1 = ar_zero ar"
    by blast
  have "metric_lookup r1 nm = Some x1" "metric_summary ar [] x1" using r1(3-6) by (simp_all add: metric_summary_def)
  from increment_run_ok [OF assms(3,4) r1(2) this, of vs] obtain r2 x where
    r2: "increment_run ar r1 nm vs = Inr r2" "metrics_inv r2" "metric_lookup r2 = (metric_lookup r1)(nm \<mapsto> x)"
      "metric_summary ar vs x" by auto
  from r1(1,3) r2 metrics_get_eq [OF r2(2)] show ?thesis
    by (intro exI [of _ r1] exI [of _ os1] exI [of _ r2] exI [of _ x]) (simp add: metric_summary_def)
qed

definition int_arith :: "int arith" where
  "int_arith = \<lparr>ar_zero = 0, ar_add = (+), ar_less = (<)\<rparr>"

theorem grpc_metrics_increments_summarised_witness:
  "\<exists>r1 os1 r2 x. grpc_metrics_register int_arith (Some \<lparr>mr_metrics = [], mr_metric_count = 0, mr_mutex = False\<rparr>)
      (Some ''calls'') None GRPC_METRIC_COUNTER [] = Inr (0, Some r1, os1) \<and>
    increment_run int_arith r1 ''calls'' [4, 1, 7] = Inr r2 \<and>
    grpc_metrics_get (Some r2) (Some ''calls'') = Inr (Some x, Some r2) \<and> gm_count x = 3 \<and> gm_value x = 12 \<and>
    gm_min x = 1 \<and> gm_max x = 7"
proof -
  have i: "metrics_inv \<lparr>mr_metrics = [], mr_metric_count = 0, mr_mutex = False\<rparr>" by (simp add: metrics_inv_def)
  have o: "transp (ar_less int_arith)" "irreflp (ar_less int_arith)"
    by (auto simp: int_arith_def transp_def irreflp_def)
  from grpc_metrics_increments_summarised [OF i alloc_ok_Nil o, of "''calls''" None GRPC_METRIC_COUNTER "[4, 1, 7]"]
  show ?thesis by (force simp: int_arith_def)
qed

text \<open>
  Finishing a span stamps its end time and marks it finished, hands exactly this span to the
  exporter once, if there is one, and changes no other span; the context counts its spans as
  before and its mutex is free again.
\<close>

theorem grpc_trace_finish_span_exports:
  assumes "trace_inv c (us @ (a, t) # vs)"
  shows "\<exists>c'. grpc_trace_finish_span now (Some c) (Some a) s =
      Inr (0, Some c', case tc_export_span c of None \<Rightarrow> s
        | Some f \<Rightarrow> snd (f (t\<lparr>ts_end_time := now, ts_finished := True\<rparr>) (tc_exporter_user_data c) s)) \<and>
    list_in (tc_nodes c') (tc_active_spans c') (us @ (a, case tc_export_span c of None \<Rightarrow> t\<lparr>ts_end_time := now, ts_finished := True\<rparr>
        | Some f \<Rightarrow> fst (f (t\<lparr>ts_end_time := now, ts_finished := True\<rparr>) (tc_exporter_user_data c) s)) # vs) \<and>
    \<not> tc_mutex c' \<and> tc_span_count c' = tc_span_count c \<and> tc_export_span c' = tc_export_span c \<and>
    tc_exporter_user_data c' = tc_exporter_user_data c"
  using assms by (rule finish_span_ok)

definition collect_names :: "string list span_exporter" where
  "collect_names t u s = (t, ts_operation_name t # s)"

definition trace_demo :: "string list grpc_trace_context" where
  "trace_demo = \<lparr>tc_active_spans = None, tc_span_count = 0, tc_mutex = False, tc_export_span = Some collect_names,
     tc_exporter_user_data = None, tc_nodes = store_empty\<rparr>"

theorem grpc_trace_finish_span_exports_witness:
  "\<exists>a c c' os. grpc_trace_start_span (\<lambda>_ i. i) (\<lambda>_. (1, 2)) (Some trace_demo) (Some ''op'') None [] = Inr (Some a, Some c, os) \<and>
    grpc_trace_finish_span (3, 4) (Some c) (Some a) [] = Inr (0, Some c', [''op''])"
proof -
  have "trace_inv trace_demo []" by (simp add: trace_inv_def trace_demo_def store_empty_def)
  from start_span_ok [OF this alloc_ok_Nil, of "\<lambda>_ i. i" "\<lambda>_. (1, 2)" "''op''" None] obtain a c t os where
    c: "grpc_trace_start_span (\<lambda>_ i. i) (\<lambda>_. (1, 2)) (Some trace_demo) (Some ''op'') None [] = Inr (Some a, Some c, os)"
      "trace_inv c ([] @ (a, t) # [])" "ts_operation_name t = ''op''" "tc_export_span c = tc_export_span trace_demo" by auto
  from grpc_trace_finish_span_exports [OF c(2), of "(3, 4)" "[]"] c(1,3,4) show ?thesis
    by (auto simp: trace_demo_def collect_names_def)
qed

text \<open>Reading a C string from a block, up to its terminator.\<close>

fun slots_string :: "char option list \<Rightarrow> string option" where
  "slots_string (Some ch # xs) = (if ch = CHR 0x00 then Some [] else map_option ((#) ch) (slots_string xs))"
| "slots_string _ = None"

definition block_string :: "char block \<Rightarrow> string option" where
  "block_string b = slots_string (block_slots b)"

lemma slots_string_map: "CHR 0x00 \<notin> set xs \<Longrightarrow> slots_string (map Some (xs @ [CHR 0x00])) = Some xs"
  by (induction xs) auto

lemma hex_id_digits: "length (hex_id d) = 16" "set (hex_id d) \<subseteq> set ''0123456789abcdef''"
proof -
  have "charset ! (k mod 16) \<in> set charset" for k by (rule nth_mem) (simp add: charset_def)
  then show "set (hex_id d) \<subseteq> set ''0123456789abcdef''" by (auto simp: hex_id_def charset_def)
qed (simp add: hex_id_def)

lemma block_string_id: "block_string (id_block d) = Some (hex_id d)"
proof -
  have "CHR 0x00 \<notin> set (hex_id d)" using hex_id_digits(2) [of d] by auto
  then show ?thesis unfolding block_string_def id_block_def by (simp add: slots_string_map del: map_append)
qed

text \<open>
  C37. Starting a span in a consistent context never faults, for every pattern of allocation
  failures: without memory the context is as before; otherwise the new span is the first of the
  context and its two identifiers are terminated strings of sixteen hexadecimal digits inside
  their blocks. The digits only depend on the time in microseconds, so a span whose identifiers
  are made within one microsecond has the same trace and span identifier.
\<close>

theorem grpc_trace_span_ids:
  assumes "trace_inv c cs"
  shows "\<exists>r c' os'. grpc_trace_start_span rand now (Some c) (Some op) par os = Inr (r, Some c', os') \<and>
    (case r of
       None \<Rightarrow> c' = c \<and> \<not> alloc_ok os
     | Some a \<Rightarrow> \<exists>t tid sid. trace_inv c' ((a, t) # cs) \<and> ts_operation_name t = op \<and>
         block_string (ts_trace_id t) = Some tid \<and> block_string (ts_span_id t) = Some sid \<and>
         length tid = 16 \<and> length sid = 16 \<and> set tid \<union> set sid \<subseteq> set ''0123456789abcdef'' \<and>
         (id_seed (now 0) = id_seed (now 1) \<longrightarrow> tid = sid))"
proof (cases rule: span_create_cases [of rand now op par os])
  case (failed os')
  with assms show ?thesis by (simp add: grpc_trace_start_span_def)
next
  case (created par' os')
  from start_span_created [OF assms created(1) span_new_ok(1)] obtain a c' where
    "grpc_trace_start_span rand now (Some c) (Some op) par os = Inr (Some a, Some c', os')"
    "trace_inv c' ((a, span_new rand now op par') # cs)" by metis
  moreover have "block_string (ts_trace_id (span_new rand now op par')) = Some (hex_id (rand (id_seed (now 0))))"
    "block_string (ts_span_id (span_new rand now op par')) = Some (hex_id (rand (id_seed (now 1))))"
    by (simp_all add: span_new_def block_string_id)
  ultimately show ?thesis using hex_id_digits
    by (intro exI [of _ "Some a"] exI [of _ c'] exI [of _ os'])
      (simp add: exI [of _ "span_new rand now op par'"] del: set_simps)
qed

theorem grpc_trace_span_ids_witness:
  "\<exists>a c' os' t i. grpc_trace_start_span (\<lambda>s i. s + i) (\<lambda>_. (1, 2)) (Some trace_demo) (Some ''op'') None [] =
      Inr (Some a, Some c', os') \<and> trace_inv c' [(a, t)] \<and>
    block_string (ts_trace_id t) = Some i \<and> block_string (ts_span_id t) = Some i \<and> length i = 16"
proof -
  have "trace_inv trace_demo []" by (simp add: trace_inv_def trace_demo_def store_empty_def)
  from grpc_trace_span_ids [OF this, of "\<lambda>s i. s + i" "\<lambda>_. (1, 2)" "''op''" None "[]"] show ?thesis
    by (simp split: option.splits) metis
qed

text \<open>What a logger hands to its handler.\<close>

fun log_run :: "'s grpc_logger option \<Rightarrow> (grpc_log_level \<times> string) list \<Rightarrow> 's \<Rightarrow> ('s grpc_logger option \<times> 's) exec" where
  "log_run l [] s = Inr (l, s)"
| "log_run l ((lv, msg) # ms) s = exec_bind (grpc_logger_log l lv (Some msg) s) (\<lambda>(l', s'). log_run l' ms s')"

text \<open>The handler gets exactly the messages of at least the minimal level, in order, each with the
  user data it was installed with.\<close>

lemma grpc_logger_log_filters:
  "\<not> lg_mutex l \<Longrightarrow> lg_log_func l = Some f \<Longrightarrow>
   log_run (Some l) ms s =
     Inr (Some l, foldl (\<lambda>s (lv, msg). f lv msg (lg_user_data l) s) s (filter (\<lambda>(lv, _). lg_min_level l \<le> lv) ms))"
proof (induction ms arbitrary: s)
  case Nil
  then show ?case by simp
next
  case (Cons m ms)
  obtain lv msg where m: "m = (lv, msg)" by (rule prod.exhaust)
  have same: "l\<lparr>lg_mutex := False\<rparr> = l" using Cons.prems(1) by (cases l) simp
  from Cons.IH [OF Cons.prems] Cons.prems m show ?case
    by (auto simp: grpc_logger_log_def not_less same)
qed

end
