(* ===== verification/Advanced_Example.thy ===== *)
theory Advanced_Example
  imports Program_Calls Load_Balancing Name_Resolver Connection_Pool Interceptors Reflection Observability
begin

text \<open>
  The program \<^verbatim>\<open>examples/advanced_example.c\<close>, which calls the load balancer, the resolver, the
  connection pool, the interceptor chains, the reflection registry, tracing, metrics and
  logging in turn. The objects it makes are local variables, and the process counts how many of them
  are live; its state is the world, for the allocator and the connections of the pool. The log handler and the exporter write to the
  standard output, which is the state those components pass through. The answers of the system
  and the arithmetic of \<open>double\<close> are arguments as in the components: \<open>lit m e\<close> is the value of the
  literal \<open>m / 10^e\<close> and \<open>fmt\<close> what \<open>%.0f\<close> makes of a value.
\<close>

section \<open>Callbacks\<close>

fun level_str :: "grpc_log_level \<Rightarrow> string" where
  "level_str GRPC_LOG_LEVEL_DEBUG = ''DEBUG''"
| "level_str GRPC_LOG_LEVEL_INFO = ''INFO''"
| "level_str GRPC_LOG_LEVEL_WARNING = ''WARNING''"
| "level_str GRPC_LOG_LEVEL_ERROR = ''ERROR''"

definition custom_log_handler :: "string log_handler" where
  "custom_log_handler level message user_data out = out @ ''['' @ level_str level @ ''] '' @ message @ nl"

definition custom_trace_exporter :: "string span_exporter" where
  "custom_trace_exporter span user_data out = (span, out @ ''Trace span exported (placeholder)'' @ nl)"

section \<open>The demonstrations\<close>

text \<open>The printing loop: \<open>n\<close> picks, numbered from \<open>i + 1\<close>. Round robin does not use \<open>rand\<close>.\<close>

fun pick_loop :: "int \<Rightarrow> nat \<Rightarrow> nat \<Rightarrow> grpc_lb_policy option \<Rightarrow> (world, grpc_lb_policy option) prog" where
  "pick_loop rand i 0 policy = pret policy"
| "pick_loop rand i (Suc n) policy =
     pbnd (exec_op (grpc_lb_policy_pick rand policy)) (\<lambda>(addr, policy).
     pbnd (printf_str (''  Pick '' @ dec (i + 1) @ '': '') addr nl) (\<lambda>_.
     pick_loop rand (i + 1) n policy))"

definition demonstrate_load_balancing :: "int \<Rightarrow> (world, unit) prog" where
  "demonstrate_load_balancing rand =
     pbnd (printf (nl @ ''=== Load Balancing Example ==='' @ nl)) (\<lambda>_.
     pbnd (make_op (grpc_lb_policy_create GRPC_LB_POLICY_ROUND_ROBIN)) (\<lambda>policy.
     if policy = None then printf (''Failed to create load balancing policy'' @ nl)
     else
       pbnd (alloc_exec (grpc_lb_policy_add_address policy (Some ''localhost:50051'') 1)) (\<lambda>(_, policy).
       pbnd (alloc_exec (grpc_lb_policy_add_address policy (Some ''localhost:50052'') 1)) (\<lambda>(_, policy).
       pbnd (alloc_exec (grpc_lb_policy_add_address policy (Some ''localhost:50053'') 1)) (\<lambda>(_, policy).
       pbnd (printf (''Added 3 backend addresses'' @ nl)) (\<lambda>_.
       pbnd (printf (''Round-robin picks:'' @ nl)) (\<lambda>_.
       pbnd (pick_loop rand 0 6 policy) (\<lambda>policy.
       pbnd (exec_op (grpc_lb_policy_mark_unavailable policy (Some ''localhost:50052''))) (\<lambda>(_, policy).
       pbnd (printf (nl @ ''Marked localhost:50052 as unavailable'' @ nl)) (\<lambda>_.
       pbnd (printf (''Subsequent picks:'' @ nl)) (\<lambda>_.
       pbnd (pick_loop rand 0 4 policy) (\<lambda>policy.
       pbnd (release_op (exec_op (grpc_lb_policy_destroy policy))) (\<lambda>_.
       pret ())))))))))))))"

definition demonstrate_name_resolution ::
    "(string \<Rightarrow> addrinfo list option) \<Rightarrow> (ai_family \<Rightarrow> nat \<Rightarrow> string option) \<Rightarrow> (world, unit) prog" where
  "demonstrate_name_resolution getaddrinfo inet_ntop =
     (let resolve = (\<lambda>resolver :: unit grpc_name_resolver option. alloc_exec (\<lambda>os.
            exec_bind (grpc_name_resolver_resolve getaddrinfo inet_ntop resolver () os) (\<lambda>(r, resolver', _, os').
              Inr (r, resolver', os'))))
      in
     pbnd (printf (nl @ ''=== Name Resolution Example ==='' @ nl)) (\<lambda>_.
     pbnd (printf (''Static resolver:'' @ nl)) (\<lambda>_.
     pbnd (make_op (grpc_name_resolver_create GRPC_RESOLVER_STATIC (Some ''127.0.0.1:50051''))) (\<lambda>static_resolver.
     pbnd (if static_resolver \<noteq> None
           then
             pbnd (resolve static_resolver) (\<lambda>(r, static_resolver).
             pbnd (if r = 0
                   then
                     pbnd (exec_op (grpc_name_resolver_get_address_count static_resolver)) (\<lambda>(count, static_resolver).
                     pbnd (printf (''  Resolved '' @ dec count @ '' address(es)'' @ nl)) (\<lambda>_. pret static_resolver))
                   else pret static_resolver) (\<lambda>static_resolver.
             pbnd (release_op (exec_op (grpc_name_resolver_destroy static_resolver))) (\<lambda>_. pret ())))
           else pret ()) (\<lambda>_.
     pbnd (printf (nl @ ''DNS resolver:'' @ nl)) (\<lambda>_.
     pbnd (make_op (grpc_name_resolver_create GRPC_RESOLVER_DNS (Some ''localhost:50051''))) (\<lambda>dns_resolver.
     if dns_resolver \<noteq> None
     then
       pbnd (resolve dns_resolver) (\<lambda>(r, dns_resolver).
       pbnd (if r = 0
             then
               pbnd (exec_op (grpc_name_resolver_get_address_count dns_resolver)) (\<lambda>(count, dns_resolver).
               pbnd (printf (''  Resolved '' @ dec count @ '' address(es)'' @ nl)) (\<lambda>_. pret dns_resolver))
             else
               pbnd (printf (''  DNS resolution failed (may be expected in some environments)'' @ nl)) (\<lambda>_.
               pret dns_resolver)) (\<lambda>dns_resolver.
       pbnd (release_op (exec_op (grpc_name_resolver_destroy dns_resolver))) (\<lambda>_. pret ())))
     else pret ())))))))"

text \<open>\<open>started\<close>: whether the keep-alive thread could be created.\<close>

definition demonstrate_connection_pool :: "bool \<Rightarrow> (world, unit) prog" where
  "demonstrate_connection_pool started =
     pbnd (printf (nl @ ''=== Connection Pool Example ==='' @ nl)) (\<lambda>_.
     pbnd (make_op (grpc_connection_pool_create 10 30000 started)) (\<lambda>pool.
     if pool = None then printf (''Failed to create connection pool'' @ nl)
     else
       pbnd (printf (''Created connection pool (max 10 connections, 30s idle timeout)'' @ nl)) (\<lambda>_.
       pbnd (exec_op (grpc_connection_pool_set_keepalive pool 10000 5000 True)) (\<lambda>(_, pool).
       steps
         [printf (''Configured keep-alive (10s interval, 5s timeout)'' @ nl),
          printf (nl @ ''Simulating connection management:'' @ nl),
          printf (''  Connection pooling allows reusing existing connections'' @ nl),
          printf (''  Keep-alive maintains healthy connections'' @ nl),
          printf (''  Idle connections are cleaned up after timeout'' @ nl)]
         (pbnd (release_op (run_op (\<lambda>w. case grpc_connection_pool_destroy pool w of None \<Rightarrow> Inl Deadlock | Some r \<Rightarrow> r))) (\<lambda>_.
          pret ()))))))"

definition demonstrate_interceptors :: "(world, unit) prog" where
  "demonstrate_interceptors =
     (let client = (\<lambda>f :: grpc_client_interceptor_context option \<Rightarrow> int. \<lambda>ctx (s :: unit). (f (Some ctx), ctx, s));
          server = (\<lambda>f :: grpc_server_interceptor_context option \<Rightarrow> int. \<lambda>ctx (s :: unit). (f (Some ctx), ctx, s))
      in
     pbnd (printf (nl @ ''=== Interceptors Example ==='' @ nl)) (\<lambda>_.
     pbnd (printf (''Client interceptor chain:'' @ nl)) (\<lambda>_.
     pbnd (make_op grpc_client_interceptor_chain_create) (\<lambda>client_chain.
     pbnd (if client_chain \<noteq> None
           then
             pbnd (alloc_exec (grpc_client_interceptor_chain_add client_chain
                     (Some (client grpc_logging_client_interceptor)) None)) (\<lambda>(_, client_chain).
             pbnd (alloc_exec (grpc_client_interceptor_chain_add client_chain
                     (Some (client grpc_auth_client_interceptor)) None)) (\<lambda>(_, client_chain).
             pbnd (printf (''  Added logging and authentication interceptors'' @ nl)) (\<lambda>_.
             pbnd (release_op (loop_op (grpc_client_interceptor_chain_destroy client_chain))) (\<lambda>_. pret ()))))
           else pret ()) (\<lambda>_.
     pbnd (printf (nl @ ''Server interceptor chain:'' @ nl)) (\<lambda>_.
     pbnd (make_op grpc_server_interceptor_chain_create) (\<lambda>server_chain.
     if server_chain \<noteq> None
     then
       pbnd (alloc_exec (grpc_server_interceptor_chain_add server_chain
               (Some (server grpc_logging_server_interceptor)) None)) (\<lambda>(_, server_chain).
       pbnd (alloc_exec (grpc_server_interceptor_chain_add server_chain
               (Some (server grpc_auth_server_interceptor)) None)) (\<lambda>(_, server_chain).
       pbnd (printf (''  Added logging and authentication interceptors'' @ nl)) (\<lambda>_.
       pbnd (release_op (loop_op (grpc_server_interceptor_chain_destroy server_chain))) (\<lambda>_. pret ()))))
     else pret ())))))))"

definition demonstrate_reflection :: "(world, unit) prog" where
  "demonstrate_reflection =
     pbnd (printf (nl @ ''=== Reflection API Example ==='' @ nl)) (\<lambda>_.
     pbnd (make_op grpc_reflection_registry_create) (\<lambda>registry.
     if registry = None then printf (''Failed to create reflection registry'' @ nl)
     else
       pbnd (alloc_exec (grpc_reflection_registry_add_service registry (Some ''GreeterService'') (Some ''helloworld''))) (\<lambda>(_, registry).
       pbnd (alloc_exec (grpc_reflection_registry_add_method registry (Some ''GreeterService'') (Some ''SayHello'')
               (Some ''HelloRequest'') (Some ''HelloResponse'') False False)) (\<lambda>(_, registry).
       pbnd (alloc_exec (grpc_reflection_registry_add_method registry (Some ''GreeterService'') (Some ''SayHelloStream'')
               (Some ''HelloRequest'') (Some ''HelloResponse'') False True)) (\<lambda>(_, registry).
       pbnd (printf (''Registered services:'' @ nl)) (\<lambda>_.
       pbnd (exec_op (grpc_reflection_registry_get_service_count registry)) (\<lambda>(count, registry).
       pbnd (printf (''  Service count: '' @ dec count @ nl)) (\<lambda>_.
       pbnd (exec_op (grpc_reflection_registry_get_service registry (Some ''GreeterService''))) (\<lambda>(service, registry).
       pbnd (if service \<noteq> None
             then
               pbnd (make_op (grpc_reflection_get_full_service_name service)) (\<lambda>full_name.
               pbnd (printf_str ''  Full service name: '' full_name nl) (\<lambda>_.
               release_op (pret ())))
             else pret ()) (\<lambda>_.
       pbnd (release_op (exec_op (grpc_reflection_registry_destroy registry))) (\<lambda>_.
       pret ())))))))))))"

definition demonstrate_tracing ::
    "(nat \<Rightarrow> nat \<Rightarrow> nat) \<Rightarrow> (nat \<Rightarrow> int \<times> int) \<Rightarrow> (world, unit) prog" where
  "demonstrate_tracing rand now =
     pbnd (printf (nl @ ''=== Tracing Example ==='' @ nl)) (\<lambda>_.
     pbnd (make_op grpc_trace_context_create) (\<lambda>ctx.
     if ctx = None then printf (''Failed to create trace context'' @ nl)
     else
       pbnd (exec_op (grpc_trace_context_set_exporter ctx (Some custom_trace_exporter) None)) (\<lambda>ctx.
       pbnd (printf (''Configured custom trace exporter'' @ nl)) (\<lambda>_.
       pbnd (alloc_exec (grpc_trace_start_span rand now ctx (Some ''example_operation'') None)) (\<lambda>(span, ctx).
       pbnd (if span \<noteq> None
             then
               pbnd (printf (''Started trace span: example_operation'' @ nl)) (\<lambda>_.
               pbnd (alloc_exec (grpc_trace_span_add_tag (the ctx) span (Some ''service'') (Some ''example''))) (\<lambda>(_, c).
               pbnd (alloc_exec (grpc_trace_span_add_tag c span (Some ''method'') (Some ''demonstrate_tracing''))) (\<lambda>(_, c).
               pbnd (printf (''  Added tags to span'' @ nl)) (\<lambda>_.
               pbnd (out_op (\<lambda>out. exec_bind (grpc_trace_finish_span (now 3) (Some c) span out) (\<lambda>(_, ctx, out').
                       Inr (ctx, out')))) (\<lambda>ctx.
               pbnd (printf (''  Finished trace span'' @ nl)) (\<lambda>_. pret ctx))))))
             else pret ctx) (\<lambda>ctx.
       pbnd (release_op (loop_op (grpc_trace_context_destroy ctx))) (\<lambda>_.
       pret ())))))))"

definition demonstrate_metrics :: "'v arith \<Rightarrow> (int \<Rightarrow> nat \<Rightarrow> 'v) \<Rightarrow> ('v \<Rightarrow> string) \<Rightarrow> (world, unit) prog" where
  "demonstrate_metrics ar lit fmt =
     pbnd (printf (nl @ ''=== Metrics Example ==='' @ nl)) (\<lambda>_.
     pbnd (make_op grpc_metrics_registry_create) (\<lambda>registry.
     if registry = None then printf (''Failed to create metrics registry'' @ nl)
     else
       pbnd (alloc_exec (grpc_metrics_register ar registry (Some ''requests_total'') (Some ''Total requests'') GRPC_METRIC_COUNTER)) (\<lambda>(_, registry).
       pbnd (alloc_exec (grpc_metrics_register ar registry (Some ''active_connections'') (Some ''Active connections'') GRPC_METRIC_GAUGE)) (\<lambda>(_, registry).
       pbnd (alloc_exec (grpc_metrics_register ar registry (Some ''request_duration_ms'') (Some ''Request duration'') GRPC_METRIC_HISTOGRAM)) (\<lambda>(_, registry).
       steps
         [printf (''Registered metrics:'' @ nl),
          printf (''  - requests_total (counter)'' @ nl),
          printf (''  - active_connections (gauge)'' @ nl),
          printf (''  - request_duration_ms (histogram)'' @ nl)]
       (pbnd (exec_op (grpc_metrics_increment ar registry (Some ''requests_total'') (lit 1 0))) (\<lambda>(_, registry).
       pbnd (exec_op (grpc_metrics_increment ar registry (Some ''requests_total'') (lit 1 0))) (\<lambda>(_, registry).
       pbnd (exec_op (grpc_metrics_set registry (Some ''active_connections'') (lit 5 0))) (\<lambda>(_, registry).
       pbnd (exec_op (grpc_metrics_increment ar registry (Some ''request_duration_ms'') (lit 453 1))) (\<lambda>(_, registry).
       pbnd (exec_op (grpc_metrics_increment ar registry (Some ''request_duration_ms'') (lit 521 1))) (\<lambda>(_, registry).
       pbnd (printf (nl @ ''Metric values:'' @ nl)) (\<lambda>_.
       pbnd (exec_op (grpc_metrics_get registry (Some ''requests_total''))) (\<lambda>(metric, registry).
       pbnd (case metric of None \<Rightarrow> pret ()
             | Some x \<Rightarrow> printf (''  requests_total: '' @ fmt (gm_value x) @ nl)) (\<lambda>_.
       pbnd (exec_op (grpc_metrics_get registry (Some ''active_connections''))) (\<lambda>(metric, registry).
       pbnd (case metric of None \<Rightarrow> pret ()
             | Some x \<Rightarrow> printf (''  active_connections: '' @ fmt (gm_value x) @ nl)) (\<lambda>_.
       pbnd (release_op (exec_op (grpc_metrics_registry_destroy registry))) (\<lambda>_.
       pret ())))))))))))))))))"

definition log_op :: "string grpc_logger option \<Rightarrow> grpc_log_level \<Rightarrow> string \<Rightarrow> (world, string grpc_logger option) prog" where
  "log_op logger level message = out_op (grpc_logger_log logger level (Some message))"

definition demonstrate_logging :: "(world, unit) prog" where
  "demonstrate_logging =
     pbnd (printf (nl @ ''=== Logging Example ==='' @ nl)) (\<lambda>_.
     pbnd (make_op (grpc_logger_create GRPC_LOG_LEVEL_DEBUG)) (\<lambda>logger.
     if logger = None then printf (''Failed to create logger'' @ nl)
     else
       pbnd (exec_op (grpc_logger_set_handler logger (Some custom_log_handler) None)) (\<lambda>logger.
       pbnd (printf (''Configured custom log handler'' @ nl @ nl)) (\<lambda>_.
       pbnd (log_op logger GRPC_LOG_LEVEL_DEBUG ''This is a debug message'') (\<lambda>logger.
       pbnd (log_op logger GRPC_LOG_LEVEL_INFO ''This is an info message'') (\<lambda>logger.
       pbnd (log_op logger GRPC_LOG_LEVEL_WARNING ''This is a warning message'') (\<lambda>logger.
       pbnd (log_op logger GRPC_LOG_LEVEL_ERROR ''This is an error message'') (\<lambda>logger.
       pbnd (release_op (pret (grpc_logger_destroy logger))) (\<lambda>_.
       pret ())))))))))"

record 'v adv_sys =
  as_rand :: int
  as_getaddrinfo :: "string \<Rightarrow> addrinfo list option"
  as_inet_ntop :: "ai_family \<Rightarrow> nat \<Rightarrow> string option"
  as_started :: bool
  as_id_rand :: "nat \<Rightarrow> nat \<Rightarrow> nat"
  as_now :: "nat \<Rightarrow> int \<times> int"
  as_arith :: "'v arith"
  as_lit :: "int \<Rightarrow> nat \<Rightarrow> 'v"
  as_fmt :: "'v \<Rightarrow> string"

definition advanced_example_main :: "'v adv_sys \<Rightarrow> (world, int) prog" where
  "advanced_example_main sys =
     steps
       [printf (''========================================'' @ nl),
        printf (''gRPC-C Advanced Features Example'' @ nl),
        printf (''========================================'' @ nl),
        do_init,
        demonstrate_load_balancing (as_rand sys),
        demonstrate_name_resolution (as_getaddrinfo sys) (as_inet_ntop sys),
        demonstrate_connection_pool (as_started sys),
        demonstrate_interceptors,
        demonstrate_reflection,
        demonstrate_tracing (as_id_rand sys) (as_now sys),
        demonstrate_metrics (as_arith sys) (as_lit sys) (as_fmt sys),
        demonstrate_logging,
        do_shutdown,
        printf (nl @ ''========================================'' @ nl),
        printf (''All demonstrations completed successfully!'' @ nl),
        printf (''========================================'' @ nl)]
       (pret 0)"

section \<open>Load balancing\<close>

definition lb_backends :: "bool \<Rightarrow> nat \<Rightarrow> grpc_lb_policy" where
  "lb_backends up i = \<lparr>lb_type = GRPC_LB_POLICY_ROUND_ROBIN, lb_addresses =
     [\<lparr>lb_address = ''localhost:50051'', lb_weight = 1, lb_is_available = True\<rparr>,
      \<lparr>lb_address = ''localhost:50052'', lb_weight = 1, lb_is_available = up\<rparr>,
      \<lparr>lb_address = ''localhost:50053'', lb_weight = 1, lb_is_available = True\<rparr>],
     lb_address_count = Suc (Suc (Suc 0)), lb_current_index = i, lb_mutex = False\<rparr>"

lemma lb_backends_unlocked: "\<not> lb_mutex (lb_backends up i)"
  by (simp add: lb_backends_def)

lemma lb_backends_picks:
  "grpc_lb_policy_pick rand (Some (lb_backends up 0)) = Inr (Some ''localhost:50051'', Some (lb_backends up (Suc 0)))"
  "grpc_lb_policy_pick rand (Some (lb_backends True (Suc 0))) = Inr (Some ''localhost:50052'', Some (lb_backends True (Suc (Suc 0))))"
  "grpc_lb_policy_pick rand (Some (lb_backends False (Suc 0))) = Inr (Some ''localhost:50053'', Some (lb_backends False (Suc (Suc 0))))"
  "grpc_lb_policy_pick rand (Some (lb_backends up (Suc (Suc 0)))) = Inr (Some ''localhost:50053'', Some (lb_backends up 0))"
  by (simp_all add: grpc_lb_policy_pick_def grpc_lb_round_robin_pick_def lb_backends_def)

lemma pick_loop_step:
  assumes "grpc_lb_policy_pick rand policy = Inr (Some addr, policy')"
  shows "pbnd (pick_loop rand i (Suc n) policy) k P =
    pbnd (pick_loop rand (Suc i) n policy') k (P\<lparr>pr_out := pr_out P @ ''  Pick '' @ dec (Suc i) @ '': '' @ addr @ nl\<rparr>)"
  using assms by (simp add: pbnd_def exec_op_def run_op_def printf_def exec_bind_assoc)

lemma pick_loop_done: "pbnd (pick_loop rand i 0 policy) k P = k policy P"
  by (simp add: pbnd_def)

text \<open>What the demonstration prints, line by line.\<close>

definition lb_transcript :: "string list" where
  "lb_transcript =
     [[], ''=== Load Balancing Example ==='', ''Added 3 backend addresses'', ''Round-robin picks:'',
      ''  Pick 1: localhost:50051'', ''  Pick 2: localhost:50052'', ''  Pick 3: localhost:50053'',
      ''  Pick 4: localhost:50051'', ''  Pick 5: localhost:50052'', ''  Pick 6: localhost:50053'',
      [], ''Marked localhost:50052 as unavailable'', ''Subsequent picks:'',
      ''  Pick 1: localhost:50051'', ''  Pick 2: localhost:50053'', ''  Pick 3: localhost:50053'',
      ''  Pick 4: localhost:50051'']"

lemma demonstrate_load_balancing_run:
  assumes "mem_ready P"
  shows "demonstrate_load_balancing rand P = Inr ((), P\<lparr>pr_out := pr_out P @ text_lines lb_transcript\<rparr>)"
proof -
  have n: "(6::nat) = Suc (Suc (Suc (Suc (Suc (Suc 0)))))" "(4::nat) = Suc (Suc (Suc (Suc 0)))" by simp_all
  have "dec 1 = ''1''" "dec 2 = ''2''" "dec 3 = ''3''" "dec 4 = ''4''" "dec 5 = ''5''" "dec 6 = ''6''"
    by (simp_all add: dec.simps digit_chars)
  then have d: "dec (Suc 0) = ''1''" "dec (Suc (Suc 0)) = ''2''" "dec (Suc (Suc (Suc 0))) = ''3''"
    "dec (Suc (Suc (Suc (Suc 0)))) = ''4''" "dec (Suc (Suc (Suc (Suc (Suc 0))))) = ''5''"
    "dec (Suc (Suc (Suc (Suc (Suc (Suc 0)))))) = ''6''"
    by (simp_all only: eval_nat_numeral One_nat_def BitM.simps)
  have up: "\<lparr>lb_type = GRPC_LB_POLICY_ROUND_ROBIN, lb_addresses =
     [\<lparr>lb_address = ''localhost:50051'', lb_weight = 1, lb_is_available = True\<rparr>,
      \<lparr>lb_address = ''localhost:50052'', lb_weight = 1, lb_is_available = True\<rparr>,
      \<lparr>lb_address = ''localhost:50053'', lb_weight = 1, lb_is_available = True\<rparr>],
     lb_address_count = Suc (Suc (Suc 0)), lb_current_index = 0, lb_mutex = False\<rparr> = lb_backends True 0"
    by (simp add: lb_backends_def)
  have down: "grpc_lb_policy_mark_unavailable (Some (lb_backends True 0)) (Some ''localhost:50052'') =
      Inr (0, Some (lb_backends False 0))"
    by (simp add: grpc_lb_policy_mark_unavailable_def lb_mark_def lb_backends_def)
  have gone: "grpc_lb_policy_destroy (Some (lb_backends False i)) =
      Inr [''localhost:50051'', ''localhost:50052'', ''localhost:50053'']" for i
    by (simp add: grpc_lb_policy_destroy_def lb_backends_def)
  note add = grpc_lb_policy_create_def grpc_lb_policy_add_address_def grpc_lb_address_create_def lb_append_def
  show ?thesis
    using assms
    by (simp add: demonstrate_load_balancing_def call_ready add up n pick_loop_step pick_loop_done lb_backends_picks
        down gone d lb_transcript_def lb_backends_unlocked del: pick_loop.simps)
qed

section \<open>The other demonstrations\<close>

definition pool_transcript :: "string list" where
  "pool_transcript = [[], ''=== Connection Pool Example ==='',
     ''Created connection pool (max 10 connections, 30s idle timeout)'',
     ''Configured keep-alive (10s interval, 5s timeout)'', [], ''Simulating connection management:'',
     ''  Connection pooling allows reusing existing connections'', ''  Keep-alive maintains healthy connections'',
     ''  Idle connections are cleaned up after timeout'']"

lemma demonstrate_connection_pool_run:
  assumes "mem_ready P"
  shows "demonstrate_connection_pool True P = Inr ((), P\<lparr>pr_out := pr_out P @ text_lines pool_transcript\<rparr>)"
  using assms
  by (simp add: demonstrate_connection_pool_def call_ready grpc_connection_pool_create_def grpc_connection_pool_set_keepalive_def
      grpc_connection_pool_destroy_def pool_destroy_loop.simps [of None] pool_transcript_def)

lemma chain_create_ready: "chain_create [] = (Some chain_fresh, [])"
  by (simp add: chain_create_def chain_fresh_def)

text \<open>A chain with two interceptors, built and destroyed.\<close>

lemma chain_of_two:
  obtains c1 c2 :: "'f interceptor_chain" and st where
    "chain_add (Some chain_fresh) (Some f) u [] = Inr (0, Some c1, [])" "chain_add (Some c1) (Some g) v [] = Inr (0, Some c2, [])"
    "chain_destroy (Some c2) = Some (Inr st)"
proof -
  from chain_link_ok [of chain_fresh "(f, u)"] obtain c1 where
    c1: "chain_link chain_fresh (f, u) = Inr c1" "chain_inv c1" by auto
  from chain_link_ok [OF c1(2), of "(g, v)"] obtain c2 where c2: "chain_link c1 (g, v) = Inr c2" "chain_inv c2" by blast
  from c2(2) obtain cs where "\<not> ic_mutex c2" "list_in (ic_nodes c2) (ic_head c2) cs" by (rule chain_invE)
  with chain_free_nodes_list [of "ic_nodes c2" "ic_head c2" cs] obtain st where "chain_destroy (Some c2) = Some (Inr st)"
    by (auto simp: chain_destroy_def)
  with c1(1) c2(1) show ?thesis by (intro that [of c1 c2 st]) (simp_all add: chain_add_def)
qed

definition interceptors_transcript :: "string list" where
  "interceptors_transcript = [[], ''=== Interceptors Example ==='', ''Client interceptor chain:'',
     ''  Added logging and authentication interceptors'', [], ''Server interceptor chain:'',
     ''  Added logging and authentication interceptors'']"

lemma demonstrate_interceptors_run:
  assumes "mem_ready P"
  shows "demonstrate_interceptors P = Inr ((), P\<lparr>pr_out := pr_out P @ text_lines interceptors_transcript\<rparr>)"
proof -
  let ?c = "\<lambda>f :: grpc_client_interceptor_context option \<Rightarrow> int. \<lambda>ctx (s :: unit). (f (Some ctx), ctx, s)"
  let ?s = "\<lambda>f :: grpc_server_interceptor_context option \<Rightarrow> int. \<lambda>ctx (s :: unit). (f (Some ctx), ctx, s)"
  obtain c1 c2 st where c: "chain_add (Some chain_fresh) (Some (?c grpc_logging_client_interceptor)) None [] = Inr (0, Some c1, [])"
    "chain_add (Some c1) (Some (?c grpc_auth_client_interceptor)) None [] = Inr (0, Some c2, [])"
    "chain_destroy (Some c2) = Some (Inr st)" by (rule chain_of_two)
  obtain s1 s2 st' where s: "chain_add (Some chain_fresh) (Some (?s grpc_logging_server_interceptor)) None [] = Inr (0, Some s1, [])"
    "chain_add (Some s1) (Some (?s grpc_auth_server_interceptor)) None [] = Inr (0, Some s2, [])"
    "chain_destroy (Some s2) = Some (Inr st')" by (rule chain_of_two)
  from assms c s show ?thesis
    by (simp add: demonstrate_interceptors_def Let_def call_ready interceptors_transcript_def chain_create_ready
        grpc_client_interceptor_chain_create_def grpc_client_interceptor_chain_add_def grpc_client_interceptor_chain_destroy_def
        grpc_server_interceptor_chain_create_def grpc_server_interceptor_chain_add_def grpc_server_interceptor_chain_destroy_def)
qed

definition reflection_transcript :: "string list" where
  "reflection_transcript = [[], ''=== Reflection API Example ==='', ''Registered services:'', ''  Service count: 1'',
     ''  Full service name: helloworld.GreeterService'']"

lemma demonstrate_reflection_run:
  assumes "mem_ready P"
  shows "demonstrate_reflection P = Inr ((), P\<lparr>pr_out := pr_out P @ text_lines reflection_transcript\<rparr>)"
proof -
  have d: "dec (Suc 0) = ''1''" by (simp add: dec.simps digit_chars)
  show ?thesis
    using assms
    by (simp add: demonstrate_reflection_def call_ready grpc_reflection_registry_create_def grpc_reflection_registry_add_service_def
      grpc_service_descriptor_create_def grpc_reflection_registry_add_method_def grpc_method_descriptor_create_def
      grpc_reflection_registry_get_service_count_def grpc_reflection_registry_get_service_def service_push_method_def
      grpc_reflection_get_full_service_name_def snprintf_cut_def grpc_reflection_registry_destroy_def
      reflection_transcript_def d)
qed

definition logging_transcript :: "string list" where
  "logging_transcript = [[], ''=== Logging Example ==='', ''Configured custom log handler'', [],
     ''[DEBUG] This is a debug message'', ''[INFO] This is an info message'',
     ''[WARNING] This is a warning message'', ''[ERROR] This is an error message'']"

lemma demonstrate_logging_run:
  assumes "mem_ready P"
  shows "demonstrate_logging P = Inr ((), P\<lparr>pr_out := pr_out P @ text_lines logging_transcript\<rparr>)"
  using assms
  by (simp add: demonstrate_logging_def call_ready grpc_logger_create_def grpc_logger_set_handler_def log_op_def
      grpc_logger_log_def custom_log_handler_def less_grpc_log_level_def logging_transcript_def Let_def)

definition metrics_transcript :: "string \<Rightarrow> string \<Rightarrow> string list" where
  "metrics_transcript requests active = [[], ''=== Metrics Example ==='', ''Registered metrics:'',
     ''  - requests_total (counter)'', ''  - active_connections (gauge)'', ''  - request_duration_ms (histogram)'',
     [], ''Metric values:'', ''  requests_total: '' @ requests, ''  active_connections: '' @ active]"

lemma metric_increment_value: "gm_value (metric_increment ar v x) = ar_add ar (gm_value x) v"
  by (simp add: metric_increment_def Let_def)

lemma demonstrate_metrics_run:
  assumes "mem_ready P"
  shows "demonstrate_metrics ar lit fmt P = Inr ((), P\<lparr>pr_out := pr_out P @ text_lines (metrics_transcript
    (fmt (ar_add ar (ar_add ar (ar_zero ar) (lit 1 0)) (lit 1 0))) (fmt (lit 5 0)))\<rparr>)"
  using assms
  by (simp add: demonstrate_metrics_def call_ready grpc_metrics_registry_create_def grpc_metrics_register_def
      grpc_metrics_increment_def grpc_metrics_set_def metrics_apply_def metric_increment_value grpc_metrics_get_def
      grpc_metrics_registry_destroy_def metrics_transcript_def)

section \<open>Tracing\<close>

lemma start_span_ready:
  assumes "trace_inv c cs"
  obtains a c' t where "grpc_trace_start_span rand now (Some c) (Some op) None [] = Inr (Some a, Some c', [])"
    "trace_inv c' ((a, t) # cs)" "tc_export_span c' = tc_export_span c"
proof -
  have "\<exists>r c'. grpc_trace_start_span rand now (Some c) (Some op) None [] = Inr (r, c', [])"
    using assms by (simp add: grpc_trace_start_span_def grpc_trace_span_create_def generate_id_eq trace_inv_def
        split: prod.split)
  with start_span_ok [OF assms alloc_ok_Nil, of rand now op None] that show ?thesis by fastforce
qed

lemma span_add_tag_ready:
  assumes "span_ok t"
  obtains t' where "span_add_tag t k v [] = Inr (0, t', [])" "span_ok t'"
proof -
  have "r = 0 \<and> os = []" if "span_add_tag t k v [] = Inr (r, t', os)" for r t' os
    using that by (auto simp: span_add_tag_def arr_grow_def Let_def exec_bind_eq_Inr split: if_splits)
  with span_add_tag_ok [OF assms, of k v "[]"] that show ?thesis by (metis (no_types, lifting))
qed

lemma add_tag_ready:
  assumes "trace_inv c ((a, t) # cs)"
  obtains c' t' where "grpc_trace_span_add_tag c (Some a) (Some k) (Some v) [] = Inr (0, c', [])"
    "trace_inv c' ((a, t') # cs)" "tc_export_span c' = tc_export_span c"
proof -
  from assms have l: "list_in (tc_nodes c) (tc_active_spans c) ([] @ (a, t) # cs)" and "span_ok t"
    by (simp_all add: trace_inv_def)
  from this(2) obtain t' where t': "span_add_tag t k v [] = Inr (0, t', [])" "span_ok t'" by (rule span_add_tag_ready)
  from l obtain n where n: "cells (tc_nodes c) a = Some n" "node_val n = t" by (rule list_in_node)
  from list_in_update [OF l, of "\<lambda>_. t'"] obtain st where
    st: "store_upd (tc_nodes c) (Some a) (\<lambda>_. t') = Inr st" "list_in st (tc_active_spans c) ((a, t') # cs)" by auto
  have "grpc_trace_span_add_tag c (Some a) (Some k) (Some v) [] = Inr (0, c\<lparr>tc_nodes := st\<rparr>, [])"
    using n t'(1) st(1) by (simp add: grpc_trace_span_add_tag_def store_get_def)
  with assms st(2) t'(2) show ?thesis by (intro that [of "c\<lparr>tc_nodes := st\<rparr>" t']) (simp_all add: trace_inv_def)
qed

text \<open>The exporter of the program prints and leaves the span alone.\<close>

lemma finish_span_ready:
  assumes "trace_inv c ([] @ (a, t) # cs)" and "tc_export_span c = Some custom_trace_exporter"
  obtains c' where "\<And>out. grpc_trace_finish_span now (Some c) (Some a) out =
      Inr (0, Some c', out @ ''Trace span exported (placeholder)'' @ nl)"
    "trace_inv c' ((a, t\<lparr>ts_end_time := now, ts_finished := True\<rparr>) # cs)"
proof -
  let ?f = "\<lambda>t. t\<lparr>ts_end_time := now, ts_finished := True\<rparr>"
  from assms(1) have m: "\<not> tc_mutex c" and l: "list_in (tc_nodes c) (tc_active_spans c) ([] @ (a, t) # cs)"
    by (simp_all add: trace_inv_def)
  from list_in_update [OF l, of ?f] obtain st where
    st: "store_upd (tc_nodes c) (Some a) ?f = Inr st" "list_in st (tc_active_spans c) ([] @ (a, ?f t) # cs)" by blast
  from st(2) obtain n where n: "cells st a = Some n" "node_val n = ?f t" by (rule list_in_node)
  from list_in_update [OF st(2), of "\<lambda>_. ?f t"] obtain st' where
    st': "store_upd st (Some a) (\<lambda>_. ?f t) = Inr st'" "list_in st' (tc_active_spans c) ([] @ (a, ?f t) # cs)" by blast
  show ?thesis
  proof (rule that)
    show "grpc_trace_finish_span now (Some c) (Some a) out =
        Inr (0, Some (c\<lparr>tc_nodes := st', tc_mutex := False\<rparr>), out @ ''Trace span exported (placeholder)'' @ nl)" for out
      using assms(2) m st(1) n st'(1) by (simp add: grpc_trace_finish_span_def store_get_def custom_trace_exporter_def)
    show "trace_inv (c\<lparr>tc_nodes := st', tc_mutex := False\<rparr>) ((a, ?f t) # cs)"
      using assms(1) st'(2) by (simp add: trace_inv_def span_ok_def)
  qed
qed

definition tracing_transcript :: "string list" where
  "tracing_transcript = [[], ''=== Tracing Example ==='', ''Configured custom trace exporter'',
     ''Started trace span: example_operation'', ''  Added tags to span'', ''Trace span exported (placeholder)'',
     ''  Finished trace span'']"

lemma demonstrate_tracing_run:
  assumes "mem_ready P"
  shows "demonstrate_tracing rand now P = Inr ((), P\<lparr>pr_out := pr_out P @ text_lines tracing_transcript\<rparr>)"
proof -
  let ?c = "\<lparr>tc_active_spans = None, tc_span_count = 0, tc_mutex = False, tc_export_span = Some custom_trace_exporter,
    tc_exporter_user_data = None, tc_nodes = store_empty\<rparr>"
  have "trace_inv ?c []" by (simp add: trace_inv_def store_empty_def)
  then obtain a c1 t1 where c1: "grpc_trace_start_span rand now (Some ?c) (Some ''example_operation'') None [] = Inr (Some a, Some c1, [])"
    "trace_inv c1 ((a, t1) # [])" "tc_export_span c1 = tc_export_span ?c" by (rule start_span_ready)
  from c1(2) obtain c2 t2 where c2: "grpc_trace_span_add_tag c1 (Some a) (Some ''service'') (Some ''example'') [] = Inr (0, c2, [])"
    "trace_inv c2 ((a, t2) # [])" "tc_export_span c2 = tc_export_span c1" by (rule add_tag_ready)
  from c2(2) obtain c3 t3 where c3: "grpc_trace_span_add_tag c2 (Some a) (Some ''method'') (Some ''demonstrate_tracing'') [] = Inr (0, c3, [])"
    "trace_inv c3 ([] @ (a, t3) # [])" "tc_export_span c3 = tc_export_span c2" by (rule add_tag_ready) simp
  have ex: "tc_export_span c3 = Some custom_trace_exporter" using c1(3) c2(3) c3(3) by simp
  obtain c4 where c4: "\<And>out. grpc_trace_finish_span (now 3) (Some c3) (Some a) out =
      Inr (0, Some c4, out @ ''Trace span exported (placeholder)'' @ nl)" "trace_inv c4 [(a, t3\<lparr>ts_end_time := now 3, ts_finished := True\<rparr>)]"
    using c3(2) ex by (rule finish_span_ready) blast
  from grpc_trace_context_destroy_frees [OF c4(2)] obtain st where
    "grpc_trace_context_destroy (Some c4) = Some (Inr (Some st))" by blast
  with assms c1(1) c2(1) c3(1) c4(1) show ?thesis
    by (simp add: demonstrate_tracing_def call_ready grpc_trace_context_create_def grpc_trace_context_set_exporter_def
        tracing_transcript_def)
qed

section \<open>Name resolution\<close>

lemma dns_convert_ready: "dns_convert inet_ntop port rps [] = (dns_addresses inet_ntop port rps, [])"
proof -
  have "snd (dns_convert inet_ntop port rps []) = []"
    by (induction rps) (auto simp: grpc_resolved_address_create_def split: option.splits prod.splits)
  with dns_convert_eq [OF alloc_ok_Nil, of inet_ntop port rps] show ?thesis by auto
qed

text \<open>The addresses the resolver finds for \<open>localhost\<close>.\<close>

definition localhost_addresses ::
    "(string \<Rightarrow> addrinfo list option) \<Rightarrow> (ai_family \<Rightarrow> nat \<Rightarrow> string option) \<Rightarrow> grpc_resolved_address list" where
  "localhost_addresses getaddrinfo inet_ntop =
     (case getaddrinfo ''localhost'' of None \<Rightarrow> [] | Some rps \<Rightarrow> dns_addresses inet_ntop 50051 rps)"

definition resolution_transcript :: "grpc_resolved_address list \<Rightarrow> string list" where
  "resolution_transcript as = [[], ''=== Name Resolution Example ==='', ''Static resolver:'',
     ''  Resolved 1 address(es)'', [], ''DNS resolver:'',
     if as = [] then ''  DNS resolution failed (may be expected in some environments)''
     else ''  Resolved '' @ dec (length as) @ '' address(es)'']"

lemma demonstrate_name_resolution_run:
  assumes "mem_ready P"
  shows "demonstrate_name_resolution getaddrinfo inet_ntop P = Inr ((), P\<lparr>pr_out := pr_out P @
    text_lines (resolution_transcript (localhost_addresses getaddrinfo inet_ntop))\<rparr>)"
proof -
  have d: "dec 50051 = ''50051''" "dec (Suc 0) = ''1''" by (simp_all add: dec.simps digit_chars)
  have p: "parse_target ''127.0.0.1:50051'' = Some (''127.0.0.1'', 50051)"
    "parse_target ''localhost:50051'' = Some (''localhost'', 50051)"
    using parse_target_host_port [of "''127.0.0.1''" 50051] parse_target_host_port [of "''localhost''" 50051] d by simp_all
  have dns: "grpc_dns_resolve getaddrinfo inet_ntop (Some ''localhost:50051'') [] =
      (localhost_addresses getaddrinfo inet_ntop, [])"
    using p(2) by (simp add: grpc_dns_resolve_def localhost_addresses_def dns_convert_ready split: option.split)
  have st: "grpc_static_resolve (Some ''127.0.0.1:50051'') [] = ([\<lparr>ra_address = ''127.0.0.1'', ra_port = 50051\<rparr>], [])"
    using p(1) by (simp add: grpc_static_resolve_def grpc_resolved_address_create_def)
  show ?thesis
    using assms dns st
    by (cases "localhost_addresses getaddrinfo inet_ntop = []")
      (simp_all add: demonstrate_name_resolution_def Let_def call_ready grpc_name_resolver_create_def grpc_name_resolver_resolve_def
        grpc_name_resolver_get_address_count_def grpc_name_resolver_destroy_def resolution_transcript_def d)
qed

section \<open>Balanced books\<close>

text \<open>Every demonstration that returns has destroyed what it made, whatever the allocator did.\<close>

lemma pick_loop_live [live_intros]: "live_adds 0 (pick_loop rand i n policy)"
  by (induction n arbitrary: i policy) (simp, intro live_intros, simp, intro live_intros)

lemma demonstrate_load_balancing_live [live_intros]: "live_adds 0 (demonstrate_load_balancing rand)"
  unfolding demonstrate_load_balancing_def by (intro live_intros) (simp_all add: live_adds_calls live_intros)

lemma demonstrate_connection_pool_live [live_intros]: "live_adds 0 (demonstrate_connection_pool started)"
  unfolding demonstrate_connection_pool_def by (intro live_intros) (simp_all add: live_intros)

lemma demonstrate_tracing_live [live_intros]: "live_adds 0 (demonstrate_tracing rand now)"
  unfolding demonstrate_tracing_def by (intro live_intros) (simp_all add: live_intros)

lemma demonstrate_metrics_live [live_intros]: "live_adds 0 (demonstrate_metrics ar lit fmt)"
  unfolding demonstrate_metrics_def by (intro live_intros) (simp_all add: live_intros)

lemma demonstrate_logging_live [live_intros]: "live_adds 0 demonstrate_logging"
  unfolding demonstrate_logging_def log_op_def by (intro live_intros) (simp_all add: live_intros)

lemma demonstrate_reflection_live [live_intros]: "live_adds 0 demonstrate_reflection"
proof -
  have name: "live_adds 0 (pbnd (make_op g) (\<lambda>full_name. pbnd (printf_str before full_name after) (\<lambda>_. release_op (pret ()))))"
    for g :: "alloc \<Rightarrow> string option \<times> alloc" and before after
  proof (rule live_adds_make)
    have "live_adds (- 1) (release_op (pret ()))" by (simp add: live_adds_def release_op_def)
    then show "live_adds (0 - 1) (pbnd (printf_str before (Some x) after) (\<lambda>_. release_op (pret ())))" for x
      by (intro live_intros) simp
  qed (rule live_adds_fault)
  show ?thesis unfolding demonstrate_reflection_def by (intro name live_intros) (simp_all add: live_intros name)
qed

text \<open>Two objects, one after the other, each behind a test of its pointer.\<close>

lemma live_adds_guarded:
  assumes "\<And>x. live_adds (- 1) (m (Some x))" and "live_adds 0 rest"
  shows "live_adds 0 (pbnd (make_op g) (\<lambda>p. pbnd (if p \<noteq> None then m p else pret ()) (\<lambda>_. rest)))"
proof (rule live_adds_make)
  show "live_adds (0 - 1) (pbnd (if Some x \<noteq> None then m (Some x) else pret ()) (\<lambda>_. rest))" for x
    by (rule live_adds_bind [of "- 1"]) (use assms in simp_all)
qed (use assms(2) in \<open>auto intro: live_intros\<close>)

lemma demonstrate_name_resolution_live [live_intros]: "live_adds 0 (demonstrate_name_resolution getaddrinfo inet_ntop)"
  unfolding demonstrate_name_resolution_def Let_def
  by (intro live_adds_guarded live_intros) (simp_all add: live_intros)

lemma demonstrate_interceptors_live [live_intros]: "live_adds 0 demonstrate_interceptors"
  unfolding demonstrate_interceptors_def Let_def
  by (intro live_adds_guarded live_intros) (simp_all add: live_intros)

section \<open>Properties\<close>

text \<open>
  With working memory the load balancing demonstration prints exactly these lines: six picks go
  round the three backends twice, and with the second backend marked unavailable its turns go to
  the third, which is therefore picked twice for every pick of the first.
\<close>

theorem demonstrate_load_balancing_output:
  assumes "mem_ready P"
  shows "demonstrate_load_balancing rand P = Inr ((), P\<lparr>pr_out := pr_out P @ text_lines
    [[], ''=== Load Balancing Example ==='', ''Added 3 backend addresses'', ''Round-robin picks:'',
     ''  Pick 1: localhost:50051'', ''  Pick 2: localhost:50052'', ''  Pick 3: localhost:50053'',
     ''  Pick 4: localhost:50051'', ''  Pick 5: localhost:50052'', ''  Pick 6: localhost:50053'',
     [], ''Marked localhost:50052 as unavailable'', ''Subsequent picks:'',
     ''  Pick 1: localhost:50051'', ''  Pick 2: localhost:50053'', ''  Pick 3: localhost:50053'',
     ''  Pick 4: localhost:50051'']\<rparr>)"
  using demonstrate_load_balancing_run [OF assms] unfolding lb_transcript_def .

theorem demonstrate_load_balancing_output_witness:
  "\<exists>P'. demonstrate_load_balancing 7 (proc_start world_empty) = Inr ((), P') \<and> pr_state P' = world_empty"
  using demonstrate_load_balancing_output [OF proc_start_mem_ready, of 7] by (simp add: proc_start_def)


definition adv_sys_demo :: "int adv_sys" where
  "adv_sys_demo = \<lparr>as_rand = 0, as_getaddrinfo = (\<lambda>_. None), as_inet_ntop = (\<lambda>_ _. None), as_started = True,
     as_id_rand = (\<lambda>_ i. i), as_now = (\<lambda>_. (0, 0)), as_arith = int_arith,
     as_lit = (\<lambda>m e. m div 10 ^ e), as_fmt = dec_int\<rparr>"


text \<open>
  The loop prints what \<open>grpc_lb_policy_pick\<close> returns without a check: when the three addresses
  could not be allocated it hands \<open>NULL\<close> to \<open>%s\<close>, and when the full name could not be allocated so
  does the reflection demonstration.
\<close>

theorem advanced_example_prints_null:
  "demonstrate_load_balancing rand (proc_start (world_empty\<lparr>w_alloc := [True, False, False, False]\<rparr>)) = Inl Null_Deref"
  by (simp add: demonstrate_load_balancing_def proc_start_def make_op_def alloc_op_def alloc_exec_def exec_op_def run_op_def pbnd_def printf_def
      grpc_lb_policy_create_def grpc_lb_policy_add_address_def grpc_lb_address_create_def eval_nat_numeral grpc_lb_policy_pick_def
      grpc_lb_round_robin_pick_def printf_str_def)

end
