(* ===== verification/Testing.thy ===== *)
theory Testing
  imports Program_Calls
begin

text \<open>
  What the test programs under \<^verbatim>\<open>test/\<close> share: a test function goes on, ends the program with
  \<open>exit\<close>, or aborts it with a failed \<open>assert\<close>; and two static counters of passed and failed tests,
  which the tests take and return.
\<close>

text \<open>The bytes of a string literal, without its final zero.\<close>

definition char_bytes :: "string \<Rightarrow> uint8 list" where
  "char_bytes s = map (\<lambda>ch. word_of_nat (of_char ch)) s"

lemma length_char_bytes [simp]: "length (char_bytes s) = length s"
  by (simp add: char_bytes_def)

section \<open>How a test ends\<close>

datatype 'a outcome = Done 'a | Exit int | Abort

definition tbnd :: "('s, 'a outcome) prog \<Rightarrow> ('a \<Rightarrow> ('s, 'b outcome) prog) \<Rightarrow> ('s, 'b outcome) prog" where
  "tbnd m f = pbnd m (\<lambda>r. case r of Done x \<Rightarrow> f x | Exit code \<Rightarrow> pret (Exit code) | Abort \<Rightarrow> pret Abort)"

definition tret :: "'a \<Rightarrow> ('s, 'a outcome) prog" where
  "tret x = pret (Done x)"

definition exit_with :: "int \<Rightarrow> ('s, 'a outcome) prog" where
  "exit_with code = pret (Exit code)"

definition assert_that :: "bool \<Rightarrow> ('s, 'a outcome) prog \<Rightarrow> ('s, 'a outcome) prog" where
  "assert_that b k = (if b then k else pret Abort)"

text \<open>Tests in turn, each with the counters the one before it left.\<close>

fun in_turn :: "('c \<Rightarrow> ('s, 'c outcome) prog) list \<Rightarrow> 'c \<Rightarrow> ('s, 'c outcome) prog" where
  "in_turn [] c = tret c"
| "in_turn (t # ts) c = tbnd (t c) (in_turn ts)"

lemma assert_that_simps [simp]: "assert_that True k = k" "assert_that False k P = Inr (Abort, P)"
  by (simp_all add: assert_that_def)

lemma tret_eq [simp]: "tret x P = Inr (Done x, P)" "exit_with code P = Inr (Exit code, P)"
  by (simp_all add: tret_def exit_with_def)

lemma tbnd_run:
  "m P = Inr (Done x, P') \<Longrightarrow> tbnd m f P = f x P'" "m P = Inr (Exit code, P') \<Longrightarrow> tbnd m f P = Inr (Exit code, P')"
  "m P = Inr (Abort, P') \<Longrightarrow> tbnd m f P = Inr (Abort, P')"
  by (simp_all add: tbnd_def pbnd_def)

section \<open>Counters\<close>

record test_counts =
  tests_passed :: int
  tests_failed :: int

definition no_tests :: test_counts where
  "no_tests = \<lparr>tests_passed = 0, tests_failed = 0\<rparr>"

text \<open>\<open>TEST_PASS\<close> and \<open>TEST_FAIL\<close>, with the text in front of the verdict.\<close>

definition count_pass :: "string \<Rightarrow> test_counts \<Rightarrow> ('s, test_counts) prog" where
  "count_pass before c = pbnd (printf (before @ ''PASS'' @ nl)) (\<lambda>_. pret (c\<lparr>tests_passed := tests_passed c + 1\<rparr>))"

definition count_fail :: "string \<Rightarrow> string \<Rightarrow> test_counts \<Rightarrow> ('s, test_counts) prog" where
  "count_fail before msg c =
     pbnd (printf (before @ ''FAIL: '' @ msg @ nl)) (\<lambda>_. pret (c\<lparr>tests_failed := tests_failed c + 1\<rparr>))"

lemma count_eq [simp]:
  "count_pass before c P = Inr (c\<lparr>tests_passed := tests_passed c + 1\<rparr>, P\<lparr>pr_out := pr_out P @ before @ ''PASS'' @ nl\<rparr>)"
  "count_fail before msg c P =
     Inr (c\<lparr>tests_failed := tests_failed c + 1\<rparr>, P\<lparr>pr_out := pr_out P @ before @ ''FAIL: '' @ msg @ nl\<rparr>)"
  by (simp_all add: count_pass_def count_fail_def)

text \<open>Tests that always go on.\<close>

fun run_tests :: "(test_counts \<Rightarrow> ('s, test_counts) prog) list \<Rightarrow> test_counts \<Rightarrow> ('s, test_counts) prog" where
  "run_tests [] c = pret c"
| "run_tests (t # ts) c = pbnd (t c) (run_tests ts)"

lemma in_turn_lift: "in_turn (map (\<lambda>t c. pbnd (t c) tret) ts) c P = pbnd (run_tests ts c) tret P"
  by (induction ts arbitrary: c P)
    (auto simp: tbnd_def pbnd_def tret_def exec_bind_def split: sum.splits prod.splits)

lemma pbnd_tret_done: "pbnd m tret P = Inr (Done x, P') \<Longrightarrow> m P = Inr (x, P')"
  by (auto simp: pbnd_def exec_bind_def split: sum.splits prod.splits)

section \<open>Programs whose tests all pass\<close>

text \<open>A test that passes from the states \<open>ok\<close>: it goes on to such a state, prints its line, counts
  itself, and has the effect \<open>e\<close> on the state of the program.\<close>

definition test_ok ::
    "('s proc \<Rightarrow> bool) \<Rightarrow> ('e list \<Rightarrow> 's \<Rightarrow> 's \<Rightarrow> bool) \<Rightarrow> string \<Rightarrow> 'e list \<Rightarrow>
     (test_counts \<Rightarrow> ('s, test_counts outcome) prog) \<Rightarrow> bool" where
  "test_ok ok kept name e t \<longleftrightarrow> (\<forall>c P. ok P \<longrightarrow> (\<exists>P'.
     t c P = Inr (Done (c\<lparr>tests_passed := tests_passed c + 1\<rparr>), P') \<and> ok P' \<and> kept e (pr_state P) (pr_state P') \<and>
     pr_out P' = pr_out P @ ''Running test: '' @ name @ ''... PASS'' @ nl))"

lemma test_okD:
  assumes "test_ok ok kept name e t" and "ok P"
  obtains P' where "t c P = Inr (Done (c\<lparr>tests_passed := tests_passed c + 1\<rparr>), P')" "ok P'"
    "kept e (pr_state P) (pr_state P')" "pr_out P' = pr_out P @ ''Running test: '' @ name @ ''... PASS'' @ nl"
  using assms unfolding test_ok_def by blast

text \<open>Such a test when it always goes on.\<close>

lemma test_ok_plainI:
  assumes "\<And>c P. ok P \<Longrightarrow> \<exists>P'. t c P = Inr (c\<lparr>tests_passed := tests_passed c + 1\<rparr>, P') \<and> ok P' \<and>
    kept e (pr_state P) (pr_state P') \<and> pr_out P' = pr_out P @ ''Running test: '' @ name @ ''... PASS'' @ nl"
  shows "test_ok ok kept name e (\<lambda>c. pbnd (t c) tret)"
  unfolding test_ok_def
proof (intro allI impI)
  fix c P
  assume "ok P"
  from assms [OF this, of c] show "\<exists>P'. pbnd (t c) tret P = Inr (Done (c\<lparr>tests_passed := tests_passed c + 1\<rparr>), P') \<and>
      ok P' \<and> kept e (pr_state P) (pr_state P') \<and> pr_out P' = pr_out P @ ''Running test: '' @ name @ ''... PASS'' @ nl"
    by (auto simp: pbnd_run)
qed

definition pass_lines :: "(string \<times> 'e list) list \<Rightarrow> string list" where
  "pass_lines nes = map (\<lambda>(n, _). ''Running test: '' @ n @ ''... PASS'') nes"

text \<open>The contract of a suite: the effects of its tests compose. Tests that pass then pass one
  after the other, and their effects add up.\<close>

locale test_suite =
  fixes ok :: "'s proc \<Rightarrow> bool" and kept :: "'e list \<Rightarrow> 's \<Rightarrow> 's \<Rightarrow> bool"
  assumes kept_refl: "kept [] s s"
    and kept_trans: "kept e1 s1 s2 \<Longrightarrow> kept e2 s2 s3 \<Longrightarrow> kept (e1 @ e2) s1 s3"
begin

lemma in_turn_passes:
  assumes "list_all2 (\<lambda>(n, e). test_ok ok kept n e) nes ts" and "ok P"
  obtains P' where "in_turn ts c P = Inr (Done (c\<lparr>tests_passed := tests_passed c + int (length ts)\<rparr>), P')" "ok P'"
    "kept (concat (map snd nes)) (pr_state P) (pr_state P')" "pr_out P' = pr_out P @ text_lines (pass_lines nes)"
proof -
  have "\<exists>P'. in_turn ts c P = Inr (Done (c\<lparr>tests_passed := tests_passed c + int (length ts)\<rparr>), P') \<and> ok P' \<and>
    kept (concat (map snd nes)) (pr_state P) (pr_state P') \<and> pr_out P' = pr_out P @ text_lines (pass_lines nes)"
    using assms
  proof (induction nes ts arbitrary: c P rule: list_all2_induct)
    case Nil
    then show ?case by (simp add: kept_refl pass_lines_def)
  next
    case (Cons ne nes t ts)
    obtain n e where ne: "ne = (n, e)" by force
    from Cons.hyps(1) have "test_ok ok kept n e t" by (simp add: ne)
    then obtain P1 where P1: "t c P = Inr (Done (c\<lparr>tests_passed := tests_passed c + 1\<rparr>), P1)" "ok P1"
      "kept e (pr_state P) (pr_state P1)" "pr_out P1 = pr_out P @ ''Running test: '' @ n @ ''... PASS'' @ nl"
      using Cons.prems by (rule test_okD)
    from Cons.IH [OF P1(2), of "c\<lparr>tests_passed := tests_passed c + 1\<rparr>"] P1 show ?case
      by (auto simp: ne tbnd_run algebra_simps pass_lines_def intro: kept_trans)
  qed
  with that show ?thesis by blast
qed

lemma run_tests_pass:
  assumes "list_all2 (\<lambda>(n, e) t. test_ok ok kept n e (\<lambda>c. pbnd (t c) tret)) nes ts" and "ok P"
  obtains P' where "run_tests ts c P = Inr (c\<lparr>tests_passed := tests_passed c + int (length ts)\<rparr>, P')" "ok P'"
    "kept (concat (map snd nes)) (pr_state P) (pr_state P')" "pr_out P' = pr_out P @ text_lines (pass_lines nes)"
proof -
  from assms(1) have "list_all2 (\<lambda>(n, e). test_ok ok kept n e) nes (map (\<lambda>t c. pbnd (t c) tret) ts)"
    by (auto simp: list_all2_conv_all_nth split: prod.splits)
  from this assms(2) show ?thesis
  proof (rule in_turn_passes)
    fix P'
    assume "in_turn (map (\<lambda>t c. pbnd (t c) tret) ts) c P =
        Inr (Done (c\<lparr>tests_passed := tests_passed c + int (length (map (\<lambda>t c. pbnd (t c) tret) ts))\<rparr>), P')"
      "ok P'" "kept (concat (map snd nes)) (pr_state P) (pr_state P')" "pr_out P' = pr_out P @ text_lines (pass_lines nes)"
    then show ?thesis by (intro that) (auto simp: in_turn_lift dest: pbnd_tret_done)
  qed
qed

end

end
