(* ===== verification/Basic_Test.thy ===== *)
theory Basic_Test
  imports Testing Client_Examples Server_Example
begin

text \<open>
  The test program \<^verbatim>\<open>test/basic_test.c\<close>: nine tests of the version, initialisation, completion
  queues, channels, servers, byte buffers, deadlines and calls. Its state is the world of the
  client objects and the environment of the server objects; each has its own script of
  allocation outcomes. The readings of the clock and the answers of the sockets are arguments.
\<close>

section \<open>State\<close>

record basic_env =
  be_world :: world
  be_server :: server_env

definition in_world :: "(world \<Rightarrow> ('a \<times> world) exec) \<Rightarrow> (basic_env, 'a) prog" where
  "in_world f = run_op (\<lambda>e. exec_bind (f (be_world e)) (\<lambda>(x, w). Inr (x, e\<lparr>be_world := w\<rparr>)))"

text \<open>An operation on the server as part of this program.\<close>

definition in_server :: "(server_env, 'a) prog \<Rightarrow> (basic_env, 'a) prog" where
  "in_server m P =
     exec_bind (m \<lparr>pr_globals = pr_globals P, pr_state = be_server (pr_state P), pr_out = pr_out P, pr_err = pr_err P, pr_live = pr_live P\<rparr>)
       (\<lambda>(x, Q). Inr (x, \<lparr>pr_globals = pr_globals Q, pr_state = (pr_state P)\<lparr>be_server := pr_state Q\<rparr>,
                         pr_out = pr_out Q, pr_err = pr_err Q, pr_live = pr_live Q\<rparr>))"

section \<open>The tests\<close>

definition basic_start :: "string \<Rightarrow> ('s, unit) prog" where
  "basic_start name = printf (''Running test: '' @ name @ ''...'')"

definition basic_pass :: "test_counts \<Rightarrow> ('s, test_counts) prog" where
  "basic_pass = count_pass '' ''"

text \<open>\<open>TEST_FAIL\<close>, then the clean-up of the branch.\<close>

definition basic_fail :: "string \<Rightarrow> test_counts \<Rightarrow> ('s, unit) prog list \<Rightarrow> ('s, test_counts) prog" where
  "basic_fail msg c cleanup = pbnd (count_fail '' '' msg c) (\<lambda>c. steps cleanup (pret c))"

definition test_version :: "test_counts \<Rightarrow> (basic_env, test_counts) prog" where
  "test_version c =
     pbnd (basic_start ''test_version'') (\<lambda>_.
     if length grpc_version_string > 0 then basic_pass c
     else basic_fail ''Version string is empty'' c [])"

definition test_init_shutdown :: "test_counts \<Rightarrow> (basic_env, test_counts) prog" where
  "test_init_shutdown c = steps [basic_start ''test_init_shutdown'', do_init, do_shutdown] (basic_pass c)"

definition test_completion_queue :: "test_counts \<Rightarrow> (basic_env, test_counts) prog" where
  "test_completion_queue c =
     steps [basic_start ''test_completion_queue'', do_init]
     (pbnd (in_world (cq_create_cmd GRPC_CQ_NEXT)) (\<lambda>cq.
      if cq = None then basic_fail ''Failed to create completion queue'' c [do_shutdown]
      else
        steps [in_world (cq_shutdown_cmd cq), in_world (cq_destroy_cmd cq), do_shutdown]
          (basic_pass c)))"

definition test_insecure_channel_create_destroy :: "test_counts \<Rightarrow> (basic_env, test_counts) prog" where
  "test_insecure_channel_create_destroy c =
     steps [basic_start ''test_insecure_channel_create_destroy'', do_init]
     (pbnd (in_world (grpc_insecure_channel_create (Some ''localhost:50051'') None)) (\<lambda>channel.
      if channel = None then basic_fail ''Failed to create channel'' c [do_shutdown]
      else steps [in_world (grpc_channel_destroy channel), do_shutdown] (basic_pass c)))"

definition test_server_create_destroy :: "test_counts \<Rightarrow> (basic_env, test_counts) prog" where
  "test_server_create_destroy c =
     steps [basic_start ''test_server_create_destroy'', do_init]
     (pbnd (in_server srv_create) (\<lambda>server.
      if \<not> server then basic_fail ''Failed to create server'' c [do_shutdown]
      else steps [in_server srv_destroy, do_shutdown] (basic_pass c)))"

definition test_server_add_port :: "(string \<Rightarrow> uint32 option) \<Rightarrow> sys \<Rightarrow> test_counts \<Rightarrow> (basic_env, test_counts) prog" where
  "test_server_add_port inet_pton sys c =
     steps [basic_start ''test_server_add_port'', do_init]
     (pbnd (in_server srv_create) (\<lambda>server.
      if \<not> server then basic_fail ''Failed to create server'' c [do_shutdown]
      else
        pbnd (in_server (srv_add_port inet_pton sys ''0.0.0.0:50051'')) (\<lambda>port.
        if port \<noteq> 50051 then basic_fail ''Failed to add port'' c [in_server srv_destroy, do_shutdown]
        else steps [in_server srv_destroy, do_shutdown] (basic_pass c))))"

text \<open>The bytes of the string in the program, with its final zero.\<close>

definition hello_bytes :: "uint8 list" where
  "hello_bytes = char_bytes ''Hello, gRPC!'' @ [0]"

definition test_byte_buffer :: "test_counts \<Rightarrow> (basic_env, test_counts) prog" where
  "test_byte_buffer c =
     steps [basic_start ''test_byte_buffer'', do_init]
     (pbnd (in_world (\<lambda>w. exec_bind (grpc_byte_buffer_create hello_bytes (length hello_bytes) (w_alloc w))
              (\<lambda>(b, os). Inr (b, w\<lparr>w_alloc := os\<rparr>)))) (\<lambda>buffer.
      case buffer of
        None \<Rightarrow> basic_fail ''Failed to create byte buffer'' c [do_shutdown]
      | Some b \<Rightarrow>
          (let destroy = in_world (\<lambda>w. exec_bind (grpc_byte_buffer_destroy (Some b)) (\<lambda>_. Inr ((), w)))
           in if bb_length b \<noteq> length hello_bytes
              then basic_fail ''Byte buffer length mismatch'' c [destroy, do_shutdown]
              else if block_slots (bb_data b) \<noteq> map Some hello_bytes
              then basic_fail ''Byte buffer data mismatch'' c [destroy, do_shutdown]
              else steps [destroy, do_shutdown] (basic_pass c))))"

definition test_timespec :: "timeval \<Rightarrow> timeval \<Rightarrow> test_counts \<Rightarrow> (basic_env, test_counts) prog" where
  "test_timespec clock1 clock2 c =
     steps [basic_start ''test_timespec'', do_init]
     (let now = grpc_now clock1
      in if tv_sec now = 0 then basic_fail ''grpc_now returned zero'' c [do_shutdown]
         else
           (let deadline = grpc_timeout_milliseconds_to_deadline clock2 1000
            in if tv_sec deadline \<le> tv_sec now
               then basic_fail ''Deadline should be in the future'' c [do_shutdown]
               else steps [do_shutdown] (basic_pass c)))"

definition test_call_lifecycle :: "timeval \<Rightarrow> test_counts \<Rightarrow> (basic_env, test_counts) prog" where
  "test_call_lifecycle clock c =
     steps [basic_start ''test_call_lifecycle'', do_init]
     (pbnd (in_world (grpc_insecure_channel_create (Some ''localhost:50051'') None)) (\<lambda>channel.
      if channel = None then basic_fail ''Failed to create channel'' c [do_shutdown]
      else
        pbnd (in_world (cq_create_cmd GRPC_CQ_NEXT)) (\<lambda>cq.
        if cq = None
        then basic_fail ''Failed to create completion queue'' c [in_world (grpc_channel_destroy channel), do_shutdown]
        else
          let deadline = grpc_timeout_milliseconds_to_deadline clock 5000
          in pbnd (in_world (grpc_channel_create_call channel None 0 cq (Some ''/test.Service/Method'') None deadline)) (\<lambda>call.
             if call = None
             then basic_fail ''Failed to create call'' c
               [in_world (cq_destroy_cmd cq), in_world (grpc_channel_destroy channel), do_shutdown]
             else
               steps
                 [in_world (grpc_call_destroy call),
                  in_world (cq_shutdown_cmd cq),
                  in_world (cq_destroy_cmd cq),
                  in_world (grpc_channel_destroy channel),
                  do_shutdown]
                 (basic_pass c)))))"

section \<open>The program\<close>

text \<open>The clock is read three times: \<open>clock 0\<close> and \<open>clock 1\<close> by the test of deadlines, \<open>clock 2\<close>
  for the deadline of the call.\<close>

definition basic_tests ::
    "(string \<Rightarrow> uint32 option) \<Rightarrow> sys \<Rightarrow> (nat \<Rightarrow> timeval) \<Rightarrow> (test_counts \<Rightarrow> (basic_env, test_counts) prog) list" where
  "basic_tests inet_pton sys clock =
     [test_version,
      test_init_shutdown,
      test_completion_queue,
      test_insecure_channel_create_destroy,
      test_server_create_destroy,
      test_server_add_port inet_pton sys,
      test_byte_buffer,
      test_timespec (clock 0) (clock 1),
      test_call_lifecycle (clock 2)]"

definition basic_test_main :: "(string \<Rightarrow> uint32 option) \<Rightarrow> sys \<Rightarrow> (nat \<Rightarrow> timeval) \<Rightarrow> (basic_env, int) prog" where
  "basic_test_main inet_pton sys clock =
     pbnd (printf (''=== gRPC-C Basic Tests ==='' @ nl @ nl)) (\<lambda>_.
     pbnd (run_tests (basic_tests inet_pton sys clock) no_tests) (\<lambda>c.
     steps
       [printf (nl @ ''=== Test Results ==='' @ nl),
        printf (''Passed: '' @ dec_int (tests_passed c) @ nl),
        printf (''Failed: '' @ dec_int (tests_failed c) @ nl)]
       (if tests_failed c > 0
        then pbnd (printf (nl @ ''Some tests FAILED!'' @ nl)) (\<lambda>_. pret 1)
        else pbnd (printf (nl @ ''All tests PASSED!'' @ nl)) (\<lambda>_. pret 0))))"

section \<open>Calls on the parts of the state\<close>

lemma in_world_run:
  "f (be_world (pr_state P)) = Inr (x, w) \<Longrightarrow> pbnd (in_world f) k P = k x (P\<lparr>pr_state := (pr_state P)\<lparr>be_world := w\<rparr>\<rparr>)"
  by (simp add: in_world_def)

lemma in_server_run:
  "f (be_server (pr_state P)) = Inr (x, e) \<Longrightarrow>
   pbnd (in_server (run_op f)) k P = k x (P\<lparr>pr_state := (pr_state P)\<lparr>be_server := e\<rparr>\<rparr>)"
  by (cases P) (simp add: in_server_def pbnd_def run_op_def)

lemma basic_frame [simp]:
  "pbnd (basic_start name) f P = f () (P\<lparr>pr_out := pr_out P @ ''Running test: '' @ name @ ''...''\<rparr>)"
  "basic_pass c P = Inr (c\<lparr>tests_passed := tests_passed c + 1\<rparr>, P\<lparr>pr_out := pr_out P @ '' PASS'' @ nl\<rparr>)"
  by (simp_all add: basic_start_def basic_pass_def pbnd_def printf_def)

section \<open>Every test passes\<close>

text \<open>The states between two tests, and a test that passes: it prints its line, counts itself,
  leaves the world as it was and closes the sockets \<open>fds\<close>.\<close>

definition basic_ok :: "basic_env proc \<Rightarrow> bool" where
  "basic_ok P \<longleftrightarrow> client_ready (be_world (pr_state P)) \<and> alloc_ok (w_alloc (be_world (pr_state P))) \<and>
     alloc_ok (se_alloc (be_server (pr_state P))) \<and> se_server (be_server (pr_state P)) = None \<and>
     \<not> g_init_mutex (pr_globals P) \<and> \<not> g_grpc_initialized (pr_globals P)"

definition basic_kept :: "int list \<Rightarrow> basic_env \<Rightarrow> basic_env \<Rightarrow> bool" where
  "basic_kept fds e e' \<longleftrightarrow> world_restored (be_world e) (be_world e') \<and>
     se_closed (be_server e') = se_closed (be_server e) @ fds"

lemma world_restored_refl [simp]: "world_restored w w"
  by (simp add: world_restored_def)

interpretation basic: test_suite basic_ok basic_kept
  by unfold_locales (auto simp: basic_kept_def intro: world_restored_trans)

definition basic_passes :: "string \<Rightarrow> int list \<Rightarrow> (test_counts \<Rightarrow> (basic_env, test_counts) prog) \<Rightarrow> bool" where
  "basic_passes name fds t \<longleftrightarrow> test_ok basic_ok basic_kept name fds (\<lambda>c. pbnd (t c) tret)"

definition passed_with ::
    "string \<Rightarrow> int list \<Rightarrow> test_counts \<Rightarrow> basic_env proc \<Rightarrow> (test_counts \<times> basic_env proc) exec \<Rightarrow> bool" where
  "passed_with name fds c P res \<longleftrightarrow> (\<exists>P'. res = Inr (c\<lparr>tests_passed := tests_passed c + 1\<rparr>, P') \<and>
     basic_ok P' \<and> world_restored (be_world (pr_state P)) (be_world (pr_state P')) \<and>
     se_closed (be_server (pr_state P')) = se_closed (be_server (pr_state P)) @ fds \<and>
     pr_out P' = pr_out P @ ''Running test: '' @ name @ ''... PASS'' @ nl)"

lemma basic_passesI:
  assumes "\<And>c P. basic_ok P \<Longrightarrow> passed_with name fds c P (t c P)"
  shows "basic_passes name fds t"
  unfolding basic_passes_def by (rule test_ok_plainI) (use assms in \<open>simp add: passed_with_def basic_kept_def\<close>)

lemma basic_okD:
  assumes "basic_ok P"
  shows "client_ready (be_world (pr_state P))" "alloc_ok (w_alloc (be_world (pr_state P)))"
    "alloc_ok (se_alloc (be_server (pr_state P)))" "se_server (be_server (pr_state P)) = None"
    "\<not> g_init_mutex (pr_globals P)" "\<not> g_grpc_initialized (pr_globals P)"
  using assms by (simp_all add: basic_ok_def)

lemma version_passes: "basic_passes ''test_version'' [] test_version"
  by (rule basic_passesI) (simp add: passed_with_def test_version_def grpc_version_string_eq basic_ok_def)

lemma init_shutdown_passes: "basic_passes ''test_init_shutdown'' [] test_init_shutdown"
  by (rule basic_passesI) (simp add: passed_with_def test_init_shutdown_def basic_ok_def)

lemma completion_queue_passes: "basic_passes ''test_completion_queue'' [] test_completion_queue"
proof (rule basic_passesI)
  fix c P
  assume ok: "basic_ok P"
  from basic_okD(1,2) [OF ok] obtain a w1 w2 w3 where
    "cq_create_cmd GRPC_CQ_NEXT (be_world (pr_state P)) = Inr (Some a, w1)" "cq_shutdown_cmd (Some a) w1 = Inr ((), w2)"
    "cq_destroy_cmd (Some a) w2 = Inr ((), w3)" "world_restored (be_world (pr_state P)) w3" "client_ready w3"
    by (rule queue_life)
  with basic_okD [OF ok] show "passed_with ''test_completion_queue'' [] c P (test_completion_queue c P)"
    by (simp add: passed_with_def test_completion_queue_def in_world_run basic_ok_def world_restored_def)
qed

lemma channel_passes:
  "basic_passes ''test_insecure_channel_create_destroy'' [] test_insecure_channel_create_destroy"
proof (rule basic_passesI)
  fix c P
  assume ok: "basic_ok P"
  from basic_okD(1,2) [OF ok] obtain ch w1 w2 where
    "grpc_channel_create (Some ''localhost:50051'') None None (be_world (pr_state P)) = Inr (Some ch, w1)"
    "grpc_channel_destroy (Some ch) w1 = Inr ((), w2)" "world_restored (be_world (pr_state P)) w2" "client_ready w2"
    by (rule channel_life)
  with basic_okD [OF ok]
  show "passed_with ''test_insecure_channel_create_destroy'' [] c P (test_insecure_channel_create_destroy c P)"
    by (simp add: passed_with_def test_insecure_channel_create_destroy_def grpc_insecure_channel_create_def in_world_run
        basic_ok_def world_restored_def)
qed

lemmas server_calls = srv_create_def srv_add_port_def srv_destroy_def in_server_run

lemma server_passes: "basic_passes ''test_server_create_destroy'' [] test_server_create_destroy"
proof (rule basic_passesI)
  fix c P
  assume ok: "basic_ok P"
  from basic_okD(3) [OF ok] obtain s os where
    "grpc_server_create None (se_alloc (be_server (pr_state P))) = (Some s, os)" "srv_inv s" "arr_list (srv_ports s) = []"
    "alloc_ok os" by (rule server_create_ready)
  with basic_okD [OF ok] show "passed_with ''test_server_create_destroy'' [] c P (test_server_create_destroy c P)"
    by (simp add: passed_with_def test_server_create_destroy_def server_calls srv_destroy_ok basic_ok_def)
qed

lemma add_port_passes:
  assumes "0 \<le> sys_socket sys" and "0 \<le> sys_bind sys" and "0 \<le> sys_listen sys"
  shows "basic_passes ''test_server_add_port'' [sys_socket sys] (test_server_add_port inet_pton sys)"
proof (rule basic_passesI)
  fix c P
  assume ok: "basic_ok P"
  have "dec 50051 = ''50051''" by (simp add: dec.simps digit_chars)
  then have port: "snd (parse_address ''0.0.0.0:50051'') = 50051" using parse_address_host_port [of "''0.0.0.0''" 50051] by simp
  from basic_okD(3) [OF ok] obtain s os where
    s: "grpc_server_create None (se_alloc (be_server (pr_state P))) = (Some s, os)" "srv_inv s" "\<not> srv_started s"
      "arr_list (srv_ports s) = []" "alloc_ok os" by (rule server_create_ready)
  have "fst (alloc_next os)" using s(5) by (cases os) auto
  from s(2,3) this show "passed_with ''test_server_add_port'' [sys_socket sys] c P (test_server_add_port inet_pton sys c P)"
  proof (cases rule: add_port_cases [where inet_pton = inet_pton and sys = sys and ad = "''0.0.0.0:50051''"])
    case failed
    with assms s(5) show ?thesis by simp
  next
    case (added a os')
    with s port basic_okD [OF ok] show ?thesis
      by (simp add: passed_with_def test_server_add_port_def server_calls srv_destroy_ok basic_ok_def)
  qed
qed

lemma byte_buffer_passes: "basic_passes ''test_byte_buffer'' [] test_byte_buffer"
proof (rule basic_passesI)
  fix c P
  assume ok: "basic_ok P"
  let ?w = "be_world (pr_state P)"
  from grpc_byte_buffer_create_ok [of "length hello_bytes" hello_bytes "w_alloc ?w"] basic_okD(2) [OF ok] obtain b os where
    b: "grpc_byte_buffer_create hello_bytes (length hello_bytes) (w_alloc ?w) = Inr (Some b, os)" "alloc_ok os"
      "block_slots (bb_data b) = map Some hello_bytes" "bb_length b = length hello_bytes"
      "grpc_byte_buffer_destroy (Some b) = Inr ()" by auto
  have r: "world_restored ?w (?w\<lparr>w_alloc := os\<rparr>)" using b(2) by (simp add: world_restored_def)
  have "client_ready (?w\<lparr>w_alloc := os\<rparr>)" by (rule client_ready_restored [OF basic_okD(1) [OF ok] r]) simp
  with b r basic_okD [OF ok] show "passed_with ''test_byte_buffer'' [] c P (test_byte_buffer c P)"
    by (simp add: passed_with_def test_byte_buffer_def in_world_run Let_def basic_ok_def)
qed

lemma call_lifecycle_passes: "basic_passes ''test_call_lifecycle'' [] (test_call_lifecycle clock)"
proof (rule basic_passesI)
  fix c P
  assume ok: "basic_ok P"
  from basic_okD(1) [OF ok] show "passed_with ''test_call_lifecycle'' [] c P (test_call_lifecycle clock c P)"
  proof (cases rule: unary.client_cases [where t = "''localhost:50051''" and args = None and ty = GRPC_CQ_NEXT
      and m = "''/test.Service/Method''" and d = "grpc_timeout_milliseconds_to_deadline clock 5000"])
    case finished
    with basic_okD [OF ok] show ?thesis
      by (simp add: passed_with_def test_call_lifecycle_def in_world_run Let_def basic_ok_def world_restored_def)
  qed (use basic_okD(2) [OF ok] in simp_all)
qed

text \<open>Readings of a clock after 1970 that are a \<open>timeval\<close> and far from the end of 64 bits.\<close>

definition clock_sane :: "timeval \<Rightarrow> bool" where
  "clock_sane tv \<longleftrightarrow> 0 < timeval_sec tv \<and> timeval_sec tv < 2 ^ 62 \<and> 0 \<le> timeval_usec tv \<and> timeval_usec tv < 1000000"

lemma deadline_one_second:
  assumes "clock_sane tv"
  shows "tv_sec (grpc_timeout_milliseconds_to_deadline tv 1000) = timeval_sec tv + 1" "tv_sec (grpc_now tv) = timeval_sec tv"
  using assms
  by (simp_all add: clock_sane_def grpc_timeout_milliseconds_to_deadline_def grpc_now_def Let_def sdiv_nonneg smod_nonneg)

lemma timespec_passes:
  assumes "clock_sane tv1" and "clock_sane tv2" and "timeval_sec tv1 \<le> timeval_sec tv2"
  shows "basic_passes ''test_timespec'' [] (test_timespec tv1 tv2)"
proof -
  have "timeval_sec tv1 \<noteq> 0" using assms(1) by (simp add: clock_sane_def)
  with assms(3) deadline_one_second [OF assms(1)] deadline_one_second [OF assms(2)] show ?thesis
    by (intro basic_passesI) (simp add: passed_with_def test_timespec_def Let_def basic_ok_def)
qed

section \<open>The whole program\<close>

definition basic_test_names :: "int \<Rightarrow> (string \<times> int list) list" where
  "basic_test_names fd =
     [(''test_version'', []), (''test_init_shutdown'', []), (''test_completion_queue'', []),
      (''test_insecure_channel_create_destroy'', []), (''test_server_create_destroy'', []),
      (''test_server_add_port'', [fd]), (''test_byte_buffer'', []), (''test_timespec'', []),
      (''test_call_lifecycle'', [])]"

text \<open>
  The basic tests pass: when memory is available, the port can be bound and the clock is sane
  and does not go back, the program runs its nine tests without a fault, prints that each of
  them passed and returns 0. All client objects are freed, the one socket was closed exactly
  once and the library is shut down.
\<close>

theorem basic_test_main_passes:
  assumes "basic_ok P" and "0 \<le> sys_socket sys" and "0 \<le> sys_bind sys" and "0 \<le> sys_listen sys"
    and "clock_sane (clock 0)" and "clock_sane (clock 1)" and "timeval_sec (clock 0) \<le> timeval_sec (clock 1)"
  shows "\<exists>P'. basic_test_main inet_pton sys clock P = Inr (0, P') \<and> lib_down P' \<and>
    world_restored (be_world (pr_state P)) (be_world (pr_state P')) \<and> se_server (be_server (pr_state P')) = None \<and>
    se_closed (be_server (pr_state P')) = se_closed (be_server (pr_state P)) @ [sys_socket sys] \<and>
    pr_out P' = pr_out P @ text_lines ([''=== gRPC-C Basic Tests ==='', []] @
      pass_lines (basic_test_names (sys_socket sys)) @
      [[], ''=== Test Results ==='', ''Passed: 9'', ''Failed: 0'', [], ''All tests PASSED!''])"
proof -
  let ?ts = "basic_tests inet_pton sys clock" and ?P = "P\<lparr>pr_out := pr_out P @ ''=== gRPC-C Basic Tests ==='' @ nl @ nl\<rparr>"
  let ?ns = "basic_test_names (sys_socket sys)"
  have all: "list_all2 (\<lambda>(n, fds) t. test_ok basic_ok basic_kept n fds (\<lambda>c. pbnd (t c) tret)) ?ns ?ts"
    using add_port_passes [OF assms(2-4)] timespec_passes [OF assms(5-7)] version_passes init_shutdown_passes
      completion_queue_passes channel_passes server_passes byte_buffer_passes call_lifecycle_passes
    by (simp add: basic_test_names_def basic_tests_def basic_passes_def)
  have "basic_ok ?P" using assms(1) by (simp add: basic_ok_def)
  with all obtain P' where P': "run_tests ?ts no_tests ?P = Inr (no_tests\<lparr>tests_passed := tests_passed no_tests + int (length ?ts)\<rparr>, P')"
      "basic_ok P'" "basic_kept (concat (map snd ?ns)) (pr_state ?P) (pr_state P')"
      "pr_out P' = pr_out ?P @ text_lines (pass_lines ?ns)" by (rule basic.run_tests_pass)
  have l: "length ?ts = 9" "concat (map snd ?ns) = [sys_socket sys]"
    by (simp_all add: basic_tests_def basic_test_names_def)
  have d: "dec_int 9 = ''9''" "dec_int 0 = ''0''" by (simp_all add: dec_int_def dec.simps digit_chars)
  from P' show ?thesis
    by (simp add: basic_test_main_def pbnd_run no_tests_def d l lib_down_def basic_ok_def basic_kept_def)
qed

definition basic_env_start :: basic_env where
  "basic_env_start = \<lparr>be_world = world_empty, be_server = server_env_start\<rparr>"

theorem basic_test_main_passes_witness:
  "\<exists>P'. basic_test_main (\<lambda>_. None) sys_ok (\<lambda>_. \<lparr>timeval_sec = 1700000000, timeval_usec = 5\<rparr>) (proc_start basic_env_start) = Inr (0, P') \<and>
     se_closed (be_server (pr_state P')) = [5]"
proof -
  let ?clock = "\<lambda>_. \<lparr>timeval_sec = 1700000000, timeval_usec = 5\<rparr> :: timeval"
  have "client_ready world_empty" using proc_start_ready(1) by (simp add: proc_start_def)
  then have ok: "basic_ok (proc_start basic_env_start)"
    by (simp add: basic_ok_def proc_start_def basic_env_start_def world_empty_def server_env_start_def)
  have s: "0 \<le> sys_socket sys_ok" "0 \<le> sys_bind sys_ok" "0 \<le> sys_listen sys_ok" "sys_socket sys_ok = 5"
    by (simp_all add: sys_ok_def)
  have c: "clock_sane (?clock 0)" "clock_sane (?clock 1)" "timeval_sec (?clock 0) \<le> timeval_sec (?clock 1)"
    by (simp_all add: clock_sane_def)
  have e: "se_closed (be_server (pr_state (proc_start basic_env_start))) = []"
    by (simp add: proc_start_def basic_env_start_def server_env_start_def)
  from basic_test_main_passes [OF ok s(1-3) c, of "\<lambda>_. None"] show ?thesis by (auto simp: s(4) e)
qed

end
