(* ===== verification/Advanced_Test.thy ===== *)
theory Advanced_Test
  imports Testing Advanced_Example
begin

text \<open>
  The test program \<^verbatim>\<open>test/advanced_test.c\<close>: thirteen tests of the load balancer, the resolver, the
  connection pool, the interceptor chains, the reflection registry, tracing, metrics and
  logging, as functions of the counters on the world. A failed \<open>assert\<close> aborts the program; the
  calls inside an assertion are made. The answers of the system are arguments as in the
  components, \<open>rand i\<close> is the number the weighted policy gets for its pick \<open>i\<close>.
\<close>

section \<open>Load balancing\<close>

definition test_start :: "string \<Rightarrow> ('s, unit) prog" where
  "test_start name = printf (''Running test: '' @ name @ ''... '')"

definition test_passes :: "test_counts \<Rightarrow> ('s, test_counts outcome) prog" where
  "test_passes c = pbnd (count_pass [] c) tret"

definition test_load_balancing_round_robin :: "int \<Rightarrow> test_counts \<Rightarrow> (world, test_counts outcome) prog" where
  "test_load_balancing_round_robin rand c =
     pbnd (test_start ''test_load_balancing_round_robin'') (\<lambda>_.
     pbnd (alloc_op (grpc_lb_policy_create GRPC_LB_POLICY_ROUND_ROBIN)) (\<lambda>policy.
     assert_that (policy \<noteq> None) (
     pbnd (alloc_exec (grpc_lb_policy_add_address policy (Some ''localhost:50051'') 1)) (\<lambda>(r, policy).
     assert_that (r = 0) (
     pbnd (alloc_exec (grpc_lb_policy_add_address policy (Some ''localhost:50052'') 1)) (\<lambda>(r, policy).
     assert_that (r = 0) (
     pbnd (alloc_exec (grpc_lb_policy_add_address policy (Some ''localhost:50053'') 1)) (\<lambda>(r, policy).
     assert_that (r = 0) (
     pbnd (exec_op (grpc_lb_policy_pick rand policy)) (\<lambda>(addr1, policy).
     assert_that (addr1 \<noteq> None) (
     pbnd (exec_op (grpc_lb_policy_pick rand policy)) (\<lambda>(addr2, policy).
     assert_that (addr2 \<noteq> None) (
     assert_that (addr1 \<noteq> addr2) (
     pbnd (exec_op (grpc_lb_policy_pick rand policy)) (\<lambda>(addr3, policy).
     assert_that (addr3 \<noteq> None) (
     pbnd (exec_op (grpc_lb_policy_pick rand policy)) (\<lambda>(addr4, policy).
     assert_that (addr4 \<noteq> None) (
     assert_that (addr1 = addr4) (
     pbnd (exec_op (grpc_lb_policy_destroy policy)) (\<lambda>_.
     test_passes c))))))))))))))))))))"

definition test_load_balancing_pick_first :: "int \<Rightarrow> test_counts \<Rightarrow> (world, test_counts outcome) prog" where
  "test_load_balancing_pick_first rand c =
     pbnd (test_start ''test_load_balancing_pick_first'') (\<lambda>_.
     pbnd (alloc_op (grpc_lb_policy_create GRPC_LB_POLICY_PICK_FIRST)) (\<lambda>policy.
     assert_that (policy \<noteq> None) (
     pbnd (alloc_exec (grpc_lb_policy_add_address policy (Some ''localhost:50051'') 1)) (\<lambda>(r, policy).
     assert_that (r = 0) (
     pbnd (alloc_exec (grpc_lb_policy_add_address policy (Some ''localhost:50052'') 1)) (\<lambda>(r, policy).
     assert_that (r = 0) (
     pbnd (exec_op (grpc_lb_policy_pick rand policy)) (\<lambda>(addr1, policy).
     assert_that (addr1 \<noteq> None) (
     assert_that (addr1 = Some ''localhost:50051'') (
     pbnd (exec_op (grpc_lb_policy_pick rand policy)) (\<lambda>(addr2, policy).
     assert_that (addr2 \<noteq> None) (
     assert_that (addr2 = Some ''localhost:50051'') (
     pbnd (exec_op (grpc_lb_policy_destroy policy)) (\<lambda>_.
     test_passes c))))))))))))))"

text \<open>The loop of the weighted test: how many of the picks \<open>i, \<dots>, i + n - 1\<close> are not \<open>NULL\<close>.\<close>

fun count_picks :: "(nat \<Rightarrow> int) \<Rightarrow> nat \<Rightarrow> nat \<Rightarrow> int \<Rightarrow> grpc_lb_policy option \<Rightarrow> (world, int \<times> grpc_lb_policy option) prog" where
  "count_picks rand i 0 count policy = pret (count, policy)"
| "count_picks rand i (Suc n) count policy =
     pbnd (exec_op (grpc_lb_policy_pick (rand i) policy)) (\<lambda>(addr, policy).
     count_picks rand (i + 1) n (if addr \<noteq> None then count + 1 else count) policy)"

definition test_load_balancing_weighted :: "(nat \<Rightarrow> int) \<Rightarrow> test_counts \<Rightarrow> (world, test_counts outcome) prog" where
  "test_load_balancing_weighted rand c =
     pbnd (test_start ''test_load_balancing_weighted'') (\<lambda>_.
     pbnd (alloc_op (grpc_lb_policy_create GRPC_LB_POLICY_WEIGHTED)) (\<lambda>policy.
     assert_that (policy \<noteq> None) (
     pbnd (alloc_exec (grpc_lb_policy_add_address policy (Some ''localhost:50051'') 10)) (\<lambda>(r, policy).
     assert_that (r = 0) (
     pbnd (alloc_exec (grpc_lb_policy_add_address policy (Some ''localhost:50052'') 1)) (\<lambda>(r, policy).
     assert_that (r = 0) (
     pbnd (count_picks rand 0 10 0 policy) (\<lambda>(count, policy).
     assert_that (count = 10) (
     pbnd (exec_op (grpc_lb_policy_destroy policy)) (\<lambda>_.
     test_passes c))))))))))"

section \<open>Name resolution\<close>

definition resolve_op ::
    "(string \<Rightarrow> addrinfo list option) \<Rightarrow> (ai_family \<Rightarrow> nat \<Rightarrow> string option) \<Rightarrow> unit grpc_name_resolver option \<Rightarrow>
     (world, int \<times> unit grpc_name_resolver option) prog" where
  "resolve_op getaddrinfo inet_ntop resolver = alloc_exec (\<lambda>os.
     exec_bind (grpc_name_resolver_resolve getaddrinfo inet_ntop resolver () os) (\<lambda>(r, resolver', _, os').
       Inr (r, resolver', os')))"

definition test_name_resolver_static ::
    "(string \<Rightarrow> addrinfo list option) \<Rightarrow> (ai_family \<Rightarrow> nat \<Rightarrow> string option) \<Rightarrow> test_counts \<Rightarrow> (world, test_counts outcome) prog" where
  "test_name_resolver_static getaddrinfo inet_ntop c =
     pbnd (test_start ''test_name_resolver_static'') (\<lambda>_.
     pbnd (alloc_op (grpc_name_resolver_create GRPC_RESOLVER_STATIC (Some ''127.0.0.1:50051''))) (\<lambda>resolver.
     assert_that (resolver \<noteq> None) (
     pbnd (resolve_op getaddrinfo inet_ntop resolver) (\<lambda>(r, resolver).
     assert_that (r = 0) (
     pbnd (exec_op (grpc_name_resolver_get_address_count resolver)) (\<lambda>(count, resolver).
     assert_that (count = 1) (
     pbnd (exec_op (grpc_name_resolver_destroy resolver)) (\<lambda>_.
     test_passes c))))))))"

definition test_name_resolver_dns ::
    "(string \<Rightarrow> addrinfo list option) \<Rightarrow> (ai_family \<Rightarrow> nat \<Rightarrow> string option) \<Rightarrow> test_counts \<Rightarrow> (world, test_counts outcome) prog" where
  "test_name_resolver_dns getaddrinfo inet_ntop c =
     pbnd (test_start ''test_name_resolver_dns'') (\<lambda>_.
     pbnd (alloc_op (grpc_name_resolver_create GRPC_RESOLVER_DNS (Some ''localhost:50051''))) (\<lambda>resolver.
     assert_that (resolver \<noteq> None) (
     pbnd (resolve_op getaddrinfo inet_ntop resolver) (\<lambda>(r, resolver).
     pbnd (exec_op (grpc_name_resolver_destroy resolver)) (\<lambda>_.
     test_passes c)))))"

section \<open>Connection pool\<close>

definition pool_destroy_op :: "grpc_connection_pool option \<Rightarrow> (world, unit) prog" where
  "pool_destroy_op pool = run_op (\<lambda>w.
     (case grpc_connection_pool_destroy pool w of
        None \<Rightarrow> Inl Deadlock
      | Some r \<Rightarrow> exec_bind r (\<lambda>(_, w'). Inr ((), w'))))"

definition test_connection_pool_create_destroy :: "bool \<Rightarrow> test_counts \<Rightarrow> (world, test_counts outcome) prog" where
  "test_connection_pool_create_destroy started c =
     pbnd (test_start ''test_connection_pool_create_destroy'') (\<lambda>_.
     pbnd (alloc_op (grpc_connection_pool_create 10 30000 started)) (\<lambda>pool.
     assert_that (pool \<noteq> None) (
     pbnd (pool_destroy_op pool) (\<lambda>_.
     test_passes c))))"

definition test_connection_pool_keepalive_config :: "bool \<Rightarrow> test_counts \<Rightarrow> (world, test_counts outcome) prog" where
  "test_connection_pool_keepalive_config started c =
     pbnd (test_start ''test_connection_pool_keepalive_config'') (\<lambda>_.
     pbnd (alloc_op (grpc_connection_pool_create 10 30000 started)) (\<lambda>pool.
     assert_that (pool \<noteq> None) (
     pbnd (exec_op (grpc_connection_pool_set_keepalive pool 10000 5000 True)) (\<lambda>(r, pool).
     assert_that (r = 0) (
     pbnd (pool_destroy_op pool) (\<lambda>_.
     test_passes c))))))"

section \<open>Interceptors and reflection\<close>

definition test_client_interceptor_chain :: "test_counts \<Rightarrow> (world, test_counts outcome) prog" where
  "test_client_interceptor_chain c =
     (let client = (\<lambda>f :: grpc_client_interceptor_context option \<Rightarrow> int. \<lambda>ctx (s :: unit). (f (Some ctx), ctx, s))
      in
     pbnd (test_start ''test_client_interceptor_chain'') (\<lambda>_.
     pbnd (alloc_op grpc_client_interceptor_chain_create) (\<lambda>ch.
     assert_that (ch \<noteq> None) (
     pbnd (alloc_exec (grpc_client_interceptor_chain_add ch (Some (client grpc_logging_client_interceptor)) None)) (\<lambda>(r, ch).
     assert_that (r = 0) (
     pbnd (alloc_exec (grpc_client_interceptor_chain_add ch (Some (client grpc_auth_client_interceptor)) None)) (\<lambda>(r, ch).
     assert_that (r = 0) (
     pbnd (loop_op (grpc_client_interceptor_chain_destroy ch)) (\<lambda>_.
     test_passes c)))))))))"

definition test_server_interceptor_chain :: "test_counts \<Rightarrow> (world, test_counts outcome) prog" where
  "test_server_interceptor_chain c =
     (let server = (\<lambda>f :: grpc_server_interceptor_context option \<Rightarrow> int. \<lambda>ctx (s :: unit). (f (Some ctx), ctx, s))
      in
     pbnd (test_start ''test_server_interceptor_chain'') (\<lambda>_.
     pbnd (alloc_op grpc_server_interceptor_chain_create) (\<lambda>ch.
     assert_that (ch \<noteq> None) (
     pbnd (alloc_exec (grpc_server_interceptor_chain_add ch (Some (server grpc_logging_server_interceptor)) None)) (\<lambda>(r, ch).
     assert_that (r = 0) (
     pbnd (alloc_exec (grpc_server_interceptor_chain_add ch (Some (server grpc_auth_server_interceptor)) None)) (\<lambda>(r, ch).
     assert_that (r = 0) (
     pbnd (loop_op (grpc_server_interceptor_chain_destroy ch)) (\<lambda>_.
     test_passes c)))))))))"

definition test_reflection_registry :: "test_counts \<Rightarrow> (world, test_counts outcome) prog" where
  "test_reflection_registry c =
     pbnd (test_start ''test_reflection_registry'') (\<lambda>_.
     pbnd (alloc_op grpc_reflection_registry_create) (\<lambda>registry.
     assert_that (registry \<noteq> None) (
     pbnd (alloc_exec (grpc_reflection_registry_add_service registry (Some ''TestService'') (Some ''test.package''))) (\<lambda>(r, registry).
     assert_that (r = 0) (
     pbnd (alloc_exec (grpc_reflection_registry_add_method registry (Some ''TestService'') (Some ''TestMethod'')
             (Some ''TestRequest'') (Some ''TestResponse'') False False)) (\<lambda>(r, registry).
     assert_that (r = 0) (
     pbnd (exec_op (grpc_reflection_registry_get_service_count registry)) (\<lambda>(count, registry).
     assert_that (count = 1) (
     pbnd (exec_op (grpc_reflection_registry_get_service registry (Some ''TestService''))) (\<lambda>(service, registry).
     assert_that (service \<noteq> None) (
     pbnd (exec_op (grpc_reflection_registry_destroy registry)) (\<lambda>_.
     test_passes c))))))))))))"

section \<open>Observability\<close>

definition test_trace_context ::
    "(nat \<Rightarrow> nat \<Rightarrow> nat) \<Rightarrow> (nat \<Rightarrow> int \<times> int) \<Rightarrow> test_counts \<Rightarrow> (world, test_counts outcome) prog" where
  "test_trace_context rand now c =
     pbnd (test_start ''test_trace_context'') (\<lambda>_.
     pbnd (alloc_op grpc_trace_context_create) (\<lambda>ctx.
     assert_that (ctx \<noteq> None) (
     pbnd (alloc_exec (grpc_trace_start_span rand now ctx (Some ''test_operation'') None)) (\<lambda>(span, ctx).
     assert_that (span \<noteq> None) (
     pbnd (alloc_exec (grpc_trace_span_add_tag (the ctx) span (Some ''key'') (Some ''value''))) (\<lambda>(r, ctx).
     assert_that (r = 0) (
     pbnd (out_op (\<lambda>out. exec_bind (grpc_trace_finish_span (now 3) (Some ctx) span out) (\<lambda>(r, ctx', out').
             Inr ((r, ctx'), out')))) (\<lambda>(r, ctx).
     assert_that (r = 0) (
     pbnd (loop_op (grpc_trace_context_destroy ctx)) (\<lambda>_.
     test_passes c))))))))))"

definition test_metrics_registry :: "'v arith \<Rightarrow> (int \<Rightarrow> nat \<Rightarrow> 'v) \<Rightarrow> test_counts \<Rightarrow> (world, test_counts outcome) prog" where
  "test_metrics_registry ar lit c =
     pbnd (test_start ''test_metrics_registry'') (\<lambda>_.
     pbnd (alloc_op grpc_metrics_registry_create) (\<lambda>registry.
     assert_that (registry \<noteq> None) (
     pbnd (alloc_exec (grpc_metrics_register ar registry (Some ''test_counter'') (Some ''Test counter'') GRPC_METRIC_COUNTER)) (\<lambda>(r, registry).
     assert_that (r = 0) (
     pbnd (alloc_exec (grpc_metrics_register ar registry (Some ''test_gauge'') (Some ''Test gauge'') GRPC_METRIC_GAUGE)) (\<lambda>(r, registry).
     assert_that (r = 0) (
     pbnd (exec_op (grpc_metrics_increment ar registry (Some ''test_counter'') (lit 1 0))) (\<lambda>(r, registry).
     assert_that (r = 0) (
     pbnd (exec_op (grpc_metrics_increment ar registry (Some ''test_counter'') (lit 2 0))) (\<lambda>(r, registry).
     assert_that (r = 0) (
     pbnd (exec_op (grpc_metrics_set registry (Some ''test_gauge'') (lit 42 0))) (\<lambda>(r, registry).
     assert_that (r = 0) (
     pbnd (exec_op (grpc_metrics_get registry (Some ''test_counter''))) (\<lambda>(metric, registry).
     assert_that (metric \<noteq> None) (
     pbnd (exec_op (grpc_metrics_registry_destroy registry)) (\<lambda>_.
     test_passes c))))))))))))))))"

definition test_logger :: "test_counts \<Rightarrow> (world, test_counts outcome) prog" where
  "test_logger c =
     pbnd (test_start ''test_logger'') (\<lambda>_.
     pbnd (alloc_op (grpc_logger_create GRPC_LOG_LEVEL_INFO)) (\<lambda>logger.
     assert_that (logger \<noteq> None) (
     pbnd (log_op logger GRPC_LOG_LEVEL_INFO ''Test message'') (\<lambda>logger.
     let destroyed = grpc_logger_destroy logger in test_passes c))))"

section \<open>The program\<close>

definition advanced_tests :: "'v adv_sys \<Rightarrow> (nat \<Rightarrow> int) \<Rightarrow> (test_counts \<Rightarrow> (world, test_counts outcome) prog) list" where
  "advanced_tests sys rand =
     [test_load_balancing_round_robin (as_rand sys),
      test_load_balancing_pick_first (as_rand sys),
      test_load_balancing_weighted rand,
      test_name_resolver_static (as_getaddrinfo sys) (as_inet_ntop sys),
      test_name_resolver_dns (as_getaddrinfo sys) (as_inet_ntop sys),
      test_connection_pool_create_destroy (as_started sys),
      test_connection_pool_keepalive_config (as_started sys),
      test_client_interceptor_chain,
      test_server_interceptor_chain,
      test_reflection_registry,
      test_trace_context (as_id_rand sys) (as_now sys),
      test_metrics_registry (as_arith sys) (as_lit sys),
      test_logger]"

definition advanced_test_main :: "'v adv_sys \<Rightarrow> (nat \<Rightarrow> int) \<Rightarrow> (world, int outcome) prog" where
  "advanced_test_main sys rand =
     steps [printf (''=== gRPC-C Advanced Features Tests ==='' @ nl @ nl), do_init]
       (tbnd (in_turn (advanced_tests sys rand) no_tests) (\<lambda>c.
        steps
          [do_shutdown,
           printf (nl @ ''=== Test Results ==='' @ nl),
           printf (''Passed: '' @ dec_int (tests_passed c) @ nl),
           printf (''Failed: '' @ dec_int (tests_failed c) @ nl)]
          (if tests_failed c = 0
           then pbnd (printf (nl @ ''All tests PASSED!'' @ nl)) (\<lambda>_. tret 0)
           else pbnd (printf (nl @ ''Some tests FAILED!'' @ nl)) (\<lambda>_. tret 1))))"

section \<open>Every test passes\<close>

text \<open>A test that passes: it prints its line, counts itself and leaves everything else alone.\<close>

definition passes :: "string \<Rightarrow> (test_counts \<Rightarrow> (world, test_counts outcome) prog) \<Rightarrow> bool" where
  "passes name t \<longleftrightarrow> (\<forall>c P. mem_ready P \<longrightarrow> t c P = Inr (Done (c\<lparr>tests_passed := tests_passed c + 1\<rparr>),
     P\<lparr>pr_out := pr_out P @ ''Running test: '' @ name @ ''... PASS'' @ nl\<rparr>))"

lemma test_frame [simp]:
  "pbnd (test_start name) f P = f () (P\<lparr>pr_out := pr_out P @ ''Running test: '' @ name @ ''... ''\<rparr>)"
  "test_passes c P = Inr (Done (c\<lparr>tests_passed := tests_passed c + 1\<rparr>), P\<lparr>pr_out := pr_out P @ ''PASS'' @ nl\<rparr>)"
  by (simp_all add: test_start_def test_passes_def pbnd_def printf_def)

lemmas lb_build = grpc_lb_policy_create_def grpc_lb_policy_add_address_def grpc_lb_address_create_def lb_append_def

lemma round_robin_passes: "passes ''test_load_balancing_round_robin'' (test_load_balancing_round_robin rand)"
  by (simp add: passes_def test_load_balancing_round_robin_def call_ready lb_build grpc_lb_policy_pick_def
      grpc_lb_round_robin_pick_def grpc_lb_policy_destroy_def)

lemma pick_first_passes: "passes ''test_load_balancing_pick_first'' (test_load_balancing_pick_first rand)"
  by (simp add: passes_def test_load_balancing_pick_first_def call_ready lb_build grpc_lb_policy_pick_def
      grpc_lb_pick_first_pick_def grpc_lb_policy_destroy_def)

text \<open>The weighted policy of the test; both backends are available, so every pick finds one.\<close>

definition lb_weighted :: grpc_lb_policy where
  "lb_weighted = \<lparr>lb_type = GRPC_LB_POLICY_WEIGHTED, lb_addresses =
     [\<lparr>lb_address = ''localhost:50051'', lb_weight = 10, lb_is_available = True\<rparr>,
      \<lparr>lb_address = ''localhost:50052'', lb_weight = 1, lb_is_available = True\<rparr>],
     lb_address_count = Suc (Suc 0), lb_current_index = 0, lb_mutex = False\<rparr>"

lemma lb_weighted_unlocked: "\<not> lb_mutex lb_weighted"
  by (simp add: lb_weighted_def)

lemma lb_weighted_pick:
  assumes "0 \<le> r"
  shows "\<exists>a. grpc_lb_policy_pick r (Some lb_weighted) = Inr (Some a, Some lb_weighted)"
proof -
  have "0 \<le> r smod 11" "r smod 11 < 11" using assms by (simp_all add: signed_modulo_int_def sgn_if)
  then show ?thesis by (simp add: grpc_lb_policy_pick_def grpc_lb_weighted_pick_def lb_weighted_def)
qed

lemma count_picks_run:
  assumes "\<And>i. 0 \<le> rand i"
  shows "pbnd (count_picks rand i n k (Some lb_weighted)) f P = f (k + int n, Some lb_weighted) P"
proof (induction n arbitrary: i k)
  case (Suc n)
  from lb_weighted_pick [OF assms, of i] obtain a where
    "grpc_lb_policy_pick (rand i) (Some lb_weighted) = Inr (Some a, Some lb_weighted)" by blast
  with Suc show ?case by (simp add: call_ready add.assoc)
qed simp

lemma weighted_passes:
  assumes "\<And>i. 0 \<le> rand i"
  shows "passes ''test_load_balancing_weighted'' (test_load_balancing_weighted rand)"
proof -
  have w: "\<lparr>lb_type = GRPC_LB_POLICY_WEIGHTED, lb_addresses =
     [\<lparr>lb_address = ''localhost:50051'', lb_weight = 10, lb_is_available = True\<rparr>,
      \<lparr>lb_address = ''localhost:50052'', lb_weight = 1, lb_is_available = True\<rparr>],
     lb_address_count = Suc (Suc 0), lb_current_index = 0, lb_mutex = False\<rparr> = lb_weighted"
    by (simp add: lb_weighted_def)
  have d: "grpc_lb_policy_destroy (Some lb_weighted) = Inr [''localhost:50051'', ''localhost:50052'']"
    by (simp add: grpc_lb_policy_destroy_def lb_weighted_def)
  show ?thesis
    by (simp add: passes_def test_load_balancing_weighted_def call_ready lb_build w d lb_weighted_unlocked
        count_picks_run [OF assms])
qed

lemma localhost_targets:
  "parse_target ''127.0.0.1:50051'' = Some (''127.0.0.1'', 50051)" "parse_target ''localhost:50051'' = Some (''localhost'', 50051)"
proof -
  have "dec 50051 = ''50051''" by (simp add: dec.simps digit_chars)
  then show "parse_target ''127.0.0.1:50051'' = Some (''127.0.0.1'', 50051)" "parse_target ''localhost:50051'' = Some (''localhost'', 50051)"
    using parse_target_host_port [of "''127.0.0.1''" 50051] parse_target_host_port [of "''localhost''" 50051] by simp_all
qed

lemmas resolver_calls = resolve_op_def grpc_name_resolver_create_def grpc_name_resolver_resolve_def
  grpc_name_resolver_get_address_count_def grpc_name_resolver_destroy_def

lemma resolver_static_passes: "passes ''test_name_resolver_static'' (test_name_resolver_static getaddrinfo inet_ntop)"
  by (simp add: passes_def test_name_resolver_static_def call_ready resolver_calls grpc_static_resolve_def
      grpc_resolved_address_create_def localhost_targets)

lemma resolver_dns_passes: "passes ''test_name_resolver_dns'' (test_name_resolver_dns getaddrinfo inet_ntop)"
proof -
  have dns: "grpc_dns_resolve getaddrinfo inet_ntop (Some ''localhost:50051'') [] =
      (localhost_addresses getaddrinfo inet_ntop, [])"
    by (simp add: grpc_dns_resolve_def localhost_addresses_def dns_convert_ready localhost_targets split: option.split)
  show ?thesis
    by (cases "localhost_addresses getaddrinfo inet_ntop = []")
      (simp_all add: passes_def test_name_resolver_dns_def call_ready resolver_calls dns)
qed

lemmas pool_calls = grpc_connection_pool_create_def grpc_connection_pool_set_keepalive_def pool_destroy_op_def
  grpc_connection_pool_destroy_def pool_destroy_loop.simps [of None]

lemma pool_passes: "passes ''test_connection_pool_create_destroy'' (test_connection_pool_create_destroy True)"
  "passes ''test_connection_pool_keepalive_config'' (test_connection_pool_keepalive_config True)"
  by (simp_all add: passes_def test_connection_pool_create_destroy_def test_connection_pool_keepalive_config_def
      call_ready pool_calls)

lemma client_chain_passes: "passes ''test_client_interceptor_chain'' test_client_interceptor_chain"
proof -
  let ?c = "\<lambda>f :: grpc_client_interceptor_context option \<Rightarrow> int. \<lambda>ctx (s :: unit). (f (Some ctx), ctx, s)"
  obtain c1 c2 st where "chain_add (Some chain_fresh) (Some (?c grpc_logging_client_interceptor)) None [] = Inr (0, Some c1, [])"
    "chain_add (Some c1) (Some (?c grpc_auth_client_interceptor)) None [] = Inr (0, Some c2, [])"
    "chain_destroy (Some c2) = Some (Inr st)" by (rule chain_of_two)
  then show ?thesis
    by (simp add: passes_def test_client_interceptor_chain_def call_ready chain_create_ready
        grpc_client_interceptor_chain_create_def grpc_client_interceptor_chain_add_def grpc_client_interceptor_chain_destroy_def)
qed

lemma server_chain_passes: "passes ''test_server_interceptor_chain'' test_server_interceptor_chain"
proof -
  let ?s = "\<lambda>f :: grpc_server_interceptor_context option \<Rightarrow> int. \<lambda>ctx (s :: unit). (f (Some ctx), ctx, s)"
  obtain c1 c2 st where "chain_add (Some chain_fresh) (Some (?s grpc_logging_server_interceptor)) None [] = Inr (0, Some c1, [])"
    "chain_add (Some c1) (Some (?s grpc_auth_server_interceptor)) None [] = Inr (0, Some c2, [])"
    "chain_destroy (Some c2) = Some (Inr st)" by (rule chain_of_two)
  then show ?thesis
    by (simp add: passes_def test_server_interceptor_chain_def call_ready chain_create_ready
        grpc_server_interceptor_chain_create_def grpc_server_interceptor_chain_add_def grpc_server_interceptor_chain_destroy_def)
qed

lemma reflection_passes: "passes ''test_reflection_registry'' test_reflection_registry"
  by (simp add: passes_def test_reflection_registry_def call_ready grpc_reflection_registry_create_def
      grpc_reflection_registry_add_service_def grpc_service_descriptor_create_def grpc_reflection_registry_add_method_def
      grpc_method_descriptor_create_def grpc_reflection_registry_get_service_count_def
      grpc_reflection_registry_get_service_def service_push_method_def grpc_reflection_registry_destroy_def)

lemma metrics_passes: "passes ''test_metrics_registry'' (test_metrics_registry ar lit)"
  by (simp add: passes_def test_metrics_registry_def call_ready grpc_metrics_registry_create_def grpc_metrics_register_def
      grpc_metrics_increment_def grpc_metrics_set_def metrics_apply_def grpc_metrics_get_def grpc_metrics_registry_destroy_def)

lemma logger_passes: "passes ''test_logger'' test_logger"
  by (simp add: passes_def test_logger_def call_ready grpc_logger_create_def log_op_def grpc_logger_log_def
      less_grpc_log_level_def Let_def)

lemma finish_span_silent:
  assumes "trace_inv c ([] @ (a, t) # cs)" and "tc_export_span c = None"
  obtains c' where "\<And>out. grpc_trace_finish_span now (Some c) (Some a) out = Inr (0, Some c', out)"
    "trace_inv c' ((a, t\<lparr>ts_end_time := now, ts_finished := True\<rparr>) # cs)"
proof -
  let ?f = "\<lambda>t. t\<lparr>ts_end_time := now, ts_finished := True\<rparr>"
  from assms(1) have m: "\<not> tc_mutex c" and l: "list_in (tc_nodes c) (tc_active_spans c) ([] @ (a, t) # cs)"
    by (simp_all add: trace_inv_def)
  from list_in_update [OF l, of ?f] obtain st where
    st: "store_upd (tc_nodes c) (Some a) ?f = Inr st" "list_in st (tc_active_spans c) ([] @ (a, ?f t) # cs)" by blast
  show ?thesis
  proof (rule that)
    show "grpc_trace_finish_span now (Some c) (Some a) out = Inr (0, Some (c\<lparr>tc_nodes := st, tc_mutex := False\<rparr>), out)" for out
      using assms(2) m st(1) by (simp add: grpc_trace_finish_span_def)
    show "trace_inv (c\<lparr>tc_nodes := st, tc_mutex := False\<rparr>) ((a, ?f t) # cs)"
      using assms(1) st(2) by (simp add: trace_inv_def span_ok_def)
  qed
qed

lemma trace_passes: "passes ''test_trace_context'' (test_trace_context rand now)"
proof -
  let ?c = "\<lparr>tc_active_spans = None, tc_span_count = 0, tc_mutex = False, tc_export_span = None,
    tc_exporter_user_data = None, tc_nodes = store_empty\<rparr> :: string grpc_trace_context"
  have "trace_inv ?c []" by (simp add: trace_inv_def store_empty_def)
  then obtain a c1 t1 where c1: "grpc_trace_start_span rand now (Some ?c) (Some ''test_operation'') None [] = Inr (Some a, Some c1, [])"
    "trace_inv c1 ((a, t1) # [])" "tc_export_span c1 = tc_export_span ?c" by (rule start_span_ready)
  from c1(2) obtain c2 t2 where c2: "grpc_trace_span_add_tag c1 (Some a) (Some ''key'') (Some ''value'') [] = Inr (0, c2, [])"
    "trace_inv c2 ([] @ (a, t2) # [])" "tc_export_span c2 = tc_export_span c1" by (rule add_tag_ready) simp
  have ex: "tc_export_span c2 = None" using c1(3) c2(3) by simp
  obtain c3 where c3: "\<And>out. grpc_trace_finish_span (now 3) (Some c2) (Some a) out = Inr (0, Some c3, out)"
    "trace_inv c3 [(a, t2\<lparr>ts_end_time := now 3, ts_finished := True\<rparr>)]"
    using c2(2) ex by (rule finish_span_silent) blast
  from grpc_trace_context_destroy_frees [OF c3(2)] obtain st where
    "grpc_trace_context_destroy (Some c3) = Some (Inr (Some st))" by blast
  with c1(1) c2(1) c3(1) show ?thesis
    by (simp add: passes_def test_trace_context_def call_ready grpc_trace_context_create_def)
qed

section \<open>The whole program\<close>

text \<open>Tests that pass, one after the other.\<close>

definition advanced_ok :: "world proc \<Rightarrow> bool" where
  "advanced_ok P \<longleftrightarrow> mem_ready P \<and> \<not> g_init_mutex (pr_globals P)"

interpretation advanced: test_suite advanced_ok "\<lambda>(_ :: unit list) s s'. s' = s"
  by unfold_locales simp_all

lemma passes_ok: "passes name t \<Longrightarrow> test_ok advanced_ok (\<lambda>(_ :: unit list) s s'. s' = s) name [] t"
  by (simp add: passes_def test_ok_def advanced_ok_def)

definition advanced_test_names :: "(string \<times> unit list) list" where
  "advanced_test_names = map (\<lambda>n. (n, []))
     [''test_load_balancing_round_robin'', ''test_load_balancing_pick_first'', ''test_load_balancing_weighted'',
      ''test_name_resolver_static'', ''test_name_resolver_dns'', ''test_connection_pool_create_destroy'',
      ''test_connection_pool_keepalive_config'', ''test_client_interceptor_chain'', ''test_server_interceptor_chain'',
      ''test_reflection_registry'', ''test_trace_context'', ''test_metrics_registry'', ''test_logger'']"

lemma advanced_tests_pass:
  assumes "\<And>i. 0 \<le> rand i" and "as_started sys"
  shows "list_all2 (\<lambda>(n, e). test_ok advanced_ok (\<lambda>_ s s'. s' = s) n e) advanced_test_names (advanced_tests sys rand)"
  using assms
  by (simp add: advanced_test_names_def advanced_tests_def passes_ok round_robin_passes pick_first_passes weighted_passes
      resolver_static_passes resolver_dns_passes pool_passes client_chain_passes server_chain_passes reflection_passes
      trace_passes metrics_passes logger_passes)

text \<open>
  The advanced tests pass: with working memory, a keep-alive thread and a \<open>rand\<close> that is not
  negative the program runs its thirteen tests, no assertion fails and nothing faults, prints
  that each of them passed, returns 0 and leaves the shared heaps as they were.
\<close>

theorem advanced_test_main_passes:
  assumes "mem_ready P" and "\<not> g_init_mutex (pr_globals P)" and "\<And>i. 0 \<le> rand i" and "as_started sys"
  shows "\<exists>P'. advanced_test_main sys rand P = Inr (Done 0, P') \<and> pr_state P' = pr_state P \<and> lib_down P' \<and>
    pr_out P' = pr_out P @ text_lines ([''=== gRPC-C Advanced Features Tests ==='', []] @
      pass_lines advanced_test_names @
      [[], ''=== Test Results ==='', ''Passed: 13'', ''Failed: 0'', [], ''All tests PASSED!''])"
proof -
  let ?P = "P\<lparr>pr_out := pr_out P @ ''=== gRPC-C Advanced Features Tests ==='' @ nl @ nl,
    pr_globals := (pr_globals P)\<lparr>g_grpc_initialized := True\<rparr>\<rparr>"
  have d: "dec_int 13 = ''13''" "dec_int 0 = ''0''" by (simp_all add: dec_int_def dec.simps digit_chars)
  have l: "length (advanced_tests sys rand) = 13" by (simp add: advanced_tests_def)
  have "advanced_ok ?P" using assms(1,2) by (simp add: advanced_ok_def)
  from advanced_tests_pass [OF assms(3,4)] this obtain P' where
    "in_turn (advanced_tests sys rand) no_tests ?P =
       Inr (Done (no_tests\<lparr>tests_passed := tests_passed no_tests + int (length (advanced_tests sys rand))\<rparr>), P')"
    "advanced_ok P'" "pr_state P' = pr_state ?P" "pr_out P' = pr_out ?P @ text_lines (pass_lines advanced_test_names)"
    by (rule advanced.in_turn_passes)
  with assms(2) show ?thesis
    by (simp add: advanced_test_main_def tbnd_run l d no_tests_def lib_down_def advanced_ok_def)
qed

theorem advanced_test_main_passes_witness:
  "\<exists>P'. advanced_test_main adv_sys_demo (\<lambda>i. int i) (proc_start world_empty) = Inr (Done 0, P') \<and> pr_state P' = world_empty"
proof -
  have "\<not> g_init_mutex (pr_globals (proc_start world_empty))" "as_started adv_sys_demo"
    "pr_state (proc_start world_empty) = world_empty"
    by (simp_all add: proc_start_def adv_sys_demo_def)
  then show ?thesis using advanced_test_main_passes [OF proc_start_mem_ready, of "\<lambda>i. int i" adv_sys_demo] by auto
qed

end
