(* ===== verification/Enhanced_Test.thy ===== *)
theory Enhanced_Test
  imports Testing Client_Examples Hpack Compression
begin

text \<open>
  The test program \<^verbatim>\<open>test/enhanced_test.c\<close>: six tests of metadata arrays, compression, HPACK
  integers, streaming calls, the health check and flow control. A test that fails ends the
  program with \<open>exit(1)\<close>. The readings of the clock, zlib and what the stack holds before the
  tests write to it are arguments.
\<close>

section \<open>The tests\<close>

definition enhanced_start :: "string \<Rightarrow> ('s, unit) prog" where
  "enhanced_start name = printf (''Running test: '' @ name @ ''... '')"

definition enhanced_pass :: "('s, unit outcome) prog" where
  "enhanced_pass = pbnd (printf (''PASS'' @ nl)) tret"

definition enhanced_fail :: "string \<Rightarrow> ('s, 'a outcome) prog" where
  "enhanced_fail msg = pbnd (printf (''FAIL: '' @ msg @ nl)) (\<lambda>_. exit_with 1)"

text \<open>The key of an entry of the array; a slot that was never written holds the zero of \<open>calloc\<close>.\<close>

definition array_key :: "grpc_metadata_array \<Rightarrow> nat \<Rightarrow> uint8 list exec" where
  "array_key a i =
     exec_bind (block_load (md_block a) i) (\<lambda>e. case e of None \<Rightarrow> Inl Null_Deref | Some e \<Rightarrow> Inr (md_key e))"

text \<open>A call on the array \<open>a\<close> of the stack.\<close>

definition on_array ::
    "(grpc_metadata_array option \<Rightarrow> alloc \<Rightarrow> (int \<times> grpc_metadata_array option \<times> alloc) exec) \<Rightarrow>
     grpc_metadata_array \<Rightarrow> (world, int \<times> grpc_metadata_array) prog" where
  "on_array f a = alloc_exec (\<lambda>os. exec_bind (f (Some a) os) (\<lambda>(r, a', os'). Inr (r, the a', os')))"

definition test_metadata_array :: "grpc_metadata_array \<Rightarrow> (world, unit outcome) prog" where
  "test_metadata_array stack =
     steps [enhanced_start ''test_metadata_array'', do_init]
     (pbnd (on_array (\<lambda>a os. Inr (grpc_metadata_array_init a 8 os)) stack) (\<lambda>(r, array).
      if r \<noteq> 0 then enhanced_fail ''Failed to initialize metadata array''
      else
        pbnd (on_array (\<lambda>a. grpc_metadata_array_add a (Some (char_bytes ''content-type''))
                (Some (char_bytes ''application/grpc'')) 16) array) (\<lambda>(r, array).
        if r \<noteq> 0 then enhanced_fail ''Failed to add metadata''
        else
          pbnd (on_array (\<lambda>a. grpc_metadata_array_add a (Some (char_bytes ''user-agent''))
                  (Some (char_bytes ''grpc-c/1.0'')) 10) array) (\<lambda>(r, array).
          if r \<noteq> 0 then enhanced_fail ''Failed to add second metadata''
          else if md_count array \<noteq> 2 then enhanced_fail ''Metadata count incorrect''
          else
            pbnd (exec_op (array_key array 0)) (\<lambda>key.
            if key \<noteq> char_bytes ''content-type'' then enhanced_fail ''First metadata key incorrect''
            else
              pbnd (exec_op (array_key array 1)) (\<lambda>key.
              if key \<noteq> char_bytes ''user-agent'' then enhanced_fail ''Second metadata key incorrect''
              else
                pbnd (exec_op (grpc_metadata_array_destroy (Some array))) (\<lambda>_.
                steps [do_shutdown] enhanced_pass)))))))"

text \<open>\<open>memcmp\<close> of a string with the first bytes of a block, \<open>True\<close> when they are equal.\<close>

definition same_bytes :: "uint8 list \<Rightarrow> uint8 block \<Rightarrow> bool exec" where
  "same_bytes bs b =
     (case b of
        Null_Block \<Rightarrow> Inl Null_Deref
      | Freed_Block \<Rightarrow> Inl Use_After_Free
      | Live_Block xs \<Rightarrow> if length bs \<le> length xs then Inr (take (length bs) xs = map Some bs) else Inl Out_Of_Bounds)"

text \<open>What a block holds, as the input of a call.\<close>

definition block_input :: "uint8 block \<Rightarrow> nat \<Rightarrow> uint8 list option" where
  "block_input b len = (case b of Live_Block xs \<Rightarrow> Some (map the (take len xs)) | _ \<Rightarrow> None)"

definition compression_data :: "uint8 list" where
  "compression_data = char_bytes ''Hello, gRPC! This is a test message for compression.''"

definition compress_op ::
    "'z zlib \<Rightarrow> bool \<Rightarrow> uint8 list option \<Rightarrow> string \<Rightarrow> (world, comp_out) prog" where
  "compress_op z frees0 inp alg =
     run_op (\<lambda>w. exec_bind (grpc_compress z frees0 inp (Some alg) (0, Null_Block, 0) (w_alloc w))
       (\<lambda>(out, os). Inr (out, w\<lparr>w_alloc := os\<rparr>)))"

definition decompress_op ::
    "'z zlib \<Rightarrow> bool \<Rightarrow> uint8 list option \<Rightarrow> string \<Rightarrow> (world, comp_out) prog" where
  "decompress_op z frees0 inp alg =
     run_op (\<lambda>w.
       case grpc_decompress z frees0 inp (Some alg) (0, Null_Block, 0) (w_alloc w) of
         None \<Rightarrow> Inl Deadlock
       | Some r \<Rightarrow> exec_bind r (\<lambda>(out, os). Inr (out, w\<lparr>w_alloc := os\<rparr>)))"

definition free_op :: "uint8 block \<Rightarrow> (world, unit) prog" where
  "free_op b = exec_op (block_free b)"

definition test_identity :: "'z zlib \<Rightarrow> bool \<Rightarrow> (world, unit outcome) prog" where
  "test_identity z frees0 =
     (let test_data = compression_data; test_len = length test_data
      in pbnd (compress_op z frees0 (Some test_data) ''identity'') (\<lambda>(r, compressed, compressed_len).
         if r \<noteq> 0 then enhanced_fail ''Failed to 'compress' with identity''
         else
           pbnd (if compressed_len \<noteq> test_len then pret True
                 else pbnd (exec_op (same_bytes test_data compressed)) (\<lambda>same. pret (\<not> same))) (\<lambda>modified.
           if modified
           then steps [free_op compressed] (enhanced_fail ''Identity compression modified data'')
           else steps [free_op compressed, do_shutdown] enhanced_pass)))"

definition test_compression :: "'z zlib \<Rightarrow> bool \<Rightarrow> (world, unit outcome) prog" where
  "test_compression z frees0 =
     steps [enhanced_start ''test_compression'', do_init]
     (let test_data = compression_data; test_len = length test_data
      in pbnd (compress_op z frees0 (Some test_data) ''gzip'') (\<lambda>(r, compressed, compressed_len).
         if r \<noteq> 0 then enhanced_fail ''Failed to compress data''
         else if compressed = Null_Block \<or> compressed_len = 0 then enhanced_fail ''Compression produced no output''
         else
           pbnd (decompress_op z frees0 (block_input compressed compressed_len) ''gzip'') (\<lambda>(r, decompressed, decompressed_len).
           if r \<noteq> 0 then steps [free_op compressed] (enhanced_fail ''Failed to decompress data'')
           else if decompressed_len \<noteq> test_len
           then steps [free_op compressed, free_op decompressed]
             (enhanced_fail ''Decompressed length doesn't match original'')
           else
             pbnd (exec_op (same_bytes test_data decompressed)) (\<lambda>same.
             if \<not> same
             then steps [free_op compressed, free_op decompressed]
               (enhanced_fail ''Decompressed data doesn't match original'')
             else steps [free_op compressed, free_op decompressed] (test_identity z frees0)))))"

text \<open>\<open>buffer\<close> is the array of ten bytes on the stack; a decoding that fails leaves \<open>decoded\<close> alone.\<close>

definition decode_result :: "uint8 list \<Rightarrow> uint8 \<Rightarrow> uint32 \<Rightarrow> int \<times> uint32" where
  "decode_result buffer prefix_bits decoded =
     (case hpack_decode_integer (Some buffer) prefix_bits of
        None \<Rightarrow> (-1, decoded)
      | Some (n, v) \<Rightarrow> (int n, v))"

definition test_hpack_integer :: "uint8 list \<Rightarrow> uint32 \<Rightarrow> (world, unit outcome) prog" where
  "test_hpack_integer buffer decoded =
     steps [enhanced_start ''test_hpack_integer'', do_init]
     (let (bytes, b1) = hpack_encode_integer 10 5 (Some buffer);
          buffer = the b1
      in if bytes \<noteq> 1 \<or> buffer ! 0 \<noteq> 10 then enhanced_fail ''Failed to encode small integer''
      else
        let (bytes, decoded) = decode_result buffer 5 decoded
        in if bytes \<noteq> 1 \<or> decoded \<noteq> 10 then enhanced_fail ''Failed to decode small integer''
        else
          let (bytes, b2) = hpack_encode_integer 1337 5 (Some buffer);
              buffer = the b2
          in if bytes < 2 then enhanced_fail ''Failed to encode large integer''
          else
            let (bytes, decoded) = decode_result buffer 5 decoded
            in if decoded \<noteq> 1337 then enhanced_fail ''Failed to decode large integer''
            else steps [do_shutdown] enhanced_pass)"

definition test_streaming_calls :: "timeval \<Rightarrow> (world, unit outcome) prog" where
  "test_streaming_calls clock =
     steps [enhanced_start ''test_streaming_calls'', do_init]
     (pbnd (run_op (grpc_insecure_channel_create (Some ''localhost:50051'') None)) (\<lambda>channel.
      if channel = None then enhanced_fail ''Failed to create channel''
      else
        pbnd (run_op (cq_create_cmd GRPC_CQ_NEXT)) (\<lambda>cq.
        if cq = None
        then steps [run_op (grpc_channel_destroy channel)] (enhanced_fail ''Failed to create completion queue'')
        else
          let deadline = grpc_timeout_milliseconds_to_deadline clock 5000;
              fail = (\<lambda>msg. steps [run_op (cq_destroy_cmd cq), run_op (grpc_channel_destroy channel)] (enhanced_fail msg))
          in pbnd (run_op (grpc_channel_create_server_streaming_call channel cq (Some ''/test/ServerStream'') None deadline))
               (\<lambda>server_stream.
             if server_stream = None then fail ''Failed to create server streaming call''
             else
               pbnd (run_op (grpc_call_destroy server_stream)) (\<lambda>_.
               pbnd (run_op (grpc_channel_create_client_streaming_call channel cq (Some ''/test/ClientStream'') None deadline))
                 (\<lambda>client_stream.
               if client_stream = None then fail ''Failed to create client streaming call''
               else
                 pbnd (run_op (grpc_call_destroy client_stream)) (\<lambda>_.
                 pbnd (run_op (grpc_channel_create_bidi_streaming_call channel cq (Some ''/test/BidiStream'') None deadline))
                   (\<lambda>bidi_stream.
                 if bidi_stream = None then fail ''Failed to create bidirectional streaming call''
                 else
                   steps
                     [run_op (grpc_call_destroy bidi_stream),
                      run_op (cq_destroy_cmd cq),
                      run_op (grpc_channel_destroy channel),
                      do_shutdown]
                     enhanced_pass))))))))"

definition test_health_check :: "timeval \<Rightarrow> (world, unit outcome) prog" where
  "test_health_check clock =
     steps [enhanced_start ''test_health_check'', do_init]
     (pbnd (run_op (grpc_insecure_channel_create (Some ''localhost:50051'') None)) (\<lambda>channel.
      if channel = None then enhanced_fail ''Failed to create channel''
      else
        pbnd (run_op (grpc_health_check clock channel (Some []))) (\<lambda>_.
        steps [run_op (grpc_channel_destroy channel), do_shutdown] enhanced_pass)))"

definition test_flow_control_init :: "(world, unit outcome) prog" where
  "test_flow_control_init =
     steps
       [enhanced_start ''test_flow_control_init'',
        do_init,
        run_op (http2_flow_control_init_connection None),
        run_op (http2_flow_control_init_stream None),
        do_shutdown]
       enhanced_pass"

section \<open>The program\<close>

text \<open>A test that came back has passed and is counted by \<open>main\<close>.\<close>

definition counted :: "('s, unit outcome) prog \<Rightarrow> test_counts \<Rightarrow> ('s, test_counts outcome) prog" where
  "counted t c = tbnd t (\<lambda>_. tret (c\<lparr>tests_passed := tests_passed c + 1\<rparr>))"

record 'z enhanced_sys =
  en_zlib :: "'z zlib"
  en_realloc0_frees :: bool
  en_array :: grpc_metadata_array
  en_buffer :: "uint8 list"
  en_decoded :: uint32
  en_clock_streaming :: timeval
  en_clock_health :: timeval

definition enhanced_tests :: "'z enhanced_sys \<Rightarrow> (test_counts \<Rightarrow> (world, test_counts outcome) prog) list" where
  "enhanced_tests sys = map counted
     [test_metadata_array (en_array sys),
      test_compression (en_zlib sys) (en_realloc0_frees sys),
      test_hpack_integer (en_buffer sys) (en_decoded sys),
      test_streaming_calls (en_clock_streaming sys),
      test_health_check (en_clock_health sys),
      test_flow_control_init]"

definition enhanced_test_main :: "'z enhanced_sys \<Rightarrow> (world, int outcome) prog" where
  "enhanced_test_main sys =
     steps [printf (''=== gRPC-C Enhanced Features Tests ==='' @ nl @ nl)]
       (tbnd (in_turn (enhanced_tests sys) no_tests) (\<lambda>c.
        steps
          [printf (nl @ ''=== Test Results ==='' @ nl),
           printf (''Passed: '' @ dec_int (tests_passed c) @ nl),
           printf (''Failed: '' @ dec_int (tests_failed c) @ nl)]
          (if tests_failed c = 0
           then steps [printf (nl @ ''All tests PASSED!'' @ nl)] (tret 0)
           else steps [printf (nl @ ''Some tests FAILED!'' @ nl)] (tret 1))))"

section \<open>Every test passes\<close>

definition enhanced_ok :: "world proc \<Rightarrow> bool" where
  "enhanced_ok P \<longleftrightarrow> client_ready (pr_state P) \<and> alloc_ok (w_alloc (pr_state P)) \<and>
     \<not> g_init_mutex (pr_globals P) \<and> \<not> g_grpc_initialized (pr_globals P)"

interpretation enhanced: test_suite enhanced_ok "\<lambda>(_ :: unit list). world_restored"
  by unfold_locales (auto simp: world_restored_def)

definition passed_in :: "string \<Rightarrow> world proc \<Rightarrow> (unit outcome \<times> world proc) exec \<Rightarrow> bool" where
  "passed_in name P res \<longleftrightarrow> (\<exists>P'. res = Inr (Done (), P') \<and> enhanced_ok P' \<and> world_restored (pr_state P) (pr_state P') \<and>
     pr_out P' = pr_out P @ ''Running test: '' @ name @ ''... PASS'' @ nl)"

definition enhanced_passes :: "string \<Rightarrow> (world, unit outcome) prog \<Rightarrow> bool" where
  "enhanced_passes name t \<longleftrightarrow> (\<forall>P. enhanced_ok P \<longrightarrow> passed_in name P (t P))"

lemma enhanced_passesI: "(\<And>P. enhanced_ok P \<Longrightarrow> passed_in name P (t P)) \<Longrightarrow> enhanced_passes name t"
  by (simp add: enhanced_passes_def)

lemma counted_ok:
  assumes "enhanced_passes name t"
  shows "test_ok enhanced_ok (\<lambda>(_ :: unit list). world_restored) name [] (counted t)"
  unfolding test_ok_def
proof (intro allI impI)
  fix c P
  assume "enhanced_ok P"
  with assms obtain P' where "t P = Inr (Done (), P')" "enhanced_ok P'" "world_restored (pr_state P) (pr_state P')"
    "pr_out P' = pr_out P @ ''Running test: '' @ name @ ''... PASS'' @ nl"
    by (auto simp: enhanced_passes_def passed_in_def)
  then show "\<exists>P'. counted t c P = Inr (Done (c\<lparr>tests_passed := tests_passed c + 1\<rparr>), P') \<and> enhanced_ok P' \<and>
      world_restored (pr_state P) (pr_state P') \<and> pr_out P' = pr_out P @ ''Running test: '' @ name @ ''... PASS'' @ nl"
    by (simp add: counted_def tbnd_run)
qed

lemma enhanced_okD:
  assumes "enhanced_ok P"
  shows "client_ready (pr_state P)" "alloc_ok (w_alloc (pr_state P))"
    "\<not> g_init_mutex (pr_globals P)" "\<not> g_grpc_initialized (pr_globals P)"
  using assms by (simp_all add: enhanced_ok_def)

lemma enhanced_frame [simp]:
  "pbnd (enhanced_start name) f P = f () (P\<lparr>pr_out := pr_out P @ ''Running test: '' @ name @ ''... ''\<rparr>)"
  "enhanced_pass P = Inr (Done (), P\<lparr>pr_out := pr_out P @ ''PASS'' @ nl\<rparr>)"
  by (simp_all add: enhanced_start_def enhanced_pass_def)

text \<open>The world after calls that only allocate.\<close>

lemma world_alloc_ready:
  assumes "client_ready w" and "alloc_ok os"
  shows "world_restored w (w\<lparr>w_alloc := os\<rparr>)" "client_ready (w\<lparr>w_alloc := os\<rparr>)"
proof -
  show r: "world_restored w (w\<lparr>w_alloc := os\<rparr>)" using assms(2) by (simp add: world_restored_def)
  show "client_ready (w\<lparr>w_alloc := os\<rparr>)" by (rule client_ready_restored [OF assms(1) r]) simp
qed

lemma flow_control_init_passes: "enhanced_passes ''test_flow_control_init'' test_flow_control_init"
  by (rule enhanced_passesI)
    (simp add: passed_in_def test_flow_control_init_def http2_flow_control_init_connection_def
      http2_flow_control_init_stream_def skip_def ret_def enhanced_ok_def world_restored_def)

lemma streaming_passes: "enhanced_passes ''test_streaming_calls'' (test_streaming_calls clock)"
proof (rule enhanced_passesI)
  fix P
  assume ok: "enhanced_ok P"
  let ?w = "pr_state P" and ?d = "grpc_timeout_milliseconds_to_deadline clock 5000"
  from enhanced_okD(1,2) [OF ok] obtain ch p w1 where
    ch: "grpc_insecure_channel_create (Some ''localhost:50051'') None ?w = Inr (Some ch, w1)" "chan_inv ch p w1"
      "alloc_ok (w_alloc w1)" and
    close: "\<forall>v. chan_inv ch p v \<longrightarrow> session_restored p w1 v \<longrightarrow>
      (\<exists>w2. grpc_channel_destroy (Some ch) v = Inr ((), w2) \<and> world_restored ?w w2 \<and> client_ready w2)"
    unfolding grpc_insecure_channel_create_def by (rule channel_around)
  from ch(2) show "passed_in ''test_streaming_calls'' P (test_streaming_calls clock P)"
  proof (cases rule: queue_cases [where ty = GRPC_CQ_NEXT])
    case no_queue
    with ch(3) show ?thesis by simp
  next
    case (queue a w2)
    from queue(3) ch(3) have "alloc_ok (w_alloc w2)" by simp
    with queue(2) obtain s w3 w4 where
      s: "grpc_channel_create_server_streaming_call (Some ch) (Some a) (Some ''/test/ServerStream'') None ?d w2 = Inr (Some s, w3)"
        "grpc_call_destroy (Some s) w3 = Inr ((), w4)" "chan_inv ch p w4" "session_restored p w2 w4" "alloc_ok (w_alloc w4)"
      by (rule server_streaming.call_life)
    from s(3,5) obtain c w5 w6 where
      c: "grpc_channel_create_client_streaming_call (Some ch) (Some a) (Some ''/test/ClientStream'') None ?d w4 = Inr (Some c, w5)"
        "grpc_call_destroy (Some c) w5 = Inr ((), w6)" "chan_inv ch p w6" "session_restored p w4 w6" "alloc_ok (w_alloc w6)"
      by (rule client_streaming.call_life)
    from c(3,5) obtain b w7 w8 where
      b: "grpc_channel_create_bidi_streaming_call (Some ch) (Some a) (Some ''/test/BidiStream'') None ?d w6 = Inr (Some b, w7)"
        "grpc_call_destroy (Some b) w7 = Inr ((), w8)" "chan_inv ch p w8" "session_restored p w6 w8" "alloc_ok (w_alloc w8)"
      by (rule bidi_streaming.call_life)
    have "session_restored p w2 w8" using s(4) c(4) b(4) by (blast intro: session_restored_trans)
    with queue(4) [OF b(3)] obtain w9 where
      q: "cq_destroy_cmd (Some a) w8 = Inr ((), w9)" "chan_inv ch p w9" "session_restored p w1 w9" by blast
    from close q(2,3) obtain w10 where
      "grpc_channel_destroy (Some ch) w9 = Inr ((), w10)" "world_restored ?w w10" "client_ready w10" by blast
    with ch(1) queue(1) s(1,2) c(1,2) b(1,2) q(1) enhanced_okD [OF ok] show ?thesis
      by (simp add: passed_in_def test_streaming_calls_def Let_def enhanced_ok_def world_restored_def)
  qed
qed

lemma health_check_passes: "enhanced_passes ''test_health_check'' (test_health_check clock)"
proof (rule enhanced_passesI)
  fix P
  assume ok: "enhanced_ok P"
  let ?w = "pr_state P"
  from enhanced_okD(1,2) [OF ok] obtain ch p w1 where
    ch: "grpc_insecure_channel_create (Some ''localhost:50051'') None ?w = Inr (Some ch, w1)" "chan_inv ch p w1"
      "alloc_ok (w_alloc w1)" and
    close: "\<forall>v. chan_inv ch p v \<longrightarrow> session_restored p w1 v \<longrightarrow>
      (\<exists>w2. grpc_channel_destroy (Some ch) v = Inr ((), w2) \<and> world_restored ?w w2 \<and> client_ready w2)"
    unfolding grpc_insecure_channel_create_def by (rule channel_around)
  from grpc_health_check_ok [OF ch(2), of clock "Some []"] obtain r w2 where
    h: "grpc_health_check clock (Some ch) (Some []) w1 = Inr (r, w2)" "chan_inv ch p w2" "session_restored p w1 w2" by blast
  from close h(2,3) obtain w3 where
    "grpc_channel_destroy (Some ch) w2 = Inr ((), w3)" "world_restored ?w w3" "client_ready w3" by blast
  with ch(1) h(1) enhanced_okD [OF ok] show "passed_in ''test_health_check'' P (test_health_check clock P)"
    by (simp add: passed_in_def test_health_check_def enhanced_ok_def world_restored_def)
qed

subsection \<open>Metadata\<close>

lemma on_array_run:
  "f (Some a) (w_alloc (pr_state P)) = Inr (r, Some a', os) \<Longrightarrow>
   pbnd (on_array f a) k P = k (r, a') (P\<lparr>pr_state := (pr_state P)\<lparr>w_alloc := os\<rparr>\<rparr>)"
  by (simp add: on_array_def alloc_exec_def)

lemma array_key_nth:
  assumes "md_wf a" and "i < md_count a"
  shows "array_key a i = Inr (md_key (md_list a ! i))"
proof -
  from assms(1) obtain slots where s: "md_block a = Live_Block slots" "length slots = md_capacity a"
    "None \<notin> set (take (md_count a) slots)" "md_count a \<le> md_capacity a" by (auto simp: md_wf_def)
  have "slots ! i \<in> set (take (md_count a) slots)" using assms(2) s(2,4) by (auto simp: in_set_conv_nth)
  then obtain e where "slots ! i = Some e" using s(3) by (metis not_Some_eq)
  with assms(2) s show ?thesis by (simp add: array_key_def md_list_def)
qed

lemma key_strings [simp]:
  "c_string (char_bytes ''content-type'') = char_bytes ''content-type''"
  "c_string (char_bytes ''user-agent'') = char_bytes ''user-agent''"
  by (simp_all add: char_bytes_def)

lemma metadata_array_passes: "enhanced_passes ''test_metadata_array'' (test_metadata_array stack)"
proof (rule enhanced_passesI)
  fix P
  assume ok: "enhanced_ok P"
  let ?a0 = "stack\<lparr>md_count := 0, md_capacity := 8, md_block := block_calloc 8\<rparr>"
  from enhanced_okD(2) [OF ok] obtain os0 where o: "alloc_next (w_alloc (pr_state P)) = (True, os0)" "alloc_ok os0"
    by (rule alloc_next_okE)
  have i: "grpc_metadata_array_init (Some stack) 8 (w_alloc (pr_state P)) = (0, Some ?a0, os0)"
    using o(1) by (simp add: grpc_metadata_array_init_def)
  have wf: "md_wf ?a0" "md_list ?a0 = []" by (simp_all add: md_wf_def md_list_def block_calloc_def)
  from add_cases [OF wf(1), of 16 "char_bytes ''application/grpc''" "char_bytes ''content-type''" os0] o(2) wf(2)
  obtain a1 os1 where a1: "grpc_metadata_array_add (Some ?a0) (Some (char_bytes ''content-type''))
        (Some (char_bytes ''application/grpc'')) 16 os0 = Inr (0, Some a1, os1)" "md_wf a1" "alloc_ok os1"
      "map md_key (md_list a1) = [char_bytes ''content-type'']" by auto
  from add_cases [OF a1(2), of 10 "char_bytes ''grpc-c/1.0''" "char_bytes ''user-agent''" os1] a1(3,4)
  obtain a2 os2 where a2: "grpc_metadata_array_add (Some a1) (Some (char_bytes ''user-agent''))
        (Some (char_bytes ''grpc-c/1.0'')) 10 os1 = Inr (0, Some a2, os2)" "md_wf a2" "alloc_ok os2"
      "map md_key (md_list a2) = [char_bytes ''content-type'', char_bytes ''user-agent'']" by auto
  have n: "md_count a2 = 2" using length_md_list [OF a2(2)] arg_cong [OF a2(4), of length] by simp
  have k: "md_key (md_list a2 ! 0) = char_bytes ''content-type''" "md_key (md_list a2 ! Suc 0) = char_bytes ''user-agent''"
    using a2(4) by (cases "md_list a2"; cases "tl (md_list a2)"; simp)+
  have "\<exists>a3. grpc_metadata_array_destroy (Some a2) = Inr a3"
    using a2(2) by (auto simp: md_wf_def grpc_metadata_array_destroy_def)
  with i a1(1) a2(1,3) n k array_key_nth [OF a2(2)] world_alloc_ready [OF enhanced_okD(1) [OF ok] a2(3)] enhanced_okD [OF ok]
  show "passed_in ''test_metadata_array'' P (test_metadata_array stack P)"
    by (auto simp: passed_in_def test_metadata_array_def on_array_run exec_op_ready enhanced_ok_def)
qed

subsection \<open>HPACK integers\<close>

lemma hpack_integer_calls:
  assumes "length buffer = 10"
  obtains b1 b2 where "hpack_encode_integer 10 5 (Some buffer) = (1, Some b1)" "b1 ! 0 = 10"
    "hpack_decode_integer (Some b1) 5 = Some (1, 10)" "hpack_encode_integer 1337 5 (Some b1) = (3, Some b2)"
    "hpack_decode_integer (Some b2) 5 = Some (3, 1337)"
proof -
  let ?b1 = "10 # drop 1 buffer" and ?b2 = "[31, 154, 10] @ drop 3 buffer"
  have bytes: "hpack_int_bytes 5 10 = [10]" "hpack_int_bytes 5 1337 = [31, 154, 10]"
    by (simp_all add: hpack_int_bytes_def rfc_cont.simps)
  have "buffer \<noteq> []" using assms by auto
  then have e: "hpack_encode_integer 10 5 (Some buffer) = (1, Some ?b1)" "hpack_encode_integer 1337 5 (Some ?b1) = (3, Some ?b2)"
    using hpack_encode_integer_eq [of 5 buffer 10] hpack_encode_integer_eq [of 5 ?b1 1337] assms
    by (simp_all add: bytes buf_write_def Let_def numeral_3_eq_3)
  have d: "hpack_decode_integer (Some ?b1) 5 = Some (1, 10)" "hpack_decode_integer (Some ?b2) 5 = Some (3, 1337)"
    using hpack_decode_integer_bytes [of 5 10 "drop 1 buffer"] hpack_decode_integer_bytes [of 5 1337 "drop 3 buffer"]
    by (simp_all add: bytes)
  show ?thesis by (rule that [OF e(1) _ d(1) e(2) d(2)]) simp
qed

lemma hpack_integer_passes:
  assumes "length buffer = 10"
  shows "enhanced_passes ''test_hpack_integer'' (test_hpack_integer buffer decoded)"
proof (rule enhanced_passesI)
  fix P
  assume ok: "enhanced_ok P"
  from assms obtain b1 b2 where "hpack_encode_integer 10 5 (Some buffer) = (1, Some b1)" "b1 ! 0 = 10"
    "hpack_decode_integer (Some b1) 5 = Some (1, 10)" "hpack_encode_integer 1337 5 (Some b1) = (3, Some b2)"
    "hpack_decode_integer (Some b2) 5 = Some (3, 1337)" by (rule hpack_integer_calls)
  with enhanced_okD [OF ok] show "passed_in ''test_hpack_integer'' P (test_hpack_integer buffer decoded P)"
    by (simp add: passed_in_def test_hpack_integer_def decode_result_def enhanced_ok_def world_restored_def)
qed

subsection \<open>Compression\<close>

lemma compress_op_run:
  "grpc_compress z frees0 inp (Some alg) (0, Null_Block, 0) (w_alloc (pr_state P)) = Inr (out, os) \<Longrightarrow>
   pbnd (compress_op z frees0 inp alg) k P = k out (P\<lparr>pr_state := (pr_state P)\<lparr>w_alloc := os\<rparr>\<rparr>)"
  "grpc_decompress z frees0 inp (Some alg) (0, Null_Block, 0) (w_alloc (pr_state P)) = Some (Inr (out, os)) \<Longrightarrow>
   pbnd (decompress_op z frees0 inp alg) k P = k out (P\<lparr>pr_state := (pr_state P)\<lparr>w_alloc := os\<rparr>\<rparr>)"
  by (simp_all add: compress_op_def decompress_op_def)

lemma compression_data_length: "length compression_data = 52"
  by (simp add: compression_data_def)

lemma compression_passes:
  assumes "zlib_codes z delivered compression_data ys" and "length ys * 4 < 2 ^ 32" and "z_bound z 52 + 12 < 2 ^ 32"
  shows "enhanced_passes ''test_compression'' (test_compression z frees0)"
proof (rule enhanced_passesI)
  fix P
  assume ok: "enhanced_ok P"
  let ?xs = compression_data and ?out = "(0, Null_Block, 0) :: comp_out"
  note len = compression_data_length
  have xs: "?xs \<noteq> []" "length ?xs * 2 < 2 ^ 32" "z_bound z (length ?xs) + 12 < 2 ^ 32"
    using len assms(3) by auto
  have alg: "''gzip'' \<in> {GRPC_COMPRESS_NONE, GRPC_COMPRESS_GZIP, GRPC_COMPRESS_DEFLATE}"
    "''identity'' \<in> {GRPC_COMPRESS_NONE, GRPC_COMPRESS_GZIP, GRPC_COMPRESS_DEFLATE}"
    "''gzip'' \<noteq> GRPC_COMPRESS_NONE" "''identity'' = GRPC_COMPRESS_NONE"
    by (simp_all add: GRPC_COMPRESS_NONE_def GRPC_COMPRESS_GZIP_def)
  from grpc_compress_ok [OF assms(1) xs enhanced_okD(2) [OF ok] alg(1), of frees0 ?out] obtain os1 where
    c1: "grpc_compress z frees0 (Some ?xs) (Some ''gzip'') ?out (w_alloc (pr_state P)) = Inr ((0, Live_Block (map Some ys), length ys), os1)"
      "alloc_ok os1" using alg(3) by auto
  from grpc_decompress_ok [OF assms(1) xs(1,2) assms(2) c1(2) alg(1), of frees0 ?out] obtain os2 where
    c2: "grpc_decompress z frees0 (Some ys) (Some ''gzip'') ?out os1 = Some (Inr ((0, Live_Block (map Some ?xs), length ?xs), os2))"
      "alloc_ok os2" using alg(3) by auto
  from grpc_compress_ok [OF assms(1) xs c2(2) alg(2), of frees0 ?out] obtain os3 where
    c3: "grpc_compress z frees0 (Some ?xs) (Some ''identity'') ?out os2 = Inr ((0, Live_Block (map Some ?xs), length ?xs), os3)"
      "alloc_ok os3" using alg(4) by auto
  have ys: "ys \<noteq> []" using assms(1) by (simp add: zlib_codes_def)
  from c1(1) c2(1) c3(1) ys world_alloc_ready [OF enhanced_okD(1) [OF ok] c3(2)] c3(2) enhanced_okD [OF ok]
  show "passed_in ''test_compression'' P (test_compression z frees0 P)"
    by (simp add: passed_in_def test_compression_def test_identity_def Let_def compress_op_run block_input_def same_bytes_def
        free_op_def exec_op_ready enhanced_ok_def comp_def)
qed

section \<open>The whole program\<close>

definition enhanced_test_names :: "(string \<times> unit list) list" where
  "enhanced_test_names = map (\<lambda>n. (n, []))
     [''test_metadata_array'', ''test_compression'', ''test_hpack_integer'', ''test_streaming_calls'',
      ''test_health_check'', ''test_flow_control_init'']"

text \<open>
  The tests of the enhanced features pass: with working memory, ten bytes for the buffer and a
  zlib that delivers what it compressed the program runs its six tests without a fault and
  without calling \<open>exit\<close>, prints that each of them passed and returns 0. All client objects are
  freed, no byte went over a socket and the library is shut down.
\<close>

theorem enhanced_test_main_passes:
  assumes "enhanced_ok P" and "length (en_buffer sys) = 10"
    and "zlib_codes (en_zlib sys) delivered compression_data ys" and "length ys * 4 < 2 ^ 32"
    and "z_bound (en_zlib sys) 52 + 12 < 2 ^ 32"
  shows "\<exists>P'. enhanced_test_main sys P = Inr (Done 0, P') \<and> lib_down P' \<and> world_restored (pr_state P) (pr_state P') \<and>
    pr_out P' = pr_out P @ text_lines ([''=== gRPC-C Enhanced Features Tests ==='', []] @ pass_lines enhanced_test_names @
      [[], ''=== Test Results ==='', ''Passed: 6'', ''Failed: 0'', [], ''All tests PASSED!''])"
proof -
  let ?ts = "enhanced_tests sys" and ?P = "P\<lparr>pr_out := pr_out P @ ''=== gRPC-C Enhanced Features Tests ==='' @ nl @ nl\<rparr>"
  have all: "list_all2 (\<lambda>(n, e). test_ok enhanced_ok (\<lambda>_. world_restored) n e) enhanced_test_names ?ts"
    using compression_passes [OF assms(3-5)] hpack_integer_passes [OF assms(2)]
    by (simp add: enhanced_test_names_def enhanced_tests_def counted_ok metadata_array_passes streaming_passes
        health_check_passes flow_control_init_passes)
  have "enhanced_ok ?P" using assms(1) by (simp add: enhanced_ok_def)
  with all obtain P' where
    P': "in_turn ?ts no_tests ?P = Inr (Done (no_tests\<lparr>tests_passed := tests_passed no_tests + int (length ?ts)\<rparr>), P')"
      "enhanced_ok P'" "world_restored (pr_state ?P) (pr_state P')"
      "pr_out P' = pr_out ?P @ text_lines (pass_lines enhanced_test_names)" by (rule enhanced.in_turn_passes)
  have d: "dec_int 6 = ''6''" "dec_int 0 = ''0''" "length ?ts = 6"
    by (simp_all add: dec_int_def dec.simps digit_chars enhanced_tests_def)
  from P' show ?thesis
    by (simp add: enhanced_test_main_def tbnd_run no_tests_def d lib_down_def enhanced_ok_def)
qed

definition enhanced_sys_demo :: "(bool \<times> uint8 list) enhanced_sys" where
  "enhanced_sys_demo = \<lparr>en_zlib = stored_zlib, en_realloc0_frees = True, en_array = grpc_metadata_array_zero,
     en_buffer = replicate 10 0, en_decoded = 0, en_clock_streaming = \<lparr>timeval_sec = 5, timeval_usec = 0\<rparr>,
     en_clock_health = \<lparr>timeval_sec = 6, timeval_usec = 0\<rparr>\<rparr>"

theorem enhanced_test_main_passes_witness:
  "\<exists>P'. enhanced_test_main enhanced_sys_demo (proc_start world_empty) = Inr (Done 0, P') \<and> w_cqs (pr_state P') = w_cqs world_empty"
proof -
  have "enhanced_ok (proc_start world_empty)"
    using proc_start_ready by (simp add: enhanced_ok_def proc_start_def world_empty_def)
  moreover have "length (en_buffer enhanced_sys_demo) = 10" "z_bound (en_zlib enhanced_sys_demo) 52 + 12 < 2 ^ 32"
    by (simp_all add: enhanced_sys_demo_def stored_zlib_def)
  moreover have "zlib_codes (en_zlib enhanced_sys_demo) (stored_delivered compression_data) compression_data (31 # compression_data)"
    unfolding enhanced_sys_demo_def by (simp add: stored_zlib_codes)
  moreover have "length (31 # compression_data) * 4 < 2 ^ 32" by (simp add: compression_data_length)
  ultimately have "\<exists>P'. enhanced_test_main enhanced_sys_demo (proc_start world_empty) = Inr (Done 0, P') \<and>
      world_restored (pr_state (proc_start world_empty)) (pr_state P')"
    using enhanced_test_main_passes [of "proc_start world_empty" enhanced_sys_demo] by blast
  then show ?thesis by (auto simp: world_restored_def proc_start_def)
qed

end
