(* ===== verification/Spec2Isabelle.thy ===== *)
theory Spec2Isabelle
  imports Hpack Compression Protobuf Tls Pool_Leases Client_Examples Server_Example Advanced_Example
    Basic_Test Advanced_Test Enhanced_Test Tls_Protobuf_Test
begin

text \<open>
  Verification of gRPC-C, a gRPC library in C: a client that opens channels and calls over HTTP/2
  streams, a server that listens on ports, and around them metadata and HPACK coding, flow control,
  load balancing, name resolution, interceptors, reflection, a connection pool, compression,
  protobuf helpers, TLS and observability.

  \<^bold>\<open>How the parts interact.\<close> A channel (\<^verbatim>\<open>src/grpc_channel.c\<close>) owns an HTTP/2 connection
  (\<^verbatim>\<open>src/http2_transport.c\<close>); a call is a stream of that connection, entered in the connection's array
  of streams under its mutex. Finished operations are announced as events in a completion queue
  (\<^verbatim>\<open>src/grpc_core.c\<close>), from which a client takes them, possibly waiting. Streams and connections
  carry windows that flow control (\<^verbatim>\<open>src/flow_control.c\<close>) checks and updates. Metadata arrays
  (\<^verbatim>\<open>src/enhanced_features.c\<close>) are turned into header blocks by HPACK (\<^verbatim>\<open>src/hpack.c\<close>). The server
  (\<^verbatim>\<open>src/grpc_server.c\<close>), the connection pool, the policies of load balancing, the name resolver, the
  interceptor chains, the reflection registry and the observability functions keep state of their
  own behind a mutex each. The programs under \<^verbatim>\<open>examples/\<close> and \<^verbatim>\<open>test/\<close> use all of it from \<open>grpc_init\<close>
  to \<open>grpc_shutdown\<close>.

  \<^bold>\<open>How the code is modelled.\<close> Structures are records with the fields of the code, enumerations are
  datatypes, and every function is a definition with its guards and early returns in order.
  \<^item> A fault (a null or dangling dereference, a double free, an access outside a block, a second
    lock of a held mutex) is the left summand of a result; a theorem that a function returns
    \<open>Inr\<close> says that none happens.
  \<^item> Allocation may fail at every call: the outcomes to come are a list that is consumed; a
    theorem over all lists speaks of every pattern of failures.
  \<^item> Objects that point at each other live in heaps indexed by addresses; an address that was freed
    is never reused, so that dangling pointers are seen. Linked lists whose nodes are unlinked or
    reached through two pointers are chains in a store of nodes; lists that only grow in front and
    are freed as a whole are lists.
  \<^item> Integers keep their width where the code narrows, wraps or compares them; other sizes are
    natural numbers.
  \<^item> A loop is a recursive function with a termination proof, or an option-valued partial function
    whose \<open>None\<close> is a loop that does not end; the theorems show \<open>Some\<close>. One loop has a counter
    as fuel: \<open>http2_destroy_streams\<close> runs at most as often as the connection had streams at the
    start, which is enough because destroying a stream never adds one.
  \<^item> What the sources only call is an argument of the definitions: zlib, protobuf-c and OpenSSL,
    the sockets, the clock, \<open>rand\<close>, \<open>getaddrinfo\<close>, the results of \<open>pthread_create\<close>, the arithmetic
    of \<open>double\<close>, and the callbacks of the user. What a theorem relies on of them is among its
    hypotheses under a name (\<open>zlib_codes\<close>, \<open>pb_sized\<close>, \<open>pem_ends\<close>), and its witness has an instance.
    \<open>zlib_codes\<close> is what the manual of zlib says: a call makes progress on its input or its output
    and delivers a prefix of the rest, and without either it reports \<open>Z_BUF_ERROR\<close>.
  \<^item> Threads: an operation is one step, since the code holds a mutex for it. The wait of a
    completion queue takes the actions of other threads during each wait as an argument, and it
    returns because the condition variable was signalled by one of them, because its deadline
    passed, or spuriously; the rounds of the keep-alive thread and of the server's workers are
    operations. Where a worker of the server is when it is joined, and whether its \<open>accept\<close> returns,
    is an argument: a worker that does not end makes the join hang, a fault \<open>Deadlock\<close> here.

  \<^bold>\<open>Theories.\<close>
  \<^descr>[\<open>Prelude\<close>, \<open>C_Lib\<close>, \<open>Arrays\<close>, \<open>Heap_List\<close>] faults, allocator, blocks, mutexes and words; what the
    code uses of the C library on text; arrays that grow, with the interface \<open>growable\<close>; linked
    lists in a store, with the interfaces \<open>append_list\<close> and \<open>fifo\<close>.
  \<^descr>[\<open>Metadata\<close>] the metadata array of \<^verbatim>\<open>src/enhanced_features.c\<close>: an instance of \<open>growable\<close>; adding
    appends, a life cycle frees everything, adding after destroying is a fault.
  \<^descr>[\<open>Hpack\<close>] \<^verbatim>\<open>src/hpack.c\<close>: integers, literal headers and the static table. The encoder agrees with a reference in
    terms of RFC 7541, decoding inverts encoding, every input is decoded without a fault, and two
    flaws of the decoder.
  \<^descr>[\<open>Completion_Queue\<close>] the queue of \<^verbatim>\<open>src/grpc_core.c\<close>: an instance of \<open>fifo\<close>, so that every run of
    pushes, nexts and shutdowns, with every pattern of allocation failures, answers as an abstract
    queue does; a waiting \<open>next\<close> is safe under all actions of other threads, is woken by the signal
    of a push and the broadcast of a shutdown, and a shutdown drains the queue.
  \<^descr>[\<open>Core\<close>] the rest of \<^verbatim>\<open>src/grpc_core.c\<close>: initialisation, deadlines, byte buffers, version.
  \<^descr>[\<open>World\<close>, \<open>Transport\<close>] the objects of \<^verbatim>\<open>src/grpc_internal.h\<close> and the state they live in; connections,
    streams and frames of \<^verbatim>\<open>src/http2_transport.c\<close>: frames survive the wire, partial writes leave a
    prefix, streams are linked and unlinked, and destroying a connection with streams deadlocks.
  \<^descr>[\<open>Flow_Control\<close>] \<^verbatim>\<open>src/flow_control.c\<close>: guarded sends stay within both windows, the exact effect of
    receiving data and when it deadlocks, and undetected overflows.
  \<^descr>[\<open>Channel\<close>] \<^verbatim>\<open>src/grpc_channel.c\<close>: the operations of a channel refine a specification (a set of open
    calls with stream identifiers) step by step under the same labels, which name the operation, its
    call and its result; identifiers are unique, no step faults.
  \<^descr>[\<open>Call_Session\<close>] the streaming calls and the health check of \<^verbatim>\<open>src/enhanced_features.c\<close>: whatever
    satisfies the interface \<open>call_factory\<close> (four functions do), a session of queue, call and their
    destruction restores the heaps.
  \<^descr>[\<open>Load_Balancing\<close>] \<^verbatim>\<open>src/load_balancing.c\<close>: round robin is fair, picks are available, weights are
    exact.
  \<^descr>[\<open>Interceptors\<close>] \<^verbatim>\<open>src/interceptors.c\<close>: an instance of \<open>append_list\<close>; chains run in order of
    addition up to the first failure.
  \<^descr>[\<open>Reflection\<close>] \<^verbatim>\<open>src/reflection.c\<close>: the registry refines a map from names to services; full method
    names lose a character.
  \<^descr>[\<open>Connection_Pool\<close>] \<^verbatim>\<open>src/connection_pool.c\<close>: getting, returning, keep-alive and cleaning up keep the
    pool's invariant; an eviction leaves a dangling pointer.
  \<^descr>[\<open>Pool_Leases\<close>] the pool over time, as a step relation with the users of its connections: as long as
    no get evicts and less than \<open>2 ^ 31\<close> leases are out, a connection in use is in the pool and alive,
    and its 32-bit count is the number of its users.
  \<^descr>[\<open>Server\<close>] \<^verbatim>\<open>src/grpc_server.c\<close>: in every reachable state destroying closes exactly the open sockets;
    ports are added or refused as a whole; a shutdown hangs when a worker is stuck in \<open>accept\<close> and
    otherwise joins all workers and announces itself once.
  \<^descr>[\<open>Observability\<close>] \<^verbatim>\<open>src/observability.c\<close>: metrics hold count, sum, minimum and maximum; a started span
    has terminated identifiers inside their blocks; log levels are a linear order.
  \<^descr>[\<open>Name_Resolver\<close>] \<^verbatim>\<open>src/name_resolver.c\<close>: the addresses of a resolution, and how targets are cut.
  \<^descr>[\<open>Compression\<close>] \<^verbatim>\<open>src/compression.c\<close>: round trip through the growing output buffer.
  \<^descr>[\<open>Protobuf\<close>] \<^verbatim>\<open>src/grpc_protobuf.c\<close>: round trip, bounds, and messages that cannot be serialised.
  \<^descr>[\<open>Credentials\<close>, \<open>Tls\<close>] \<^verbatim>\<open>src/grpc_credentials.c\<close> and \<^verbatim>\<open>src/grpc_tls.c\<close>: nothing leaks and nothing is freed
    twice for every behaviour of OpenSSL, contexts are configured as they should be, the protocol
    callback agrees with a parser of the list, and a client handshake succeeds exactly when every
    call it made answered well.

  \<^descr>[\<open>Process\<close>, \<open>Program_Calls\<close>, \<open>Client_Examples\<close>, \<open>Server_Example\<close>, \<open>Advanced_Example\<close>] the programs under \<^verbatim>\<open>examples/\<close> as
    commands on a process with its output: they compose the library from initialisation to
    shutdown. The clients free everything they make for every pattern of allocation failures and
    exchange no byte; the server runs until a signal and closes its socket exactly once, unless the
    join of its workers hangs; the advanced program destroys what it makes whenever it returns, and
    with working memory prints exactly the transcripts of its demonstrations.
  \<^descr>[\<open>Testing\<close>, \<open>Basic_Test\<close>, \<open>Advanced_Test\<close>, \<open>Enhanced_Test\<close>, \<open>Tls_Protobuf_Test\<close>] the programs under
    \<^verbatim>\<open>test/\<close>, with failed assertions, \<open>exit\<close> and counted failures as outcomes. Each is an instance
    of the interface \<open>test_suite\<close>: its tests pass one after the other, so that the program returns 0,
    prints that all tests passed and leaves nothing allocated.

  This theory puts components together: metadata through HPACK and frames, and a message through
  protobuf, compression and frames.

  \<^bold>\<open>Not modelled.\<close> Declarations in headers, error texts the library prints to the terminal, the pauses of
  the example programs, \<open>fflush\<close>, and interleavings inside an operation that holds its mutex. Every
  function of the library, of the examples and of the tests has a definition; what is left of the
  sources are comments, declarations and include lines.
\<close>

section \<open>Metadata over HTTP/2\<close>

text \<open>The header of the frame that carries an encoded header block.\<close>

definition headers_frame :: "uint32 \<Rightarrow> nat \<Rightarrow> http2_frame_header" where
  "headers_frame stream_id n =
     \<lparr>fh_length = word_of_nat n, fh_type = frame_type_code HTTP2_FRAME_HEADERS, fh_flags = 4, fh_stream_id = stream_id\<rparr>"

definition empty_header :: http2_frame_header where
  "empty_header = \<lparr>fh_length = 0, fh_type = 0, fh_flags = 0, fh_stream_id = 0\<rparr>"

lemma frame_over_wire:
  assumes "w_conns w p = Some c" and "conn_socket_fd c \<ge> 0" and "\<not> conn_write_mutex c" and "w_send_ret w = []"
    and "w_conns v q = Some d" and "conn_socket_fd d \<ge> 0" and "alloc_ok (w_alloc v)"
    and "unat (fh_length h) = n" and "n < 2 ^ 24" and "n \<le> length buf" and "unat (fh_stream_id h) < 2 ^ 31" and "n \<noteq> 0"
  shows "\<exists>w' bytes. http2_connection_send_frame (Some p) (Some h) (Some buf) w = Inr (0, w') \<and>
    w_sent w' (conn_socket_fd c) = w_sent w (conn_socket_fd c) @ bytes \<and>
    (\<forall>rest. w_incoming v (conn_socket_fd d) = bytes @ rest \<longrightarrow>
      (\<exists>v'. http2_connection_recv_frame (Some q) (Some empty_header) (Some None) v =
        Inr ((0, Some h, Some (Some (take n buf))), v') \<and> alloc_ok (w_alloc v')))"
proof -
  let ?pl = "take n buf"
  let ?w = "w\<lparr>w_sent := (w_sent w)(conn_socket_fd c := w_sent w (conn_socket_fd c) @ frame_header_encode h @ ?pl), w_send_ret := []\<rparr>"
  have "http2_connection_send_frame (Some p) (Some h) (Some buf) w = Inr (0, ?w)"
    by (rule send_frame_cases [OF assms(1,2,3), of h buf]) (use assms(4,8,10) in auto)
  moreover have "\<exists>v'. http2_connection_recv_frame (Some q) (Some empty_header) (Some None) v =
      Inr ((0, Some h, Some (Some ?pl)), v') \<and> alloc_ok (w_alloc v')"
    if "w_incoming v (conn_socket_fd d) = frame_header_encode h @ ?pl @ rest" for rest
  proof -
    have "length ?pl = unat (fh_length h)" "unat (fh_length h) < 2 ^ 24" "?pl \<noteq> []" using assms(8-10,12) by auto
    from recv_frame_ok [OF assms(5,6) that this(1,2) assms(11,7), of empty_header None] this(3) show ?thesis by auto
  qed
  ultimately show ?thesis
    by (intro exI [of _ ?w] exI [of _ "frame_header_encode h @ ?pl"]) simp
qed

text \<open>
  C6. Metadata travels: a non-empty well-formed metadata array that is encoded into a buffer below
  16 MiB and sent as the payload of one frame arrives at the other end as that frame, whatever
  follows it, and decoding its payload gives the same entries in order, cut at zero bytes.
\<close>

theorem metadata_over_http2:
  assumes "md_wf a" and "\<forall>md\<in>set (md_list a). strlen (md_key md) < 2 ^ 28 \<and> strlen (md_value md) < 2 ^ 28"
    and "md_list a \<noteq> []" and "length out < 2 ^ 24" and "hpack_metadata_room (md_list a) \<le> length out"
    and "w_conns w p = Some c" and "conn_socket_fd c \<ge> 0" and "\<not> conn_write_mutex c" and "w_send_ret w = []"
    and "w_conns v q = Some d" and "conn_socket_fd d \<ge> 0" and "alloc_ok (w_alloc v)" and "unat sid < 2 ^ 31"
  shows "\<exists>n out' w' bytes. hpack_encode_metadata (Some a) (Some out) = Inr (int n, Some out') \<and>
    http2_connection_send_frame (Some p) (Some (headers_frame sid n)) (Some out') w = Inr (0, w') \<and>
    w_sent w' (conn_socket_fd c) = w_sent w (conn_socket_fd c) @ bytes \<and>
    (\<forall>rest. w_incoming v (conn_socket_fd d) = bytes @ rest \<longrightarrow>
      (\<exists>pl v' a' os'. http2_connection_recv_frame (Some q) (Some empty_header) (Some None) v =
          Inr ((0, Some (headers_frame sid n), Some (Some pl)), v') \<and>
        hpack_decode_metadata (Some pl) (Some b) (w_alloc v') = Some (Inr (0, Some a', os')) \<and>
        md_list a' = map md_truncate (md_list a)))"
proof -
  let ?bs = "hpack_metadata_bytes (md_list a)"
  let ?n = "length ?bs"
  let ?out = "?bs @ drop ?n out"
  have len: "length out < 2 ^ 31" using assms(4) by simp
  note enc = hpack_metadata_encodes [OF assms(1,2) len assms(5)]
  have n: "?n < 2 ^ 24" using enc(2) assms(4) by simp
  then have h: "unat (fh_length (headers_frame sid ?n)) = ?n" by (simp add: headers_frame_def unat_of_nat)
  have "?n \<noteq> 0" using assms(3) by (cases "md_list a") (simp_all add: hpack_metadata_bytes_def hpack_literal_bytes_def)
  from frame_over_wire [OF assms(6-12) h n _ _ this, of ?out] enc(2) assms(13) obtain w' bytes where
    s: "http2_connection_send_frame (Some p) (Some (headers_frame sid ?n)) (Some ?out) w = Inr (0, w')"
      "w_sent w' (conn_socket_fd c) = w_sent w (conn_socket_fd c) @ bytes" and
    r: "\<And>rest. w_incoming v (conn_socket_fd d) = bytes @ rest \<Longrightarrow>
      \<exists>v'. http2_connection_recv_frame (Some q) (Some empty_header) (Some None) v =
        Inr ((0, Some (headers_frame sid ?n), Some (Some ?bs)), v') \<and> alloc_ok (w_alloc v')"
    by (auto simp: headers_frame_def)
  have "\<exists>pl v' a' os'. http2_connection_recv_frame (Some q) (Some empty_header) (Some None) v =
      Inr ((0, Some (headers_frame sid ?n), Some (Some pl)), v') \<and>
    hpack_decode_metadata (Some pl) (Some b) (w_alloc v') = Some (Inr (0, Some a', os')) \<and>
    md_list a' = map md_truncate (md_list a)" if inc: "w_incoming v (conn_socket_fd d) = bytes @ rest" for rest
  proof -
    from r [OF inc] obtain v' where v': "http2_connection_recv_frame (Some q) (Some empty_header) (Some None) v =
      Inr ((0, Some (headers_frame sid ?n), Some (Some ?bs)), v')" "alloc_ok (w_alloc v')" by blast
    from assms(2) v'(2) obtain a' os' where "hpack_decode_metadata (Some ?bs) (Some b) (w_alloc v') = Some (Inr (0, Some a', os'))"
      "md_list a' = map md_truncate (md_list a)" by (rule hpack_metadata_decodes)
    with v'(1) show ?thesis by blast
  qed
  with enc(1) s show ?thesis by blast
qed

section \<open>Messages over HTTP/2\<close>

definition data_frame :: "uint32 \<Rightarrow> nat \<Rightarrow> http2_frame_header" where
  "data_frame stream_id n =
     \<lparr>fh_length = word_of_nat n, fh_type = frame_type_code HTTP2_FRAME_DATA, fh_flags = 0, fh_stream_id = stream_id\<rparr>"

text \<open>The receiving side of a message: decompress a payload, make a buffer of it, deserialise it.\<close>

lemma message_received:
  assumes "zlib_codes z delivered xs ys" and "xs \<noteq> []" and "length xs * 2 < 2 ^ 32" and "length ys * 4 < 2 ^ 32"
    and "alloc_ok os" and "alg \<in> {GRPC_COMPRESS_NONE, GRPC_COMPRESS_GZIP, GRPC_COMPRESS_DEFLATE}"
    and "pb_unpack pb d xs = Some m"
  shows "\<exists>os1 buf os2. grpc_decompress z frees0 (Some (if alg = GRPC_COMPRESS_NONE then xs else ys)) (Some alg) out os =
      Some (Inr ((0, Live_Block (map Some xs), length xs), os1)) \<and>
    grpc_protobuf_buffer_create xs (length xs) os1 = Inr (Some buf, os2) \<and>
    grpc_protobuf_deserialize pb (Some buf) (Some d) msg = Inr (0, Some m)"
proof -
  from assms(1-6) obtain os1 where
    "grpc_decompress z frees0 (Some (if alg = GRPC_COMPRESS_NONE then xs else ys)) (Some alg) out os =
      Some (Inr ((0, Live_Block (map Some xs), length xs), os1))" and os1: "alloc_ok os1"
    by (rule grpc_decompress_ok)
  moreover from os1 obtain os2 where "grpc_byte_buffer_create xs (length xs) os1 = Inr (Some (buffer_of xs), os2)"
    by (rule byte_buffer_create_exact)
  ultimately show ?thesis
    using grpc_protobuf_deserialize_ok [OF assms(7)] by (simp add: grpc_protobuf_buffer_create_def)
qed

text \<open>
  C7. A message travels: a protobuf message is serialised, its bytes compressed with any of the three
  algorithms and sent as the payload of one frame; the other end receives that frame, whatever
  follows it, decompresses its payload, makes a byte buffer of the result and deserialises it to
  the message. Relied on: protobuf-c unpacks what it packed, zlib delivers what it
  compressed, and the payload is below 16 MiB.
\<close>

theorem message_over_http2:
  assumes "pb_sized pb m" and "pb_packed_size pb m \<noteq> 0" and "pb_unpack pb d (pb_pack pb m) = Some m"
    and "zlib_codes z delivered (pb_pack pb m) ys" and "length (pb_pack pb m) < 2 ^ 24" and "length ys < 2 ^ 24"
    and "z_bound z (length (pb_pack pb m)) + 12 < 2 ^ 32"
    and "alg \<in> {GRPC_COMPRESS_NONE, GRPC_COMPRESS_GZIP, GRPC_COMPRESS_DEFLATE}" and "alloc_ok os"
    and "w_conns w p = Some c" and "conn_socket_fd c \<ge> 0" and "\<not> conn_write_mutex c" and "w_send_ret w = []"
    and "w_conns v q = Some e" and "conn_socket_fd e \<ge> 0" and "alloc_ok (w_alloc v)" and "unat sid < 2 ^ 31"
  shows "\<exists>buf os1 bs cs os2 w' bytes. grpc_protobuf_serialize pb (Some m) os = Inr (Some buf, os1) \<and>
    buffer_bytes (bb_data buf) (bb_length buf) = Inr bs \<and>
    grpc_compress z frees0 (Some bs) (Some alg) out os1 = Inr ((0, Live_Block (map Some cs), length cs), os2) \<and>
    http2_connection_send_frame (Some p) (Some (data_frame sid (length cs))) (Some cs) w = Inr (0, w') \<and>
    w_sent w' (conn_socket_fd c) = w_sent w (conn_socket_fd c) @ bytes \<and>
    (\<forall>rest. w_incoming v (conn_socket_fd e) = bytes @ rest \<longrightarrow>
      (\<exists>pl v' raw os3 buf' os4. http2_connection_recv_frame (Some q) (Some empty_header) (Some None) v =
          Inr ((0, Some (data_frame sid (length cs)), Some (Some pl)), v') \<and>
        grpc_decompress z frees0 (Some pl) (Some alg) out' (w_alloc v') =
          Some (Inr ((0, Live_Block (map Some raw), length raw), os3)) \<and>
        grpc_protobuf_buffer_create raw (length raw) os3 = Inr (Some buf', os4) \<and>
        grpc_protobuf_deserialize pb (Some buf') (Some d) msg = Inr (0, Some m)))"
proof -
  let ?bs = "pb_pack pb m"
  let ?cs = "if alg = GRPC_COMPRESS_NONE then ?bs else ys"
  let ?n = "length ?cs"
  have bs: "?bs \<noteq> []" "length ?bs * 2 < 2 ^ 32" "length ys * 4 < 2 ^ 32" using assms(1,2,5,6) by (auto simp: pb_sized_def)
  have n: "?n < 2 ^ 24" "?n \<noteq> 0" using assms(4-6) bs(1) by (auto simp: zlib_codes_def)
  then have h: "unat (fh_length (data_frame sid ?n)) = ?n" by (simp add: data_frame_def unat_of_nat)
  from assms(1,2,9) obtain os1 where s: "grpc_protobuf_serialize pb (Some m) os = Inr (Some (buffer_of ?bs), os1)" "alloc_ok os1"
    by (rule grpc_protobuf_serialize_ok)
  have b: "buffer_bytes (bb_data (buffer_of ?bs)) (bb_length (buffer_of ?bs)) = Inr ?bs"
    by (auto simp: buffer_of_def buffer_bytes_def comp_def)
  from assms(4) bs(1,2) assms(7) s(2) assms(8) obtain os2 where
    c: "grpc_compress z frees0 (Some ?bs) (Some alg) out os1 = Inr ((0, Live_Block (map Some ?cs), ?n), os2)"
    by (rule grpc_compress_ok)
  have sid: "unat (fh_stream_id (data_frame sid ?n)) < 2 ^ 31" using assms(17) by (simp add: data_frame_def)
  from frame_over_wire [OF assms(10-16) h n(1) order_refl sid n(2)] obtain w' bytes where
    f: "http2_connection_send_frame (Some p) (Some (data_frame sid ?n)) (Some ?cs) w = Inr (0, w')"
      "w_sent w' (conn_socket_fd c) = w_sent w (conn_socket_fd c) @ bytes" and
    r: "\<And>rest. w_incoming v (conn_socket_fd e) = bytes @ rest \<Longrightarrow>
      \<exists>v'. http2_connection_recv_frame (Some q) (Some empty_header) (Some None) v =
        Inr ((0, Some (data_frame sid ?n), Some (Some (take ?n ?cs))), v') \<and> alloc_ok (w_alloc v')" by blast
  have "\<exists>pl v' raw os3 buf' os4. http2_connection_recv_frame (Some q) (Some empty_header) (Some None) v =
          Inr ((0, Some (data_frame sid ?n), Some (Some pl)), v') \<and>
        grpc_decompress z frees0 (Some pl) (Some alg) out' (w_alloc v') =
          Some (Inr ((0, Live_Block (map Some raw), length raw), os3)) \<and>
        grpc_protobuf_buffer_create raw (length raw) os3 = Inr (Some buf', os4) \<and>
        grpc_protobuf_deserialize pb (Some buf') (Some d) msg = Inr (0, Some m)"
    if inc: "w_incoming v (conn_socket_fd e) = bytes @ rest" for rest
  proof -
    from r [OF inc] obtain v' where v': "http2_connection_recv_frame (Some q) (Some empty_header) (Some None) v =
        Inr ((0, Some (data_frame sid ?n), Some (Some ?cs)), v')" "alloc_ok (w_alloc v')" by (auto simp only: take_all order_refl)
    from message_received [OF assms(4) bs v'(2) assms(8,3), of frees0 out' msg] v'(1) show ?thesis by blast
  qed
  with s(1) b c f show ?thesis by blast
qed

section \<open>Witnesses\<close>

definition one_header :: grpc_metadata_array where
  "one_header = \<lparr>md_count = 1, md_capacity = 1,
     md_block = Live_Block [Some \<lparr>md_key = [97], md_value = [1, 0, 2], md_value_length = 3\<rparr>]\<rparr>"

lemma world_with_conn_fields:
  "w_conns (world_with_conn fd) 0 = Some ((conn_fresh True)\<lparr>conn_socket_fd := fd\<rparr>)"
  "w_send_ret (world_with_conn fd) = []" "alloc_ok (w_alloc (world_with_conn fd))"
  "\<not> conn_write_mutex ((conn_fresh True)\<lparr>conn_socket_fd := fd\<rparr>)"
  by (simp_all add: world_with_conn_def world_empty_def conn_fresh_def)

lemma demo_fds:
  "conn_socket_fd ((conn_fresh True)\<lparr>conn_socket_fd := 7\<rparr>) \<ge> 0"
  "conn_socket_fd ((conn_fresh True)\<lparr>conn_socket_fd := 9\<rparr>) \<ge> 0" "unat (1 :: uint32) < 2 ^ 31"
  by simp_all

theorem metadata_over_http2_witness:
  "\<exists>n out' w'. hpack_encode_metadata (Some one_header) (Some (replicate 20 7)) = Inr (int n, Some out') \<and>
    http2_connection_send_frame (Some 0) (Some (headers_frame 1 n)) (Some out') (world_with_conn 7) = Inr (0, w')"
proof -
  have l: "md_list one_header = [\<lparr>md_key = [97], md_value = [1, 0, 2], md_value_length = 3\<rparr>]" "md_wf one_header"
    by (simp_all add: one_header_def md_list_def md_wf_def)
  let ?out = "replicate 20 7 :: uint8 list"
  have a: "\<forall>md\<in>set (md_list one_header). strlen (md_key md) < 2 ^ 28 \<and> strlen (md_value md) < 2 ^ 28"
    "md_list one_header \<noteq> []" "length ?out < 2 ^ 24" "hpack_metadata_room (md_list one_header) \<le> length ?out"
    by (simp_all add: l(1) strlen_def hpack_metadata_room_def del: length_c_string)
  from metadata_over_http2 [OF l(2) a world_with_conn_fields(1) demo_fds(1) world_with_conn_fields(4)
      world_with_conn_fields(2) world_with_conn_fields(1) demo_fds(2) world_with_conn_fields(3) demo_fds(3),
      of grpc_metadata_array_zero]
  show ?thesis by blast
qed

theorem message_over_http2_witness:
  "\<exists>buf os1 bs cs os2 w'. grpc_protobuf_serialize raw_protobuf (Some [8, 150, 1]) [] = Inr (Some buf, os1) \<and>
    buffer_bytes (bb_data buf) (bb_length buf) = Inr bs \<and>
    grpc_compress stored_zlib True (Some bs) (Some GRPC_COMPRESS_GZIP) (0, Null_Block, 0) os1 =
      Inr ((0, Live_Block (map Some cs), length cs), os2) \<and>
    http2_connection_send_frame (Some 0) (Some (data_frame 1 (length cs))) (Some cs) (world_with_conn 7) = Inr (0, w')"
proof -
  let ?m = "[8, 150, 1] :: uint8 list"
  have pb: "pb_sized raw_protobuf ?m" "pb_packed_size raw_protobuf ?m \<noteq> 0" "pb_pack raw_protobuf ?m = ?m"
    "pb_unpack raw_protobuf () (pb_pack raw_protobuf ?m) = Some ?m"
    by (simp_all add: raw_protobuf_def pb_sized_def)
  have len: "length (pb_pack raw_protobuf ?m) < 2 ^ 24" "length (31 # ?m) < 2 ^ 24"
    "z_bound stored_zlib (length (pb_pack raw_protobuf ?m)) + 12 < 2 ^ 32"
    by (simp_all add: pb(3) stored_zlib_def)
  have z: "zlib_codes stored_zlib (stored_delivered ?m) (pb_pack raw_protobuf ?m) (31 # ?m)"
    unfolding pb(3) by (rule stored_zlib_codes)
  have alg: "GRPC_COMPRESS_GZIP \<in> {GRPC_COMPRESS_NONE, GRPC_COMPRESS_GZIP, GRPC_COMPRESS_DEFLATE}" by simp
  from message_over_http2 [OF pb(1,2,4) z len alg alloc_ok_Nil world_with_conn_fields(1) demo_fds(1) world_with_conn_fields(4)
      world_with_conn_fields(2) world_with_conn_fields(1) demo_fds(2) world_with_conn_fields(3) demo_fds(3),
      of True "(0, Null_Block, 0)" "(0, Null_Block, 0)" None]
  show ?thesis by blast
qed

end
